(* ===== verification/Prelude.thy ===== *)
theory Prelude
  imports Main "HOL-Library.Word"
begin

text \<open>
  Shared vocabulary of the development: the C integer types, pointers, the error numbers the
  code returns, the faults (undefined behaviour and aborts) a run can end in, and the result
  type every stateful operation has.

  A C function that returns an error number returns it as a value: \<open>Inr (ret, w)\<close> with
  \<open>ret = - EINVAL\<close>. A run that has no defined continuation (a NULL dereference, a failed
  \<open>assert\<close>, a read of freed memory) is \<open>Inl fault\<close>.
\<close>

unbundle bit_operations_syntax

section \<open>Machine types\<close>

type_synonym u8 = "8 word"
type_synonym u32 = "32 word"
type_synonym u64 = "64 word"
type_synonym i32 = "32 word" \<comment> \<open>two's complement, read with \<open>sint\<close>\<close>
type_synonym i64 = "64 word" \<comment> \<open>two's complement, read with \<open>sint\<close>\<close>
type_synonym f32 = "32 word" \<comment> \<open>the bit pattern of a C \<open>float\<close>: the code only copies floats\<close>
type_synonym addr = nat \<comment> \<open>an address; 0 is the null pointer\<close>

abbreviation NULL :: addr where
  "NULL \<equiv> 0"

text \<open>The Linux error numbers the code uses, from \<^verbatim>\<open>linux/errno.h\<close>.\<close>

definition ENOMEM :: i32 where
  "ENOMEM = 12"

definition ENODEV :: i32 where
  "ENODEV = 19"

definition EINVAL :: i32 where
  "EINVAL = 22"

named_theorems errno_defs \<open>the values of the error numbers\<close>

lemmas [errno_defs] = ENOMEM_def ENODEV_def EINVAL_def

section \<open>Faults and results\<close>

datatype fault =
    NullDeref      \<comment> \<open>access through a null pointer\<close>
  | BadDeref       \<comment> \<open>access through a pointer to no allocated object\<close>
  | UseAfterFree   \<comment> \<open>access to a freed object\<close>
  | DoubleFree     \<comment> \<open>\<open>free\<close> of a pointer that is not allocated\<close>
  | AssertFail     \<comment> \<open>a failed \<open>assert\<close>\<close>
  | OutOfMemory    \<comment> \<open>\<open>uthash_fatal\<close>: the process exits\<close>
  | DivByZero
  | SignedOverflow
  | LoopBound      \<comment> \<open>a pointer walk visited more nodes than were ever allocated\<close>
  | EmptyOptional  \<comment> \<open>\<open>operator->\<close> of a disengaged \<open>std::optional\<close>\<close>
  | Thrown         \<comment> \<open>a C++ exception that nobody catches\<close>

type_synonym 'a res = "fault + 'a"

definition and_then :: "'a res \<Rightarrow> ('a \<Rightarrow> 'b res) \<Rightarrow> 'b res" where
  "and_then m f = (case m of Inl e \<Rightarrow> Inl e | Inr x \<Rightarrow> f x)"

named_theorems res_simps \<open>results composed with \<open>and_then\<close>\<close>

lemma and_then_Inr [simp]: "and_then (Inr x) f = f x"
  by (simp add: and_then_def)

lemma and_then_Inl [simp]: "and_then (Inl e) f = Inl e"
  by (simp add: and_then_def)

lemma and_then_eq_Inr [res_simps]:
  "and_then m f = Inr y \<longleftrightarrow> (\<exists>x. m = Inr x \<and> f x = Inr y)"
  by (cases m) auto

lemma and_then_eq_Inl [res_simps]:
  "and_then m f = Inl e \<longleftrightarrow> m = Inl e \<or> (\<exists>x. m = Inr x \<and> f x = Inl e)"
  by (cases m) auto

lemma and_then_assoc: "and_then (and_then m f) g = and_then m (\<lambda>x. and_then (f x) g)"
  by (cases m) auto

lemma and_then_cong [fundef_cong]:
  "m = m' \<Longrightarrow> (\<And>x. m' = Inr x \<Longrightarrow> f x = g x) \<Longrightarrow> and_then m f = and_then m' g"
  by (cases m') auto

lemma and_then_split:
  "P (and_then m f) \<longleftrightarrow> (\<forall>e. m = Inl e \<longrightarrow> P (Inl e)) \<and> (\<forall>x. m = Inr x \<longrightarrow> P (f x))"
  by (cases m) auto

lemma and_then_split_asm:
  "P (and_then m f) \<longleftrightarrow> \<not> ((\<exists>e. m = Inl e \<and> \<not> P (Inl e)) \<or> (\<exists>x. m = Inr x \<and> \<not> P (f x)))"
  by (cases m) auto

lemmas and_then_splits = and_then_split and_then_split_asm

section \<open>Typed memory\<close>

text \<open>
  Each kind of heap object has its own map from addresses to objects. \<open>deref\<close> reads the
  object a pointer points at.
\<close>

definition deref :: "(addr \<rightharpoonup> 'a) \<Rightarrow> addr \<Rightarrow> 'a res" where
  "deref m p = (if p = NULL then Inl NullDeref
                else case m p of None \<Rightarrow> Inl BadDeref | Some x \<Rightarrow> Inr x)"

lemma deref_eq_Inr [res_simps]: "deref m p = Inr x \<longleftrightarrow> p \<noteq> NULL \<and> m p = Some x"
  by (auto simp: deref_def split: option.splits)

lemma deref_Some [simp]: "p \<noteq> NULL \<Longrightarrow> m p = Some x \<Longrightarrow> deref m p = Inr x"
  by (simp add: res_simps)

lemma deref_NULL [simp]: "deref m NULL = Inl NullDeref"
  by (simp add: deref_def)

text \<open>Writing through a pointer: the object must be allocated.\<close>

definition update_at :: "addr \<Rightarrow> ('a \<Rightarrow> 'a) \<Rightarrow> (addr \<rightharpoonup> 'a) \<Rightarrow> (addr \<rightharpoonup> 'a) res" where
  "update_at p f m = and_then (deref m p) (\<lambda>x. Inr (m(p \<mapsto> f x)))"

lemma update_at_eq_Inr [res_simps]:
  "update_at p f m = Inr m' \<longleftrightarrow> (\<exists>x. p \<noteq> NULL \<and> m p = Some x \<and> m' = m(p \<mapsto> f x))"
  by (auto simp: update_at_def res_simps)

lemma update_at_Some [simp]: "p \<noteq> NULL \<Longrightarrow> m p = Some x \<Longrightarrow> update_at p f m = Inr (m(p \<mapsto> f x))"
  by (simp add: res_simps)

text \<open>\<open>free\<close>: a no-op on NULL, an error on a pointer that is not allocated.\<close>

definition free_at :: "addr \<Rightarrow> (addr \<rightharpoonup> 'a) \<Rightarrow> (addr \<rightharpoonup> 'a) res" where
  "free_at p m = (if p = NULL then Inr m
                  else case m p of None \<Rightarrow> Inl DoubleFree | Some _ \<Rightarrow> Inr (m(p := None)))"

lemma free_at_NULL [simp]: "free_at NULL m = Inr m"
  by (simp add: free_at_def)

lemma free_at_Some [simp]: "p \<noteq> NULL \<Longrightarrow> m p = Some x \<Longrightarrow> free_at p m = Inr (m(p := None))"
  by (simp add: free_at_def)

text \<open>
  A freed object whose pointer the code keeps. What a later read finds there is the memory
  allocator's business, so a model that reads one takes a parameter \<open>stale\<close>: the contents
  found in the freed block, or None when the access traps.
\<close>

datatype 'a cell = Live 'a | Freed 'a

fun read_cell :: "('a \<Rightarrow> 'a option) \<Rightarrow> 'a cell \<Rightarrow> 'a res" where
  "read_cell stale (Live x) = Inr x"
| "read_cell stale (Freed x) = (case stale x of None \<Rightarrow> Inl UseAfterFree | Some y \<Rightarrow> Inr y)"

section \<open>Words\<close>

lemma word_and_less_of_nonzero:
  fixes h n :: "'a::len word"
  assumes "n \<noteq> 0"
  shows "unat (h AND (n - 1)) < unat n"
proof -
  have "unat (h AND (n - 1)) \<le> unat (n - 1)"
    by (simp add: word_and_le1 flip: word_le_nat_alt)
  also have "unat (n - 1) < unat n"
    using assms by (simp add: unat_minus_one unat_gt_0)
  finally show ?thesis .
qed

lemma and_not_mask_eq: "x AND NOT (mask k) = push_bit k (drop_bit k x)" for x :: "'a::len word"
  by (rule bit_word_eqI) (auto simp: bit_simps)

lemma unat_and_not_mask: "unat (x AND NOT (mask k)) = unat x div 2 ^ k * 2 ^ k" for x :: u32
proof -
  have "unat x div 2 ^ k * 2 ^ k \<le> unat x"
    by (rule div_times_less_eq_dividend)
  also have "unat x < 2 ^ LENGTH(32)"
    by (rule unsigned_less)
  finally have "unat x div 2 ^ k * 2 ^ k < 2 ^ LENGTH(32)" .
  moreover have "unat (push_bit k (drop_bit k x)) = take_bit LENGTH(32) (unat x div 2 ^ k * 2 ^ k)"
    by (subst unsigned_push_bit_eq, subst unat_drop_bit_eq) (simp only: push_bit_eq_mult drop_bit_eq_div)
  ultimately show ?thesis
    unfolding and_not_mask_eq by (simp only: take_bit_nat_eq_self)
qed

lemma unat_mask_u32:
  assumes "k < 32"
  shows "unat (mask k :: u32) = 2 ^ k - 1"
proof -
  from assms have "uint (mask k :: u32) = mask k" by (simp add: uint_mask_eq)
  then have "unat (mask k :: u32) = nat (mask k)" by (metis unat_eq_nat_uint)
  also have "\<dots> = 2 ^ k - 1" by (simp add: nat_mask_eq mask_nat_def)
  finally show ?thesis .
qed

lemma unat_2_power: "n < 32 \<Longrightarrow> unat (2 ^ n :: u32) = 2 ^ n"
proof -
  assume "n < 32"
  then have "(2::nat) ^ n < 2 ^ 32" by (rule power_strict_increasing) simp
  then have "unat (of_nat (2 ^ n) :: u32) = 2 ^ n" by (subst unat_of_nat) simp
  then show "unat (2 ^ n :: u32) = 2 ^ n" by simp
qed

text \<open>Truncating signed division by a positive constant, as C's \<open>/\<close> on \<open>int\<close>.\<close>

definition sdiv32 :: "i32 \<Rightarrow> int \<Rightarrow> i32" where
  "sdiv32 a d = (if sint a < 0 then - word_of_int ((- sint a) div d) else word_of_int (sint a div d))"

end
