(* ===== verification/Formats.thy ===== *)
theory Formats
  imports Prelude
begin

text \<open>
  The pixel formats: the FourCC codes of \<^verbatim>\<open>include/gbm.h\<close>, and the two tables of
  \<^verbatim>\<open>include/gralloc_gbm_format.h\<close> (Android format to GBM format, GBM format to bits per
  pixel) with the linear searches over them. The Android pixel format numbers come from
  \<^verbatim>\<open>system/graphics.h\<close>, which is not part of the repository: they are the record
  \<open>hal_formats\<close>, an argument of everything that uses them.
\<close>

unbundle bit_operations_syntax

section \<open>FourCC codes\<close>

definition gbm_fourcc_code :: "char \<Rightarrow> char \<Rightarrow> char \<Rightarrow> char \<Rightarrow> u32" where
  "gbm_fourcc_code a b c d =
     of_char a OR push_bit 8 (of_char b) OR push_bit 16 (of_char c) OR push_bit 24 (of_char d)"

definition GBM_FORMAT_R8 :: u32 where
  "GBM_FORMAT_R8 = gbm_fourcc_code (CHR ''R'') (CHR ''8'') (CHR '' '') (CHR '' '')"

definition GBM_FORMAT_R16 :: u32 where
  "GBM_FORMAT_R16 = gbm_fourcc_code (CHR ''R'') (CHR ''1'') (CHR ''6'') (CHR '' '')"

definition GBM_FORMAT_GR88 :: u32 where
  "GBM_FORMAT_GR88 = gbm_fourcc_code (CHR ''G'') (CHR ''R'') (CHR ''8'') (CHR ''8'')"

definition GBM_FORMAT_RGB565 :: u32 where
  "GBM_FORMAT_RGB565 = gbm_fourcc_code (CHR ''R'') (CHR ''G'') (CHR ''1'') (CHR ''6'')"

definition GBM_FORMAT_BGR565 :: u32 where
  "GBM_FORMAT_BGR565 = gbm_fourcc_code (CHR ''B'') (CHR ''G'') (CHR ''1'') (CHR ''6'')"

definition GBM_FORMAT_BGR888 :: u32 where
  "GBM_FORMAT_BGR888 = gbm_fourcc_code (CHR ''B'') (CHR ''G'') (CHR ''2'') (CHR ''4'')"

definition GBM_FORMAT_XRGB8888 :: u32 where
  "GBM_FORMAT_XRGB8888 = gbm_fourcc_code (CHR ''X'') (CHR ''R'') (CHR ''2'') (CHR ''4'')"

definition GBM_FORMAT_XBGR8888 :: u32 where
  "GBM_FORMAT_XBGR8888 = gbm_fourcc_code (CHR ''X'') (CHR ''B'') (CHR ''2'') (CHR ''4'')"

definition GBM_FORMAT_RGBX8888 :: u32 where
  "GBM_FORMAT_RGBX8888 = gbm_fourcc_code (CHR ''R'') (CHR ''X'') (CHR ''2'') (CHR ''4'')"

definition GBM_FORMAT_ARGB8888 :: u32 where
  "GBM_FORMAT_ARGB8888 = gbm_fourcc_code (CHR ''A'') (CHR ''R'') (CHR ''2'') (CHR ''4'')"

definition GBM_FORMAT_ABGR8888 :: u32 where
  "GBM_FORMAT_ABGR8888 = gbm_fourcc_code (CHR ''A'') (CHR ''B'') (CHR ''2'') (CHR ''4'')"

definition GBM_FORMAT_ABGR2101010 :: u32 where
  "GBM_FORMAT_ABGR2101010 = gbm_fourcc_code (CHR ''A'') (CHR ''B'') (CHR ''3'') (CHR ''0'')"

definition GBM_FORMAT_ABGR16161616F :: u32 where
  "GBM_FORMAT_ABGR16161616F = gbm_fourcc_code (CHR ''A'') (CHR ''B'') (CHR ''4'') (CHR ''H'')"

definition GBM_FORMAT_VYUY :: u32 where
  "GBM_FORMAT_VYUY = gbm_fourcc_code (CHR ''V'') (CHR ''Y'') (CHR ''U'') (CHR ''Y'')"

definition GBM_FORMAT_NV12 :: u32 where
  "GBM_FORMAT_NV12 = gbm_fourcc_code (CHR ''N'') (CHR ''V'') (CHR ''1'') (CHR ''2'')"

definition GBM_FORMAT_NV21 :: u32 where
  "GBM_FORMAT_NV21 = gbm_fourcc_code (CHR ''N'') (CHR ''V'') (CHR ''2'') (CHR ''1'')"

definition GBM_FORMAT_YUV420 :: u32 where
  "GBM_FORMAT_YUV420 = gbm_fourcc_code (CHR ''Y'') (CHR ''U'') (CHR ''1'') (CHR ''2'')"

definition GBM_FORMAT_YVU420 :: u32 where
  "GBM_FORMAT_YVU420 = gbm_fourcc_code (CHR ''Y'') (CHR ''V'') (CHR ''1'') (CHR ''2'')"

definition GBM_FORMAT_YUV422 :: u32 where
  "GBM_FORMAT_YUV422 = gbm_fourcc_code (CHR ''Y'') (CHR ''U'') (CHR ''1'') (CHR ''6'')"

text \<open>Every FourCC code the header declares, in its order.\<close>

definition gbm_format_codes :: "(string \<times> u32) list" where
  "gbm_format_codes = [
     (''C8'', gbm_fourcc_code (CHR ''C'') (CHR ''8'') (CHR '' '') (CHR '' '')),
     (''R8'', gbm_fourcc_code (CHR ''R'') (CHR ''8'') (CHR '' '') (CHR '' '')),
     (''R16'', gbm_fourcc_code (CHR ''R'') (CHR ''1'') (CHR ''6'') (CHR '' '')),
     (''GR88'', gbm_fourcc_code (CHR ''G'') (CHR ''R'') (CHR ''8'') (CHR ''8'')),
     (''RG1616'', gbm_fourcc_code (CHR ''R'') (CHR ''G'') (CHR ''3'') (CHR ''2'')),
     (''GR1616'', gbm_fourcc_code (CHR ''G'') (CHR ''R'') (CHR ''3'') (CHR ''2'')),
     (''RGB332'', gbm_fourcc_code (CHR ''R'') (CHR ''G'') (CHR ''B'') (CHR ''8'')),
     (''BGR233'', gbm_fourcc_code (CHR ''B'') (CHR ''G'') (CHR ''R'') (CHR ''8'')),
     (''XRGB4444'', gbm_fourcc_code (CHR ''X'') (CHR ''R'') (CHR ''1'') (CHR ''2'')),
     (''XBGR4444'', gbm_fourcc_code (CHR ''X'') (CHR ''B'') (CHR ''1'') (CHR ''2'')),
     (''RGBX4444'', gbm_fourcc_code (CHR ''R'') (CHR ''X'') (CHR ''1'') (CHR ''2'')),
     (''BGRX4444'', gbm_fourcc_code (CHR ''B'') (CHR ''X'') (CHR ''1'') (CHR ''2'')),
     (''ARGB4444'', gbm_fourcc_code (CHR ''A'') (CHR ''R'') (CHR ''1'') (CHR ''2'')),
     (''ABGR4444'', gbm_fourcc_code (CHR ''A'') (CHR ''B'') (CHR ''1'') (CHR ''2'')),
     (''RGBA4444'', gbm_fourcc_code (CHR ''R'') (CHR ''A'') (CHR ''1'') (CHR ''2'')),
     (''BGRA4444'', gbm_fourcc_code (CHR ''B'') (CHR ''A'') (CHR ''1'') (CHR ''2'')),
     (''XRGB1555'', gbm_fourcc_code (CHR ''X'') (CHR ''R'') (CHR ''1'') (CHR ''5'')),
     (''XBGR1555'', gbm_fourcc_code (CHR ''X'') (CHR ''B'') (CHR ''1'') (CHR ''5'')),
     (''RGBX5551'', gbm_fourcc_code (CHR ''R'') (CHR ''X'') (CHR ''1'') (CHR ''5'')),
     (''BGRX5551'', gbm_fourcc_code (CHR ''B'') (CHR ''X'') (CHR ''1'') (CHR ''5'')),
     (''ARGB1555'', gbm_fourcc_code (CHR ''A'') (CHR ''R'') (CHR ''1'') (CHR ''5'')),
     (''ABGR1555'', gbm_fourcc_code (CHR ''A'') (CHR ''B'') (CHR ''1'') (CHR ''5'')),
     (''RGBA5551'', gbm_fourcc_code (CHR ''R'') (CHR ''A'') (CHR ''1'') (CHR ''5'')),
     (''BGRA5551'', gbm_fourcc_code (CHR ''B'') (CHR ''A'') (CHR ''1'') (CHR ''5'')),
     (''RGB565'', gbm_fourcc_code (CHR ''R'') (CHR ''G'') (CHR ''1'') (CHR ''6'')),
     (''BGR565'', gbm_fourcc_code (CHR ''B'') (CHR ''G'') (CHR ''1'') (CHR ''6'')),
     (''RGB888'', gbm_fourcc_code (CHR ''R'') (CHR ''G'') (CHR ''2'') (CHR ''4'')),
     (''BGR888'', gbm_fourcc_code (CHR ''B'') (CHR ''G'') (CHR ''2'') (CHR ''4'')),
     (''XRGB8888'', gbm_fourcc_code (CHR ''X'') (CHR ''R'') (CHR ''2'') (CHR ''4'')),
     (''XBGR8888'', gbm_fourcc_code (CHR ''X'') (CHR ''B'') (CHR ''2'') (CHR ''4'')),
     (''RGBX8888'', gbm_fourcc_code (CHR ''R'') (CHR ''X'') (CHR ''2'') (CHR ''4'')),
     (''BGRX8888'', gbm_fourcc_code (CHR ''B'') (CHR ''X'') (CHR ''2'') (CHR ''4'')),
     (''ARGB8888'', gbm_fourcc_code (CHR ''A'') (CHR ''R'') (CHR ''2'') (CHR ''4'')),
     (''ABGR8888'', gbm_fourcc_code (CHR ''A'') (CHR ''B'') (CHR ''2'') (CHR ''4'')),
     (''RGBA8888'', gbm_fourcc_code (CHR ''R'') (CHR ''A'') (CHR ''2'') (CHR ''4'')),
     (''BGRA8888'', gbm_fourcc_code (CHR ''B'') (CHR ''A'') (CHR ''2'') (CHR ''4'')),
     (''XRGB2101010'', gbm_fourcc_code (CHR ''X'') (CHR ''R'') (CHR ''3'') (CHR ''0'')),
     (''XBGR2101010'', gbm_fourcc_code (CHR ''X'') (CHR ''B'') (CHR ''3'') (CHR ''0'')),
     (''RGBX1010102'', gbm_fourcc_code (CHR ''R'') (CHR ''X'') (CHR ''3'') (CHR ''0'')),
     (''BGRX1010102'', gbm_fourcc_code (CHR ''B'') (CHR ''X'') (CHR ''3'') (CHR ''0'')),
     (''ARGB2101010'', gbm_fourcc_code (CHR ''A'') (CHR ''R'') (CHR ''3'') (CHR ''0'')),
     (''ABGR2101010'', gbm_fourcc_code (CHR ''A'') (CHR ''B'') (CHR ''3'') (CHR ''0'')),
     (''RGBA1010102'', gbm_fourcc_code (CHR ''R'') (CHR ''A'') (CHR ''3'') (CHR ''0'')),
     (''BGRA1010102'', gbm_fourcc_code (CHR ''B'') (CHR ''A'') (CHR ''3'') (CHR ''0'')),
     (''XBGR16161616'', gbm_fourcc_code (CHR ''X'') (CHR ''B'') (CHR ''4'') (CHR ''8'')),
     (''ABGR16161616'', gbm_fourcc_code (CHR ''A'') (CHR ''B'') (CHR ''4'') (CHR ''8'')),
     (''XBGR16161616F'', gbm_fourcc_code (CHR ''X'') (CHR ''B'') (CHR ''4'') (CHR ''H'')),
     (''ABGR16161616F'', gbm_fourcc_code (CHR ''A'') (CHR ''B'') (CHR ''4'') (CHR ''H'')),
     (''YUYV'', gbm_fourcc_code (CHR ''Y'') (CHR ''U'') (CHR ''Y'') (CHR ''V'')),
     (''YVYU'', gbm_fourcc_code (CHR ''Y'') (CHR ''V'') (CHR ''Y'') (CHR ''U'')),
     (''UYVY'', gbm_fourcc_code (CHR ''U'') (CHR ''Y'') (CHR ''V'') (CHR ''Y'')),
     (''VYUY'', gbm_fourcc_code (CHR ''V'') (CHR ''Y'') (CHR ''U'') (CHR ''Y'')),
     (''AYUV'', gbm_fourcc_code (CHR ''A'') (CHR ''Y'') (CHR ''U'') (CHR ''V'')),
     (''NV12'', gbm_fourcc_code (CHR ''N'') (CHR ''V'') (CHR ''1'') (CHR ''2'')),
     (''NV21'', gbm_fourcc_code (CHR ''N'') (CHR ''V'') (CHR ''2'') (CHR ''1'')),
     (''NV16'', gbm_fourcc_code (CHR ''N'') (CHR ''V'') (CHR ''1'') (CHR ''6'')),
     (''NV61'', gbm_fourcc_code (CHR ''N'') (CHR ''V'') (CHR ''6'') (CHR ''1'')),
     (''YUV410'', gbm_fourcc_code (CHR ''Y'') (CHR ''U'') (CHR ''V'') (CHR ''9'')),
     (''YVU410'', gbm_fourcc_code (CHR ''Y'') (CHR ''V'') (CHR ''U'') (CHR ''9'')),
     (''YUV411'', gbm_fourcc_code (CHR ''Y'') (CHR ''U'') (CHR ''1'') (CHR ''1'')),
     (''YVU411'', gbm_fourcc_code (CHR ''Y'') (CHR ''V'') (CHR ''1'') (CHR ''1'')),
     (''YUV420'', gbm_fourcc_code (CHR ''Y'') (CHR ''U'') (CHR ''1'') (CHR ''2'')),
     (''YVU420'', gbm_fourcc_code (CHR ''Y'') (CHR ''V'') (CHR ''1'') (CHR ''2'')),
     (''YUV422'', gbm_fourcc_code (CHR ''Y'') (CHR ''U'') (CHR ''1'') (CHR ''6'')),
     (''YVU422'', gbm_fourcc_code (CHR ''Y'') (CHR ''V'') (CHR ''1'') (CHR ''6'')),
     (''YUV444'', gbm_fourcc_code (CHR ''Y'') (CHR ''U'') (CHR ''2'') (CHR ''4'')),
     (''YVU444'', gbm_fourcc_code (CHR ''Y'') (CHR ''V'') (CHR ''2'') (CHR ''4''))]"

section \<open>The color format table\<close>

text \<open>\<open>HAL_PIXEL_FORMAT_BLOB\<close> is in no table; the backends compare against it.\<close>

record hal_formats =
  HAL_PIXEL_FORMAT_RGBA_8888 :: u32
  HAL_PIXEL_FORMAT_RGBX_8888 :: u32
  HAL_PIXEL_FORMAT_BGRA_8888 :: u32
  HAL_PIXEL_FORMAT_RGB_888 :: u32
  HAL_PIXEL_FORMAT_RGB_565 :: u32
  HAL_PIXEL_FORMAT_YCBCR_422_SP :: u32
  HAL_PIXEL_FORMAT_YCRCB_420_SP :: u32
  HAL_PIXEL_FORMAT_YCBCR_422_I :: u32
  HAL_PIXEL_FORMAT_YCBCR_420_888 :: u32
  HAL_PIXEL_FORMAT_RGBA_1010102 :: u32
  HAL_PIXEL_FORMAT_Y8 :: u32
  HAL_PIXEL_FORMAT_Y16 :: u32
  HAL_PIXEL_FORMAT_YV12 :: u32
  HAL_PIXEL_FORMAT_RGBA_FP16 :: u32
  HAL_PIXEL_FORMAT_YCBCR_P010 :: u32
  HAL_PIXEL_FORMAT_BLOB :: u32

record color_fmt_t =
  cf_android_format :: u32
  cf_android_name :: string
  cf_gbm_format :: u32
  cf_gbm_name :: string

definition HAL_PIXEL_FORMAT_EXT_UNKNOWN :: u32 where
  "HAL_PIXEL_FORMAT_EXT_UNKNOWN = 0"

definition GBM_FORMAT_EXT_UNKNOWN :: u32 where
  "GBM_FORMAT_EXT_UNKNOWN = gbm_fourcc_code (CHR ''0'') (CHR ''0'') (CHR ''0'') (CHR ''0'')"

definition GBM_FOURCC_CODE_P010 :: u32 where
  "GBM_FOURCC_CODE_P010 = gbm_fourcc_code (CHR ''P'') (CHR ''0'') (CHR ''1'') (CHR ''0'')"

definition color_format_map :: "hal_formats \<Rightarrow> color_fmt_t list" where
  "color_format_map hal = [
     \<lparr>cf_android_format = HAL_PIXEL_FORMAT_RGBA_8888 hal, cf_android_name = ''HAL_PIXEL_FORMAT_RGBA_8888'',
      cf_gbm_format = GBM_FORMAT_ABGR8888, cf_gbm_name = ''GBM_FORMAT_ABGR8888''\<rparr>,
     \<lparr>cf_android_format = HAL_PIXEL_FORMAT_RGBX_8888 hal, cf_android_name = ''HAL_PIXEL_FORMAT_RGBX_8888'',
      cf_gbm_format = GBM_FORMAT_XBGR8888, cf_gbm_name = ''GBM_FORMAT_XBGR8888''\<rparr>,
     \<lparr>cf_android_format = HAL_PIXEL_FORMAT_BGRA_8888 hal, cf_android_name = ''HAL_PIXEL_FORMAT_BGRA_8888'',
      cf_gbm_format = GBM_FORMAT_ARGB8888, cf_gbm_name = ''GBM_FORMAT_ARGB8888''\<rparr>,
     \<lparr>cf_android_format = HAL_PIXEL_FORMAT_RGB_888 hal, cf_android_name = ''HAL_PIXEL_FORMAT_RGB_888'',
      cf_gbm_format = GBM_FORMAT_BGR888, cf_gbm_name = ''GBM_FORMAT_BGR888''\<rparr>,
     \<lparr>cf_android_format = HAL_PIXEL_FORMAT_RGB_565 hal, cf_android_name = ''HAL_PIXEL_FORMAT_RGB_565'',
      cf_gbm_format = GBM_FORMAT_BGR565, cf_gbm_name = ''GBM_FORMAT_BGR565''\<rparr>,
     \<lparr>cf_android_format = HAL_PIXEL_FORMAT_YCBCR_422_SP hal, cf_android_name = ''HAL_PIXEL_FORMAT_YCBCR_422_SP'',
      cf_gbm_format = GBM_FORMAT_YUV422, cf_gbm_name = ''GBM_FORMAT_YUV422''\<rparr>,
     \<lparr>cf_android_format = HAL_PIXEL_FORMAT_YCRCB_420_SP hal, cf_android_name = ''HAL_PIXEL_FORMAT_YCRCB_420_SP'',
      cf_gbm_format = GBM_FORMAT_YVU420, cf_gbm_name = ''GBM_FORMAT_YVU420''\<rparr>,
     \<lparr>cf_android_format = HAL_PIXEL_FORMAT_YCBCR_422_I hal, cf_android_name = ''HAL_PIXEL_FORMAT_YCBCR_422_I'',
      cf_gbm_format = GBM_FORMAT_VYUY, cf_gbm_name = ''GBM_FORMAT_VYUY''\<rparr>,
     \<lparr>cf_android_format = HAL_PIXEL_FORMAT_YCBCR_420_888 hal, cf_android_name = ''HAL_PIXEL_FORMAT_YCBCR_420_888'',
      cf_gbm_format = GBM_FORMAT_YUV420, cf_gbm_name = ''GBM_FORMAT_YUV420''\<rparr>,
     \<lparr>cf_android_format = HAL_PIXEL_FORMAT_RGBA_1010102 hal, cf_android_name = ''HAL_PIXEL_FORMAT_RGBA_1010102'',
      cf_gbm_format = GBM_FORMAT_ABGR2101010, cf_gbm_name = ''GBM_FORMAT_ABGR2101010''\<rparr>,
     \<lparr>cf_android_format = HAL_PIXEL_FORMAT_Y8 hal, cf_android_name = ''HAL_PIXEL_FORMAT_Y8'',
      cf_gbm_format = GBM_FORMAT_R8, cf_gbm_name = ''GBM_FORMAT_R8''\<rparr>,
     \<lparr>cf_android_format = HAL_PIXEL_FORMAT_Y16 hal, cf_android_name = ''HAL_PIXEL_FORMAT_Y16'',
      cf_gbm_format = GBM_FORMAT_R16, cf_gbm_name = ''GBM_FORMAT_R16''\<rparr>,
     \<lparr>cf_android_format = HAL_PIXEL_FORMAT_YV12 hal, cf_android_name = ''HAL_PIXEL_FORMAT_YV12'',
      cf_gbm_format = GBM_FORMAT_GR88, cf_gbm_name = ''GBM_FORMAT_GR88''\<rparr>,
     \<lparr>cf_android_format = HAL_PIXEL_FORMAT_RGBA_FP16 hal, cf_android_name = ''HAL_PIXEL_FORMAT_RGBA_FP16'',
      cf_gbm_format = GBM_FORMAT_ABGR16161616F, cf_gbm_name = ''GBM_FORMAT_ABGR16161616F''\<rparr>,
     \<lparr>cf_android_format = HAL_PIXEL_FORMAT_YCBCR_P010 hal, cf_android_name = ''HAL_PIXEL_FORMAT_YCBCR_P010'',
      cf_gbm_format = GBM_FOURCC_CODE_P010, cf_gbm_name = ''GBM_FOURCC_CODE_P010''\<rparr>,
     \<lparr>cf_android_format = HAL_PIXEL_FORMAT_EXT_UNKNOWN, cf_android_name = ''HAL_PIXEL_FORMAT_EXT_UNKNOWN'',
      cf_gbm_format = GBM_FORMAT_EXT_UNKNOWN, cf_gbm_name = ''GBM_FORMAT_EXT_UNKNOWN''\<rparr>]"

section \<open>Bits per pixel\<close>

record color_bpp_t =
  bp_gbm_format :: u32
  bp_bpp :: u8

definition color_bpp_map :: "color_bpp_t list" where
  "color_bpp_map = [
     \<lparr>bp_gbm_format = GBM_FORMAT_ABGR8888, bp_bpp = 32\<rparr>,
     \<lparr>bp_gbm_format = GBM_FORMAT_XBGR8888, bp_bpp = 32\<rparr>,
     \<lparr>bp_gbm_format = GBM_FORMAT_ARGB8888, bp_bpp = 32\<rparr>,
     \<lparr>bp_gbm_format = GBM_FORMAT_BGR888, bp_bpp = 24\<rparr>,
     \<lparr>bp_gbm_format = GBM_FORMAT_BGR565, bp_bpp = 16\<rparr>,
     \<lparr>bp_gbm_format = GBM_FORMAT_YUV422, bp_bpp = 16\<rparr>,
     \<lparr>bp_gbm_format = GBM_FORMAT_YVU420, bp_bpp = 12\<rparr>,
     \<lparr>bp_gbm_format = GBM_FORMAT_VYUY, bp_bpp = 32\<rparr>,
     \<lparr>bp_gbm_format = GBM_FORMAT_YUV420, bp_bpp = 12\<rparr>,
     \<lparr>bp_gbm_format = GBM_FORMAT_ABGR2101010, bp_bpp = 32\<rparr>,
     \<lparr>bp_gbm_format = GBM_FORMAT_R8, bp_bpp = 8\<rparr>,
     \<lparr>bp_gbm_format = GBM_FORMAT_R16, bp_bpp = 16\<rparr>,
     \<lparr>bp_gbm_format = GBM_FORMAT_GR88, bp_bpp = 16\<rparr>,
     \<lparr>bp_gbm_format = GBM_FORMAT_ABGR16161616F, bp_bpp = 64\<rparr>,
     \<lparr>bp_gbm_format = GBM_FORMAT_RGB565, bp_bpp = 16\<rparr>,
     \<lparr>bp_gbm_format = GBM_FORMAT_NV12, bp_bpp = 8\<rparr>,
     \<lparr>bp_gbm_format = GBM_FORMAT_NV21, bp_bpp = 16\<rparr>,
     \<lparr>bp_gbm_format = GBM_FORMAT_RGBX8888, bp_bpp = 32\<rparr>,
     \<lparr>bp_gbm_format = GBM_FORMAT_XRGB8888, bp_bpp = 32\<rparr>,
     \<lparr>bp_gbm_format = GBM_FORMAT_EXT_UNKNOWN, bp_bpp = 0\<rparr>]"

named_theorems fourcc_vals \<open>the FourCC codes as numbers\<close>

lemma fourcc_values [fourcc_vals]:
  "GBM_FORMAT_R8 = 0x20203852"
  "GBM_FORMAT_R16 = 0x20363152"
  "GBM_FORMAT_GR88 = 0x38385247"
  "GBM_FORMAT_RGB565 = 0x36314752"
  "GBM_FORMAT_BGR565 = 0x36314742"
  "GBM_FORMAT_BGR888 = 0x34324742"
  "GBM_FORMAT_XRGB8888 = 0x34325258"
  "GBM_FORMAT_XBGR8888 = 0x34324258"
  "GBM_FORMAT_RGBX8888 = 0x34325852"
  "GBM_FORMAT_ARGB8888 = 0x34325241"
  "GBM_FORMAT_ABGR8888 = 0x34324241"
  "GBM_FORMAT_ABGR2101010 = 0x30334241"
  "GBM_FORMAT_ABGR16161616F = 0x48344241"
  "GBM_FORMAT_VYUY = 0x59555956"
  "GBM_FORMAT_NV12 = 0x3231564e"
  "GBM_FORMAT_NV21 = 0x3132564e"
  "GBM_FORMAT_YUV420 = 0x32315559"
  "GBM_FORMAT_YVU420 = 0x32315659"
  "GBM_FORMAT_YUV422 = 0x36315559"
  "GBM_FORMAT_EXT_UNKNOWN = 0x30303030"
  "GBM_FOURCC_CODE_P010 = 0x30313050"
  by (simp_all add: gbm_fourcc_code_def GBM_FORMAT_R8_def GBM_FORMAT_R16_def GBM_FORMAT_GR88_def GBM_FORMAT_RGB565_def GBM_FORMAT_BGR565_def GBM_FORMAT_BGR888_def GBM_FORMAT_XRGB8888_def GBM_FORMAT_XBGR8888_def GBM_FORMAT_RGBX8888_def GBM_FORMAT_ARGB8888_def GBM_FORMAT_ABGR8888_def GBM_FORMAT_ABGR2101010_def GBM_FORMAT_ABGR16161616F_def GBM_FORMAT_VYUY_def GBM_FORMAT_NV12_def GBM_FORMAT_NV21_def GBM_FORMAT_YUV420_def GBM_FORMAT_YVU420_def GBM_FORMAT_YUV422_def GBM_FORMAT_EXT_UNKNOWN_def GBM_FOURCC_CODE_P010_def)

section \<open>The searches over the tables\<close>

text \<open>
  Each search is a \<open>for\<close> loop over a table that returns from the first matching row; the
  functions below run it from the row the loop has reached. A search that falls off the
  table returns a negative number converted to the unsigned result type.
\<close>

fun a2g_from :: "color_fmt_t list \<Rightarrow> u32 \<Rightarrow> u32" where
  "a2g_from [] f = - EINVAL"
| "a2g_from (r # rs) f = (if cf_android_format r = f then cf_gbm_format r else a2g_from rs f)"

definition color_fmt_a2g :: "hal_formats \<Rightarrow> u32 \<Rightarrow> u32" where
  "color_fmt_a2g hal f = a2g_from (color_format_map hal) f"

fun g2a_from :: "color_fmt_t list \<Rightarrow> u32 \<Rightarrow> u32" where
  "g2a_from [] f = - EINVAL"
| "g2a_from (r # rs) f = (if cf_gbm_format r = f then cf_android_format r else g2a_from rs f)"

definition color_fmt_g2a :: "hal_formats \<Rightarrow> u32 \<Rightarrow> u32" where
  "color_fmt_g2a hal f = g2a_from (color_format_map hal) f"

text \<open>\<open>%u\<close> of \<open>snprintf\<close>; the 256 byte buffer never truncates the text.\<close>

fun dec_digits :: "nat \<Rightarrow> string" where
  "dec_digits n = (if n < 10 then [char_of (48 + n)] else dec_digits (n div 10) @ [char_of (48 + n mod 10)])"

declare dec_digits.simps [simp del]

fun getname_from :: "color_fmt_t list \<Rightarrow> u32 \<Rightarrow> bool \<Rightarrow> string" where
  "getname_from [] fmt is_gbm = ''(no matched format for '' @ dec_digits (unat fmt) @ '')''"
| "getname_from (r # rs) fmt is_gbm =
     (if is_gbm then
        (if cf_gbm_format r = fmt then cf_gbm_name r else getname_from rs fmt is_gbm)
      else
        (if cf_android_format r = fmt then cf_android_name r else getname_from rs fmt is_gbm))"

definition color_fmt_getname :: "hal_formats \<Rightarrow> u32 \<Rightarrow> bool \<Rightarrow> string" where
  "color_fmt_getname hal fmt is_gbm = getname_from (color_format_map hal) fmt is_gbm"

fun bpp_from :: "color_bpp_t list \<Rightarrow> u32 \<Rightarrow> u8" where
  "bpp_from [] f = - 1"
| "bpp_from (r # rs) f = (if bp_gbm_format r = f then bp_bpp r else bpp_from rs f)"

definition color_bpp :: "u32 \<Rightarrow> u8" where
  "color_bpp f = bpp_from color_bpp_map f"

fun bytes_from :: "color_bpp_t list \<Rightarrow> u32 \<Rightarrow> u8" where
  "bytes_from [] f = - 1"
| "bytes_from (r # rs) f = (if bp_gbm_format r = f then bp_bpp r div 8 else bytes_from rs f)"

definition color_bytes_per_pixel :: "u32 \<Rightarrow> u8" where
  "color_bytes_per_pixel f = bytes_from color_bpp_map f"

text \<open>The product is an \<open>int\<close>; the \<open>uint8_t\<close> result keeps its low 8 bits.\<close>

definition color_pitch :: "i32 \<Rightarrow> u32 \<Rightarrow> u8" where
  "color_pitch width f = word_of_int (uint (color_bytes_per_pixel f) * sint width)"

definition color_stride :: "u32 \<Rightarrow> u32" where
  "color_stride f = (let bpp = color_bpp f in
     if bpp > 0 then word_of_int ((uint bpp + 7) div 8) else 4)"

section \<open>Alignment\<close>

definition ALIGN :: "u32 \<Rightarrow> u32 \<Rightarrow> u32" where
  "ALIGN a b = (a + b - 1) AND NOT (b - 1)"

definition IS_ALIGNED :: "u32 \<Rightarrow> u32 \<Rightarrow> bool" where
  "IS_ALIGNED a b \<longleftrightarrow> ALIGN a b = a"

text \<open>\<open>MAX\<close> compares as its operands do: unsigned in the import path, signed in the allocation path.\<close>

definition MAX_u :: "u32 \<Rightarrow> u32 \<Rightarrow> u32" where
  "MAX_u a b = (if a > b then a else b)"

definition MAX_s :: "i32 \<Rightarrow> i32 \<Rightarrow> i32" where
  "MAX_s a b = (if sint a > sint b then a else b)"

section \<open>First-match search, once for every table\<close>

text \<open>
  What all the searches have in common: \<open>scan\<close> returns \<open>out\<close> of the first row whose
  \<open>key\<close> is the one asked for, and \<open>dflt\<close> when there is none.
\<close>

locale table_scan =
  fixes rows :: "'r list"
    and key :: "'r \<Rightarrow> 'k"
    and out :: "'r \<Rightarrow> 'v"
    and dflt :: 'v
    and scan :: "'k \<Rightarrow> 'v"
  assumes scan_eq: "scan k = (case find (\<lambda>r. key r = k) rows of None \<Rightarrow> dflt | Some r \<Rightarrow> out r)"
begin

lemma scan_miss:
  assumes "k \<notin> key ` set rows"
  shows "scan k = dflt"
proof -
  have "find (\<lambda>r. key r = k) rows = None"
    using assms by (auto simp: find_None_iff)
  then show ?thesis by (simp add: scan_eq)
qed

lemma scan_cases:
  obtains (miss) "k \<notin> key ` set rows" "scan k = dflt"
  | (hit) r where "r \<in> set rows" "key r = k" "scan k = out r"
proof (cases "find (\<lambda>r. key r = k) rows")
  case None
  then have "k \<notin> key ` set rows"
    by (auto simp: find_None_iff)
  then show ?thesis by (simp add: miss scan_miss)
next
  case (Some r)
  then have "r \<in> set rows" "key r = k"
    by (auto simp: find_Some_iff)
  moreover from Some have "scan k = out r"
    by (simp add: scan_eq)
  ultimately show ?thesis by (rule hit)
qed

lemma scan_hit:
  assumes "distinct (map key rows)" "r \<in> set rows"
  shows "scan (key r) = out r"
proof (cases rule: scan_cases [of "key r"])
  case miss
  with assms show ?thesis by simp
next
  case (hit r')
  with assms have "r' = r"
    by (auto simp: distinct_map dest: inj_onD)
  with hit show ?thesis by simp
qed

lemma scan_all: "(\<And>r. r \<in> set rows \<Longrightarrow> P (out r)) \<Longrightarrow> P dflt \<Longrightarrow> P (scan k)"
  by (cases rule: scan_cases [of k]) auto

end

lemma a2g_from_find:
  "a2g_from rs f = (case find (\<lambda>r. cf_android_format r = f) rs of None \<Rightarrow> - EINVAL | Some r \<Rightarrow> cf_gbm_format r)"
  by (induction rs) auto

lemma g2a_from_find:
  "g2a_from rs f = (case find (\<lambda>r. cf_gbm_format r = f) rs of None \<Rightarrow> - EINVAL | Some r \<Rightarrow> cf_android_format r)"
  by (induction rs) auto

lemma bpp_from_find:
  "bpp_from rs f = (case find (\<lambda>r. bp_gbm_format r = f) rs of None \<Rightarrow> - 1 | Some r \<Rightarrow> bp_bpp r)"
  by (induction rs) auto

lemma bytes_from_find:
  "bytes_from rs f = (case find (\<lambda>r. bp_gbm_format r = f) rs of None \<Rightarrow> - 1 | Some r \<Rightarrow> bp_bpp r div 8)"
  by (induction rs) auto

interpretation a2g: table_scan "color_format_map hal" cf_android_format cf_gbm_format "- EINVAL"
  "color_fmt_a2g hal" for hal
  by unfold_locales (simp add: color_fmt_a2g_def a2g_from_find)

interpretation g2a: table_scan "color_format_map hal" cf_gbm_format cf_android_format "- EINVAL"
  "color_fmt_g2a hal" for hal
  by unfold_locales (simp add: color_fmt_g2a_def g2a_from_find)

interpretation bpp: table_scan color_bpp_map bp_gbm_format bp_bpp "- 1" color_bpp
  by unfold_locales (simp add: color_bpp_def bpp_from_find)

interpretation bytes: table_scan color_bpp_map bp_gbm_format "\<lambda>r. bp_bpp r div 8" "- 1"
  color_bytes_per_pixel
  by unfold_locales (simp add: color_bytes_per_pixel_def bytes_from_find)


section \<open>Facts about the codes\<close>

lemma take_bit_8_of_char: "take_bit 8 (of_char c :: u32) = of_char c"
proof -
  have b: "of_char c < (256::nat)" by (rule nat_of_char_less_256)
  then have "take_bit 8 (of_nat (of_char c) :: u32) = of_nat (of_char c)"
    by (simp only: take_bit_of_nat) (simp add: take_bit_nat_eq_self)
  then show ?thesis by (simp only: of_nat_of_char)
qed

lemma unat_of_char_u32: "unat (of_char c :: u32) = of_char c"
proof -
  have "of_char c < (2::nat) ^ LENGTH(32)"
    by (rule order.strict_trans [OF nat_of_char_less_256]) simp
  then have "unat (word_of_nat (of_char c) :: u32) = of_char c"
    by (simp only: unat_of_nat take_bit_nat_eq_self flip: take_bit_eq_mod)
  then show ?thesis by (simp only: of_nat_of_char)
qed

lemma of_char_u32_inject [simp]: "(of_char c :: u32) = of_char d \<longleftrightarrow> c = d"
  by (metis of_char_eqI unat_of_char_u32)

text \<open>The four characters can be read back from the code.\<close>

lemma or_bytes:
  fixes a b c d :: u32
  defines "w \<equiv> take_bit 8 a OR push_bit 8 (take_bit 8 b) OR push_bit 16 (take_bit 8 c) OR push_bit 24 (take_bit 8 d)"
  shows "take_bit 8 w = take_bit 8 a" "take_bit 8 (drop_bit 8 w) = take_bit 8 b"
    "take_bit 8 (drop_bit 16 w) = take_bit 8 c" "take_bit 8 (drop_bit 24 w) = take_bit 8 d"
  unfolding w_def by (rule bit_word_eqI, auto simp: bit_simps)+

lemma fourcc_bytes:
  "take_bit 8 (gbm_fourcc_code a b c d) = of_char a"
  "take_bit 8 (drop_bit 8 (gbm_fourcc_code a b c d)) = of_char b"
  "take_bit 8 (drop_bit 16 (gbm_fourcc_code a b c d)) = of_char c"
  "take_bit 8 (drop_bit 24 (gbm_fourcc_code a b c d)) = of_char d"
  using or_bytes [of "of_char a" "of_char b" "of_char c" "of_char d"]
  by (simp_all only: gbm_fourcc_code_def take_bit_8_of_char)

lemma fourcc_inject:
  "gbm_fourcc_code a b c d = gbm_fourcc_code a' b' c' d' \<longleftrightarrow> a = a' \<and> b = b' \<and> c = c' \<and> d = d'"
  by (metis fourcc_bytes of_char_u32_inject)

lemma color_format_map_gbm_distinct [simp]: "distinct (map cf_gbm_format (color_format_map hal))"
  by (simp add: color_format_map_def fourcc_vals)

lemma color_bpp_map_distinct [simp]: "distinct (map bp_gbm_format color_bpp_map)"
  by (simp add: color_bpp_map_def fourcc_vals)

lemma color_bpp_values:
  "color_bpp GBM_FORMAT_ABGR8888 = 32"
  "color_bpp GBM_FORMAT_XBGR8888 = 32"
  "color_bpp GBM_FORMAT_ARGB8888 = 32"
  "color_bpp GBM_FORMAT_BGR888 = 24"
  "color_bpp GBM_FORMAT_BGR565 = 16"
  "color_bpp GBM_FORMAT_YUV422 = 16"
  "color_bpp GBM_FORMAT_YVU420 = 12"
  "color_bpp GBM_FORMAT_VYUY = 32"
  "color_bpp GBM_FORMAT_YUV420 = 12"
  "color_bpp GBM_FORMAT_ABGR2101010 = 32"
  "color_bpp GBM_FORMAT_R8 = 8"
  "color_bpp GBM_FORMAT_R16 = 16"
  "color_bpp GBM_FORMAT_GR88 = 16"
  "color_bpp GBM_FORMAT_ABGR16161616F = 64"
  "color_bpp GBM_FORMAT_RGB565 = 16"
  "color_bpp GBM_FORMAT_NV12 = 8"
  "color_bpp GBM_FORMAT_NV21 = 16"
  "color_bpp GBM_FORMAT_RGBX8888 = 32"
  "color_bpp GBM_FORMAT_XRGB8888 = 32"
  "color_bpp GBM_FORMAT_EXT_UNKNOWN = 0"
proof -
  have "\<forall>r \<in> set color_bpp_map. color_bpp (bp_gbm_format r) = bp_bpp r"
    using bpp.scan_hit by simp
  then show "color_bpp GBM_FORMAT_ABGR8888 = 32"
    "color_bpp GBM_FORMAT_XBGR8888 = 32"
    "color_bpp GBM_FORMAT_ARGB8888 = 32"
    "color_bpp GBM_FORMAT_BGR888 = 24"
    "color_bpp GBM_FORMAT_BGR565 = 16"
    "color_bpp GBM_FORMAT_YUV422 = 16"
    "color_bpp GBM_FORMAT_YVU420 = 12"
    "color_bpp GBM_FORMAT_VYUY = 32"
    "color_bpp GBM_FORMAT_YUV420 = 12"
    "color_bpp GBM_FORMAT_ABGR2101010 = 32"
    "color_bpp GBM_FORMAT_R8 = 8"
    "color_bpp GBM_FORMAT_R16 = 16"
    "color_bpp GBM_FORMAT_GR88 = 16"
    "color_bpp GBM_FORMAT_ABGR16161616F = 64"
    "color_bpp GBM_FORMAT_RGB565 = 16"
    "color_bpp GBM_FORMAT_NV12 = 8"
    "color_bpp GBM_FORMAT_NV21 = 16"
    "color_bpp GBM_FORMAT_RGBX8888 = 32"
    "color_bpp GBM_FORMAT_XRGB8888 = 32"
    "color_bpp GBM_FORMAT_EXT_UNKNOWN = 0"
    unfolding color_bpp_map_def by simp_all
qed

lemma color_bpp_values_P010:
  "color_bpp GBM_FOURCC_CODE_P010 = 255"
proof -
  have "GBM_FOURCC_CODE_P010 \<notin> bp_gbm_format ` set color_bpp_map"
    by (simp add: color_bpp_map_def fourcc_vals)
  then show ?thesis
    by (simp add: bpp.scan_miss)
qed

lemma color_bytes_values:
  "color_bytes_per_pixel GBM_FORMAT_ABGR8888 = 4"
  "color_bytes_per_pixel GBM_FORMAT_XBGR8888 = 4"
  "color_bytes_per_pixel GBM_FORMAT_ARGB8888 = 4"
  "color_bytes_per_pixel GBM_FORMAT_BGR888 = 3"
  "color_bytes_per_pixel GBM_FORMAT_BGR565 = 2"
  "color_bytes_per_pixel GBM_FORMAT_YUV422 = 2"
  "color_bytes_per_pixel GBM_FORMAT_YVU420 = 1"
  "color_bytes_per_pixel GBM_FORMAT_VYUY = 4"
  "color_bytes_per_pixel GBM_FORMAT_YUV420 = 1"
  "color_bytes_per_pixel GBM_FORMAT_ABGR2101010 = 4"
  "color_bytes_per_pixel GBM_FORMAT_R8 = 1"
  "color_bytes_per_pixel GBM_FORMAT_R16 = 2"
  "color_bytes_per_pixel GBM_FORMAT_GR88 = 2"
  "color_bytes_per_pixel GBM_FORMAT_ABGR16161616F = 8"
  "color_bytes_per_pixel GBM_FORMAT_RGB565 = 2"
  "color_bytes_per_pixel GBM_FORMAT_NV12 = 1"
  "color_bytes_per_pixel GBM_FORMAT_NV21 = 2"
  "color_bytes_per_pixel GBM_FORMAT_RGBX8888 = 4"
  "color_bytes_per_pixel GBM_FORMAT_XRGB8888 = 4"
  "color_bytes_per_pixel GBM_FORMAT_EXT_UNKNOWN = 0"
proof -
  have "\<forall>r \<in> set color_bpp_map. color_bytes_per_pixel (bp_gbm_format r) = bp_bpp r div 8"
    using bytes.scan_hit by simp
  then show "color_bytes_per_pixel GBM_FORMAT_ABGR8888 = 4"
    "color_bytes_per_pixel GBM_FORMAT_XBGR8888 = 4"
    "color_bytes_per_pixel GBM_FORMAT_ARGB8888 = 4"
    "color_bytes_per_pixel GBM_FORMAT_BGR888 = 3"
    "color_bytes_per_pixel GBM_FORMAT_BGR565 = 2"
    "color_bytes_per_pixel GBM_FORMAT_YUV422 = 2"
    "color_bytes_per_pixel GBM_FORMAT_YVU420 = 1"
    "color_bytes_per_pixel GBM_FORMAT_VYUY = 4"
    "color_bytes_per_pixel GBM_FORMAT_YUV420 = 1"
    "color_bytes_per_pixel GBM_FORMAT_ABGR2101010 = 4"
    "color_bytes_per_pixel GBM_FORMAT_R8 = 1"
    "color_bytes_per_pixel GBM_FORMAT_R16 = 2"
    "color_bytes_per_pixel GBM_FORMAT_GR88 = 2"
    "color_bytes_per_pixel GBM_FORMAT_ABGR16161616F = 8"
    "color_bytes_per_pixel GBM_FORMAT_RGB565 = 2"
    "color_bytes_per_pixel GBM_FORMAT_NV12 = 1"
    "color_bytes_per_pixel GBM_FORMAT_NV21 = 2"
    "color_bytes_per_pixel GBM_FORMAT_RGBX8888 = 4"
    "color_bytes_per_pixel GBM_FORMAT_XRGB8888 = 4"
    "color_bytes_per_pixel GBM_FORMAT_EXT_UNKNOWN = 0"
    unfolding color_bpp_map_def by simp_all
qed

lemma color_bytes_values_P010:
  "color_bytes_per_pixel GBM_FOURCC_CODE_P010 = 255"
proof -
  have "GBM_FOURCC_CODE_P010 \<notin> bp_gbm_format ` set color_bpp_map"
    by (simp add: color_bpp_map_def fourcc_vals)
  then show ?thesis
    by (simp add: bytes.scan_miss)
qed

lemma minus_EINVAL: "- EINVAL = 0xFFFFFFEA"
  by (simp add: EINVAL_def)

lemma a2g_not_0: "color_fmt_a2g hal f \<noteq> 0"
  by (rule a2g.scan_all) (auto simp: color_format_map_def fourcc_vals EINVAL_def)

lemma unat_ALIGN:
  assumes "unat a + 2 ^ k \<le> 2 ^ 32" and "k < 32"
  shows "unat (ALIGN a (2 ^ k)) = (unat a + 2 ^ k - 1) div 2 ^ k * 2 ^ k"
proof -
  have "ALIGN a (2 ^ k) = (a + mask k) AND NOT (mask k)"
    by (simp add: ALIGN_def mask_eq_exp_minus_1 algebra_simps)
  moreover have "unat (a + mask k) = unat a + 2 ^ k - 1"
    using assms by (simp add: unat_word_ariths unat_mask_u32)
  ultimately show ?thesis by (simp add: unat_and_not_mask)
qed

text \<open>The published values of the Android pixel formats, for the witnesses.\<close>

definition aosp_hal :: hal_formats where
  "aosp_hal = \<lparr>HAL_PIXEL_FORMAT_RGBA_8888 = 1, HAL_PIXEL_FORMAT_RGBX_8888 = 2,
     HAL_PIXEL_FORMAT_BGRA_8888 = 5, HAL_PIXEL_FORMAT_RGB_888 = 3, HAL_PIXEL_FORMAT_RGB_565 = 4,
     HAL_PIXEL_FORMAT_YCBCR_422_SP = 0x10, HAL_PIXEL_FORMAT_YCRCB_420_SP = 0x11,
     HAL_PIXEL_FORMAT_YCBCR_422_I = 0x14, HAL_PIXEL_FORMAT_YCBCR_420_888 = 0x23,
     HAL_PIXEL_FORMAT_RGBA_1010102 = 0x2B, HAL_PIXEL_FORMAT_Y8 = 0x20203859,
     HAL_PIXEL_FORMAT_Y16 = 0x20363159, HAL_PIXEL_FORMAT_YV12 = 0x32315659,
     HAL_PIXEL_FORMAT_RGBA_FP16 = 0x16, HAL_PIXEL_FORMAT_YCBCR_P010 = 0x36,
     HAL_PIXEL_FORMAT_BLOB = 0x21\<rparr>"

text \<open>\<open>system/graphics.h\<close> gives every format a number of its own, and none is 0.\<close>

definition hal_formats_distinct :: "hal_formats \<Rightarrow> bool" where
  "hal_formats_distinct hal \<longleftrightarrow> distinct (map cf_android_format (color_format_map hal))"

lemma aosp_hal_distinct: "hal_formats_distinct aosp_hal"
  by (simp add: hal_formats_distinct_def color_format_map_def aosp_hal_def HAL_PIXEL_FORMAT_EXT_UNKNOWN_def)

section \<open>Properties\<close>

text \<open>The FourCC encoding loses nothing: two codes are equal only when their four
  characters are, so all the GBM formats the header declares have different codes, and none of
  them is 0 or the error value the lookups return.\<close>

theorem gbm_format_codes_distinct:
  "distinct (map snd gbm_format_codes)
   \<and> 0 \<notin> snd ` set gbm_format_codes \<and> - EINVAL \<notin> snd ` set gbm_format_codes
   \<and> (gbm_fourcc_code a b c d = gbm_fourcc_code a' b' c' d' \<longleftrightarrow> a = a' \<and> b = b' \<and> c = c' \<and> d = d')"
proof (intro conjI)
  show "distinct (map snd gbm_format_codes)"
    by (simp add: gbm_format_codes_def fourcc_inject)
  show "0 \<notin> snd ` set gbm_format_codes" "- EINVAL \<notin> snd ` set gbm_format_codes"
    by (simp_all add: gbm_format_codes_def gbm_fourcc_code_def EINVAL_def)
qed (rule fourcc_inject)

text \<open>On the formats the table knows, the two lookups are inverse to each other.\<close>

theorem color_fmt_roundtrip:
  assumes "hal_formats_distinct hal" and "r \<in> set (color_format_map hal)"
  shows "color_fmt_g2a hal (color_fmt_a2g hal (cf_android_format r)) = cf_android_format r
    \<and> color_fmt_a2g hal (color_fmt_g2a hal (cf_gbm_format r)) = cf_gbm_format r"
  using assms by (simp add: hal_formats_distinct_def a2g.scan_hit g2a.scan_hit)

theorem color_fmt_roundtrip_witness:
  "color_fmt_g2a aosp_hal (color_fmt_a2g aosp_hal 0x16) = 0x16"
proof -
  let ?r = "color_format_map aosp_hal ! 13"
  have "?r \<in> set (color_format_map aosp_hal)" "cf_android_format ?r = 0x16"
    by (simp_all add: color_format_map_def aosp_hal_def)
  then show ?thesis
    using color_fmt_roundtrip [OF aosp_hal_distinct, of ?r] by simp
qed

text \<open>The callers reject a format by testing \<open>gbm_format <= 0\<close> on an unsigned value, which
  only 0 passes; the lookup never returns 0. An Android format that the table does not know is
  looked up as 0xFFFFFFEA and is not rejected.\<close>

theorem unsupported_format_not_rejected:
  "\<not> color_fmt_a2g hal f \<le> 0
   \<and> (f \<in> cf_android_format ` set (color_format_map hal) \<or> color_fmt_a2g hal f = 0xFFFFFFEA)"
proof
  show "\<not> color_fmt_a2g hal f \<le> 0" using a2g_not_0 by simp
  show "f \<in> cf_android_format ` set (color_format_map hal) \<or> color_fmt_a2g hal f = 0xFFFFFFEA"
    using a2g.scan_miss [of f hal] by (auto simp: minus_EINVAL)
qed

text \<open>The bits-per-pixel table covers the format table, as its comment says, for every format
  but P010 and the unknown one: at least one whole byte per pixel, the byte count the stride
  functions use is the rounded down or rounded up eighth of it. P010 is missing from the table and
  gets the error value 255; the unknown format has 0 bytes per pixel.\<close>

theorem color_bpp_coverage:
  "list_all (\<lambda>r.
      cf_gbm_format r = GBM_FOURCC_CODE_P010 \<or> cf_gbm_format r = GBM_FORMAT_EXT_UNKNOWN
      \<or> (8 \<le> color_bpp (cf_gbm_format r) \<and> color_bpp (cf_gbm_format r) \<le> 64
         \<and> 1 \<le> color_bytes_per_pixel (cf_gbm_format r)
         \<and> color_bytes_per_pixel (cf_gbm_format r) = color_bpp (cf_gbm_format r) div 8
         \<and> color_stride (cf_gbm_format r) = word_of_int ((uint (color_bpp (cf_gbm_format r)) + 7) div 8)))
      (color_format_map hal)
   \<and> color_bpp GBM_FOURCC_CODE_P010 = 255 \<and> color_bytes_per_pixel GBM_FOURCC_CODE_P010 = 255
   \<and> color_bpp GBM_FORMAT_EXT_UNKNOWN = 0 \<and> color_bytes_per_pixel GBM_FORMAT_EXT_UNKNOWN = 0"
  by (simp add: color_format_map_def color_bpp_values color_bytes_values
      color_bpp_values_P010 color_bytes_values_P010 color_stride_def)

text \<open>\<open>ALIGN\<close> to a power of two gives the least multiple that is not below its argument,
  unless the addition wraps around.\<close>

theorem ALIGN_least_multiple:
  assumes "unat a + 2 ^ k \<le> 2 ^ 32" and "k < 32"
  shows "unat (ALIGN a (2 ^ k)) = (unat a + 2 ^ k - 1) div 2 ^ k * 2 ^ k
    \<and> a \<le> ALIGN a (2 ^ k) \<and> unat (ALIGN a (2 ^ k)) < unat a + 2 ^ k
    \<and> 2 ^ k dvd unat (ALIGN a (2 ^ k))"
proof -
  note eq = unat_ALIGN [OF assms]
  have "(unat a + 2 ^ k - 1) div 2 ^ k * 2 ^ k + (unat a + 2 ^ k - 1) mod 2 ^ k = unat a + 2 ^ k - 1"
    by (rule div_mult_mod_eq)
  moreover have "(unat a + 2 ^ k - 1) mod 2 ^ k < 2 ^ k"
    by simp
  ultimately have "unat a \<le> unat (ALIGN a (2 ^ k))" "unat (ALIGN a (2 ^ k)) < unat a + 2 ^ k"
    unfolding eq by linarith+
  with eq show ?thesis
    by (simp add: word_le_nat_alt)
qed

theorem ALIGN_least_multiple_witness: "unat (ALIGN 65 (2 ^ 2)) = 68"
proof -
  have "unat (65::u32) + 2 ^ 2 \<le> 2 ^ 32" "(2::nat) < 32" by simp_all
  from ALIGN_least_multiple [OF this] show ?thesis by simp
qed

end
