(* ===== verification/Linked_Lists.thy ===== *)
theory Linked_Lists
  imports Prelude
begin

text \<open>
  Doubly linked lists on the heap, as uthash keeps them: one in application order and one per
  bucket. \<open>dll nx pv p x xs\<close> says that following \<open>nx\<close> from \<open>x\<close> visits exactly the nodes
  \<open>xs\<close> and ends in NULL, and that \<open>pv\<close> is the inverse link, the first node's being \<open>p\<close>.
\<close>

section \<open>Fields of heap nodes\<close>

definition fld :: "('n \<Rightarrow> 'v::zero) \<Rightarrow> (addr \<rightharpoonup> 'n) \<Rightarrow> addr \<Rightarrow> 'v" where
  "fld f m a = (case m a of None \<Rightarrow> 0 | Some n \<Rightarrow> f n)"

lemma fld_upd [simp]: "fld f (m(p \<mapsto> n)) = (fld f m)(p := f n)"
  by (auto simp: fld_def fun_eq_iff)

lemma fld_Some [simp]: "m a = Some n \<Longrightarrow> fld f m a = f n"
  by (simp add: fld_def)

lemma fld_del: "a \<noteq> p \<Longrightarrow> fld f (m(p := None)) a = fld f m a"
  by (simp add: fld_def)

section \<open>The list predicate\<close>

primrec dll :: "(addr \<Rightarrow> addr) \<Rightarrow> (addr \<Rightarrow> addr) \<Rightarrow> addr \<Rightarrow> addr \<Rightarrow> addr list \<Rightarrow> bool" where
  "dll nx pv p x [] \<longleftrightarrow> x = NULL"
| "dll nx pv p x (a # xs) \<longleftrightarrow> x = a \<and> a \<noteq> NULL \<and> pv a = p \<and> dll nx pv a (nx a) xs"

named_theorems dll_intros \<open>linked lists after an update\<close>

lemma dll_cong:
  assumes "\<And>a. a \<in> set xs \<Longrightarrow> nx a = nx' a" "\<And>a. a \<in> set xs \<Longrightarrow> pv a = pv' a"
  shows "dll nx pv p x xs = dll nx' pv' p x xs"
  using assms by (induction xs arbitrary: p x) auto

lemma dll_upd_outside [simp]:
  "b \<notin> set xs \<Longrightarrow> dll (nx(b := v)) pv p x xs = dll nx pv p x xs"
  "b \<notin> set xs \<Longrightarrow> dll nx (pv(b := v)) p x xs = dll nx pv p x xs"
  by (rule dll_cong; auto)+

lemma dll_nonnull: "dll nx pv p x xs \<Longrightarrow> a \<in> set xs \<Longrightarrow> a \<noteq> NULL"
  by (induction xs arbitrary: p x) auto

lemma dll_NULL_iff: "dll nx pv p x xs \<Longrightarrow> x = NULL \<longleftrightarrow> xs = []"
  by (cases xs) auto

lemma dll_head: "dll nx pv p x xs \<Longrightarrow> x \<noteq> NULL \<Longrightarrow> x \<in> set xs \<and> pv x = p \<and> x = hd xs \<and> dll nx pv x (nx x) (tl xs)"
  by (cases xs) auto


lemma dll_links:
  "dll nx pv p x (ys @ a # zs) \<Longrightarrow>
   pv a = (if ys = [] then p else last ys) \<and> nx a = (if zs = [] then NULL else hd zs)"
proof (induction ys arbitrary: p x)
  case Nil
  then show ?case by (cases zs) auto
next
  case (Cons y ys)
  then have "dll nx pv y (nx y) (ys @ a # zs)" by simp
  from Cons.IH [OF this] show ?case by simp
qed

text \<open>The neighbours of a node: on the list, and distinct from it and from each other.\<close>

lemma dll_neighbours:
  assumes "dll nx pv NULL x xs" "distinct xs" "a \<in> set xs"
  shows "pv a = NULL \<or> pv a \<in> set xs \<and> pv a \<noteq> a" "nx a = NULL \<or> nx a \<in> set xs \<and> nx a \<noteq> a"
    "pv a \<noteq> NULL \<Longrightarrow> pv a \<noteq> nx a"
    "pv a = NULL \<longleftrightarrow> a = hd xs" "nx a = NULL \<longleftrightarrow> a = last xs"
proof -
  from assms(3) obtain ys zs where xs: "xs = ys @ a # zs" by (meson split_list)
  note l = dll_links [OF assms(1) [unfolded xs]]
  have nn: "NULL \<notin> set xs" using dll_nonnull [OF assms(1)] by blast
  have ys: "ys \<noteq> [] \<Longrightarrow> last ys \<in> set ys" and zs: "zs \<noteq> [] \<Longrightarrow> hd zs \<in> set zs" by simp_all
  have d: "a \<notin> set ys" "a \<notin> set zs" "set ys \<inter> set zs = {}" using assms(2) xs by auto
  show "pv a = NULL \<or> pv a \<in> set xs \<and> pv a \<noteq> a" using l ys d xs by auto
  show "nx a = NULL \<or> nx a \<in> set xs \<and> nx a \<noteq> a" using l zs d xs by auto
  show "pv a \<noteq> nx a" if "pv a \<noteq> NULL" using l ys zs d(3) that by (metis disjoint_iff)
  show "pv a = NULL \<longleftrightarrow> a = hd xs"
  proof (cases "ys = []")
    case False
    then have "hd xs \<in> set ys" "last ys \<noteq> NULL" using xs nn ys by (simp, metis UnCI set_append)
    then show ?thesis using False l ys nn xs d by auto
  qed (use l xs in auto)
  show "nx a = NULL \<longleftrightarrow> a = last xs"
  proof (cases "zs = []")
    case False
    then have "last xs \<in> set zs" "hd zs \<noteq> NULL" using xs nn zs by (simp, metis UnCI insertCI list.set(2) set_append)
    then show ?thesis using False l zs nn xs d by auto
  qed (use l xs in auto)
qed

text \<open>
  The three updates, stated over the links \<open>nx'\<close> and \<open>pv'\<close> after them: pushing a fresh node in
  front, appending one at the end, and unlinking a node.
\<close>

lemma dll_push:
  assumes "dll nx pv NULL x xs" "distinct xs" "a \<notin> set xs" "a \<noteq> NULL"
    and "nx' a = x" "pv' a = NULL" "x \<noteq> NULL \<Longrightarrow> pv' x = a"
    and "\<And>b. b \<in> set xs \<Longrightarrow> nx' b = nx b" "\<And>b. b \<in> set xs \<Longrightarrow> b \<noteq> x \<Longrightarrow> pv' b = pv b"
  shows "dll nx' pv' NULL a (a # xs)"
proof (cases xs)
  case Nil
  with assms show ?thesis by simp
next
  case (Cons y ys)
  with assms have "dll nx pv y (nx y) ys" "y \<notin> set ys" "x = y" by auto
  moreover have "dll nx' pv' y (nx y) ys = dll nx pv y (nx y) ys"
    using Cons assms by (intro dll_cong) auto
  ultimately show ?thesis using Cons assms by auto
qed

lemma dll_snoc:
  assumes "dll nx pv p x xs" "distinct xs" "xs \<noteq> []" "a \<notin> set xs" "a \<noteq> NULL"
    and "nx' a = NULL" "nx' (last xs) = a" "pv' a = last xs"
    and "\<And>b. b \<in> set xs \<Longrightarrow> b \<noteq> last xs \<Longrightarrow> nx' b = nx b" "\<And>b. b \<in> set xs \<Longrightarrow> pv' b = pv b"
  shows "dll nx' pv' p x (xs @ [a])"
  using assms
proof (induction xs arbitrary: p x)
  case (Cons y ys)
  show ?case
  proof (cases "ys = []")
    case True
    with Cons.prems show ?thesis by auto
  next
    case False
    have IH: "dll nx' pv' y (nx y) (ys @ [a])"
      using Cons.prems False by (intro Cons.IH) auto
    moreover have "y \<noteq> last ys" using Cons.prems False by (metis distinct.simps(2) last_in_set)
    ultimately show ?thesis using False Cons.prems by auto
  qed
qed simp

lemma dll_remove:
  assumes "dll nx pv p x (ys @ a # zs)" "distinct (ys @ a # zs)" "p \<notin> set (ys @ a # zs)"
    and "\<And>b. b \<in> set (ys @ zs) \<Longrightarrow> nx' b = (if b = pv a then nx a else nx b)"
    and "\<And>b. b \<in> set (ys @ zs) \<Longrightarrow> pv' b = (if b = nx a then pv a else pv b)"
  shows "dll nx' pv' p (if ys = [] then nx a else x) (ys @ zs)
     \<and> pv a = (if ys = [] then p else last ys) \<and> nx a = (if zs = [] then NULL else hd zs)"
  using assms
proof (induction ys arbitrary: p x)
  case Nil
  then have "x = a" "pv a = p" "p \<noteq> a" "dll nx pv a (nx a) zs" "a \<notin> set zs" "distinct zs" "p \<notin> set zs"
    by auto
  show ?case
  proof (cases zs)
    case Nil
    with \<open>dll nx pv a (nx a) zs\<close> \<open>pv a = p\<close> show ?thesis by simp
  next
    case (Cons z zs')
    with \<open>dll nx pv a (nx a) zs\<close> have z: "nx a = z" "z \<noteq> NULL" "dll nx pv z (nx z) zs'" by auto
    have "dll nx' pv' z (nx z) zs' = dll nx pv z (nx z) zs'"
      using Nil.prems Cons z \<open>pv a = p\<close> by (intro dll_cong) auto
    then show ?thesis using Cons z Nil.prems \<open>pv a = p\<close> by auto
  qed
next
  case (Cons y ys)
  have y: "x = y" "pv y = p" "y \<noteq> NULL" "y \<notin> set (ys @ zs)" "y \<noteq> a" "dll nx pv y (nx y) (ys @ a # zs)"
    using Cons.prems by auto
  have IH: "dll nx' pv' y (if ys = [] then nx a else nx y) (ys @ zs)
       \<and> pv a = (if ys = [] then y else last ys) \<and> nx a = (if zs = [] then NULL else hd zs)"
    using Cons.prems y by (intro Cons.IH) auto
  then have nxa: "nx a \<noteq> y" using y by (cases zs) auto
  have pv': "pv' y = p" and nx': "nx' y = (if y = pv a then nx a else nx y)"
    using Cons.prems nxa y by auto
  show ?case
  proof (cases "ys = []")
    case True
    with IH y nx' pv' show ?thesis by auto
  next
    case False
    then have "pv a \<noteq> y" using IH y last_in_set [of ys] by auto
    with IH False y nx' pv' show ?thesis by auto
  qed
qed

end
