(* ===== verification/Uthash.thy ===== *)
theory Uthash
  imports Linked_Lists
begin

text \<open>
  The hash table of \<^verbatim>\<open>include/uthash/uthash.h\<close>, as \<^verbatim>\<open>common/gralloc_gbm.c\<close> instantiates it:
  elements of type \<open>android_buffer_t\<close>, the key an \<open>int\<close> (the DMA-BUF file descriptor), no
  Bloom filter, \<open>HASH_NONFATAL_OOM\<close> 0 and \<open>HASH_FUNCTION\<close> the default \<open>HASH_JEN\<close>.

  The model keeps the pointer structure: elements live in the map \<open>nodes\<close>, linked in
  application order (\<open>app_prev\<close>, \<open>app_next\<close>, the handle's \<open>prev\<close> and \<open>next\<close>) and in their
  bucket's chain (\<open>hh_prev\<close>, \<open>hh_next\<close>). The address of a handle and of its element differ
  by the constant \<open>hho\<close>; the model uses the element's address for both. The table that every
  handle's \<open>tbl\<close> points to is the component \<open>tbl\<close>.

  A pointer walk takes as fuel one more than the number of allocations made so far. The
  invariant \<open>hash_inv\<close> shows that this is enough: the nodes of a list are distinct allocated
  addresses.
\<close>

unbundle bit_operations_syntax

section \<open>Memory\<close>

text \<open>
  \<open>malloc\<close> and \<open>calloc\<close> give a fresh address or NULL; the parameter \<open>oom\<close> decides which
  request (numbered in order, with its size in bytes) fails. \<open>brk\<close> counts the requests.
\<close>

type_synonym oom = "nat \<Rightarrow> nat \<Rightarrow> bool"

record heap =
  brk :: nat

definition malloc :: "oom \<Rightarrow> nat \<Rightarrow> 'a heap_scheme \<Rightarrow> addr \<times> 'a heap_scheme" where
  "malloc oom sz h = (if oom (Suc (brk h)) sz then NULL else Suc (brk h), h\<lparr>brk := Suc (brk h)\<rparr>)"

text \<open>A later request of less than 64 GiB fails.\<close>

definition starved :: "oom \<Rightarrow> 'a heap_scheme \<Rightarrow> bool" where
  "starved oom h \<longleftrightarrow> (\<exists>t sz. brk h < t \<and> sz < 2 ^ 36 \<and> oom t sz)"

lemma starved_later: "starved oom h' \<Longrightarrow> brk h \<le> brk h' \<Longrightarrow> starved oom h"
  unfolding starved_def by (meson order_le_less_trans)

lemma starvedI: "oom t sz \<Longrightarrow> brk h < t \<Longrightarrow> sz < 2 ^ 36 \<Longrightarrow> starved oom h"
  unfolding starved_def by blast

text \<open>A request of 64 GiB fails. (A table of \<open>2 ^ 32\<close> buckets of 16 bytes takes that much.)\<close>

definition no_huge_malloc :: "oom \<Rightarrow> bool" where
  "no_huge_malloc oom \<longleftrightarrow> (\<forall>t sz. 2 ^ 36 \<le> sz \<longrightarrow> oom t sz)"

section \<open>Data\<close>

definition HASH_INITIAL_NUM_BUCKETS :: u32 where
  "HASH_INITIAL_NUM_BUCKETS = 32"

definition HASH_INITIAL_NUM_BUCKETS_LOG2 :: u32 where
  "HASH_INITIAL_NUM_BUCKETS_LOG2 = 5"

definition HASH_BKT_CAPACITY_THRESH :: u32 where
  "HASH_BKT_CAPACITY_THRESH = 10"

definition sizeof_UT_hash_table :: nat where
  "sizeof_UT_hash_table = 64"

definition sizeof_UT_hash_bucket :: nat where
  "sizeof_UT_hash_bucket = 16"

record UT_hash_bucket =
  hh_head :: addr
  count :: u32
  expand_mult :: u32

record UT_hash_table =
  buckets :: "UT_hash_bucket list"
  num_buckets :: u32
  log2_num_buckets :: u32
  num_items :: u32
  tail :: addr
  ideal_chain_maxlen :: u32
  nonideal_items :: u32
  ineff_expands :: u32
  noexpand :: u32

text \<open>\<open>android_buffer_t\<close>: the key \<open>fd\<close>, the value \<open>bo\<close> and the fields of the handle \<open>hh\<close>.\<close>

record android_buffer_t =
  buf_fd :: i32
  buf_bo :: addr
  app_prev :: addr
  app_next :: addr
  hh_prev :: addr
  hh_next :: addr
  keylen :: u32
  hashv :: u32

text \<open>The table: its elements, the user's head pointer (the static \<open>android_buffer_table\<close>), the table.\<close>

record hash_state = heap +
  nodes :: "addr \<rightharpoonup> android_buffer_t"
  android_buffer_table :: addr
  tbl :: "UT_hash_table option"

text \<open>A table of \<open>2 ^ 31\<close> buckets cannot be expanded. \<open>oom_after\<close> says that an insertion may lack memory.\<close>

definition table_full :: "'a hash_state_scheme \<Rightarrow> bool" where
  "table_full h \<longleftrightarrow> (\<exists>t. tbl h = Some t \<and> num_buckets t = 2 ^ 31)"

definition oom_after :: "oom \<Rightarrow> 'a hash_state_scheme \<Rightarrow> bool" where
  "oom_after oom h \<longleftrightarrow> starved oom h \<or> table_full h"

lemma oom_after_later:
  "oom_after oom h' \<Longrightarrow> brk h \<le> brk h' \<Longrightarrow> (table_full h' \<Longrightarrow> table_full h) \<Longrightarrow> oom_after oom h"
  using starved_later by (auto simp: oom_after_def)

section \<open>The hash function\<close>

definition HASH_JEN_MIX :: "u32 \<times> u32 \<times> u32 \<Rightarrow> u32 \<times> u32 \<times> u32" where
  "HASH_JEN_MIX = (\<lambda>(a, b, c).
    let a = (a - b - c) XOR drop_bit 13 c;
        b = (b - c - a) XOR push_bit 8 a;
        c = (c - a - b) XOR drop_bit 13 b;
        a = (a - b - c) XOR drop_bit 12 c;
        b = (b - c - a) XOR push_bit 16 a;
        c = (c - a - b) XOR drop_bit 5 b;
        a = (a - b - c) XOR drop_bit 3 c;
        b = (b - c - a) XOR push_bit 10 a;
        c = (c - a - b) XOR drop_bit 15 b
    in (a, b, c))"

text \<open>Byte \<open>i\<close> of the key shifted to its place; the fall-through cases of the final \<open>switch\<close>
  add exactly the bytes that are there.\<close>

definition key_byte :: "u8 list \<Rightarrow> nat \<Rightarrow> nat \<Rightarrow> u32" where
  "key_byte key i sh = (if i < length key then push_bit sh (ucast (key ! i)) else 0)"

definition key_word :: "u8 list \<Rightarrow> nat \<Rightarrow> u32" where
  "key_word key i = key_byte key i 0 + key_byte key (i + 1) 8 + key_byte key (i + 2) 16 + key_byte key (i + 3) 24"

function HASH_JEN_loop :: "u8 list \<Rightarrow> u32 \<times> u32 \<times> u32 \<Rightarrow> u8 list \<times> (u32 \<times> u32 \<times> u32)" where
  "HASH_JEN_loop key (i, j, hv) =
    (if 12 \<le> length key
     then HASH_JEN_loop (drop 12 key)
            (HASH_JEN_MIX (i + key_word key 0, j + key_word key 4, hv + key_word key 8))
     else (key, (i, j, hv)))"
  by pat_completeness auto

termination
  by (relation "measure (\<lambda>(key, _). length key)") auto

declare HASH_JEN_loop.simps [simp del]

definition HASH_JEN :: "u8 list \<Rightarrow> u32" where
  "HASH_JEN key =
    (case HASH_JEN_loop key (0x9e3779b9, 0x9e3779b9, 0xfeedbeef) of (rest, (i, j, hv)) \<Rightarrow>
       let hv = hv + of_nat (length key);
           hv = hv + key_byte rest 10 24 + key_byte rest 9 16 + key_byte rest 8 8;
           j = j + key_byte rest 7 24 + key_byte rest 6 16 + key_byte rest 5 8 + key_byte rest 4 0;
           i = i + key_byte rest 3 24 + key_byte rest 2 16 + key_byte rest 1 8 + key_byte rest 0 0
       in snd (snd (HASH_JEN_MIX (i, j, hv))))"

text \<open>The bytes of an \<open>int\<close> in memory (little endian).\<close>

definition int_bytes :: "i32 \<Rightarrow> u8 list" where
  "int_bytes k = [ucast k, ucast (drop_bit 8 k), ucast (drop_bit 16 k), ucast (drop_bit 24 k)]"

definition HASH_VALUE_INT :: "i32 \<Rightarrow> u32" where
  "HASH_VALUE_INT k = HASH_JEN (int_bytes k)"

definition sizeof_int :: u32 where
  "sizeof_int = 4"

definition HASH_TO_BKT :: "u32 \<Rightarrow> u32 \<Rightarrow> nat" where
  "HASH_TO_BKT hv num_bkts = unat (hv AND (num_bkts - 1))"

section \<open>Finding\<close>

text \<open>Reading the table through \<open>head\<close>, and a bucket by its index.\<close>

definition head_tbl :: "'a hash_state_scheme \<Rightarrow> UT_hash_table res" where
  "head_tbl h = (if android_buffer_table h = NULL then Inl NullDeref
                 else case tbl h of None \<Rightarrow> Inl BadDeref | Some t \<Rightarrow> Inr t)"

definition bucket_at :: "UT_hash_bucket list \<Rightarrow> nat \<Rightarrow> UT_hash_bucket res" where
  "bucket_at bs i = (if i < length bs then Inr (bs ! i) else Inl BadDeref)"

fun HASH_FIND_IN_BKT :: "nat \<Rightarrow> (addr \<rightharpoonup> android_buffer_t) \<Rightarrow> i32 \<Rightarrow> u32 \<Rightarrow> addr \<Rightarrow> addr res" where
  "HASH_FIND_IN_BKT 0 m key hv out = Inl LoopBound"
| "HASH_FIND_IN_BKT (Suc fuel) m key hv out =
    (if out = NULL then Inr NULL
     else and_then (deref m out) (\<lambda>e.
       if hashv e = hv \<and> keylen e = sizeof_int \<and> buf_fd e = key then Inr out
       else HASH_FIND_IN_BKT fuel m key hv (hh_next e)))"

definition HASH_FIND_INT :: "i32 \<Rightarrow> 'a hash_state_scheme \<Rightarrow> addr res" where
  "HASH_FIND_INT key h =
    (if android_buffer_table h = NULL then Inr NULL
     else and_then (head_tbl h) (\<lambda>t.
       let hv = HASH_VALUE_INT key in
       and_then (bucket_at (buckets t) (HASH_TO_BKT hv (num_buckets t))) (\<lambda>b.
         HASH_FIND_IN_BKT (Suc (brk h)) (nodes h) key hv (hh_head b))))"

definition HASH_COUNT :: "'a hash_state_scheme \<Rightarrow> u32 res" where
  "HASH_COUNT h = (if android_buffer_table h \<noteq> NULL
                   then and_then (head_tbl h) (\<lambda>t. Inr (num_items t)) else Inr 0)"

text \<open>\<open>HASH_ITER\<close> with the body of \<open>find_buffer_v\<close>: the loop variables \<open>el\<close> and \<open>tmp\<close> as the macro
  advances them.\<close>

definition next_or_NULL :: "(addr \<rightharpoonup> android_buffer_t) \<Rightarrow> addr \<Rightarrow> addr res" where
  "next_or_NULL m p = (if p \<noteq> NULL then and_then (deref m p) (\<lambda>e. Inr (app_next e)) else Inr NULL)"

fun HASH_ITER_bo :: "nat \<Rightarrow> (addr \<rightharpoonup> android_buffer_t) \<Rightarrow> addr \<Rightarrow> addr \<Rightarrow> addr \<Rightarrow> addr res" where
  "HASH_ITER_bo 0 m v el tmp = Inl LoopBound"
| "HASH_ITER_bo (Suc fuel) m v el tmp =
    (if el = NULL then Inr NULL
     else and_then (deref m el) (\<lambda>e.
       if buf_bo e = v then Inr el
       else and_then (next_or_NULL m tmp) (\<lambda>tmp'. HASH_ITER_bo fuel m v tmp tmp')))"

section \<open>Adding\<close>

definition empty_bucket :: UT_hash_bucket where
  "empty_bucket = \<lparr>hh_head = NULL, count = 0, expand_mult = 0\<rparr>"

definition HASH_MAKE_TABLE :: "oom \<Rightarrow> addr \<Rightarrow> 'a hash_state_scheme \<Rightarrow> 'a hash_state_scheme res" where
  "HASH_MAKE_TABLE oom add h =
    (case malloc oom sizeof_UT_hash_table h of (p, h1) \<Rightarrow>
     if p = NULL then Inl OutOfMemory
     else case malloc oom (unat HASH_INITIAL_NUM_BUCKETS * sizeof_UT_hash_bucket) h1 of (q, h2) \<Rightarrow>
     if q = NULL then Inl OutOfMemory
     else Inr (h2\<lparr>tbl := Some \<lparr>
       buckets = replicate (unat HASH_INITIAL_NUM_BUCKETS) empty_bucket,
       num_buckets = HASH_INITIAL_NUM_BUCKETS, log2_num_buckets = HASH_INITIAL_NUM_BUCKETS_LOG2,
       num_items = 0, tail = add, ideal_chain_maxlen = 0, nonideal_items = 0,
       ineff_expands = 0, noexpand = 0\<rparr>\<rparr>))"

definition HASH_APPEND_LIST :: "addr \<Rightarrow> 'a hash_state_scheme \<Rightarrow> 'a hash_state_scheme res" where
  "HASH_APPEND_LIST add h =
    and_then (head_tbl h) (\<lambda>t.
    and_then (update_at add (\<lambda>e. e\<lparr>app_next := NULL, app_prev := tail t\<rparr>) (nodes h)) (\<lambda>m1.
    and_then (update_at (tail t) (\<lambda>e. e\<lparr>app_next := add\<rparr>) m1) (\<lambda>m2.
      Inr (h\<lparr>nodes := m2, tbl := Some (t\<lparr>tail := add\<rparr>)\<rparr>))))"

text \<open>Putting a node in front of a chain whose head is \<open>first\<close> (the link updates of
  \<open>HASH_ADD_TO_BKT\<close> and of the inner loop of \<open>HASH_EXPAND_BUCKETS\<close>).\<close>

definition chain_push :: "addr \<Rightarrow> addr \<Rightarrow> (addr \<rightharpoonup> android_buffer_t) \<Rightarrow> (addr \<rightharpoonup> android_buffer_t) res" where
  "chain_push p first m =
    and_then (update_at p (\<lambda>e. e\<lparr>hh_next := first, hh_prev := NULL\<rparr>) m) (\<lambda>m1.
    if first \<noteq> NULL then update_at first (\<lambda>e. e\<lparr>hh_prev := p\<rparr>) m1 else Inr m1)"

text \<open>
  \<open>HASH_EXPAND_BUCKETS\<close>: the inner loop moves the nodes of one old chain, from \<open>p\<close> on, to the
  fronts of their new chains; the outer loop runs over the old buckets.
\<close>

fun expand_chain :: "nat \<Rightarrow> u32 \<Rightarrow> u32 \<Rightarrow> addr \<Rightarrow> (addr \<rightharpoonup> android_buffer_t) \<times> UT_hash_bucket list \<times> u32
    \<Rightarrow> ((addr \<rightharpoonup> android_buffer_t) \<times> UT_hash_bucket list \<times> u32) res" where
  "expand_chain 0 nb2 ideal p s = Inl LoopBound"
| "expand_chain (Suc fuel) nb2 ideal p (m, bs, nonideal) =
    (if p = NULL then Inr (m, bs, nonideal)
     else and_then (deref m p) (\<lambda>e.
       let nxt = hh_next e; i = HASH_TO_BKT (hashv e) nb2 in
       and_then (bucket_at bs i) (\<lambda>b.
       let c = count b + 1;
           over = (c > ideal);
           nonideal' = (if over then nonideal + 1 else nonideal);
           mult' = (if over \<and> c > expand_mult b * ideal then expand_mult b + 1 else expand_mult b)
       in
       and_then (chain_push p (hh_head b) m) (\<lambda>m1.
         expand_chain fuel nb2 ideal nxt
           (m1, bs[i := \<lparr>hh_head = p, count = c, expand_mult = mult'\<rparr>], nonideal')))))"

fun expand_buckets :: "nat \<Rightarrow> u32 \<Rightarrow> u32 \<Rightarrow> UT_hash_bucket list \<Rightarrow> nat list
    \<Rightarrow> (addr \<rightharpoonup> android_buffer_t) \<times> UT_hash_bucket list \<times> u32
    \<Rightarrow> ((addr \<rightharpoonup> android_buffer_t) \<times> UT_hash_bucket list \<times> u32) res" where
  "expand_buckets fuel nb2 ideal old [] s = Inr s"
| "expand_buckets fuel nb2 ideal old (i # is) s =
    and_then (bucket_at old i) (\<lambda>b.
    and_then (expand_chain fuel nb2 ideal (hh_head b) s) (\<lambda>s'.
      expand_buckets fuel nb2 ideal old is s'))"

definition HASH_EXPAND_BUCKETS :: "oom \<Rightarrow> 'a hash_state_scheme \<Rightarrow> 'a hash_state_scheme res" where
  "HASH_EXPAND_BUCKETS oom h =
    and_then (head_tbl h) (\<lambda>t.
    case malloc oom (sizeof_UT_hash_bucket * unat (num_buckets t) * 2) h of (p, h1) \<Rightarrow>
    if p = NULL then Inl OutOfMemory
    else
      let ideal = drop_bit (unat (log2_num_buckets t + 1)) (num_items t)
                  + (if num_items t AND (num_buckets t * 2 - 1) \<noteq> 0 then 1 else 0)
      in
      and_then (expand_buckets (Suc (brk h1)) (num_buckets t * 2) ideal (buckets t)
                  [0 ..< unat (num_buckets t)]
                  (nodes h1, replicate (unat (num_buckets t) * 2) empty_bucket, 0)) (\<lambda>(m, bs, nonideal).
      let ineff = (if nonideal > drop_bit 1 (num_items t) then ineff_expands t + 1 else 0) in
      Inr (h1\<lparr>nodes := m, tbl := Some (t\<lparr>buckets := bs, num_buckets := num_buckets t * 2,
             log2_num_buckets := log2_num_buckets t + 1, ideal_chain_maxlen := ideal,
             nonideal_items := nonideal, ineff_expands := ineff,
             noexpand := (if ineff > 1 then 1 else noexpand t)\<rparr>)\<rparr>)))"

definition HASH_ADD_TO_BKT :: "oom \<Rightarrow> nat \<Rightarrow> addr \<Rightarrow> 'a hash_state_scheme \<Rightarrow> 'a hash_state_scheme res" where
  "HASH_ADD_TO_BKT oom i addhh h =
    and_then (head_tbl h) (\<lambda>t.
    and_then (bucket_at (buckets t) i) (\<lambda>b.
    let c = count b + 1 in
    and_then (chain_push addhh (hh_head b) (nodes h)) (\<lambda>m1.
    let h' = h\<lparr>nodes := m1, tbl := Some (t\<lparr>buckets := (buckets t)[i := b\<lparr>hh_head := addhh, count := c\<rparr>]\<rparr>)\<rparr> in
    if c \<ge> (expand_mult b + 1) * HASH_BKT_CAPACITY_THRESH \<and> noexpand t = 0
    then HASH_EXPAND_BUCKETS oom h'
    else Inr h')))"

definition HASH_ADD_TO_TABLE :: "oom \<Rightarrow> u32 \<Rightarrow> addr \<Rightarrow> 'a hash_state_scheme \<Rightarrow> 'a hash_state_scheme res" where
  "HASH_ADD_TO_TABLE oom hashval add h =
    and_then (head_tbl h) (\<lambda>t.
    HASH_ADD_TO_BKT oom (HASH_TO_BKT hashval (num_buckets t)) add
      (h\<lparr>tbl := Some (t\<lparr>num_items := num_items t + 1\<rparr>)\<rparr>))"

definition HASH_ADD_KEYPTR_BYHASHVALUE :: "oom \<Rightarrow> u32 \<Rightarrow> addr \<Rightarrow> 'a hash_state_scheme \<Rightarrow> 'a hash_state_scheme res" where
  "HASH_ADD_KEYPTR_BYHASHVALUE oom hashval add h =
    and_then (update_at add (\<lambda>e. e\<lparr>hashv := hashval, keylen := sizeof_int\<rparr>) (nodes h)) (\<lambda>m.
    let h = h\<lparr>nodes := m\<rparr> in
    and_then
      (if android_buffer_table h = NULL
       then and_then (update_at add (\<lambda>e. e\<lparr>app_next := NULL, app_prev := NULL\<rparr>) (nodes h)) (\<lambda>m1.
            and_then (HASH_MAKE_TABLE oom add (h\<lparr>nodes := m1\<rparr>)) (\<lambda>h1.
            Inr (h1\<lparr>android_buffer_table := add\<rparr>)))
       else HASH_APPEND_LIST add h)
      (HASH_ADD_TO_TABLE oom hashval add))"

definition HASH_ADD_INT :: "oom \<Rightarrow> addr \<Rightarrow> 'a hash_state_scheme \<Rightarrow> 'a hash_state_scheme res" where
  "HASH_ADD_INT oom add h =
    and_then (deref (nodes h) add) (\<lambda>e.
      HASH_ADD_KEYPTR_BYHASHVALUE oom (HASH_VALUE_INT (buf_fd e)) add h)"

section \<open>Deleting\<close>

definition HASH_DEL_IN_BKT :: "nat \<Rightarrow> addr \<Rightarrow> 'a hash_state_scheme \<Rightarrow> 'a hash_state_scheme res" where
  "HASH_DEL_IN_BKT i delhh h =
    and_then (head_tbl h) (\<lambda>t.
    and_then (bucket_at (buckets t) i) (\<lambda>b.
    and_then (deref (nodes h) delhh) (\<lambda>e.
    let b' = b\<lparr>hh_head := (if hh_head b = delhh then hh_next e else hh_head b), count := count b - 1\<rparr> in
    and_then (if hh_prev e \<noteq> NULL then update_at (hh_prev e) (\<lambda>x. x\<lparr>hh_next := hh_next e\<rparr>) (nodes h)
              else Inr (nodes h)) (\<lambda>m1.
    and_then (if hh_next e \<noteq> NULL then update_at (hh_next e) (\<lambda>x. x\<lparr>hh_prev := hh_prev e\<rparr>) m1
              else Inr m1) (\<lambda>m2.
      Inr (h\<lparr>nodes := m2, tbl := Some (t\<lparr>buckets := (buckets t)[i := b']\<rparr>)\<rparr>))))))"

definition HASH_DELETE_HH :: "addr \<Rightarrow> 'a hash_state_scheme \<Rightarrow> 'a hash_state_scheme res" where
  "HASH_DELETE_HH del h =
    and_then (deref (nodes h) del) (\<lambda>e.
    and_then (head_tbl h) (\<lambda>t.
    if app_prev e = NULL \<and> app_next e = NULL
    then Inr (h\<lparr>tbl := None, android_buffer_table := NULL\<rparr>)
    else
      let tail' = (if del = tail t then app_prev e else tail t);
          head' = (if app_prev e \<noteq> NULL then android_buffer_table h else app_next e)
      in
      and_then (if app_prev e \<noteq> NULL then update_at (app_prev e) (\<lambda>x. x\<lparr>app_next := app_next e\<rparr>) (nodes h)
                else Inr (nodes h)) (\<lambda>m1.
      and_then (if app_next e \<noteq> NULL then update_at (app_next e) (\<lambda>x. x\<lparr>app_prev := app_prev e\<rparr>) m1
                else Inr m1) (\<lambda>m2.
      and_then (HASH_DEL_IN_BKT (HASH_TO_BKT (hashv e) (num_buckets t)) del
                  (h\<lparr>nodes := m2, android_buffer_table := head', tbl := Some (t\<lparr>tail := tail'\<rparr>)\<rparr>)) (\<lambda>h1.
      and_then (head_tbl h1) (\<lambda>t1.
        Inr (h1\<lparr>tbl := Some (t1\<lparr>num_items := num_items t1 - 1\<rparr>)\<rparr>)))))))"

section \<open>The invariant\<close>

text \<open>A bucket's chain, and all buckets: chain \<open>i\<close> holds exactly the table's nodes that hash to \<open>i\<close>.\<close>

definition chain_ok :: "(addr \<rightharpoonup> android_buffer_t) \<Rightarrow> UT_hash_bucket \<Rightarrow> addr list \<Rightarrow> bool" where
  "chain_ok m b c \<longleftrightarrow> dll (fld hh_next m) (fld hh_prev m) NULL (hh_head b) c \<and> distinct c
     \<and> count b = of_nat (length c)"

definition in_bkt :: "(addr \<rightharpoonup> android_buffer_t) \<Rightarrow> addr set \<Rightarrow> u32 \<Rightarrow> nat \<Rightarrow> addr set" where
  "in_bkt m X nb i = {a \<in> X. HASH_TO_BKT (fld hashv m a) nb = i}"

definition buckets_ok :: "(addr \<rightharpoonup> android_buffer_t) \<Rightarrow> addr set \<Rightarrow> u32 \<Rightarrow> UT_hash_bucket list \<Rightarrow> addr list list \<Rightarrow> bool" where
  "buckets_ok m X nb bs cs \<longleftrightarrow> length cs = length bs \<and> X \<subseteq> dom m
     \<and> (\<forall>i < length bs. chain_ok m (bs ! i) (cs ! i) \<and> set (cs ! i) = in_bkt m X nb i)"

definition table_wf :: "UT_hash_table \<Rightarrow> bool" where
  "table_wf t \<longleftrightarrow> unat (log2_num_buckets t) \<le> 31 \<and> num_buckets t = 2 ^ unat (log2_num_buckets t)
     \<and> length (buckets t) = unat (num_buckets t)"

definition key_ok :: "(addr \<rightharpoonup> android_buffer_t) \<Rightarrow> addr \<Rightarrow> bool" where
  "key_ok m a \<longleftrightarrow> fld hashv m a = HASH_VALUE_INT (fld buf_fd m a) \<and> fld keylen m a = sizeof_int"

definition app_ok :: "(addr \<rightharpoonup> android_buffer_t) \<Rightarrow> addr \<Rightarrow> addr \<Rightarrow> addr list \<Rightarrow> bool" where
  "app_ok m front back xs \<longleftrightarrow> xs \<noteq> [] \<and> dll (fld app_next m) (fld app_prev m) NULL front xs \<and> distinct xs
     \<and> back = last xs \<and> set xs \<subseteq> dom m"

definition heap_ok :: "'a hash_state_scheme \<Rightarrow> bool" where
  "heap_ok h \<longleftrightarrow> dom (nodes h) \<subseteq> {1..brk h}"

definition table_ok :: "(addr \<rightharpoonup> android_buffer_t) \<Rightarrow> UT_hash_table \<Rightarrow> addr list \<Rightarrow> bool" where
  "table_ok m t xs \<longleftrightarrow> table_wf t \<and> num_items t = of_nat (length xs) \<and> (\<forall>a \<in> set xs. key_ok m a)
     \<and> (\<exists>cs. buckets_ok m (set xs) (num_buckets t) (buckets t) cs)"

text \<open>\<open>hash_inv h xs\<close>: the table is well formed and holds the elements \<open>xs\<close>, in application order.\<close>

definition hash_inv :: "'a hash_state_scheme \<Rightarrow> addr list \<Rightarrow> bool" where
  "hash_inv h xs \<longleftrightarrow> heap_ok h \<and>
    (if android_buffer_table h = NULL then xs = [] \<and> tbl h = None
     else \<exists>t. tbl h = Some t \<and> app_ok (nodes h) (android_buffer_table h) (tail t) xs
            \<and> table_ok (nodes h) t xs)"

section \<open>Updates that leave the application order alone\<close>

definition strip_hh :: "android_buffer_t \<Rightarrow> android_buffer_t" where
  "strip_hh n = n\<lparr>hh_prev := NULL, hh_next := NULL\<rparr>"

definition app_view :: "(addr \<rightharpoonup> android_buffer_t) \<Rightarrow> addr \<Rightarrow> android_buffer_t option" where
  "app_view m a = map_option strip_hh (m a)"

lemma app_view_upd [simp]: "app_view (m(a \<mapsto> n)) = (app_view m)(a \<mapsto> strip_hh n)"
  by (auto simp: app_view_def fun_eq_iff)

lemma app_view_Some: "m a = Some n \<Longrightarrow> app_view m a = Some (strip_hh n)"
  by (simp add: app_view_def)

lemma app_view_dom:
  assumes "app_view m' = app_view m"
  shows "dom m' = dom m"
proof -
  have "m' a = None \<longleftrightarrow> m a = None" for a
    using fun_cong [OF assms, of a] by (cases "m a"; cases "m' a") (auto simp: app_view_def)
  then show ?thesis by (metis domIff subsetI subset_antisym)
qed

lemma app_view_fld:
  assumes "app_view m' = app_view m" and f: "\<And>n. f (strip_hh n) = f n"
  shows "fld f m' = fld f m"
proof
  fix a
  show "fld f m' a = fld f m a"
    using fun_cong [OF assms(1), of a] f
    by (cases "m a"; cases "m' a") (auto simp: app_view_def fld_def, metis+)
qed

lemma strip_hh_fields [simp]:
  "buf_fd (strip_hh n) = buf_fd n" "buf_bo (strip_hh n) = buf_bo n"
  "app_prev (strip_hh n) = app_prev n" "app_next (strip_hh n) = app_next n"
  "hashv (strip_hh n) = hashv n" "keylen (strip_hh n) = keylen n"
  by (simp_all add: strip_hh_def)

lemma app_view_flds:
  assumes "app_view m' = app_view m"
  shows "fld buf_fd m' = fld buf_fd m" "fld buf_bo m' = fld buf_bo m"
    "fld app_prev m' = fld app_prev m" "fld app_next m' = fld app_next m"
    "fld hashv m' = fld hashv m" "fld keylen m' = fld keylen m"
  by (rule app_view_fld [OF assms], simp)+

lemma app_view_app_ok:
  assumes "app_view m' = app_view m"
  shows "app_ok m' front back xs = app_ok m front back xs"
  unfolding app_ok_def app_view_flds [OF assms] app_view_dom [OF assms] by (rule refl)

lemma app_view_key_ok:
  assumes "app_view m' = app_view m"
  shows "key_ok m' a = key_ok m a"
  unfolding key_ok_def app_view_flds [OF assms] by (rule refl)

lemma app_view_in_bkt:
  assumes "app_view m' = app_view m"
  shows "in_bkt m' X nb i = in_bkt m X nb i"
  unfolding in_bkt_def app_view_flds [OF assms] by (rule refl)

section \<open>Chains\<close>

lemma HASH_TO_BKT_less: "nb \<noteq> 0 \<Longrightarrow> HASH_TO_BKT hv nb < unat nb"
  by (simp add: HASH_TO_BKT_def word_and_less_of_nonzero)

lemma buckets_okD:
  assumes "buckets_ok m X nb bs cs" "i < length bs"
  shows "dll (fld hh_next m) (fld hh_prev m) NULL (hh_head (bs ! i)) (cs ! i)" "distinct (cs ! i)"
    "count (bs ! i) = of_nat (length (cs ! i))" "set (cs ! i) = in_bkt m X nb i" "X \<subseteq> dom m"
    "set (cs ! i) \<subseteq> dom m" "length cs = length bs"
  using assms by (auto simp: buckets_ok_def chain_ok_def in_bkt_def)

lemma chain_ok_cong:
  assumes "\<And>a. a \<in> set c \<Longrightarrow> m' a = m a"
  shows "chain_ok m' b c = chain_ok m b c"
proof -
  have "fld f m' a = fld f m a" if "a \<in> set c" for f :: "android_buffer_t \<Rightarrow> addr" and a
    using assms that by (simp add: fld_def)
  then have "dll (fld hh_next m') (fld hh_prev m') NULL (hh_head b) c
      = dll (fld hh_next m) (fld hh_prev m) NULL (hh_head b) c"
    by (intro dll_cong) auto
  then show ?thesis by (simp add: chain_ok_def)
qed

lemma chain_length_le:
  assumes "distinct c" "set c \<subseteq> dom m" "dom m \<subseteq> {1..n}"
  shows "length c \<le> n"
proof -
  have "card (set c) \<le> card {1..n}" using assms by (intro card_mono) auto
  then show ?thesis using assms by (simp add: distinct_card)
qed

lemma chain_push_ok:
  assumes ok: "buckets_ok m X nb bs cs" and a: "a \<notin> X" "m a = Some e" "a \<noteq> NULL"
    and i: "i = HASH_TO_BKT (hashv e) nb" "i < length bs"
  obtains m' where "chain_push a (hh_head (bs ! i)) m = Inr m'" "app_view m' = app_view m"
    "\<And>x. x \<notin> insert a X \<Longrightarrow> m' x = m x"
    "\<And>u. buckets_ok m' (insert a X) nb (bs[i := \<lparr>hh_head = a, count = count (bs ! i) + 1, expand_mult = u\<rparr>])
       (cs[i := a # cs ! i])"
proof -
  let ?hd = "hh_head (bs ! i)"
  let ?m1 = "m(a \<mapsto> e\<lparr>hh_next := ?hd, hh_prev := NULL\<rparr>)"
  note c = buckets_okD [OF ok i(2)]
  have hd: "?hd \<in> set (cs ! i)" "?hd \<noteq> a" "\<exists>e'. m ?hd = Some e'" if "?hd \<noteq> NULL"
  proof -
    show "?hd \<in> set (cs ! i)" using dll_head [OF c(1) that] by blast
    then show "?hd \<noteq> a" "\<exists>e'. m ?hd = Some e'" using c(4,6) a(1) by (auto simp: in_bkt_def)
  qed
  define m' where "m' = (if ?hd = NULL then ?m1 else ?m1(?hd \<mapsto> (the (m ?hd))\<lparr>hh_prev := a\<rparr>))"
  have push: "chain_push a ?hd m = Inr m'"
    using a hd by (auto simp: chain_push_def m'_def)
  have view: "app_view m' = app_view m"
    using a hd app_view_Some [of m]
    by (auto simp: m'_def fun_eq_iff app_view_def strip_hh_def)
  have out: "m' x = m x" if "x \<notin> insert a X" for x
    using that hd c(4) by (auto simp: m'_def in_bkt_def)
  have bkts: "in_bkt m' (insert a X) nb j = (if j = i then insert a (in_bkt m X nb j) else in_bkt m X nb j)" for j
    unfolding app_view_in_bkt [OF view] using a i by (auto simp: in_bkt_def)
  have ins: "chain_ok m' \<lparr>hh_head = a, count = count (bs ! i) + 1, expand_mult = u\<rparr> (a # cs ! i)" for u
    unfolding chain_ok_def
  proof (intro conjI)
    have "a \<notin> set (cs ! i)" using a c(4) by (auto simp: in_bkt_def)
    then show "distinct (a # cs ! i)" using c(2) by simp
    show "dll (fld hh_next m') (fld hh_prev m') NULL (hh_head \<lparr>hh_head = a, count = count (bs ! i) + 1, expand_mult = u\<rparr>)
       (a # cs ! i)"
      unfolding UT_hash_bucket.simps
    proof (rule dll_push [OF c(1,2) \<open>a \<notin> set (cs ! i)\<close> a(3)])
      show "fld hh_next m' a = ?hd" "fld hh_prev m' a = NULL"
        using hd by (auto simp: m'_def fld_def)
      show "fld hh_prev m' ?hd = a" if "?hd \<noteq> NULL" using hd [OF that] that by (simp add: m'_def)
      show "fld hh_next m' b = fld hh_next m b" if "b \<in> set (cs ! i)" for b
        using that \<open>a \<notin> set (cs ! i)\<close> hd by (auto simp: m'_def fld_def)
      show "fld hh_prev m' b = fld hh_prev m b" if "b \<in> set (cs ! i)" "b \<noteq> ?hd" for b
        using that \<open>a \<notin> set (cs ! i)\<close> hd by (auto simp: m'_def fld_def)
    qed
    show "count \<lparr>hh_head = a, count = count (bs ! i) + 1, expand_mult = u\<rparr> = of_nat (length (a # cs ! i))"
      using c(3) by simp
  qed
  have other: "chain_ok m' (bs ! j) (cs ! j)" if "j < length bs" "j \<noteq> i" for j
  proof -
    have "set (cs ! j) \<inter> set (cs ! i) = {}" "a \<notin> set (cs ! j)"
      using buckets_okD(4) [OF ok that(1)] c(4) that(2) a(1) by (auto simp: in_bkt_def)
    then have "m' x = m x" if "x \<in> set (cs ! j)" for x
      using that hd by (auto simp: m'_def)
    then have "chain_ok m' (bs ! j) (cs ! j) = chain_ok m (bs ! j) (cs ! j)" by (rule chain_ok_cong)
    then show ?thesis using ok that by (simp add: buckets_ok_def)
  qed
  have "buckets_ok m' (insert a X) nb (bs[i := \<lparr>hh_head = a, count = count (bs ! i) + 1, expand_mult = u\<rparr>])
       (cs[i := a # cs ! i])" for u
    unfolding buckets_ok_def
  proof (intro conjI allI impI)
    show "length (cs[i := a # cs ! i]) = length (bs[i := \<lparr>hh_head = a, count = count (bs ! i) + 1, expand_mult = u\<rparr>])"
      using c(7) by simp
    show "insert a X \<subseteq> dom m'" using c(5) a(2) app_view_dom [OF view] by auto
  next
    fix j assume j: "j < length (bs[i := \<lparr>hh_head = a, count = count (bs ! i) + 1, expand_mult = u\<rparr>])"
    then show "chain_ok m' (bs[i := \<lparr>hh_head = a, count = count (bs ! i) + 1, expand_mult = u\<rparr>] ! j)
       (cs[i := a # cs ! i] ! j)"
      using ins [of u] other [of j] c(7) by (cases "j = i") auto
    show "set (cs[i := a # cs ! i] ! j) = in_bkt m' (insert a X) nb j"
      using j c(4,7) buckets_okD(4) [OF ok, of j] by (cases "j = i") (auto simp: bkts)
  qed
  with push view out that show ?thesis by blast
qed

section \<open>What every operation leaves alone\<close>

text \<open>The key and value of a node, and the part of the state the hash operations leave alone.\<close>

definition payload :: "(addr \<rightharpoonup> android_buffer_t) \<Rightarrow> addr \<Rightarrow> (i32 \<times> addr) option" where
  "payload m a = map_option (\<lambda>n. (buf_fd n, buf_bo n)) (m a)"

definition hash_frame :: "'a hash_state_scheme \<Rightarrow> 'a hash_state_scheme \<Rightarrow> bool" where
  "hash_frame h h' \<longleftrightarrow> h' = h\<lparr>brk := brk h', nodes := nodes h',
     android_buffer_table := android_buffer_table h', tbl := tbl h'\<rparr>
     \<and> brk h \<le> brk h' \<and> payload (nodes h') = payload (nodes h)"

lemma payload_dom:
  assumes "payload m' = payload m"
  shows "dom m' = dom m"
proof -
  have "m' a = None \<longleftrightarrow> m a = None" for a
    using fun_cong [OF assms, of a] by (cases "m a"; cases "m' a") (auto simp: payload_def)
  then show ?thesis by (metis domIff subsetI subset_antisym)
qed

lemma payload_fld:
  assumes "payload m' = payload m"
  shows "fld buf_fd m' = fld buf_fd m" "fld buf_bo m' = fld buf_bo m"
proof -
  have "fld buf_fd m' a = fld buf_fd m a \<and> fld buf_bo m' a = fld buf_bo m a" for a
    using fun_cong [OF assms, of a] by (cases "m a"; cases "m' a") (auto simp: payload_def fld_def)
  then show "fld buf_fd m' = fld buf_fd m" "fld buf_bo m' = fld buf_bo m" by auto
qed

lemma payload_upd:
  "m a = Some e \<Longrightarrow> buf_fd e' = buf_fd e \<Longrightarrow> buf_bo e' = buf_bo e \<Longrightarrow> payload (m(a \<mapsto> e')) = payload m"
  by (auto simp: payload_def fun_eq_iff)

lemma app_view_payload:
  assumes "app_view m' = app_view m"
  shows "payload m' = payload m"
proof -
  have "payload n = (\<lambda>a. map_option (\<lambda>n. (buf_fd n, buf_bo n)) (app_view n a))" for n
    by (simp add: payload_def app_view_def fun_eq_iff option.map_comp o_def)
  with assms show ?thesis by metis
qed

lemma hash_frame_refl: "hash_frame h h"
  by (simp add: hash_frame_def)

lemma hash_frame_trans: "hash_frame h h' \<Longrightarrow> hash_frame h' h'' \<Longrightarrow> hash_frame h h''"
  unfolding hash_frame_def by (cases h; cases h'; cases h'') auto

text \<open>Taking a node out of its chain.\<close>

lemma chain_remove:
  assumes ok: "buckets_ok m X nb bs cs" and a: "a \<in> X" "m a = Some e"
    and i: "i = HASH_TO_BKT (hashv e) nb" "i < length bs"
    and links: "\<And>b. b \<in> set (cs ! i) - {a} \<Longrightarrow> fld hh_next m' b = (if b = hh_prev e then hh_next e else fld hh_next m b)"
      "\<And>b. b \<in> set (cs ! i) - {a} \<Longrightarrow> fld hh_prev m' b = (if b = hh_next e then hh_prev e else fld hh_prev m b)"
      "\<And>b. b \<notin> set (cs ! i) \<Longrightarrow> m' b = m b"
    and view: "app_view m' = app_view m"
  shows "buckets_ok m' (X - {a}) nb
    (bs[i := (bs ! i)\<lparr>hh_head := (if hh_head (bs ! i) = a then hh_next e else hh_head (bs ! i)),
                      count := count (bs ! i) - 1\<rparr>])
    (cs[i := remove1 a (cs ! i)])"
proof -
  note c = buckets_okD [OF ok i(2)]
  have ac: "a \<in> set (cs ! i)" using a i(1) c(4) by (simp add: in_bkt_def)
  then obtain ys zs where split: "cs ! i = ys @ a # zs" "a \<notin> set ys" by (metis split_list_first)
  then have rm: "remove1 a (cs ! i) = ys @ zs" "a \<notin> set zs" "distinct (ys @ zs)"
    using c(2) by (auto simp: remove1_append)
  let ?b = "(bs ! i)\<lparr>hh_head := (if hh_head (bs ! i) = a then hh_next e else hh_head (bs ! i)),
                      count := count (bs ! i) - 1\<rparr>"
  have nonnull: "NULL \<notin> set (cs ! i)" using dll_nonnull [OF c(1)] by blast
  have dll': "dll (fld hh_next m') (fld hh_prev m') NULL (if ys = [] then fld hh_next m a else hh_head (bs ! i)) (ys @ zs)"
  proof (rule dll_remove [where nx = "fld hh_next m" and pv = "fld hh_prev m" and a = a, THEN conjunct1])
    show "dll (fld hh_next m) (fld hh_prev m) NULL (hh_head (bs ! i)) (ys @ a # zs)" "distinct (ys @ a # zs)"
      using c(1,2) unfolding split(1) .
    show "NULL \<notin> set (ys @ a # zs)" using nonnull unfolding split(1) .
    fix b assume "b \<in> set (ys @ zs)"
    then have b: "b \<in> set (cs ! i) - {a}" using split rm by auto
    show "fld hh_next m' b = (if b = fld hh_prev m a then fld hh_next m a else fld hh_next m b)"
      using links(1) [OF b] a(2) by simp
    show "fld hh_prev m' b = (if b = fld hh_next m a then fld hh_prev m a else fld hh_prev m b)"
      using links(2) [OF b] a(2) by simp
  qed
  have head: "(hh_head (bs ! i) = a) = (ys = [])"
    using c(1) split by (cases ys) auto
  have "chain_ok m' ?b (ys @ zs)"
    using dll' head rm c(3) a(2) split by (cases "ys = []") (simp_all add: chain_ok_def)
  moreover have "chain_ok m' (bs ! j) (cs ! j)" if "j < length bs" "j \<noteq> i" for j
  proof -
    have "set (cs ! j) \<inter> set (cs ! i) = {}"
      using buckets_okD(4) [OF ok that(1)] c(4) that(2) by (auto simp: in_bkt_def)
    then have "chain_ok m' (bs ! j) (cs ! j) = chain_ok m (bs ! j) (cs ! j)"
      using links(3) by (intro chain_ok_cong) blast
    then show ?thesis using ok that by (simp add: buckets_ok_def)
  qed
  moreover have "in_bkt m (X - {a}) nb j = in_bkt m X nb j - (if j = i then {a} else {})" for j
    using a i by (auto simp: in_bkt_def)
  moreover have "set (ys @ zs) = set (cs ! i) - {a}" using split rm by auto
  ultimately show ?thesis
    using c(5,7) app_view_dom [OF view] buckets_okD(4) [OF ok] rm(1)
    by (auto simp: buckets_ok_def nth_list_update app_view_in_bkt [OF view])
qed

section \<open>Expansion\<close>

lemma expand_chain_ok:
  assumes "dll (fld hh_next m0) (fld hh_prev m0) q p c" "distinct c" "set c \<subseteq> dom m0"
    and "\<And>a. a \<in> set c \<Longrightarrow> m a = m0 a" "P \<inter> set c = {}" "buckets_ok m P nb2 bs cs"
    and "length bs = unat nb2" "nb2 \<noteq> 0" "length c < fuel"
  shows "\<exists>m' bs' ni' cs'. expand_chain fuel nb2 ideal p (m, bs, ni) = Inr (m', bs', ni')
      \<and> buckets_ok m' (P \<union> set c) nb2 bs' cs' \<and> app_view m' = app_view m
      \<and> (\<forall>x. x \<notin> P \<union> set c \<longrightarrow> m' x = m x) \<and> length bs' = unat nb2"
  using assms
proof (induction c arbitrary: fuel q p m P bs cs ni)
  case Nil
  then show ?case by (cases fuel) auto
next
  case (Cons a c)
  then obtain fuel' where fuel: "fuel = Suc fuel'" "length c < fuel'" by (cases fuel) auto
  from Cons.prems obtain e where e: "m a = Some e" "m0 a = Some e" "p = a" "a \<noteq> NULL" by auto
  let ?i = "HASH_TO_BKT (hashv e) nb2"
  have i: "?i < length bs" using Cons.prems by (simp add: HASH_TO_BKT_less)
  have a: "a \<notin> P" using Cons.prems by auto
  from chain_push_ok [OF Cons.prems(6) a e(1,4) refl i] obtain m1 where
    m1: "chain_push a (hh_head (bs ! ?i)) m = Inr m1" "app_view m1 = app_view m"
      "\<And>x. x \<notin> insert a P \<Longrightarrow> m1 x = m x"
    and ok1: "\<And>u. buckets_ok m1 (insert a P) nb2
       (bs[?i := \<lparr>hh_head = a, count = count (bs ! ?i) + 1, expand_mult = u\<rparr>]) (cs[?i := a # cs ! ?i])"
    by blast
  let ?c = "count (bs ! ?i) + 1"
  let ?u = "if ideal < ?c \<and> expand_mult (bs ! ?i) * ideal < ?c then expand_mult (bs ! ?i) + 1 else expand_mult (bs ! ?i)"
  let ?bs = "bs[?i := \<lparr>hh_head = a, count = ?c, expand_mult = ?u\<rparr>]"
  let ?ni = "if ideal < ?c then ni + 1 else ni"
  have dll: "dll (fld hh_next m0) (fld hh_prev m0) a (hh_next e) c" using Cons.prems(1) e by simp
  have "\<exists>m' bs' ni' cs'. expand_chain fuel' nb2 ideal (hh_next e) (m1, ?bs, ?ni) = Inr (m', bs', ni')
      \<and> buckets_ok m' (insert a P \<union> set c) nb2 bs' cs' \<and> app_view m' = app_view m1
      \<and> (\<forall>x. x \<notin> insert a P \<union> set c \<longrightarrow> m' x = m1 x) \<and> length bs' = unat nb2"
  proof (rule Cons.IH [OF dll _ _ _ _ ok1 _ Cons.prems(8) fuel(2)])
    show "distinct c" "set c \<subseteq> dom m0" "insert a P \<inter> set c = {}" "length ?bs = unat nb2"
      using Cons.prems by auto
    show "m1 x = m0 x" if "x \<in> set c" for x
      using that Cons.prems m1(3) [of x] by auto
  qed
  then obtain m' bs' ni' cs' where res:
      "expand_chain fuel' nb2 ideal (hh_next e) (m1, ?bs, ?ni) = Inr (m', bs', ni')"
      "buckets_ok m' (insert a P \<union> set c) nb2 bs' cs'" "app_view m' = app_view m1"
      "\<And>x. x \<notin> insert a P \<union> set c \<Longrightarrow> m' x = m1 x" "length bs' = unat nb2" by blast
  have "expand_chain fuel nb2 ideal p (m, bs, ni) = Inr (m', bs', ni')"
    using e i m1(1) res(1) by (simp add: fuel(1) bucket_at_def Let_def)
  moreover have "insert a P \<union> set c = P \<union> set (a # c)" by simp
  moreover have "\<forall>x. x \<notin> P \<union> set (a # c) \<longrightarrow> m' x = m x" using res(4) m1(3) by simp
  ultimately show ?case using res(2,3,5) m1(2) by (intro exI conjI) simp_all
qed

lemma expand_buckets_ok:
  assumes "buckets_ok m0 X nb old cs0" "\<And>i. i < length old \<Longrightarrow> length (cs0 ! i) < fuel"
    and "distinct is" "\<And>i. i \<in> set is \<Longrightarrow> i < length old"
    and "\<And>a i. i \<in> set is \<Longrightarrow> a \<in> set (cs0 ! i) \<Longrightarrow> m a = m0 a \<and> a \<notin> P" "buckets_ok m P nb2 bs cs"
    and "length bs = unat nb2" "nb2 \<noteq> 0"
  shows "\<exists>m' bs' ni' cs'. expand_buckets fuel nb2 ideal old is (m, bs, ni) = Inr (m', bs', ni')
      \<and> buckets_ok m' (P \<union> (\<Union>i \<in> set is. set (cs0 ! i))) nb2 bs' cs' \<and> app_view m' = app_view m
      \<and> length bs' = unat nb2"
  using assms(3-)
proof (induction "is" arbitrary: m P bs cs ni)
  case Nil
  then show ?case by auto
next
  case (Cons i "is")
  have i: "i < length old" using Cons.prems by simp
  note c = buckets_okD [OF assms(1) i]
  note len = assms(2) [OF i]
  have "\<exists>m' bs' ni' cs'. expand_chain fuel nb2 ideal (hh_head (old ! i)) (m, bs, ni) = Inr (m', bs', ni')
      \<and> buckets_ok m' (P \<union> set (cs0 ! i)) nb2 bs' cs' \<and> app_view m' = app_view m
      \<and> (\<forall>x. x \<notin> P \<union> set (cs0 ! i) \<longrightarrow> m' x = m x) \<and> length bs' = unat nb2"
    using Cons.prems len by (intro expand_chain_ok [OF c(1,2,6)]) auto
  then obtain m1 bs1 ni1 cs1 where one:
      "expand_chain fuel nb2 ideal (hh_head (old ! i)) (m, bs, ni) = Inr (m1, bs1, ni1)"
      "buckets_ok m1 (P \<union> set (cs0 ! i)) nb2 bs1 cs1" "app_view m1 = app_view m"
      "\<And>x. x \<notin> P \<union> set (cs0 ! i) \<Longrightarrow> m1 x = m x" "length bs1 = unat nb2" by blast
  have disj: "a \<notin> set (cs0 ! i)" if "j \<in> set is" "a \<in> set (cs0 ! j)" for j a
    using that Cons.prems(1) Cons.prems(2) [of j] buckets_okD(4) [OF assms(1), of j] c(4)
    by (auto simp: in_bkt_def)
  have "\<exists>m' bs' ni' cs'. expand_buckets fuel nb2 ideal old is (m1, bs1, ni1) = Inr (m', bs', ni')
      \<and> buckets_ok m' (P \<union> set (cs0 ! i) \<union> (\<Union>i \<in> set is. set (cs0 ! i))) nb2 bs' cs' \<and> app_view m' = app_view m1
      \<and> length bs' = unat nb2"
  proof (rule Cons.IH)
    fix a j assume j: "j \<in> set is" "a \<in> set (cs0 ! j)"
    then have "m a = m0 a" "a \<notin> P" using Cons.prems(3) [of j a] by auto
    then show "m1 a = m0 a \<and> a \<notin> P \<union> set (cs0 ! i)" using disj [OF j] one(4) [of a] by simp
  qed (use Cons.prems one in auto)
  then show ?case using one i by (auto simp: bucket_at_def Un_assoc)
qed

lemma empty_buckets_ok:
  "buckets_ok m {} nb (replicate n empty_bucket) (replicate n [])"
  by (auto simp: buckets_ok_def chain_ok_def in_bkt_def empty_bucket_def)

lemma table_wfD:
  assumes "table_wf t"
  shows "num_buckets t \<noteq> 0" "unat (num_buckets t) = 2 ^ unat (log2_num_buckets t)"
    "length (buckets t) = unat (num_buckets t)" "unat (num_buckets t) \<le> 2 ^ 31"
proof -
  have "unat (2 ^ unat (log2_num_buckets t) :: u32) = 2 ^ unat (log2_num_buckets t)"
    using assms by (simp add: table_wf_def unat_2_power)
  then show u: "unat (num_buckets t) = 2 ^ unat (log2_num_buckets t)"
    using assms by (simp add: table_wf_def)
  then show "num_buckets t \<noteq> 0" by (metis power_not_zero unat_0 zero_neq_numeral)
  show "length (buckets t) = unat (num_buckets t)" using assms by (simp add: table_wf_def)
  have "(2::nat) ^ unat (log2_num_buckets t) \<le> 2 ^ 31"
    using assms by (intro power_increasing) (simp_all add: table_wf_def)
  then show "unat (num_buckets t) \<le> 2 ^ 31" using u by simp
qed

lemma malloc_simps:
  "malloc oom sz h = (p, h') \<Longrightarrow> h' = h\<lparr>brk := Suc (brk h)\<rparr>"
  "malloc oom sz h = (p, h') \<Longrightarrow> p \<noteq> NULL \<Longrightarrow> p = Suc (brk h) \<and> \<not> oom (Suc (brk h)) sz"
  by (auto simp: malloc_def split: if_splits)

lemma expand_ok:
  fixes h :: "'a hash_state_scheme"
  assumes huge: "no_huge_malloc oom" and heap: "heap_ok h" and hd: "android_buffer_table h \<noteq> NULL"
    and t: "tbl h = Some t" "table_ok (nodes h) t xs"
  shows "HASH_EXPAND_BUCKETS oom h = Inl OutOfMemory \<and> oom_after oom h
      \<and> oom (Suc (brk h)) (sizeof_UT_hash_bucket * unat (num_buckets t) * 2) \<or>
    (\<exists>h' t'. HASH_EXPAND_BUCKETS oom h = Inr h' \<and> heap_ok h' \<and> tbl h' = Some t' \<and> table_ok (nodes h') t' xs
       \<and> app_view (nodes h') = app_view (nodes h) \<and> tail t' = tail t
       \<and> num_buckets t' = num_buckets t * 2 \<and> android_buffer_table h' = android_buffer_table h \<and> hash_frame h h')"
proof (cases "oom (Suc (brk h)) (sizeof_UT_hash_bucket * unat (num_buckets t) * 2)")
  case True
  have wf: "table_wf t" using t by (simp add: table_ok_def)
  have "oom_after oom h"
  proof (cases "unat (log2_num_buckets t) = 31")
    case True
    then show ?thesis using wf t(1) by (simp add: oom_after_def table_full_def table_wf_def)
  next
    case False
    then have "(2::nat) ^ unat (log2_num_buckets t) \<le> 2 ^ 30"
      using wf by (intro power_increasing) (simp_all add: table_wf_def)
    then have "sizeof_UT_hash_bucket * unat (num_buckets t) * 2 < 2 ^ 36"
      using table_wfD(2) [OF wf] by (simp add: sizeof_UT_hash_bucket_def)
    then show ?thesis unfolding oom_after_def using starvedI [of oom "Suc (brk h)" _ h] True by blast
  qed
  then show ?thesis using t hd True by (simp add: HASH_EXPAND_BUCKETS_def head_tbl_def malloc_def)
next
  case False
  let ?nb = "num_buckets t" and ?h1 = "h\<lparr>brk := Suc (brk h)\<rparr>"
  have wf: "table_wf t" using t by (simp add: table_ok_def)
  note w = table_wfD [OF wf]
  have "unat (log2_num_buckets t) \<noteq> 31"
    using False huge w(2) unfolding no_huge_malloc_def sizeof_UT_hash_bucket_def by fastforce
  then have lg: "unat (log2_num_buckets t) < 31" using wf by (simp add: table_wf_def)
  have lg1: "unat (log2_num_buckets t + 1) = Suc (unat (log2_num_buckets t))"
    using lg by (simp add: unat_word_ariths)
  have nb2: "?nb * 2 = 2 ^ Suc (unat (log2_num_buckets t))"
    using wf by (simp add: table_wf_def)
  have "unat (2 ^ Suc (unat (log2_num_buckets t)) :: u32) = 2 ^ Suc (unat (log2_num_buckets t))"
    using lg by (intro unat_2_power) simp
  then have unb2: "unat (?nb * 2) = unat ?nb * 2" using w(2) nb2 by simp
  then have nb2_0: "?nb * 2 \<noteq> 0" using w by (metis mult_eq_0_iff unat_eq_0 zero_neq_numeral)
  from t(2) obtain cs0 where cs0: "buckets_ok (nodes h) (set xs) ?nb (buckets t) cs0"
    by (auto simp: table_ok_def)
  define ideal where "ideal = drop_bit (unat (log2_num_buckets t + 1)) (num_items t)
                  + (if num_items t AND (?nb * 2 - 1) \<noteq> 0 then 1 else 0)"
  have len: "length (cs0 ! i) < Suc (brk ?h1)" if "i < length (buckets t)" for i
    using chain_length_le [OF buckets_okD(2,6) [OF cs0 that], of "brk h"] heap by (simp add: heap_ok_def)
  have "\<exists>m' bs' ni' cs'. expand_buckets (Suc (brk ?h1)) (?nb * 2) ideal (buckets t) [0 ..< unat ?nb]
        (nodes ?h1, replicate (unat ?nb * 2) empty_bucket, 0) = Inr (m', bs', ni')
      \<and> buckets_ok m' ({} \<union> (\<Union>i \<in> set [0 ..< unat ?nb]. set (cs0 ! i))) (?nb * 2) bs' cs'
      \<and> app_view m' = app_view (nodes ?h1) \<and> length bs' = unat (?nb * 2)"
    using heap w unb2 nb2_0
    by (intro expand_buckets_ok [OF cs0 len, where cs = "replicate (unat ?nb * 2) []"])
      (auto simp: heap_ok_def empty_buckets_ok)
  then obtain m' bs' ni' cs' where exp:
      "expand_buckets (Suc (brk ?h1)) (?nb * 2) ideal (buckets t) [0 ..< unat ?nb]
        (nodes ?h1, replicate (unat ?nb * 2) empty_bucket, 0) = Inr (m', bs', ni')"
      "buckets_ok m' (\<Union>i < unat ?nb. set (cs0 ! i)) (?nb * 2) bs' cs'"
      "app_view m' = app_view (nodes h)" "length bs' = unat (?nb * 2)"
    by (auto simp: atLeast0LessThan)
  have all: "(\<Union>i < unat ?nb. set (cs0 ! i)) = set xs"
  proof -
    have "a \<in> (\<Union>i < unat ?nb. set (cs0 ! i))" if "a \<in> set xs" for a
    proof
      let ?i = "HASH_TO_BKT (fld hashv (nodes h) a) ?nb"
      show "?i \<in> {..< unat ?nb}" using HASH_TO_BKT_less [OF w(1)] by simp
      then show "a \<in> set (cs0 ! ?i)" using buckets_okD(4) [OF cs0, of ?i] that w(3) by (simp add: in_bkt_def)
    qed
    then show ?thesis using buckets_okD(4) [OF cs0] w(3) by (auto simp: in_bkt_def)
  qed
  define ineff where "ineff = (if ni' > drop_bit 1 (num_items t) then ineff_expands t + 1 else 0)"
  define t' where "t' = t\<lparr>buckets := bs', num_buckets := ?nb * 2,
             log2_num_buckets := log2_num_buckets t + 1, ideal_chain_maxlen := ideal,
             nonideal_items := ni', ineff_expands := ineff,
             noexpand := (if ineff > 1 then 1 else noexpand t)\<rparr>"
  have run: "HASH_EXPAND_BUCKETS oom h = Inr (?h1\<lparr>nodes := m', tbl := Some t'\<rparr>)"
    using t hd False exp(1)
    by (simp add: HASH_EXPAND_BUCKETS_def head_tbl_def malloc_def Let_def t'_def ineff_def ideal_def)
  have "table_wf t'"
    using exp(4) lg lg1 nb2 by (simp add: table_wf_def t'_def)
  moreover have "buckets_ok m' (set xs) (num_buckets t') (buckets t') cs'"
    using exp(2) all by (simp add: t'_def)
  ultimately have "table_ok m' t' xs"
    using t(2) app_view_key_ok [OF exp(3)] by (auto simp: table_ok_def t'_def)
  moreover have "heap_ok (?h1\<lparr>nodes := m', tbl := Some t'\<rparr>)"
    using heap app_view_dom [OF exp(3)] by (auto simp: heap_ok_def)
  moreover have "tail t' = tail t" "num_buckets t' = ?nb * 2" by (simp_all add: t'_def)
  ultimately show ?thesis
    using run exp(3) app_view_payload [OF exp(3)] unfolding hash_frame_def by (intro disjI2 exI [where x = "?h1\<lparr>nodes := m', tbl := Some t'\<rparr>"] exI [where x = t']) simp
qed

section \<open>What the operations do\<close>

text \<open>Deleting a node that is not in the table keeps the invariant.\<close>

lemma fld_del_list: "a \<notin> set xs \<Longrightarrow> b \<in> set xs \<Longrightarrow> fld f (m(a := None)) b = fld f m b"
  by (auto simp: fld_def)

subsection \<open>Finding\<close>

lemma HASH_FIND_IN_BKT_ok:
  assumes "dll (fld hh_next m) pv q p c" "set c \<subseteq> dom m" "length c < fuel"
    and "\<And>a. a \<in> set c \<Longrightarrow> key_ok m a" "hv = HASH_VALUE_INT k"
  shows "HASH_FIND_IN_BKT fuel m k hv p
       = Inr (case find (\<lambda>a. fld buf_fd m a = k) c of None \<Rightarrow> NULL | Some a \<Rightarrow> a)"
  using assms
proof (induction c arbitrary: fuel q p)
  case Nil
  then show ?case by (cases fuel) auto
next
  case (Cons a c)
  then obtain fuel' e where fuel: "fuel = Suc fuel'" "length c < fuel'" and e: "m a = Some e" "p = a" "a \<noteq> NULL"
    by (cases fuel) auto
  have IH: "HASH_FIND_IN_BKT fuel' m k hv (hh_next e)
       = Inr (case find (\<lambda>a. fld buf_fd m a = k) c of None \<Rightarrow> NULL | Some a \<Rightarrow> a)"
    using Cons.prems e fuel by (intro Cons.IH [of a]) auto
  have "key_ok m a" using Cons.prems by simp
  then show ?case using e IH Cons.prems(5) by (auto simp: fuel(1) key_ok_def)
qed

text \<open>The invariant of a non-empty table, opened.\<close>

definition hash_view :: "'a hash_state_scheme \<Rightarrow> addr list \<Rightarrow> UT_hash_table \<Rightarrow> addr list list \<Rightarrow> bool" where
  "hash_view h xs t cs \<longleftrightarrow> heap_ok h \<and> android_buffer_table h \<noteq> NULL \<and> tbl h = Some t
     \<and> app_ok (nodes h) (android_buffer_table h) (tail t) xs \<and> table_wf t \<and> num_items t = of_nat (length xs)
     \<and> (\<forall>a \<in> set xs. key_ok (nodes h) a) \<and> buckets_ok (nodes h) (set xs) (num_buckets t) (buckets t) cs"

lemma hash_inv_view:
  "android_buffer_table h \<noteq> NULL \<Longrightarrow> hash_inv h xs \<longleftrightarrow> (\<exists>t cs. hash_view h xs t cs)"
  by (auto simp: hash_inv_def hash_view_def table_ok_def)

lemma hash_viewD:
  assumes "hash_view h xs t cs"
  shows "head_tbl h = Inr t" "table_wf t" "\<And>a. a \<in> set xs \<Longrightarrow> key_ok (nodes h) a"
    "buckets_ok (nodes h) (set xs) (num_buckets t) (buckets t) cs"
    "dom (nodes h) \<subseteq> {1..brk h}" "NULL \<notin> dom (nodes h)" "set xs \<subseteq> dom (nodes h)"
    "tbl h = Some t" "num_items t = of_nat (length xs)" "xs \<noteq> []" "distinct xs" "tail t = last xs"
    "dll (fld app_next (nodes h)) (fld app_prev (nodes h)) NULL (android_buffer_table h) xs"
    "app_ok (nodes h) (android_buffer_table h) (tail t) xs" "android_buffer_table h \<noteq> NULL"
  using assms by (auto simp: hash_view_def head_tbl_def app_ok_def heap_ok_def)

lemma hash_inv_NULL: "hash_inv h xs \<Longrightarrow> android_buffer_table h = NULL \<longleftrightarrow> xs = []"
  by (auto simp: hash_inv_def app_ok_def split: if_splits)

lemma hash_inv_members:
  assumes "hash_inv h xs"
  shows "distinct xs" "set xs \<subseteq> dom (nodes h)" "NULL \<notin> set xs" "dom (nodes h) \<subseteq> {1..brk h}"
proof -
  show "dom (nodes h) \<subseteq> {1..brk h}" using assms by (simp add: hash_inv_def heap_ok_def)
  moreover show "distinct xs" "set xs \<subseteq> dom (nodes h)"
    using assms by (auto simp: hash_inv_def app_ok_def split: if_splits)
  ultimately show "NULL \<notin> set xs" by fastforce
qed

lemma find_ok:
  assumes inv: "hash_inv h xs"
  shows "\<exists>p. HASH_FIND_INT k h = Inr p \<and>
    (if p = NULL then \<forall>a \<in> set xs. fld buf_fd (nodes h) a \<noteq> k
     else p \<in> set xs \<and> fld buf_fd (nodes h) p = k)"
proof (cases "android_buffer_table h = NULL")
  case True
  then show ?thesis using hash_inv_NULL [OF inv] by (auto simp: HASH_FIND_INT_def)
next
  case False
  with inv obtain t cs where "hash_view h xs t cs" by (auto simp: hash_inv_view)
  note t = hash_viewD [OF this]
  let ?hv = "HASH_VALUE_INT k"
  let ?i = "HASH_TO_BKT ?hv (num_buckets t)"
  have i: "?i < length (buckets t)" using table_wfD [OF t(2)] HASH_TO_BKT_less by metis
  note c = buckets_okD [OF t(4) i]
  have sub: "set (cs ! ?i) \<subseteq> set xs" using c(4) by (auto simp: in_bkt_def)
  have len: "length (cs ! ?i) < Suc (brk h)"
    using chain_length_le [OF c(2) c(6) t(5)] by simp
  let ?P = "\<lambda>a. fld buf_fd (nodes h) a = k"
  have "HASH_FIND_IN_BKT (Suc (brk h)) (nodes h) k ?hv (hh_head (buckets t ! ?i))
      = Inr (case find ?P (cs ! ?i) of None \<Rightarrow> NULL | Some a \<Rightarrow> a)"
    using sub t(3) by (intro HASH_FIND_IN_BKT_ok [OF c(1) c(6) len]) auto
  then have run: "HASH_FIND_INT k h = Inr (case find ?P (cs ! ?i) of None \<Rightarrow> NULL | Some a \<Rightarrow> a)"
    using False t(1) i by (simp add: HASH_FIND_INT_def bucket_at_def Let_def)
  show ?thesis
  proof (cases "find ?P (cs ! ?i)")
    case None
    then have none: "\<And>a. a \<in> set (cs ! ?i) \<Longrightarrow> \<not> ?P a" by (auto simp: find_None_iff)
    have "\<not> ?P a" if "a \<in> set xs" for a
    proof
      assume "?P a"
      with t(3) [OF that] have "fld hashv (nodes h) a = ?hv" by (simp add: key_ok_def)
      then have "a \<in> set (cs ! ?i)" using that c(4) by (simp add: in_bkt_def)
      with none \<open>?P a\<close> show False by blast
    qed
    with run None show ?thesis by simp
  next
    case (Some a)
    then have "a \<in> set (cs ! ?i)" "?P a" by (auto simp: find_Some_iff)
    then show ?thesis using run Some sub t(6,7) by auto
  qed
qed

lemma count_ok:
  assumes inv: "hash_inv h xs"
  shows "HASH_COUNT h = Inr (of_nat (length xs))"
proof (cases "android_buffer_table h = NULL")
  case True
  then show ?thesis using hash_inv_NULL [OF inv] by (simp add: HASH_COUNT_def)
next
  case False
  with inv obtain t cs where "hash_view h xs t cs" by (auto simp: hash_inv_view)
  from hash_viewD [OF this] show ?thesis by (simp add: HASH_COUNT_def)
qed

lemma HASH_ITER_ok:
  assumes "dll (fld app_next m) pv q el xs" "set xs \<subseteq> dom m" "length xs < fuel"
    "tmp = (if el = NULL then NULL else fld app_next m el)"
  shows "HASH_ITER_bo fuel m v el tmp = Inr (case find (\<lambda>a. fld buf_bo m a = v) xs of None \<Rightarrow> NULL | Some a \<Rightarrow> a)"
  using assms
proof (induction xs arbitrary: fuel q el tmp)
  case Nil
  then show ?case by (cases fuel) auto
next
  case (Cons a xs)
  then obtain fuel' e where fuel: "fuel = Suc fuel'" "length xs < fuel'" and e: "m a = Some e" "el = a" "a \<noteq> NULL"
    by (cases fuel) auto
  have tmp: "tmp = app_next e" and dll: "dll (fld app_next m) pv a tmp xs" using Cons.prems e by auto
  have adv: "next_or_NULL m tmp = Inr (if tmp = NULL then NULL else fld app_next m tmp)"
  proof (cases "tmp = NULL")
    case False
    then have "tmp \<in> dom m" using dll_head [OF dll False] Cons.prems(2) by auto
    then show ?thesis using False by (auto simp: next_or_NULL_def)
  qed (simp add: next_or_NULL_def)
  have "HASH_ITER_bo fuel' m v tmp (if tmp = NULL then NULL else fld app_next m tmp)
      = Inr (case find (\<lambda>a. fld buf_bo m a = v) xs of None \<Rightarrow> NULL | Some a \<Rightarrow> a)"
    using Cons.prems fuel dll by (intro Cons.IH [of a]) auto
  then show ?case using e adv by (auto simp: fuel(1))
qed

subsection \<open>Adding\<close>

lemma in_bkt_cong:
  "(\<And>a. a \<in> X \<Longrightarrow> fld hashv m' a = fld hashv m a) \<Longrightarrow> in_bkt m' X nb i = in_bkt m X nb i"
  by (auto simp: in_bkt_def)

lemma buckets_ok_cong:
  assumes "\<And>a. a \<in> X \<Longrightarrow> fld hh_next m' a = fld hh_next m a \<and> fld hh_prev m' a = fld hh_prev m a
      \<and> fld hashv m' a = fld hashv m a" "X \<subseteq> dom m'" "buckets_ok m X nb bs cs"
  shows "buckets_ok m' X nb bs cs"
proof -
  have "dll (fld hh_next m') (fld hh_prev m') NULL (hh_head (bs ! i)) (cs ! i)" if "i < length bs" for i
  proof -
    have "set (cs ! i) \<subseteq> X" using buckets_okD(4) [OF assms(3) that] by (auto simp: in_bkt_def)
    with assms(1) have "dll (fld hh_next m') (fld hh_prev m') NULL (hh_head (bs ! i)) (cs ! i)
        = dll (fld hh_next m) (fld hh_prev m) NULL (hh_head (bs ! i)) (cs ! i)"
      by (intro dll_cong) auto
    then show ?thesis using buckets_okD(1) [OF assms(3) that] by simp
  qed
  moreover have "in_bkt m' X nb i = in_bkt m X nb i" for i
    using assms(1) by (intro in_bkt_cong) auto
  ultimately show ?thesis
    using assms(2,3) by (auto simp: buckets_ok_def chain_ok_def)
qed

lemma add_to_table_ok:
  fixes h :: "'a hash_state_scheme"
  assumes huge: "no_huge_malloc oom" and heap: "heap_ok h" and hd: "android_buffer_table h \<noteq> NULL"
    and t: "tbl h = Some t" "table_wf t" "num_items t = of_nat (length xs)"
    and app: "app_ok (nodes h) (android_buffer_table h) (tail t) (xs @ [a])"
    and keys: "\<And>x. x \<in> set (xs @ [a]) \<Longrightarrow> key_ok (nodes h) x"
    and bkts: "buckets_ok (nodes h) (set xs) (num_buckets t) (buckets t) cs"
    and hv: "hv = fld hashv (nodes h) a"
  shows "HASH_ADD_TO_TABLE oom hv a h = Inl OutOfMemory \<and> oom_after oom h \<or>
     (\<exists>h'. HASH_ADD_TO_TABLE oom hv a h = Inr h' \<and> hash_inv h' (xs @ [a]) \<and> hash_frame h h')"
proof -
  have a: "a \<notin> set xs" "a \<in> dom (nodes h)" using app by (auto simp: app_ok_def)
  then obtain e where e: "nodes h a = Some e" by blast
  have a0: "a \<noteq> NULL" using heap a by (fastforce simp: heap_ok_def)
  let ?i = "HASH_TO_BKT (hashv e) (num_buckets t)"
  have i: "?i < length (buckets t)" using table_wfD [OF t(2)] HASH_TO_BKT_less by metis
  from chain_push_ok [OF bkts a(1) e a0 refl i] obtain m1 where
    m1: "chain_push a (hh_head (buckets t ! ?i)) (nodes h) = Inr m1" "app_view m1 = app_view (nodes h)"
    and ok1: "\<And>u. buckets_ok m1 (insert a (set xs)) (num_buckets t)
       ((buckets t)[?i := \<lparr>hh_head = a, count = count (buckets t ! ?i) + 1, expand_mult = u\<rparr>])
       (cs[?i := a # cs ! ?i])"
    by blast
  let ?b = "buckets t ! ?i"
  define t1 where "t1 = t\<lparr>num_items := num_items t + 1,
      buckets := (buckets t)[?i := ?b\<lparr>hh_head := a, count := count ?b + 1\<rparr>]\<rparr>"
  define h1 where "h1 = h\<lparr>nodes := m1, tbl := Some t1\<rparr>"
  have b: "?b\<lparr>hh_head := a, count := count ?b + 1\<rparr>
      = \<lparr>hh_head = a, count = count ?b + 1, expand_mult = expand_mult ?b\<rparr>" by simp
  have "buckets_ok m1 (set (xs @ [a])) (num_buckets t1) (buckets t1) (cs[?i := a # cs ! ?i])"
    using ok1 [of "expand_mult ?b"] by (simp add: t1_def b)
  moreover have "table_wf t1" "num_items t1 = of_nat (length (xs @ [a]))"
    using t(2,3) by (simp_all add: t1_def table_wf_def)
  ultimately have tok: "table_ok (nodes h1) t1 (xs @ [a])"
    using keys app_view_key_ok [OF m1(2)] by (auto simp: table_ok_def h1_def)
  have heap1: "heap_ok h1" using heap app_view_dom [OF m1(2)] by (simp add: heap_ok_def h1_def)
  have app1: "app_ok (nodes h1) (android_buffer_table h1) (tail t1) (xs @ [a])"
    using app app_view_app_ok [OF m1(2)] by (simp add: h1_def t1_def)
  have frame1: "hash_frame h h1"
    using app_view_payload [OF m1(2)] by (simp add: hash_frame_def h1_def)
  have run: "HASH_ADD_TO_TABLE oom hv a h
     = (if count ?b + 1 \<ge> (expand_mult ?b + 1) * HASH_BKT_CAPACITY_THRESH \<and> noexpand t = 0
        then HASH_EXPAND_BUCKETS oom h1 else Inr h1)"
    using hd t(1) e hv i m1(1)
    by (simp add: HASH_ADD_TO_TABLE_def HASH_ADD_TO_BKT_def head_tbl_def bucket_at_def h1_def t1_def Let_def)
  have hd1: "android_buffer_table h1 \<noteq> NULL" "tbl h1 = Some t1" using hd by (simp_all add: h1_def)
  have inv1: "hash_inv h1 (xs @ [a])"
    using heap1 hd1 app1 tok by (simp add: hash_inv_def)
  show ?thesis
  proof (cases "count ?b + 1 \<ge> (expand_mult ?b + 1) * HASH_BKT_CAPACITY_THRESH \<and> noexpand t = 0")
    case False
    then show ?thesis using run inv1 frame1 by auto
  next
    case True
    with run have run': "HASH_ADD_TO_TABLE oom hv a h = HASH_EXPAND_BUCKETS oom h1" by simp
    from expand_ok [OF huge heap1 hd1 tok] show ?thesis
    proof (elim disjE exE conjE)
      assume "HASH_EXPAND_BUCKETS oom h1 = Inl OutOfMemory" "oom_after oom h1"
      with run' show ?thesis using t(1) by (simp add: oom_after_def starved_def table_full_def h1_def t1_def)
    next
      fix h' t'
      assume h': "HASH_EXPAND_BUCKETS oom h1 = Inr h'" "heap_ok h'" "tbl h' = Some t'"
        "table_ok (nodes h') t' (xs @ [a])" "app_view (nodes h') = app_view (nodes h1)" "tail t' = tail t1"
        "android_buffer_table h' = android_buffer_table h1" "hash_frame h1 h'"
      have "hash_inv h' (xs @ [a])"
        using h'(2-4,6,7) hd1(1) app1 app_view_app_ok [OF h'(5)] by (simp add: hash_inv_def)
      moreover have "hash_frame h h'" using hash_frame_trans [OF frame1 h'(8)] .
      ultimately show ?thesis using run' h'(1) by auto
    qed
  qed
qed

lemma make_table_simps:
  "HASH_MAKE_TABLE oom a h = Inl OutOfMemory \<and> oom_after oom h \<or>
   HASH_MAKE_TABLE oom a h = Inr (h\<lparr>brk := Suc (Suc (brk h)), tbl := Some \<lparr>
       buckets = replicate 32 empty_bucket, num_buckets = 32, log2_num_buckets = 5,
       num_items = 0, tail = a, ideal_chain_maxlen = 0, nonideal_items = 0,
       ineff_expands = 0, noexpand = 0\<rparr>\<rparr>)"
proof -
  have "oom_after oom h" if "oom (Suc (brk h)) 64"
    using starvedI [of oom "Suc (brk h)" 64 h] that by (simp add: oom_after_def)
  moreover have "oom_after oom h" if "oom (Suc (Suc (brk h))) 512"
    using starvedI [of oom "Suc (Suc (brk h))" 512 h] that by (simp add: oom_after_def)
  ultimately show ?thesis
    by (auto simp: HASH_MAKE_TABLE_def malloc_def HASH_INITIAL_NUM_BUCKETS_def HASH_INITIAL_NUM_BUCKETS_LOG2_def
        sizeof_UT_hash_table_def sizeof_UT_hash_bucket_def)
qed

text \<open>A new node whose key fields are set by \<open>HASH_ADD\<close>: nothing in the table changes.\<close>

lemma add_ok:
  fixes h :: "'a hash_state_scheme"
  assumes huge: "no_huge_malloc oom" and inv: "hash_inv h xs" and a: "nodes h a = Some e" "a \<notin> set xs"
  shows "HASH_ADD_INT oom a h = Inl OutOfMemory \<and> oom_after oom h \<or>
     (\<exists>h'. HASH_ADD_INT oom a h = Inr h' \<and> hash_inv h' (xs @ [a]) \<and> hash_frame h h')"
proof -
  have heap: "heap_ok h" using inv by (simp add: hash_inv_def)
  have a0: "a \<noteq> NULL" using heap a by (fastforce simp: heap_ok_def)
  let ?hv = "HASH_VALUE_INT (buf_fd e)"
  let ?e1 = "e\<lparr>hashv := ?hv, keylen := sizeof_int\<rparr>"
  define h1 where "h1 = h\<lparr>nodes := (nodes h)(a \<mapsto> ?e1)\<rparr>"
  have frame1: "payload ((nodes h)(a \<mapsto> ?e1)) = payload (nodes h)" using a by (intro payload_upd) auto
  show ?thesis
  proof (cases "android_buffer_table h = NULL")
    case True
    then have xs: "xs = []" "tbl h = None" using inv by (simp_all add: hash_inv_def)
    let ?e2 = "?e1\<lparr>app_next := NULL, app_prev := NULL\<rparr>"
    let ?t = "\<lparr>buckets = replicate 32 empty_bucket, num_buckets = 32, log2_num_buckets = 5,
       num_items = 0, tail = a, ideal_chain_maxlen = 0, nonideal_items = 0, ineff_expands = 0, noexpand = 0\<rparr>"
    define m2 where "m2 = (nodes h)(a \<mapsto> ?e2)"
    define h2 where "h2 = h\<lparr>nodes := m2, brk := Suc (Suc (brk h)), tbl := Some ?t, android_buffer_table := a\<rparr>"
    have run: "HASH_ADD_INT oom a h = Inl OutOfMemory \<and> oom_after oom h \<or> HASH_ADD_INT oom a h = HASH_ADD_TO_TABLE oom ?hv a h2"
      using a a0 True make_table_simps [of oom a "h\<lparr>nodes := m2\<rparr>"]
      by (auto simp: HASH_ADD_INT_def HASH_ADD_KEYPTR_BYHASHVALUE_def Let_def h2_def m2_def oom_after_def starved_def table_full_def)
    have dom: "dom m2 = dom (nodes h)" using a by (auto simp: m2_def)
    have pay: "payload m2 = payload (nodes h)" unfolding m2_def using a by (intro payload_upd) auto
    have add: "HASH_ADD_TO_TABLE oom ?hv a h2 = Inl OutOfMemory \<and> oom_after oom h2 \<or>
     (\<exists>h'. HASH_ADD_TO_TABLE oom ?hv a h2 = Inr h' \<and> hash_inv h' ([] @ [a]) \<and> hash_frame h2 h')"
    proof (rule add_to_table_ok [OF huge, where t = ?t and cs = "replicate 32 []"])
      show "heap_ok h2" using heap dom by (auto simp: heap_ok_def h2_def)
      show "table_wf ?t" by (simp add: table_wf_def)
      show "app_ok (nodes h2) (android_buffer_table h2) (tail ?t) ([] @ [a])"
        using a0 by (simp add: app_ok_def h2_def m2_def)
      show "key_ok (nodes h2) x" if "x \<in> set ([] @ [a])" for x
        using that by (simp add: h2_def m2_def key_ok_def)
      show "buckets_ok (nodes h2) (set []) (num_buckets ?t) (buckets ?t) (replicate 32 [])"
        by (simp add: empty_buckets_ok)
    qed (use a0 in \<open>simp_all add: h2_def m2_def\<close>)
    have frame: "hash_frame h h2" using pay by (simp add: hash_frame_def h2_def)
    have "oom_after oom h" if "oom_after oom h2"
      using oom_after_later [OF that, of h] by (simp add: h2_def table_full_def)
    then show ?thesis using run add xs hash_frame_trans [OF frame] by fastforce
  next
    case False
    with inv obtain t cs where "hash_view h xs t cs" by (auto simp: hash_inv_view)
    note t = hash_viewD [OF this]
    let ?l = "last xs"
    have l: "?l \<in> set xs" "?l \<noteq> a" using t(10) a(2) by auto
    then have l0: "?l \<noteq> NULL" and "\<exists>el. nodes h ?l = Some el" using t(6,7) by auto
    then obtain el where el: "nodes h ?l = Some el" by blast
    let ?e2 = "?e1\<lparr>app_next := NULL, app_prev := ?l\<rparr>"
    define m2 where "m2 = (nodes h)(a \<mapsto> ?e2, ?l \<mapsto> el\<lparr>app_next := a\<rparr>)"
    define h2 where "h2 = h\<lparr>nodes := m2, tbl := Some (t\<lparr>tail := a\<rparr>)\<rparr>"
    have run: "HASH_ADD_INT oom a h = HASH_ADD_TO_TABLE oom ?hv a h2"
      using a a0 l l0 el t(8,12) False
      by (simp add: HASH_ADD_INT_def HASH_ADD_KEYPTR_BYHASHVALUE_def HASH_APPEND_LIST_def head_tbl_def Let_def
          h2_def m2_def)
    have dom: "dom m2 = dom (nodes h)" using a el by (auto simp: m2_def)
    have pay: "payload m2 = payload (nodes h)"
      using a el l by (auto simp: payload_def m2_def fun_eq_iff)
    have same: "fld f m2 x = fld f (nodes h) x"
      if "x \<in> set xs" "\<And>n v. f (n\<lparr>app_next := v\<rparr>) = f n" for x and f :: "android_buffer_t \<Rightarrow> 'v::zero"
      using that a el by (auto simp: m2_def fld_def)
    have add: "HASH_ADD_TO_TABLE oom ?hv a h2 = Inl OutOfMemory \<and> oom_after oom h2 \<or>
     (\<exists>h'. HASH_ADD_TO_TABLE oom ?hv a h2 = Inr h' \<and> hash_inv h' (xs @ [a]) \<and> hash_frame h2 h')"
    proof (rule add_to_table_ok [OF huge, where t = "t\<lparr>tail := a\<rparr>" and cs = cs])
      show "heap_ok h2" using heap dom by (auto simp: heap_ok_def h2_def)
      show "app_ok (nodes h2) (android_buffer_table h2) (tail (t\<lparr>tail := a\<rparr>)) (xs @ [a])"
        unfolding app_ok_def
      proof (intro conjI)
        show "dll (fld app_next (nodes h2)) (fld app_prev (nodes h2)) NULL (android_buffer_table h2) (xs @ [a])"
        proof (rule dll_snoc [where nx = "fld app_next (nodes h)" and pv = "fld app_prev (nodes h)"])
          show "fld app_next (nodes h2) b = fld app_next (nodes h) b" if "b \<in> set xs" "b \<noteq> ?l" for b
            using that a by (auto simp: h2_def m2_def fld_def)
          show "fld app_prev (nodes h2) b = fld app_prev (nodes h) b" if "b \<in> set xs" for b
            using same [OF that, of app_prev] by (simp add: h2_def)
        qed (use t(10,11,13) a a0 l in \<open>simp_all add: h2_def m2_def\<close>)
      qed (use t(7,11) a dom in \<open>auto simp: h2_def\<close>)
      show "key_ok (nodes h2) x" if "x \<in> set (xs @ [a])" for x
      proof (cases "x = a")
        case True
        then show ?thesis using l by (simp add: h2_def m2_def key_ok_def fld_def)
      next
        case False
        then have x: "x \<in> set xs" using that by simp
        then show ?thesis
          using t(3) [OF x] same [OF x, of hashv] same [OF x, of buf_fd] same [OF x, of keylen]
          by (simp add: h2_def key_ok_def)
      qed
      show "buckets_ok (nodes h2) (set xs) (num_buckets (t\<lparr>tail := a\<rparr>)) (buckets (t\<lparr>tail := a\<rparr>)) cs"
      proof (rule buckets_ok_cong)
        show "fld hh_next (nodes h2) x = fld hh_next (nodes h) x \<and> fld hh_prev (nodes h2) x = fld hh_prev (nodes h) x
          \<and> fld hashv (nodes h2) x = fld hashv (nodes h) x" if "x \<in> set xs" for x
          using same [OF that, of hh_next] same [OF that, of hh_prev] same [OF that, of hashv] by (simp add: h2_def)
      qed (use t(4,7) dom in \<open>simp_all add: h2_def\<close>)
    qed (use t(2,9) False l in \<open>simp_all add: h2_def m2_def table_wf_def fld_def\<close>)
    have frame: "hash_frame h h2" using pay by (simp add: hash_frame_def h2_def)
    have "oom_after oom h" if "oom_after oom h2"
      using oom_after_later [OF that, of h] t(8) by (simp add: h2_def table_full_def)
    then show ?thesis using run add hash_frame_trans [OF frame] by fastforce
  qed
qed

subsection \<open>Deleting\<close>

lemma del_in_bkt_ok:
  assumes hd: "android_buffer_table h \<noteq> NULL" and t: "tbl h = Some t"
    and ok: "buckets_ok (nodes h) X (num_buckets t) (buckets t) cs"
    and a: "a \<in> X" "nodes h a = Some e"
    and i: "i = HASH_TO_BKT (hashv e) (num_buckets t)" "i < length (buckets t)"
  shows "\<exists>m' bs' cs'. HASH_DEL_IN_BKT i a h = Inr (h\<lparr>nodes := m', tbl := Some (t\<lparr>buckets := bs'\<rparr>)\<rparr>)
     \<and> buckets_ok m' (X - {a}) (num_buckets t) bs' cs' \<and> app_view m' = app_view (nodes h)
     \<and> length bs' = length (buckets t)"
proof -
  let ?m = "nodes h" and ?b = "buckets t ! i"
  note c = buckets_okD [OF ok i(2)]
  have ac: "a \<in> set (cs ! i)" using a i(1) c(4) by (simp add: in_bkt_def)
  note n = dll_neighbours [OF c(1,2) ac]
  let ?p = "hh_prev e" and ?n = "hh_next e"
  have p: "?p = NULL \<or> ?p \<in> set (cs ! i) \<and> ?p \<noteq> a \<and> ?p \<noteq> ?n" using n(1,3) a(2) by auto
  have q: "?n = NULL \<or> ?n \<in> set (cs ! i) \<and> ?n \<noteq> a" using n(2) a(2) by auto
  have p': "?p \<noteq> NULL \<Longrightarrow> \<exists>ep. ?m ?p = Some ep" and q': "?n \<noteq> NULL \<Longrightarrow> \<exists>en. ?m ?n = Some en"
    using p q c(6) by auto
  define m1 where "m1 = (if ?p \<noteq> NULL then ?m(?p \<mapsto> (the (?m ?p))\<lparr>hh_next := ?n\<rparr>) else ?m)"
  define m2 where "m2 = (if ?n \<noteq> NULL then m1(?n \<mapsto> (the (?m ?n))\<lparr>hh_prev := ?p\<rparr>) else m1)"
  define b' where "b' = ?b\<lparr>hh_head := (if hh_head ?b = a then ?n else hh_head ?b), count := count ?b - 1\<rparr>"
  have run: "HASH_DEL_IN_BKT i a h = Inr (h\<lparr>nodes := m2, tbl := Some (t\<lparr>buckets := (buckets t)[i := b']\<rparr>)\<rparr>)"
    using hd t i a p q p' q' dll_nonnull [OF c(1) ac]
    by (auto simp: HASH_DEL_IN_BKT_def head_tbl_def bucket_at_def Let_def m1_def m2_def b'_def)
  have view: "app_view m2 = app_view ?m"
    using p' q' by (auto simp: m2_def m1_def fun_eq_iff app_view_def strip_hh_def)
  have "buckets_ok m2 (X - {a}) (num_buckets t) ((buckets t)[i := b']) (cs[i := remove1 a (cs ! i)])"
    unfolding b'_def
  proof (rule chain_remove [OF ok a i _ _ _ view])
    fix b
    show "m2 b = ?m b" if "b \<notin> set (cs ! i)" using that p q by (auto simp: m2_def m1_def)
    assume b: "b \<in> set (cs ! i) - {a}"
    then have "b \<noteq> NULL" using dll_nonnull [OF c(1)] by auto
    then show "fld hh_next m2 b = (if b = ?p then ?n else fld hh_next ?m b)"
      "fld hh_prev m2 b = (if b = ?n then ?p else fld hh_prev ?m b)"
      using p q p' q' by (auto simp: m2_def m1_def fld_def)
  qed
  with run view show ?thesis by (metis length_list_update)
qed

lemma delete_ok:
  fixes h :: "'a hash_state_scheme"
  assumes inv: "hash_inv h xs" and a: "a \<in> set xs"
  shows "\<exists>h'. HASH_DELETE_HH a h = Inr h' \<and> hash_inv h' (remove1 a xs) \<and> hash_frame h h' \<and> brk h' = brk h"
proof -
  have "android_buffer_table h \<noteq> NULL" using hash_inv_NULL [OF inv] a by auto
  with inv obtain t cs where "hash_view h xs t cs" by (auto simp: hash_inv_view)
  note t = hash_viewD [OF this]
  from a t(7) obtain e where e: "nodes h a = Some e" by blast
  have a0: "a \<noteq> NULL" using a t(6,7) by auto
  note n = dll_neighbours [OF t(13,11) a]
  let ?p = "app_prev e" and ?n = "app_next e" and ?m = "nodes h"
  have p: "?p = NULL \<or> ?p \<in> set xs \<and> ?p \<noteq> a \<and> ?p \<noteq> ?n" and q: "?n = NULL \<or> ?n \<in> set xs \<and> ?n \<noteq> a"
    and first: "?p = NULL \<longleftrightarrow> a = hd xs" and final: "?n = NULL \<longleftrightarrow> a = last xs"
    using n e by auto
  have heap: "heap_ok h" using inv by (simp add: hash_inv_def)
  show ?thesis
  proof (cases "?p = NULL \<and> ?n = NULL")
    case True
    then have "xs = [a]" using first final t(10,11)
      by (metis (no_types, lifting) distinct.simps(2) last_in_set list.collapse list.set_sel(1) last.simps remove1.simps)
    then show ?thesis
      using True e a0 t(1) heap by (simp add: HASH_DELETE_HH_def hash_inv_def heap_ok_def hash_frame_def)
  next
    case False
    have p': "?p \<noteq> NULL \<Longrightarrow> \<exists>ep. ?m ?p = Some ep" and q': "?n \<noteq> NULL \<Longrightarrow> \<exists>en. ?m ?n = Some en"
      using p q t(7) by auto
    define m1 where "m1 = (if ?p \<noteq> NULL then ?m(?p \<mapsto> (the (?m ?p))\<lparr>app_next := ?n\<rparr>) else ?m)"
    define m2 where "m2 = (if ?n \<noteq> NULL then m1(?n \<mapsto> (the (?m ?n))\<lparr>app_prev := ?p\<rparr>) else m1)"
    define tl' where "tl' = (if a = tail t then ?p else tail t)"
    define hd' where "hd' = (if ?p \<noteq> NULL then android_buffer_table h else ?n)"
    let ?t1 = "t\<lparr>tail := tl'\<rparr>"
    define h2 where "h2 = h\<lparr>nodes := m2, android_buffer_table := hd', tbl := Some ?t1\<rparr>"
    have hd0: "hd' \<noteq> NULL" using False t(15) by (auto simp: hd'_def)
    have dom: "dom m2 = dom ?m" using p' q' by (auto simp: m2_def m1_def)
    have pay: "payload m2 = payload ?m" using p' q' by (auto simp: payload_def m2_def m1_def fun_eq_iff)
    have same: "fld f m2 x = fld f ?m x" if "\<And>n v. f (n\<lparr>app_next := v\<rparr>) = f n" "\<And>n v. f (n\<lparr>app_prev := v\<rparr>) = f n"
      for x and f :: "android_buffer_t \<Rightarrow> 'v::zero"
      using that p p' q' by (auto simp: m2_def m1_def fld_def)
    have e2: "m2 a = Some e" using e p q a0 by (auto simp: m2_def m1_def)
    have ok2: "buckets_ok m2 (set xs) (num_buckets t) (buckets t) cs"
      using same [of hh_next] same [of hh_prev] same [of hashv] t(4,7) dom
      by (intro buckets_ok_cong [OF _ _ t(4)]) simp_all
    let ?i = "HASH_TO_BKT (hashv e) (num_buckets t)"
    have i: "?i < length (buckets t)" using table_wfD [OF t(2)] HASH_TO_BKT_less by metis
    have "\<exists>m' bs' cs'. HASH_DEL_IN_BKT ?i a h2 = Inr (h2\<lparr>nodes := m', tbl := Some (?t1\<lparr>buckets := bs'\<rparr>)\<rparr>)
     \<and> buckets_ok m' (set xs - {a}) (num_buckets ?t1) bs' cs' \<and> app_view m' = app_view (nodes h2)
     \<and> length bs' = length (buckets ?t1)"
      using hd0 ok2 a e2 i by (intro del_in_bkt_ok [where e = e and cs = cs]) (simp_all add: h2_def)
    then obtain m' bs' cs' where del:
        "HASH_DEL_IN_BKT ?i a h2 = Inr (h2\<lparr>nodes := m', tbl := Some (?t1\<lparr>buckets := bs'\<rparr>)\<rparr>)"
        "buckets_ok m' (set xs - {a}) (num_buckets t) bs' cs'" "app_view m' = app_view m2"
        "length bs' = length (buckets t)"
      by (auto simp: h2_def)
    define t3 where "t3 = ?t1\<lparr>buckets := bs', num_items := num_items t - 1\<rparr>"
    define h3 where "h3 = h\<lparr>nodes := m', android_buffer_table := hd', tbl := Some t3\<rparr>"
    have run: "HASH_DELETE_HH a h = Inr h3"
      using e a0 t(1,8) False p' q' p q del(1) hd0
      by (auto simp: HASH_DELETE_HH_def Let_def h2_def h3_def t3_def m1_def m2_def hd'_def tl'_def head_tbl_def)
    from a obtain ys zs where xs: "xs = ys @ a # zs" by (meson split_list)
    then have rm: "remove1 a xs = ys @ zs" "a \<notin> set ys" "a \<notin> set zs" using t(11) by (auto simp: remove1_append)
    note l = dll_links [OF t(13) [unfolded xs]]
    have pn: "?p = (if ys = [] then NULL else last ys)" "?n = (if zs = [] then NULL else hd zs)"
      using l e by auto
    have "NULL \<notin> set xs" using t(6,7) by auto
    have "dll (fld app_next m2) (fld app_prev m2) NULL (if ys = [] then fld app_next ?m a else android_buffer_table h) (ys @ zs)"
    proof (rule dll_remove [where nx = "fld app_next ?m" and pv = "fld app_prev ?m" and a = a, THEN conjunct1])
      show "dll (fld app_next ?m) (fld app_prev ?m) NULL (android_buffer_table h) (ys @ a # zs)"
        "distinct (ys @ a # zs)" "NULL \<notin> set (ys @ a # zs)"
        using t(11,13) \<open>NULL \<notin> set xs\<close> unfolding xs by simp_all
      fix b assume b: "b \<in> set (ys @ zs)"
      then have "b \<in> set xs" using xs by auto
      then have "b \<noteq> NULL" using \<open>NULL \<notin> set xs\<close> by metis
      then show "fld app_next m2 b = (if b = fld app_prev ?m a then fld app_next ?m a else fld app_next ?m b)"
        "fld app_prev m2 b = (if b = fld app_next ?m a then fld app_prev ?m a else fld app_prev ?m b)"
        using p q p' q' e by (auto simp: m2_def m1_def fld_def)
    qed
    moreover have "(if ys = [] then fld app_next ?m a else android_buffer_table h) = hd'"
    proof -
      have "ys \<noteq> [] \<Longrightarrow> last ys \<in> set xs" using xs by simp
      then show ?thesis using pn e \<open>NULL \<notin> set xs\<close> by (auto simp: hd'_def)
    qed
    moreover have "tl' = last (ys @ zs)" "ys @ zs \<noteq> []"
      using pn t(12) xs False rm t(11) by (auto simp: tl'_def)
    moreover have "distinct (ys @ zs)" "set (ys @ zs) \<subseteq> dom m2" using t(7,11) xs dom by auto
    ultimately have app: "app_ok m' hd' tl' (ys @ zs)"
      unfolding app_view_app_ok [OF del(3)] by (simp add: app_ok_def)
    have "set xs - {a} = set (ys @ zs)" using xs rm by auto
    moreover have "key_ok m' x" if "x \<in> set xs" for x
      unfolding app_view_key_ok [OF del(3)]
      using t(3) [OF that] same [of hashv] same [of keylen] same [of buf_fd] by (simp add: key_ok_def)
    ultimately have "table_ok m' t3 (ys @ zs)"
      using t(2,9) del(2,4) xs by (auto simp: table_ok_def t3_def table_wf_def)
    moreover have "heap_ok h3"
      using heap dom app_view_dom [OF del(3)] by (auto simp: heap_ok_def h3_def)
    ultimately have "hash_inv h3 (remove1 a xs)"
      using hd0 app rm(1) by (simp add: hash_inv_def h3_def t3_def)
    moreover have "hash_frame h h3"
      using pay app_view_payload [OF del(3)] by (simp add: hash_frame_def h3_def)
    ultimately show ?thesis using run by (auto simp: h3_def)
  qed
qed

end
