(* ===== verification/Buffer_Table.thy ===== *)
theory Buffer_Table
  imports Uthash
begin

text \<open>
  The table of managed buffers of \<^verbatim>\<open>common/gralloc_gbm.c\<close> (lines 21 to 108): the five
  \<open>android_buffer_t\<close> functions over the static hash table. Their contract is the locale
  \<open>buffer_index\<close>, an index from file descriptors to buffers; the interpretation proves that
  the hash table keeps it.
\<close>

section \<open>Operations\<close>

definition find_buffer_k :: "i32 \<Rightarrow> 'a hash_state_scheme \<Rightarrow> addr res" where
  "find_buffer_k fd h =
    and_then (HASH_FIND_INT fd h) (\<lambda>entry. if entry \<noteq> NULL then Inr entry else Inr NULL)"

definition find_buffer_v :: "addr \<Rightarrow> 'a hash_state_scheme \<Rightarrow> addr res" where
  "find_buffer_v v h =
    (if v = NULL then Inr NULL
     else and_then (HASH_COUNT h) (\<lambda>_.
          and_then (next_or_NULL (nodes h) (android_buffer_table h)) (\<lambda>tmp.
            HASH_ITER_bo (Suc (brk h)) (nodes h) v (android_buffer_table h) tmp)))"

text \<open>The key is looked up first, but an entry that is found only makes a log line.\<close>

definition add_buffer :: "oom \<Rightarrow> addr \<Rightarrow> 'a hash_state_scheme \<Rightarrow> (i32 \<times> 'a hash_state_scheme) res" where
  "add_buffer oom buffer h =
    (if buffer = NULL then Inr (- EINVAL, h)
     else and_then (deref (nodes h) buffer) (\<lambda>e.
          and_then (find_buffer_k (buf_fd e) h) (\<lambda>_.
          and_then (HASH_ADD_INT oom buffer h) (\<lambda>h1.
          and_then (HASH_FIND_INT (buf_fd e) h1) (\<lambda>tmp.
          and_then (deref (nodes h1) buffer) (\<lambda>eb.
          and_then (deref (nodes h1) tmp) (\<lambda>et.
            if buf_fd eb = buf_fd et then Inr (0, h1) else Inl AssertFail)))))))"

definition free_node :: "addr \<Rightarrow> 'a hash_state_scheme \<Rightarrow> 'a hash_state_scheme res" where
  "free_node p h = and_then (free_at p (nodes h)) (\<lambda>m. Inr (h\<lparr>nodes := m\<rparr>))"

definition delete_buffer :: "addr \<Rightarrow> 'a hash_state_scheme \<Rightarrow> (i32 \<times> 'a hash_state_scheme) res" where
  "delete_buffer buffer h =
    (if buffer = NULL then Inr (- EINVAL, h)
     else and_then (HASH_DELETE_HH buffer h) (\<lambda>h1.
          and_then (free_node buffer h1) (\<lambda>h2. Inr (0, h2))))"

text \<open>The test after the lookup is on \<open>fd\<close>, not on \<open>tmp\<close>.\<close>

definition delete_buffer_fd :: "i32 \<Rightarrow> 'a hash_state_scheme \<Rightarrow> (i32 \<times> 'a hash_state_scheme) res" where
  "delete_buffer_fd fd h =
    (if sint fd < 0 then Inr (- EINVAL, h)
     else and_then (HASH_FIND_INT fd h) (\<lambda>tmp.
          if fd \<noteq> 0
          then and_then (HASH_DELETE_HH tmp h) (\<lambda>h1.
               and_then (free_node tmp h1) (\<lambda>h2. Inr (0, h2)))
          else Inr (0, h)))"

section \<open>The contract: an index of buffers\<close>

locale buffer_index =
  fixes find :: "'k \<Rightarrow> 's \<Rightarrow> addr res"
    and add :: "addr \<Rightarrow> 's \<Rightarrow> (i32 \<times> 's) res"
    and del :: "addr \<Rightarrow> 's \<Rightarrow> (i32 \<times> 's) res"
    and inv :: "'s \<Rightarrow> addr list \<Rightarrow> bool"
    and key :: "'s \<Rightarrow> addr \<Rightarrow> 'k"
    and fresh :: "'s \<Rightarrow> addr \<Rightarrow> bool"
  assumes find_law: "inv s xs \<Longrightarrow> \<exists>p. find k s = Inr p \<and>
      (if p = NULL then \<forall>a \<in> set xs. key s a \<noteq> k else p \<in> set xs \<and> key s p = k)"
    and add_law: "inv s xs \<Longrightarrow> fresh s a \<Longrightarrow> a \<notin> set xs \<Longrightarrow>
      add a s = Inl OutOfMemory \<or> (\<exists>s'. add a s = Inr (0, s') \<and> inv s' (xs @ [a]) \<and> key s' = key s)"
    and del_law: "inv s xs \<Longrightarrow> a \<in> set xs \<Longrightarrow>
      \<exists>s'. del a s = Inr (0, s') \<and> inv s' (remove1 a xs) \<and> (\<forall>b \<in> set xs - {a}. key s' b = key s b)"
    and inv_members: "inv s xs \<Longrightarrow> distinct xs \<and> NULL \<notin> set xs"
begin

text \<open>With no two entries of one key, the index is a finite map.\<close>

lemma find_unique:
  assumes "inv s xs" "inj_on (key s) (set xs)" "a \<in> set xs"
  shows "find (key s a) s = Inr a"
proof -
  obtain p where p: "find (key s a) s = Inr p"
    "if p = NULL then \<forall>b \<in> set xs. key s b \<noteq> key s a else p \<in> set xs \<and> key s p = key s a"
    using find_law [OF assms(1)] by blast
  then have "p \<noteq> NULL" using assms(3) by metis
  with p assms(2,3) show ?thesis by (auto dest: inj_onD)
qed

lemma find_absent:
  assumes "inv s xs" "\<forall>a \<in> set xs. key s a \<noteq> k"
  shows "find k s = Inr NULL"
  using find_law [OF assms(1), of k] assms(2) by (auto split: if_splits)

lemma find_after_add:
  assumes "inv s xs" "inj_on (key s) (set xs)" "fresh s a" "a \<notin> set xs" "\<forall>b \<in> set xs. key s b \<noteq> key s a"
    and "add a s = Inr (r, s')"
  shows "find (key s a) s' = Inr a" "k \<noteq> key s a \<Longrightarrow> find k s' = find k s" "r = 0"
proof -
  from add_law [OF assms(1,3,4)] assms(6) have s': "inv s' (xs @ [a])" "key s' = key s" and "r = 0" by auto
  then have inj: "inj_on (key s') (set (xs @ [a]))" using assms(2,5) by (auto simp: inj_on_def)
  show "r = 0" by fact
  show "find (key s a) s' = Inr a" using find_unique [OF s'(1) inj, of a] s'(2) by simp
  show "find k s' = find k s" if "k \<noteq> key s a"
  proof (cases "\<exists>b \<in> set xs. key s b = k")
    case True
    then obtain b where b: "b \<in> set xs" "key s b = k" by blast
    have "find k s = Inr b" using find_unique [OF assms(1,2) b(1)] b(2) by simp
    moreover have "find k s' = Inr b" using find_unique [OF s'(1) inj, of b] b s'(2) by simp
    ultimately show ?thesis by simp
  next
    case False
    then have "\<forall>b \<in> set (xs @ [a]). key s' b \<noteq> k" using that s'(2) by auto
    then show ?thesis using False find_absent [OF assms(1)] find_absent [OF s'(1)] by auto
  qed
qed

lemma find_after_del:
  assumes "inv s xs" "inj_on (key s) (set xs)" "a \<in> set xs" "del a s = Inr (r, s')"
  shows "find (key s a) s' = Inr NULL" "k \<noteq> key s a \<Longrightarrow> find k s' = find k s" "r = 0"
proof -
  from del_law [OF assms(1,3)] assms(4) have s': "inv s' (remove1 a xs)" "\<forall>b \<in> set xs - {a}. key s' b = key s b"
    and "r = 0" by auto
  have d: "set (remove1 a xs) = set xs - {a}" using inv_members [OF assms(1)] by simp
  have inj: "inj_on (key s') (set (remove1 a xs))" using assms(2) s'(2) d by (auto simp: inj_on_def)
  show "r = 0" by fact
  have "\<forall>b \<in> set (remove1 a xs). key s' b \<noteq> key s a"
    using s'(2) d assms(2,3) by (auto simp: inj_on_def)
  then show "find (key s a) s' = Inr NULL" by (rule find_absent [OF s'(1)])
  show "find k s' = find k s" if "k \<noteq> key s a"
  proof (cases "\<exists>b \<in> set xs. key s b = k")
    case True
    then obtain b where b: "b \<in> set xs" "key s b = k" by blast
    then have "b \<noteq> a" using that by auto
    then have "find k s' = Inr b" using find_unique [OF s'(1) inj, of b] b s'(2) d by simp
    then show ?thesis using find_unique [OF assms(1,2) b(1)] b(2) by simp
  next
    case False
    then have "\<forall>b \<in> set (remove1 a xs). key s' b \<noteq> k" using s'(2) d by auto
    then show ?thesis using False find_absent [OF assms(1)] find_absent [OF s'(1)] by auto
  qed
qed

end

section \<open>The hash table keeps the contract\<close>

abbreviation buffer_key :: "'a hash_state_scheme \<Rightarrow> addr \<Rightarrow> i32" where
  "buffer_key h \<equiv> fld buf_fd (nodes h)"

lemma find_buffer_k_eq: "find_buffer_k = HASH_FIND_INT"
proof (intro ext)
  fix fd and h :: "'a hash_state_scheme"
  show "find_buffer_k fd h = HASH_FIND_INT fd h"
    by (cases "HASH_FIND_INT fd h") (auto simp: find_buffer_k_def)
qed

lemma add_buffer_ok:
  fixes h :: "'a hash_state_scheme"
  assumes huge: "no_huge_malloc oom" and inv: "hash_inv h xs" and a: "nodes h a = Some e" "a \<notin> set xs"
  shows "add_buffer oom a h = Inl OutOfMemory \<and> HASH_ADD_INT oom a h = Inl OutOfMemory \<and> oom_after oom h \<or>
     (\<exists>h'. add_buffer oom a h = Inr (0, h') \<and> HASH_ADD_INT oom a h = Inr h'
       \<and> hash_inv h' (xs @ [a]) \<and> hash_frame h h')"
proof -
  have a0: "a \<noteq> NULL" using hash_inv_members(4) [OF inv] a(1) by force
  obtain p where p: "find_buffer_k (buf_fd e) h = Inr p"
    using find_ok [OF inv] unfolding find_buffer_k_eq by blast
  from add_ok [OF huge inv a] show ?thesis
  proof (elim disjE exE conjE)
    assume "HASH_ADD_INT oom a h = Inl OutOfMemory" "oom_after oom h"
    then show ?thesis using a a0 p by (simp add: add_buffer_def)
  next
    fix h' assume h': "HASH_ADD_INT oom a h = Inr h'" "hash_inv h' (xs @ [a])" "hash_frame h h'"
    have pay: "payload (nodes h') = payload (nodes h)" using h'(3) by (simp add: hash_frame_def)
    have key: "buffer_key h' a = buf_fd e" using payload_fld(1) [OF pay] a(1) by simp
    obtain eb where eb: "nodes h' a = Some eb" using payload_dom [OF pay] a(1) by blast
    obtain q where q: "HASH_FIND_INT (buf_fd e) h' = Inr q"
      "if q = NULL then \<forall>a \<in> set (xs @ [a]). buffer_key h' a \<noteq> buf_fd e
       else q \<in> set (xs @ [a]) \<and> buffer_key h' q = buf_fd e"
      using find_ok [OF h'(2)] by blast
    have "q \<noteq> NULL" using q(2) key by (metis in_set_conv_decomp)
    then have q': "q \<in> set (xs @ [a])" "buffer_key h' q = buf_fd e" using q(2) by auto
    then obtain et where et: "nodes h' q = Some et" using hash_inv_members(2) [OF h'(2)] by auto
    have "buf_fd et = buf_fd eb" using q'(2) key et eb by simp
    then have "add_buffer oom a h = Inr (0, h')"
      using a a0 p h'(1) q(1) \<open>q \<noteq> NULL\<close> eb et by (simp add: add_buffer_def)
    then show ?thesis using h' by blast
  qed
qed

text \<open>The invariant speaks of the elements of the table only: other nodes may come and go.\<close>

lemma hash_inv_agree:
  assumes inv: "hash_inv h xs" and dom: "dom (nodes h') \<subseteq> {1..brk h'}"
    and same: "\<And>a. a \<in> set xs \<Longrightarrow> nodes h' a = nodes h a"
    and tab: "android_buffer_table h' = android_buffer_table h" "tbl h' = tbl h"
  shows "hash_inv h' xs"
proof (cases "android_buffer_table h = NULL")
  case True
  then show ?thesis using inv tab dom by (auto simp: hash_inv_def heap_ok_def)
next
  case False
  with inv obtain t cs where "hash_view h xs t cs" by (auto simp: hash_inv_view)
  note t = hash_viewD [OF this]
  let ?m = "nodes h'"
  have same': "fld f ?m b = fld f (nodes h) b" if "b \<in> set xs" for b and f :: "android_buffer_t \<Rightarrow> 'v::zero"
    using same [OF that] by (simp add: fld_def)
  have sub: "set xs \<subseteq> dom ?m" using t(7) same by (metis domIff subset_iff)
  have dll: "dll (fld app_next ?m) (fld app_prev ?m) NULL (android_buffer_table h) xs"
    using t(13) by (subst dll_cong [where nx' = "fld app_next (nodes h)" and pv' = "fld app_prev (nodes h)"])
      (simp_all add: same')
  have app: "app_ok ?m (android_buffer_table h) (tail t) xs"
    using dll t(10,11,12) sub by (simp add: app_ok_def)
  have "buckets_ok ?m (set xs) (num_buckets t) (buckets t) cs"
    using t(4) sub by (intro buckets_ok_cong [OF _ _ t(4)]) (simp_all add: same')
  then have "table_ok ?m t xs" using t(2,3,9) by (auto simp: table_ok_def key_ok_def same')
  moreover have "heap_ok h'" using dom by (simp add: heap_ok_def)
  ultimately show ?thesis using app t(8) False tab by (simp add: hash_inv_def)
qed

lemma hash_inv_free:
  assumes "hash_inv h xs" "a \<notin> set xs"
  shows "hash_inv (h\<lparr>nodes := (nodes h)(a := None)\<rparr>) xs"
  using hash_inv_members(4) [OF assms(1)] assms(2) by (intro hash_inv_agree [OF assms(1)]) auto

lemma delete_buffer_ok:
  fixes h :: "'a hash_state_scheme"
  assumes inv: "hash_inv h xs" and a: "a \<in> set xs"
  shows "\<exists>h1. HASH_DELETE_HH a h = Inr h1 \<and> hash_frame h h1 \<and> brk h1 = brk h \<and> hash_inv h1 (remove1 a xs)
     \<and> delete_buffer a h = Inr (0, h1\<lparr>nodes := (nodes h1)(a := None)\<rparr>)
     \<and> hash_inv (h1\<lparr>nodes := (nodes h1)(a := None)\<rparr>) (remove1 a xs)"
proof -
  obtain h1 where h1: "HASH_DELETE_HH a h = Inr h1" "hash_inv h1 (remove1 a xs)" "hash_frame h h1" "brk h1 = brk h"
    using delete_ok [OF inv a] by blast
  have a0: "a \<noteq> NULL" and d: "distinct xs" using hash_inv_members [OF inv] a by (metis, metis)
  have "dom (nodes h1) = dom (nodes h)" using h1(3) by (intro payload_dom) (simp add: hash_frame_def)
  then obtain e where "nodes h1 a = Some e" using a hash_inv_members(2) [OF inv] by blast
  then have "delete_buffer a h = Inr (0, h1\<lparr>nodes := (nodes h1)(a := None)\<rparr>)"
    using a0 h1(1) by (simp add: delete_buffer_def free_node_def)
  moreover have "hash_inv (h1\<lparr>nodes := (nodes h1)(a := None)\<rparr>) (remove1 a xs)"
    using d by (intro hash_inv_free [OF h1(2)]) simp
  ultimately show ?thesis using h1 by blast
qed

interpretation bt: buffer_index find_buffer_k "add_buffer oom" delete_buffer
    "\<lambda>h xs. no_huge_malloc oom \<and> hash_inv h xs" buffer_key "\<lambda>h a. a \<in> dom (nodes h)"
  for oom :: oom
proof unfold_locales
  fix s :: "'a hash_state_scheme" and xs k
  assume "no_huge_malloc oom \<and> hash_inv s xs"
  then show "\<exists>p. find_buffer_k k s = Inr p \<and>
      (if p = NULL then \<forall>a \<in> set xs. buffer_key s a \<noteq> k else p \<in> set xs \<and> buffer_key s p = k)"
    unfolding find_buffer_k_eq by (intro find_ok) simp
next
  fix s :: "'a hash_state_scheme" and xs a
  assume inv: "no_huge_malloc oom \<and> hash_inv s xs" and a: "a \<in> dom (nodes s)" "a \<notin> set xs"
  then obtain e where "nodes s a = Some e" by blast
  with inv a(2) have "add_buffer oom a s = Inl OutOfMemory \<or>
     (\<exists>h'. add_buffer oom a s = Inr (0, h') \<and> hash_inv h' (xs @ [a]) \<and> hash_frame s h')"
    using add_buffer_ok [of oom s xs a e] by blast
  moreover have "buffer_key h' = buffer_key s" if "hash_frame s h'" for h'
    using that by (intro payload_fld(1)) (simp add: hash_frame_def)
  ultimately show "add_buffer oom a s = Inl OutOfMemory \<or>
     (\<exists>s'. add_buffer oom a s = Inr (0, s') \<and> (no_huge_malloc oom \<and> hash_inv s' (xs @ [a]))
       \<and> buffer_key s' = buffer_key s)"
    using inv by blast
next
  fix s :: "'a hash_state_scheme" and xs a
  assume "no_huge_malloc oom \<and> hash_inv s xs" and a: "a \<in> set xs"
  then obtain h1 where h1: "hash_frame s h1" "delete_buffer a s = Inr (0, h1\<lparr>nodes := (nodes h1)(a := None)\<rparr>)"
     "hash_inv (h1\<lparr>nodes := (nodes h1)(a := None)\<rparr>) (remove1 a xs)" "no_huge_malloc oom"
    using delete_buffer_ok [of s xs a] by blast
  have "buffer_key h1 = buffer_key s" using h1(1) by (intro payload_fld(1)) (simp add: hash_frame_def)
  then have "\<forall>b \<in> set xs - {a}. buffer_key (h1\<lparr>nodes := (nodes h1)(a := None)\<rparr>) b = buffer_key s b"
    by (auto simp: fld_del dest: fun_cong)
  with h1 show "\<exists>s'. delete_buffer a s = Inr (0, s') \<and> (no_huge_malloc oom \<and> hash_inv s' (remove1 a xs))
     \<and> (\<forall>b \<in> set xs - {a}. buffer_key s' b = buffer_key s b)" by blast
next
  fix s :: "'a hash_state_scheme" and xs
  assume "no_huge_malloc oom \<and> hash_inv s xs"
  then show "distinct xs \<and> NULL \<notin> set xs" using hash_inv_members by blast
qed

section \<open>A sample table\<close>

text \<open>One managed buffer (address 1, key 5, object 100) and two that are not in the table yet
  (address 2, key 7, object 200; address 3, key 5, object 300), for the witnesses.\<close>

definition sample_node :: "i32 \<Rightarrow> addr \<Rightarrow> android_buffer_t" where
  "sample_node k b = \<lparr>buf_fd = k, buf_bo = b, app_prev = NULL, app_next = NULL, hh_prev = NULL,
     hh_next = NULL, keylen = sizeof_int, hashv = HASH_VALUE_INT k\<rparr>"

text \<open>A table of one element.\<close>

definition single_table :: "addr \<Rightarrow> i32 \<Rightarrow> UT_hash_table" where
  "single_table a k = \<lparr>
       buckets = (replicate 32 empty_bucket)[HASH_TO_BKT (HASH_VALUE_INT k) 32 :=
         \<lparr>hh_head = a, count = 1, expand_mult = 0\<rparr>],
       num_buckets = 32, log2_num_buckets = 5, num_items = 1, tail = a, ideal_chain_maxlen = 0,
       nonideal_items = 0, ineff_expands = 0, noexpand = 0\<rparr>"

lemma single_inv:
  assumes "nodes h a = Some (sample_node k v)" "a \<noteq> NULL" "dom (nodes h) \<subseteq> {1..brk h}"
    and "android_buffer_table h = a" "tbl h = Some (single_table a k)"
  shows "hash_inv h [a]"
proof -
  let ?i = "HASH_TO_BKT (HASH_VALUE_INT k) 32"
  have i: "?i < 32" using HASH_TO_BKT_less [of 32] by simp
  have "in_bkt (nodes h) {a} 32 j = (if j = ?i then {a} else {})" for j
    using assms(1) by (auto simp: in_bkt_def sample_node_def)
  then have "buckets_ok (nodes h) {a} 32 ((replicate 32 empty_bucket)[?i := \<lparr>hh_head = a, count = 1, expand_mult = 0\<rparr>])
     ((replicate 32 [])[?i := [a]])"
    using i assms(1,2) by (auto simp: buckets_ok_def chain_ok_def nth_list_update empty_bucket_def sample_node_def)
  moreover have "key_ok (nodes h) a" using assms(1) by (simp add: key_ok_def sample_node_def)
  moreover have "app_ok (nodes h) a a [a]" using assms(1,2) by (auto simp: app_ok_def sample_node_def)
  ultimately show ?thesis
    using assms by (auto simp: hash_inv_def heap_ok_def table_ok_def table_wf_def single_table_def)
qed

definition sample_nodes :: "addr \<rightharpoonup> android_buffer_t" where
  "sample_nodes = [1 \<mapsto> sample_node 5 100, 2 \<mapsto> sample_node 7 200, 3 \<mapsto> sample_node 5 300]"

definition sample_table :: hash_state where
  "sample_table = \<lparr>brk = 3, nodes = sample_nodes, android_buffer_table = 1, tbl = Some (single_table 1 5)\<rparr>"

definition sample_oom :: oom where
  "sample_oom t sz \<longleftrightarrow> 2 ^ 36 \<le> sz"

lemma sample_oom_huge: "no_huge_malloc sample_oom"
  by (simp add: no_huge_malloc_def sample_oom_def)

lemma sample_inv: "hash_inv sample_table [1]"
  by (rule single_inv) (auto simp: sample_table_def sample_nodes_def)

lemma sample_values:
  "nodes sample_table 1 = Some (sample_node 5 100)" "nodes sample_table 2 = Some (sample_node 7 200)"
  "nodes sample_table 3 = Some (sample_node 5 300)"
  "buffer_key sample_table 1 = 5" "buffer_key sample_table 2 = 7" "buffer_key sample_table 3 = 5"
  "fld buf_bo (nodes sample_table) 1 = 100" "brk sample_table = 3"
  by (simp_all add: sample_table_def sample_nodes_def sample_node_def fld_def)

lemmas sample_values_simps = sample_values sample_values [unfolded One_nat_def]

text \<open>With the sample allocator, adding either of the two others succeeds.\<close>

lemma sample_add:
  assumes "a = 2 \<or> a = 3"
  obtains h where "add_buffer sample_oom a sample_table = Inr (0, h)" "hash_inv h [1, a]"
    "hash_frame sample_table h"
proof -
  have "HASH_ADD_INT sample_oom 2 sample_table \<noteq> Inl OutOfMemory"
    "HASH_ADD_INT sample_oom 3 sample_table \<noteq> Inl OutOfMemory"
    using HASH_TO_BKT_less [of 32 "HASH_VALUE_INT 5"] HASH_TO_BKT_less [of 32 "HASH_VALUE_INT 7"]
    by (simp_all add: HASH_ADD_INT_def HASH_ADD_KEYPTR_BYHASHVALUE_def HASH_APPEND_LIST_def head_tbl_def
        HASH_ADD_TO_TABLE_def HASH_ADD_TO_BKT_def bucket_at_def sample_table_def sample_nodes_def sample_node_def single_table_def
        Let_def chain_push_def nth_list_update empty_bucket_def HASH_BKT_CAPACITY_THRESH_def word_le_nat_alt)
  moreover obtain e where e: "nodes sample_table a = Some e" "a \<notin> set [1]"
    using assms sample_values(2,3) by fastforce
  ultimately show ?thesis
    using add_buffer_ok [OF sample_oom_huge sample_inv e] that assms by auto
qed

section \<open>Properties\<close>

text \<open>C22: the lookup returns a managed buffer with the given descriptor, and NULL exactly when no
  managed buffer has it; it reads no memory that is not a live element (no fault) and ends.\<close>

theorem find_buffer_k_spec:
  assumes "hash_inv h xs"
  shows "\<exists>p. find_buffer_k k h = Inr p
    \<and> (if p = NULL then k \<notin> buffer_key h ` set xs else p \<in> set xs \<and> buffer_key h p = k)"
proof -
  from find_ok [OF assms, of k] obtain p where p: "HASH_FIND_INT k h = Inr p"
    "if p = NULL then \<forall>a \<in> set xs. buffer_key h a \<noteq> k else p \<in> set xs \<and> buffer_key h p = k" by blast
  then have "k \<notin> buffer_key h ` set xs" if "p = NULL" using that by auto
  then show ?thesis using p by (auto simp: find_buffer_k_eq)
qed

theorem find_buffer_k_spec_witness: "find_buffer_k 5 sample_table = Inr 1 \<and> find_buffer_k 7 sample_table = Inr NULL"
  using find_buffer_k_spec [OF sample_inv, of 5] find_buffer_k_spec [OF sample_inv, of 7] sample_values(4)
  by (auto split: if_splits)

text \<open>The search by value returns the first managed buffer, in the order they were added, that
  holds the object, and NULL when none does.\<close>

theorem find_buffer_v_spec:
  assumes "hash_inv h xs" and "v \<noteq> NULL"
  shows "find_buffer_v v h = Inr (case find (\<lambda>a. fld buf_bo (nodes h) a = v) xs of None \<Rightarrow> NULL | Some a \<Rightarrow> a)"
proof (cases "android_buffer_table h = NULL")
  case True
  then show ?thesis using assms hash_inv_NULL [OF assms(1)]
    by (simp add: find_buffer_v_def HASH_COUNT_def next_or_NULL_def)
next
  case False
  with assms(1) obtain t cs where "hash_view h xs t cs" by (auto simp: hash_inv_view)
  note t = hash_viewD [OF this]
  let ?hd = "android_buffer_table h"
  have "?hd \<in> set xs" using dll_head [OF t(13) False] by blast
  then have "next_or_NULL (nodes h) ?hd = Inr (fld app_next (nodes h) ?hd)"
    using t(7) False by (auto simp: next_or_NULL_def)
  moreover have "HASH_ITER_bo (Suc (brk h)) (nodes h) v ?hd (fld app_next (nodes h) ?hd)
      = Inr (case find (\<lambda>a. fld buf_bo (nodes h) a = v) xs of None \<Rightarrow> NULL | Some a \<Rightarrow> a)"
    using chain_length_le [OF t(11,7,5)] False by (intro HASH_ITER_ok [OF t(13,7)]) simp_all
  ultimately show ?thesis using assms(2) count_ok [OF assms(1)] by (simp add: find_buffer_v_def)
qed

theorem find_buffer_v_spec_witness: "find_buffer_v 100 sample_table = Inr 1"
  using find_buffer_v_spec [OF sample_inv, of 100] sample_values(7) by simp

text \<open>C19: \<open>add_buffer\<close> of an allocated buffer that is not in the table appends it, keeps every
  other buffer with its key and object, returns 0, and its \<open>assert\<close> cannot fail; the only other
  outcome is that a request for memory (of at most 64 GiB) fails, and then the process exits.\<close>

theorem add_buffer_spec:
  assumes "no_huge_malloc oom" and "hash_inv h xs" and "a \<in> dom (nodes h)" and "a \<notin> set xs"
  shows "(add_buffer oom a h = Inl OutOfMemory \<and> oom_after oom h)
    \<or> (\<exists>h'. add_buffer oom a h = Inr (0, h') \<and> hash_inv h' (xs @ [a]) \<and> hash_frame h h')"
proof -
  from assms(3) obtain e where "nodes h a = Some e" by blast
  from add_buffer_ok [OF assms(1,2) this assms(4)] show ?thesis by blast
qed

theorem add_buffer_spec_witness:
  "\<exists>h'. add_buffer sample_oom 2 sample_table = Inr (0, h') \<and> hash_inv h' [1, 2]"
proof -
  obtain h where "add_buffer sample_oom 2 sample_table = Inr (0, h)" by (rule sample_add [of 2]) simp
  moreover have "2 \<in> dom (nodes sample_table)" using sample_values(2) by blast
  ultimately show ?thesis using add_buffer_spec [OF sample_oom_huge sample_inv, of 2] by auto
qed

text \<open>Adding a buffer whose descriptor is already in the table does not skip it, as the log line
  says: both buffers are in the table afterwards.\<close>

theorem add_buffer_keeps_duplicate:
  assumes "no_huge_malloc oom" and "hash_inv h xs" and "a \<in> dom (nodes h)" and "a \<notin> set xs"
    and "b \<in> set xs" and "buffer_key h b = buffer_key h a" and "add_buffer oom a h = Inr (r, h')"
  shows "r = 0 \<and> hash_inv h' (xs @ [a]) \<and> a \<noteq> b \<and> buffer_key h' a = buffer_key h' b
    \<and> HASH_COUNT h' = Inr (of_nat (length xs + 1))"
proof -
  from assms(3) obtain e where "nodes h a = Some e" by blast
  from add_buffer_ok [OF assms(1,2) this assms(4)] assms(7)
  have h': "r = 0" "hash_inv h' (xs @ [a])" "hash_frame h h'" by auto
  then have "buffer_key h' = buffer_key h" by (intro payload_fld(1)) (simp add: hash_frame_def)
  then show ?thesis using h' assms(4-6) count_ok [OF h'(2)] by auto
qed

theorem add_buffer_keeps_duplicate_witness:
  "\<exists>h'. add_buffer sample_oom 3 sample_table = Inr (0, h') \<and> HASH_COUNT h' = Inr 2
    \<and> buffer_key h' 3 = buffer_key h' 1"
proof -
  obtain h where h: "add_buffer sample_oom 3 sample_table = Inr (0, h)" by (rule sample_add [of 3]) simp
  have "3 \<in> dom (nodes sample_table)" using sample_values(3) by blast
  from add_buffer_keeps_duplicate [OF sample_oom_huge sample_inv this _ _ _ h, of 1] h show ?thesis
    by (simp add: sample_values_simps)
qed

text \<open>C21: what an insertion does to every lookup, duplicates included. A lookup of another descriptor finds
  something after it exactly when it did before, and then a buffer of that descriptor that was there; a
  lookup of the new descriptor finds the new buffer, or one that already had the descriptor. Among several
  buffers of one descriptor the one found is not fixed, since an expansion of the buckets may turn chains
  round. While the descriptors are distinct the table is a finite map: the insertion updates it at
  the new descriptor and nowhere else.\<close>

theorem buffer_table_insert:
  assumes "no_huge_malloc oom" and "hash_inv h xs" and "a \<in> dom (nodes h)" and "a \<notin> set xs"
    and "add_buffer oom a h = Inr (r, h')"
  shows "\<exists>p q. find_buffer_k k h = Inr p \<and> find_buffer_k k h' = Inr q
    \<and> (if k = buffer_key h a then q = a \<or> p \<noteq> NULL \<and> q \<in> set xs \<and> buffer_key h q = k
       else if p = NULL then q = NULL else q \<in> set xs \<and> buffer_key h q = k)
    \<and> (inj_on (buffer_key h) (set xs) \<and> buffer_key h a \<notin> buffer_key h ` set xs \<longrightarrow> q = (if k = buffer_key h a then a else p))"
proof -
  from assms(3) obtain e where "nodes h a = Some e" by blast
  from add_buffer_ok [OF assms(1,2) this assms(4)] assms(5)
  have h': "hash_inv h' (xs @ [a])" "hash_frame h h'" by auto
  then have key: "buffer_key h' = buffer_key h" by (intro payload_fld(1)) (simp add: hash_frame_def)
  have null: "NULL \<notin> set (xs @ [a])" using hash_inv_members [OF h'(1)] by blast
  obtain p where p: "find_buffer_k k h = Inr p"
    "if p = NULL then \<forall>b \<in> set xs. buffer_key h b \<noteq> k else p \<in> set xs \<and> buffer_key h p = k"
    using find_ok [OF assms(2), of k] by (auto simp: find_buffer_k_eq)
  obtain q where q: "find_buffer_k k h' = Inr q"
    "if q = NULL then \<forall>b \<in> set (xs @ [a]). buffer_key h b \<noteq> k else q \<in> set (xs @ [a]) \<and> buffer_key h q = k"
    using find_ok [OF h'(1), of k, unfolded key] by (auto simp: find_buffer_k_eq)
  have "if k = buffer_key h a then q = a \<or> p \<noteq> NULL \<and> q \<in> set xs \<and> buffer_key h q = k
       else if p = NULL then q = NULL else q \<in> set xs \<and> buffer_key h q = k"
    using p(2) q(2) null by (auto split: if_splits)
  moreover have "q = (if k = buffer_key h a then a else p)"
    if "inj_on (buffer_key h) (set xs)" "buffer_key h a \<notin> buffer_key h ` set xs"
  proof -
    have "\<forall>b \<in> set xs. buffer_key h b \<noteq> buffer_key h a" using that(2) by (metis imageI)
    then show ?thesis using p(2) q(2) null that(1) by (auto split: if_splits dest: inj_onD)
  qed
  ultimately show ?thesis using p(1) q(1) by blast
qed

text \<open>A buffer with a new descriptor, and one whose descriptor is there already.\<close>

theorem buffer_table_insert_witness:
  "\<exists>h' h'' q. add_buffer sample_oom 2 sample_table = Inr (0, h') \<and> find_buffer_k 7 h' = Inr 2 \<and> find_buffer_k 5 h' = Inr 1
    \<and> add_buffer sample_oom 3 sample_table = Inr (0, h'') \<and> find_buffer_k 5 h'' = Inr q \<and> q \<in> {1, 3}"
proof -
  obtain h where h: "add_buffer sample_oom 2 sample_table = Inr (0, h)" by (rule sample_add [of 2]) simp
  obtain h3 where h3: "add_buffer sample_oom 3 sample_table = Inr (0, h3)" by (rule sample_add [of 3]) simp
  have 2: "2 \<in> dom (nodes sample_table)" and 3: "3 \<in> dom (nodes sample_table)" using sample_values(2,3) by blast+
  have "find_buffer_k 5 sample_table = Inr 1"
    using bt.find_unique [of sample_oom sample_table "[1]" 1] sample_oom_huge sample_inv sample_values(4) by simp
  moreover have "find_buffer_k 7 h = Inr 2"
    using buffer_table_insert [OF sample_oom_huge sample_inv 2 _ h, of 7] by (auto simp: sample_values_simps)
  moreover have "\<exists>p q. find_buffer_k 5 sample_table = Inr p \<and> find_buffer_k 5 h = Inr q \<and> q = p"
    using buffer_table_insert [OF sample_oom_huge sample_inv 2 _ h, of 5] by (auto simp: sample_values_simps)
  moreover have "\<exists>q. find_buffer_k 5 h3 = Inr q \<and> q \<in> {1, 3}"
    using buffer_table_insert [OF sample_oom_huge sample_inv 3 _ h3, of 5] by (auto simp: sample_values_simps)
  ultimately show ?thesis using h h3 by auto
qed
text \<open>C20: \<open>delete_buffer\<close> of a managed buffer takes exactly that buffer out, frees it, and keeps
  the others in order with their keys and objects.\<close>

theorem delete_buffer_spec:
  assumes "hash_inv h xs" and "a \<in> set xs"
  shows "\<exists>h'. delete_buffer a h = Inr (0, h') \<and> hash_inv h' (remove1 a xs) \<and> a \<notin> dom (nodes h')
    \<and> payload (nodes h') = (payload (nodes h))(a := None)"
proof -
  from delete_buffer_ok [OF assms] obtain h1 where h1: "hash_frame h h1"
    "delete_buffer a h = Inr (0, h1\<lparr>nodes := (nodes h1)(a := None)\<rparr>)"
    "hash_inv (h1\<lparr>nodes := (nodes h1)(a := None)\<rparr>) (remove1 a xs)" by blast
  have "payload ((nodes h1)(a := None)) = (payload (nodes h1))(a := None)"
    by (auto simp: payload_def)
  with h1 show ?thesis by (auto simp: hash_frame_def)
qed

theorem delete_buffer_spec_witness: "\<exists>h'. delete_buffer 1 sample_table = Inr (0, h') \<and> hash_inv h' []"
  using delete_buffer_spec [OF sample_inv, of 1] by auto

text \<open>While the descriptors are distinct, a deletion removes one key of the map and no other.\<close>

theorem buffer_table_delete:
  assumes "hash_inv h xs" and "inj_on (buffer_key h) (set xs)" and "a \<in> set xs" and "delete_buffer a h = Inr (r, h')"
  shows "find_buffer_k k h' = (if k = buffer_key h a then Inr NULL else find_buffer_k k h)"
proof -
  have inv: "no_huge_malloc sample_oom \<and> hash_inv h xs" using assms(1) sample_oom_huge by simp
  show ?thesis using bt.find_after_del(1,2) [OF inv assms(2-4)] by auto
qed

theorem buffer_table_delete_witness:
  "\<exists>h'. delete_buffer 1 sample_table = Inr (0, h') \<and> find_buffer_k 5 h' = Inr NULL"
proof -
  obtain h1 where h: "delete_buffer 1 sample_table = Inr (0, h1)"
    using delete_buffer_ok [OF sample_inv, of 1] by auto
  from buffer_table_delete [OF sample_inv _ _ h, of 5] h show ?thesis by (simp add: sample_values_simps)
qed

text \<open>\<open>delete_buffer_fd\<close> tests the descriptor where it means to test the lookup: it deletes a
  managed buffer of a positive descriptor, dereferences NULL for a positive descriptor that has none,
  and never deletes the buffer of descriptor 0.\<close>

theorem delete_buffer_fd_cases:
  assumes "hash_inv h xs"
  shows "(sint fd < 0 \<longrightarrow> delete_buffer_fd fd h = Inr (- EINVAL, h))
    \<and> (fd = 0 \<longrightarrow> delete_buffer_fd fd h = Inr (0, h))
    \<and> (0 < sint fd \<and> fd \<notin> buffer_key h ` set xs \<longrightarrow> delete_buffer_fd fd h = Inl NullDeref)
    \<and> (0 < sint fd \<and> fd \<in> buffer_key h ` set xs \<longrightarrow>
         (\<exists>a \<in> set xs. buffer_key h a = fd
            \<and> (\<exists>h'. delete_buffer_fd fd h = Inr (0, h') \<and> hash_inv h' (remove1 a xs) \<and> a \<notin> dom (nodes h'))))"
proof -
  from find_ok [OF assms, of fd] obtain p where p: "HASH_FIND_INT fd h = Inr p"
    "if p = NULL then \<forall>a \<in> set xs. buffer_key h a \<noteq> fd else p \<in> set xs \<and> buffer_key h p = fd" by blast
  have pos: "fd \<noteq> 0" if "0 < sint fd" using that by auto
  have "delete_buffer_fd fd h = Inl NullDeref" if "0 < sint fd" "fd \<notin> buffer_key h ` set xs"
  proof -
    have "p = NULL" using p(2) that(2) by (auto split: if_splits)
    then show ?thesis using that pos p(1) by (simp add: delete_buffer_fd_def HASH_DELETE_HH_def)
  qed
  moreover have "\<exists>a \<in> set xs. buffer_key h a = fd
      \<and> (\<exists>h'. delete_buffer_fd fd h = Inr (0, h') \<and> hash_inv h' (remove1 a xs) \<and> a \<notin> dom (nodes h'))"
    if "0 < sint fd" "fd \<in> buffer_key h ` set xs"
  proof -
    have q: "p \<noteq> NULL" "p \<in> set xs" "buffer_key h p = fd" using p(2) that(2) by (auto split: if_splits)
    from delete_buffer_ok [OF assms q(2)] obtain h1 where h1:
      "delete_buffer p h = Inr (0, h1\<lparr>nodes := (nodes h1)(p := None)\<rparr>)"
      "hash_inv (h1\<lparr>nodes := (nodes h1)(p := None)\<rparr>) (remove1 p xs)" by blast
    have "delete_buffer_fd fd h = delete_buffer p h"
      using that pos p(1) q(1) by (simp add: delete_buffer_fd_def delete_buffer_def)
    with h1 q show ?thesis by (intro bexI [of _ p]) auto
  qed
  moreover have "\<not> sint (0::i32) < 0" by simp
  ultimately show ?thesis using p(1) by (auto simp: delete_buffer_fd_def)
qed

theorem delete_buffer_fd_cases_witness:
  "delete_buffer_fd 9 sample_table = Inl NullDeref \<and> delete_buffer_fd 0 sample_table = Inr (0, sample_table)
   \<and> (\<exists>h'. delete_buffer_fd 5 sample_table = Inr (0, h') \<and> hash_inv h' [])"
  using delete_buffer_fd_cases [OF sample_inv, of 9] delete_buffer_fd_cases [OF sample_inv, of 0]
    delete_buffer_fd_cases [OF sample_inv, of 5]
  by (auto simp: sample_values_simps)

text \<open>An expansion of the table doubles the buckets and loses, adds and reorders no element; it
  fails only if the request for the new buckets fails.\<close>

theorem expand_buckets_spec:
  assumes "no_huge_malloc oom" and "hash_inv h xs" and "tbl h = Some t"
  shows "(HASH_EXPAND_BUCKETS oom h = Inl OutOfMemory
            \<and> oom (Suc (brk h)) (sizeof_UT_hash_bucket * unat (num_buckets t) * 2))
    \<or> (\<exists>h' t'. HASH_EXPAND_BUCKETS oom h = Inr h' \<and> hash_inv h' xs \<and> hash_frame h h'
         \<and> tbl h' = Some t' \<and> length (buckets t') = 2 * length (buckets t))"
proof -
  have hd: "android_buffer_table h \<noteq> NULL" using assms(2,3) by (auto simp: hash_inv_def split: if_splits)
  with assms(2,3) have ok: "heap_ok h" "app_ok (nodes h) (android_buffer_table h) (tail t) xs" "table_ok (nodes h) t xs"
    by (auto simp: hash_inv_def)
  from expand_ok [OF assms(1) ok(1) hd assms(3) ok(3)] show ?thesis
  proof (elim disjE exE conjE)
    fix h' t'
    assume h': "HASH_EXPAND_BUCKETS oom h = Inr h'" "heap_ok h'" "tbl h' = Some t'" "table_ok (nodes h') t' xs"
      "app_view (nodes h') = app_view (nodes h)" "tail t' = tail t" "num_buckets t' = num_buckets t * 2"
      "android_buffer_table h' = android_buffer_table h" "hash_frame h h'"
    have "hash_inv h' xs"
      using h'(2-4,6,8) hd ok(2) app_view_app_ok [OF h'(5)] by (simp add: hash_inv_def)
    moreover have "length (buckets t') = 2 * length (buckets t)"
    proof -
      have wf: "table_wf t" "table_wf t'" using ok(3) h'(4) by (simp_all add: table_ok_def)
      let ?n = "num_buckets t"
      have "unat (?n * 2) = unat ?n * 2"
      proof (rule ccontr)
        assume "unat (?n * 2) \<noteq> unat ?n * 2"
        then have "\<not> unat ?n * 2 < 2 ^ 32" by (auto simp: unat_word_ariths)
        then have "2 ^ 31 \<le> unat ?n" by simp
        moreover have "unat ?n \<le> 2 ^ 31"
          by (rule table_wfD(4) [OF wf(1)])
        ultimately have "?n * 2 = 0" by (simp add: word_eq_iff_unsigned unat_word_ariths flip: unat_eq_0)
        then show False using table_wfD(1) [OF wf(2)] h'(7) by simp
      qed
      then show ?thesis using table_wfD(3) [OF wf(1)] table_wfD(3) [OF wf(2)] h'(7) by simp
    qed
    ultimately show ?thesis using h'(1,3,9) by blast
  qed blast
qed

theorem expand_buckets_spec_witness:
  "\<exists>h' t'. HASH_EXPAND_BUCKETS sample_oom sample_table = Inr h' \<and> hash_inv h' [1]
     \<and> tbl h' = Some t' \<and> length (buckets t') = 64"
proof -
  obtain t where t: "tbl sample_table = Some t" "unat (num_buckets t) = 32" "length (buckets t) = 32"
    by (simp add: sample_table_def single_table_def)
  then have "\<not> sample_oom (Suc (brk sample_table)) (sizeof_UT_hash_bucket * unat (num_buckets t) * 2)"
    by (simp add: sample_oom_def sizeof_UT_hash_bucket_def)
  with expand_buckets_spec [OF sample_oom_huge sample_inv t(1)] t(3) show ?thesis by auto
qed

text \<open>C23: every walk over the table ends. In a well-formed table of \<open>n\<close> elements the walk along any
  bucket, the walk in application order and the rehash of all buckets return after at most \<open>n + 1\<close> rounds
  of a loop each, so any bound above \<open>n\<close> gives the same result as the bound the model runs them with.\<close>

theorem hash_walks_terminate:
  assumes "hash_inv h xs" and "tbl h = Some t" and "length xs < fuel" and "unat (num_buckets t) < 2 ^ 31"
  shows "(\<forall>i < length (buckets t). \<forall>k. \<exists>p.
        HASH_FIND_IN_BKT fuel (nodes h) k (HASH_VALUE_INT k) (hh_head (buckets t ! i)) = Inr p
      \<and> HASH_FIND_IN_BKT (Suc (brk h)) (nodes h) k (HASH_VALUE_INT k) (hh_head (buckets t ! i)) = Inr p)
    \<and> (\<forall>v. \<exists>p. let first = android_buffer_table h; second = fld app_next (nodes h) first in
        HASH_ITER_bo fuel (nodes h) v first second = Inr p
      \<and> HASH_ITER_bo (Suc (brk h)) (nodes h) v first second = Inr p)
    \<and> (\<forall>ideal. \<exists>r. expand_buckets fuel (num_buckets t * 2) ideal (buckets t) [0 ..< unat (num_buckets t)]
        (nodes h, replicate (unat (num_buckets t) * 2) empty_bucket, 0) = Inr r)"
proof -
  have False: "android_buffer_table h \<noteq> NULL" using assms(1,2) by (auto simp: hash_inv_def split: if_splits)
  with assms(1,2) obtain cs where "hash_view h xs t cs" by (auto simp: hash_inv_view hash_view_def)
  note t = hash_viewD [OF this]
  note w = table_wfD [OF t(2)]
  have sub: "set (cs ! i) \<subseteq> set xs" if "i < length (buckets t)" for i
    using buckets_okD(4) [OF t(4) that] by (auto simp: in_bkt_def)
  have len: "length (cs ! i) < fuel" if "i < length (buckets t)" for i
    using card_mono [OF _ sub [OF that]] buckets_okD(2) [OF t(4) that] t(11) assms(3)
    by (simp add: distinct_card)
  have brk: "length (cs ! i) < Suc (brk h)" if "i < length (buckets t)" for i
    using chain_length_le [OF buckets_okD(2,6) [OF t(4) that] t(5)] by simp
  have find: "HASH_FIND_IN_BKT f (nodes h) k (HASH_VALUE_INT k) (hh_head (buckets t ! i))
      = Inr (case find (\<lambda>a. fld buf_fd (nodes h) a = k) (cs ! i) of None \<Rightarrow> NULL | Some a \<Rightarrow> a)"
    if "i < length (buckets t)" "length (cs ! i) < f" for i k f
    using buckets_okD [OF t(4) that(1)] sub [OF that(1)] t(3) that(2) by (intro HASH_FIND_IN_BKT_ok) auto
  have iter: "HASH_ITER_bo f (nodes h) v (android_buffer_table h) (fld app_next (nodes h) (android_buffer_table h))
      = Inr (case find (\<lambda>a. fld buf_bo (nodes h) a = v) xs of None \<Rightarrow> NULL | Some a \<Rightarrow> a)"
    if "length xs < f" for v f
    using False that by (intro HASH_ITER_ok [OF t(13,7)]) simp_all
  have nb2: "num_buckets t * 2 \<noteq> 0" "unat (num_buckets t * 2) = unat (num_buckets t) * 2"
    using assms(4) w(1) by (auto simp: unat_word_ariths unat_eq_0 [symmetric] simp del: unat_eq_0)
  have "\<exists>r. expand_buckets fuel (num_buckets t * 2) ideal (buckets t) [0 ..< unat (num_buckets t)]
        (nodes h, replicate (unat (num_buckets t) * 2) empty_bucket, 0) = Inr r" for ideal
    using expand_buckets_ok [OF t(4) len, of "[0 ..< unat (num_buckets t)]" "nodes h" "{}" "num_buckets t * 2"
      "replicate (unat (num_buckets t) * 2) empty_bucket" "replicate (unat (num_buckets t) * 2) []" ideal 0]
      nb2 w(3) empty_buckets_ok by fastforce
  moreover have "length xs < Suc (brk h)" using chain_length_le [OF t(11,7,5)] by simp
  ultimately show ?thesis
    unfolding Let_def using find [OF _ len] find [OF _ brk] iter [OF assms(3)] iter by (intro conjI allI impI) blast+
qed

theorem hash_walks_terminate_witness:
  "HASH_FIND_IN_BKT 2 (nodes sample_table) 5 (HASH_VALUE_INT 5) (hh_head (buckets (single_table 1 5) ! 0)) \<noteq> Inl LoopBound"
proof -
  have t: "tbl sample_table = Some (single_table 1 5)" "unat (num_buckets (single_table 1 5)) < 2 ^ 31"
    "0 < length (buckets (single_table 1 5))"
    by (simp_all add: sample_table_def single_table_def)
  have "\<exists>p. HASH_FIND_IN_BKT 2 (nodes sample_table) 5 (HASH_VALUE_INT 5) (hh_head (buckets (single_table 1 5) ! 0)) = Inr p"
    using conjunct1 [OF hash_walks_terminate [OF sample_inv t(1) _ t(2), of 2]] t(3) by (simp del: HASH_FIND_IN_BKT.simps) blast
  then show ?thesis by (metis Inl_Inr_False)
qed

end
