(* ===== verification/Gbm_World.thy ===== *)
theory Gbm_World
  imports Formats Buffer_Table
begin

text \<open>
  The state the GBM back end works on and the code it calls that the repository does not
  contain: the usage bits of Android's \<^verbatim>\<open>hardware/gralloc.h\<close>, the build macros, and the functions
  that \<^verbatim>\<open>include/gbm.h\<close> declares (libgbm implements them). These are fields of the record
  \<open>platform\<close>, an argument of every operation. What the proofs rely on of libgbm is \<open>gbm_laws\<close>.
\<close>

unbundle bit_operations_syntax

section \<open>Flags of gbm.h and gralloc_gbm_bo_ext.h\<close>

definition GBM_BO_USE_NONE :: u32 where "GBM_BO_USE_NONE = 0"
definition GBM_BO_USE_SCANOUT :: u32 where "GBM_BO_USE_SCANOUT = push_bit 0 1"
definition GBM_BO_USE_CURSOR :: u32 where "GBM_BO_USE_CURSOR = push_bit 1 1"
definition GBM_BO_USE_RENDERING :: u32 where "GBM_BO_USE_RENDERING = push_bit 2 1"
definition GBM_BO_USE_WRITE :: u32 where "GBM_BO_USE_WRITE = push_bit 3 1"
definition GBM_BO_USE_LINEAR :: u32 where "GBM_BO_USE_LINEAR = push_bit 4 1"
definition GBM_BO_USE_PROTECTED :: u32 where "GBM_BO_USE_PROTECTED = push_bit 5 1"

definition GBM_BO_TRANSFER_READ :: u32 where "GBM_BO_TRANSFER_READ = push_bit 0 1"
definition GBM_BO_TRANSFER_WRITE :: u32 where "GBM_BO_TRANSFER_WRITE = push_bit 1 1"

named_theorems gbm_flags \<open>the flag values\<close>

lemma gbm_flag_values [gbm_flags]:
  "GBM_BO_USE_NONE = 0" "GBM_BO_USE_SCANOUT = 1" "GBM_BO_USE_CURSOR = 2" "GBM_BO_USE_RENDERING = 4"
  "GBM_BO_USE_WRITE = 8" "GBM_BO_USE_LINEAR = 16" "GBM_BO_USE_PROTECTED = 32"
  "GBM_BO_TRANSFER_READ = 1" "GBM_BO_TRANSFER_WRITE = 2"
  by (simp_all add: GBM_BO_USE_NONE_def GBM_BO_USE_SCANOUT_def GBM_BO_USE_CURSOR_def GBM_BO_USE_RENDERING_def
      GBM_BO_USE_WRITE_def GBM_BO_USE_LINEAR_def GBM_BO_USE_PROTECTED_def GBM_BO_TRANSFER_READ_def
      GBM_BO_TRANSFER_WRITE_def push_bit_eq_mult)

definition GRALLOC_GBM_WIDTH_MAX :: int where "GRALLOC_GBM_WIDTH_MAX = 16384"
definition GRALLOC_GBM_HEIGHT_MAX :: int where "GRALLOC_GBM_HEIGHT_MAX = 16384"
definition GRALLOC_GENERIC_SMPTE2094_50_MAX_SIZE :: nat where "GRALLOC_GENERIC_SMPTE2094_50_MAX_SIZE = 1024 * 10"

section \<open>Data\<close>

record smpte2086_t =
  primary_red_x :: f32
  primary_red_y :: f32
  primary_green_x :: f32
  primary_green_y :: f32
  primary_blue_x :: f32
  primary_blue_y :: f32
  white_point_x :: f32
  white_point_y :: f32
  max_luminance :: f32
  min_luminance :: f32

record cta861_3_t =
  max_content_light_level :: f32
  max_frame_average_light_level :: f32

record buffer_metadata_t =
  dataspace :: i32
  blend_mode :: i32
  smpte2086 :: addr
  cta861_3 :: addr
  smpte2094_50_size :: i32
  smpte2094_50 :: addr

record gbm_bo_data_t =
  map_data :: addr
  lock_count :: i32
  locked_for :: i32
  metadata :: buffer_metadata_t

text \<open>\<open>allocator_desc_t\<close>; the name is only logged.\<close>

record allocator_desc_t =
  ad_name :: "string option"
  ad_width :: i32
  ad_height :: i32
  ad_layer_count :: i32
  ad_format :: i32
  ad_usage :: i64
  ad_reserved_size :: i64

text \<open>\<open>gralloc_handle_t\<close> without its \<open>native_handle_t\<close> header, which only libcutils reads.\<close>

record gralloc_handle_t =
  prime_fd :: i32
  magic :: u32
  version :: u32
  gh_width :: u32
  gh_height :: u32
  gh_format :: u32
  gh_usage :: u32
  gh_stride :: u32
  data_owner :: i32
  gh_modifier :: u64
  gh_data :: u64

definition GRALLOC_HANDLE_VERSION :: u32 where "GRALLOC_HANDLE_VERSION = 4"
definition GRALLOC_HANDLE_MAGIC :: u32 where "GRALLOC_HANDLE_MAGIC = 0x60585350"

record android_buffer_info_t =
  info_fd :: i32
  buffer_id :: addr
  info_name :: addr
  info_width :: i32
  info_height :: i32
  info_layer_count :: i32
  info_plane_count :: i32
  info_android_format :: u32
  info_gbm_format :: u32
  info_modifier :: u64
  info_usage :: i32
  info_size :: u64
  info_stride :: i32
  is_protected :: bool
  info_metadata :: buffer_metadata_t

record gralloc_gbm_driver_t =
  ready :: bool
  dri_fd :: i32
  gbm_dev :: addr
  gbm_dev_fd :: i32
  gbm_backend_name :: addr

text \<open>\<open>struct gbm_import_fd_modifier_data\<close>: the code fills in the first plane of each array.\<close>

record gbm_import_fd_modifier_data =
  im_width :: u32
  im_height :: u32
  im_format :: u32
  num_fds :: u32
  fds0 :: i32
  strides0 :: i32
  im_modifier :: u64

section \<open>The world\<close>

text \<open>
  One heap per type of object, the driver and the state \<open>'e\<close> of the libraries. \<open>g_driver\<close> is
  None for NULL and \<open>Some (Freed d)\<close> when the pointer is kept after \<open>free\<close>.
\<close>

record 'e world = hash_state +
  bo_data :: "addr \<rightharpoonup> gbm_bo_data_t"
  smpte_heap :: "addr \<rightharpoonup> smpte2086_t"
  cta_heap :: "addr \<rightharpoonup> cta861_3_t"
  blob_heap :: "addr \<rightharpoonup> u8 list"
  handles :: "addr \<rightharpoonup> gralloc_handle_t"
  g_driver :: "gralloc_gbm_driver_t cell option"
  ext :: 'e

section \<open>The platform\<close>

text \<open>The usage bits of \<^verbatim>\<open>hardware/gralloc.h\<close>.\<close>

record gralloc_usage =
  SW_READ_RARELY :: i32
  SW_READ_OFTEN :: i32
  SW_READ_MASK :: i32
  SW_WRITE_RARELY :: i32
  SW_WRITE_OFTEN :: i32
  SW_WRITE_MASK :: i32
  HW_TEXTURE :: i32
  HW_RENDER :: i32
  HW_2D :: i32
  HW_COMPOSER :: i32
  HW_FB :: i32
  EXTERNAL_DISP :: i32
  PROTECTED :: i32
  USAGE_CURSOR :: i32

text \<open>The macros the build sets.\<close>

record build_config =
  GRALLOC_GBM_USE_SW_RENDER :: bool
  GRALLOC_GBM_NO_CURSOR_RENDERING :: bool
  GRALLOC_GBM_NO_CURSOR_ALIGNING :: bool
  ANDROID_API_LEVEL :: nat

text \<open>
  The functions of libgbm, the system calls and \<open>native_handle_create\<close>. A function that may change
  the state of the library takes and returns it. \<open>gbm_bo_destroy\<close> also returns the user data it
  calls the destroy callback with (None when no callback was set); the world runs the callback.
  \<open>native_handle_create\<close> returns the initial contents of the handle, None when it fails.
\<close>

record 'e gbm_api =
  sys_open :: "string \<Rightarrow> 'e \<Rightarrow> i32 \<times> 'e"
  sys_close :: "i32 \<Rightarrow> 'e \<Rightarrow> 'e"
  gbm_create_device :: "i32 \<Rightarrow> 'e \<Rightarrow> addr \<times> 'e"
  gbm_device_get_fd :: "addr \<Rightarrow> 'e \<Rightarrow> i32"
  gbm_device_get_backend_name :: "addr \<Rightarrow> 'e \<Rightarrow> addr"
  gbm_device_destroy :: "addr \<Rightarrow> 'e \<Rightarrow> 'e"
  gbm_device_is_format_supported :: "addr \<Rightarrow> u32 \<Rightarrow> u32 \<Rightarrow> 'e \<Rightarrow> bool"
  gbm_bo_create :: "addr \<Rightarrow> u32 \<Rightarrow> u32 \<Rightarrow> u32 \<Rightarrow> u32 \<Rightarrow> 'e \<Rightarrow> addr \<times> 'e"
  gbm_bo_import :: "addr \<Rightarrow> gbm_import_fd_modifier_data \<Rightarrow> u32 \<Rightarrow> 'e \<Rightarrow> addr \<times> 'e"
  gbm_bo_destroy :: "addr \<Rightarrow> 'e \<Rightarrow> addr option \<times> 'e"
  gbm_bo_map :: "addr \<Rightarrow> u32 \<Rightarrow> u32 \<Rightarrow> u32 \<Rightarrow> addr \<Rightarrow> 'e \<Rightarrow> addr \<times> u32 \<times> addr \<times> 'e"
  gbm_bo_unmap :: "addr \<Rightarrow> addr \<Rightarrow> 'e \<Rightarrow> 'e"
  gbm_bo_get_user_data :: "addr \<Rightarrow> 'e \<Rightarrow> addr"
  gbm_bo_set_user_data :: "addr \<Rightarrow> addr \<Rightarrow> 'e \<Rightarrow> 'e"
  gbm_bo_get_width :: "addr \<Rightarrow> 'e \<Rightarrow> u32"
  gbm_bo_get_height :: "addr \<Rightarrow> 'e \<Rightarrow> u32"
  gbm_bo_get_stride :: "addr \<Rightarrow> 'e \<Rightarrow> u32"
  gbm_bo_get_format :: "addr \<Rightarrow> 'e \<Rightarrow> u32"
  gbm_bo_get_plane_count :: "addr \<Rightarrow> 'e \<Rightarrow> i32"
  gbm_bo_get_modifier :: "addr \<Rightarrow> 'e \<Rightarrow> u64"
  gbm_bo_get_fd :: "addr \<Rightarrow> 'e \<Rightarrow> i32 \<times> 'e"
  native_handle_create :: "'e \<Rightarrow> gralloc_handle_t option \<times> 'e"

text \<open>
  \<open>mem_oom\<close> decides which memory requests fail; \<open>stale_driver\<close> is what a read of the freed driver
  finds (None: the access traps); \<open>stale_import\<close> says whether the read of the freed import
  descriptor in a log line is harmless.
\<close>

record 'e platform =
  hal :: hal_formats
  gu :: gralloc_usage
  cfg :: build_config
  api :: "'e gbm_api"
  mem_oom :: oom
  stale_driver :: "gralloc_gbm_driver_t \<Rightarrow> gralloc_gbm_driver_t option"
  stale_import :: bool

definition SW_MASK :: "'e platform \<Rightarrow> i32" where
  "SW_MASK P = SW_WRITE_MASK (gu P) OR SW_READ_MASK (gu P)"

section \<open>What the proofs rely on of libgbm\<close>

text \<open>
  \<open>live e\<close> is the set of buffer objects that exist. User data is NULL until it is set and belongs
  to its object; creating and importing give an object that did not exist; destroying one calls the
  callback with its user data, when set; mapping reports its handle exactly when it succeeds; no other
  call changes the objects or their user data.
\<close>

definition same_objects :: "'e gbm_api \<Rightarrow> ('e \<Rightarrow> addr set) \<Rightarrow> 'e \<Rightarrow> 'e \<Rightarrow> bool" where
  "same_objects A live e e' \<longleftrightarrow> live e' = live e
     \<and> (\<forall>b \<in> live e. gbm_bo_get_user_data A b e' = gbm_bo_get_user_data A b e)"

definition new_object :: "'e gbm_api \<Rightarrow> ('e \<Rightarrow> addr set) \<Rightarrow> 'e \<Rightarrow> addr \<Rightarrow> 'e \<Rightarrow> bool" where
  "new_object A live e bo e' \<longleftrightarrow>
     (if bo = NULL then same_objects A live e e'
      else bo \<notin> live e \<and> live e' = insert bo (live e) \<and> gbm_bo_get_user_data A bo e' = NULL
        \<and> (\<forall>b \<in> live e. gbm_bo_get_user_data A b e' = gbm_bo_get_user_data A b e))"

definition gbm_laws :: "'e gbm_api \<Rightarrow> ('e \<Rightarrow> addr set) \<Rightarrow> bool" where
  "gbm_laws A live \<longleftrightarrow>
     (\<forall>e. NULL \<notin> live e)
   \<and> (\<forall>dev w h f fl e bo e'. gbm_bo_create A dev w h f fl e = (bo, e') \<longrightarrow> new_object A live e bo e')
   \<and> (\<forall>dev d fl e bo e'. gbm_bo_import A dev d fl e = (bo, e') \<longrightarrow> new_object A live e bo e')
   \<and> (\<forall>bo e cb e'. bo \<in> live e \<longrightarrow> gbm_bo_destroy A bo e = (cb, e') \<longrightarrow>
        live e' = live e - {bo}
      \<and> cb = (if gbm_bo_get_user_data A bo e = NULL then None else Some (gbm_bo_get_user_data A bo e))
      \<and> (\<forall>b \<in> live e'. gbm_bo_get_user_data A b e' = gbm_bo_get_user_data A b e))
   \<and> (\<forall>bo d e. bo \<in> live e \<longrightarrow> live (gbm_bo_set_user_data A bo d e) = live e
      \<and> (\<forall>b \<in> live e. gbm_bo_get_user_data A b (gbm_bo_set_user_data A bo d e)
           = (if b = bo then d else gbm_bo_get_user_data A b e)))
   \<and> (\<forall>bo w h fl md e p st md' e'. gbm_bo_map A bo w h fl md e = (p, st, md', e') \<longrightarrow>
        same_objects A live e e' \<and> (if p = NULL then md' = md else md' \<noteq> NULL))
   \<and> (\<forall>bo md e. same_objects A live e (gbm_bo_unmap A bo md e))
   \<and> (\<forall>bo e. same_objects A live e (snd (gbm_bo_get_fd A bo e)))
   \<and> (\<forall>e. same_objects A live e (snd (native_handle_create A e)))"

text \<open>A mapping has the stride of the object. (The code asserts it.)\<close>

definition map_keeps_stride :: "'e gbm_api \<Rightarrow> bool" where
  "map_keeps_stride A \<longleftrightarrow> (\<forall>bo w h fl md e p st md' e'. gbm_bo_map A bo w h fl md e = (p, st, md', e') \<longrightarrow>
     p \<noteq> NULL \<longrightarrow> st = gbm_bo_get_stride A bo e')"

text \<open>The published values of the usage bits.\<close>

definition aosp_usage :: gralloc_usage where
  "aosp_usage = \<lparr>SW_READ_RARELY = 2, SW_READ_OFTEN = 3, SW_READ_MASK = 0xF, SW_WRITE_RARELY = 0x20,
     SW_WRITE_OFTEN = 0x30, SW_WRITE_MASK = 0xF0, HW_TEXTURE = 0x100, HW_RENDER = 0x200, HW_2D = 0x400,
     HW_COMPOSER = 0x800, HW_FB = 0x1000, EXTERNAL_DISP = 0x2000, PROTECTED = 0x4000, USAGE_CURSOR = 0x8000\<rparr>"

end
