(* ===== verification/Gralloc_Gbm.thy ===== *)
theory Gralloc_Gbm
  imports Gbm_World
begin

text \<open>
  The back-end library \<^verbatim>\<open>common/gralloc_gbm.c\<close> over the world of \<open>Gbm_World\<close>: the driver, the
  user data of buffer objects, mapping, the usage translation, and the life of an Android buffer
  (allocate, import, lock, unlock, query, free). Every function has the result type \<open>res\<close>; the
  \<open>Inr\<close> value pairs the C return value, the values stored through out pointers and the new world.
  Signed arithmetic that C leaves undefined on overflow is checked (\<open>SignedOverflow\<close>).
\<close>

unbundle bit_operations_syntax

section \<open>The driver\<close>

definition is_gralloc_gbm_ready :: "'e platform \<Rightarrow> 'e world \<Rightarrow> bool res" where
  "is_gralloc_gbm_ready P w =
    (case g_driver w of None \<Rightarrow> Inr False
     | Some c \<Rightarrow> and_then (read_cell (stale_driver P) c) (\<lambda>d. Inr (ready d)))"

definition zero_driver :: gralloc_gbm_driver_t where
  "zero_driver = \<lparr>ready = False, dri_fd = 0, gbm_dev = NULL, gbm_dev_fd = 0, gbm_backend_name = NULL\<rparr>"

definition sizeof_driver :: nat where "sizeof_driver = 40"

definition gralloc_gbm_init :: "'e platform \<Rightarrow> 'e world \<Rightarrow> (i32 \<times> 'e world) res" where
  "gralloc_gbm_init P w =
    and_then (is_gralloc_gbm_ready P w) (\<lambda>r.
    if r then Inr (0, w)
    else case malloc (mem_oom P) sizeof_driver w of (p, w1) \<Rightarrow>
    if p = NULL then Inr (- ENOMEM, w1\<lparr>g_driver := None\<rparr>)
    else case sys_open (api P) ''/dev/dri/renderD128'' (ext w1) of (fd, e1) \<Rightarrow>
    let d1 = zero_driver\<lparr>dri_fd := fd\<rparr> in
    if sint fd < 0 then Inr (- ENODEV, w1\<lparr>ext := e1, g_driver := Some (Freed d1)\<rparr>)
    else case gbm_create_device (api P) fd e1 of (dev, e2) \<Rightarrow>
    let d2 = d1\<lparr>gbm_dev := dev\<rparr> in
    if dev = NULL
    then Inr (- EINVAL, w1\<lparr>ext := sys_close (api P) fd e2, g_driver := Some (Freed d2)\<rparr>)
    else Inr (0, w1\<lparr>ext := e2, g_driver := Some (Live (d2\<lparr>
           gbm_dev_fd := gbm_device_get_fd (api P) dev e2,
           gbm_backend_name := gbm_device_get_backend_name (api P) dev e2,
           ready := True\<rparr>))\<rparr>))"

definition deref_driver :: "'e platform \<Rightarrow> 'e world \<Rightarrow> gralloc_gbm_driver_t res" where
  "deref_driver P w = (case g_driver w of None \<Rightarrow> Inl NullDeref | Some c \<Rightarrow> read_cell (stale_driver P) c)"

text \<open>A driver that is not ready is only logged; the static pointer is not reset.\<close>

definition gralloc_gbm_deinit :: "'e platform \<Rightarrow> 'e world \<Rightarrow> (i32 \<times> 'e world) res" where
  "gralloc_gbm_deinit P w =
    and_then (deref_driver P w) (\<lambda>d.
    let w1 = w\<lparr>ext := gbm_device_destroy (api P) (gbm_dev d) (ext w)\<rparr> in
    case g_driver w1 of
      Some (Live d') \<Rightarrow> Inr (0, w1\<lparr>g_driver := Some (Freed d')\<rparr>)
    | _ \<Rightarrow> Inl DoubleFree)"

definition gralloc_gbm_get :: "'e platform \<Rightarrow> 'e world \<Rightarrow> gralloc_gbm_driver_t cell option res" where
  "gralloc_gbm_get P w =
    and_then (is_gralloc_gbm_ready P w) (\<lambda>r. if \<not> r then Inr None else Inr (g_driver w))"

section \<open>User data\<close>

text \<open>The destroy callback: \<open>smpte2094_50\<close> is not freed.\<close>

definition gralloc_gbm_bo_data_destroy :: "addr \<Rightarrow> 'e world \<Rightarrow> 'e world res" where
  "gralloc_gbm_bo_data_destroy data w =
    and_then (deref (bo_data w) data) (\<lambda>bd.
    and_then (free_at (smpte2086 (metadata bd)) (smpte_heap w)) (\<lambda>sh.
    and_then (free_at (cta861_3 (metadata bd)) (cta_heap w)) (\<lambda>ch.
    and_then (free_at data (bo_data w)) (\<lambda>bh.
      Inr (w\<lparr>bo_data := bh, smpte_heap := sh, cta_heap := ch\<rparr>)))))"

definition zero_smpte2086 :: smpte2086_t where
  "zero_smpte2086 = \<lparr>primary_red_x = 0, primary_red_y = 0, primary_green_x = 0, primary_green_y = 0,
     primary_blue_x = 0, primary_blue_y = 0, white_point_x = 0, white_point_y = 0,
     max_luminance = 0, min_luminance = 0\<rparr>"

definition zero_cta861_3 :: cta861_3_t where
  "zero_cta861_3 = \<lparr>max_content_light_level = 0, max_frame_average_light_level = 0\<rparr>"

definition zero_bo_data :: gbm_bo_data_t where
  "zero_bo_data = \<lparr>map_data = NULL, lock_count = 0, locked_for = 0,
     metadata = \<lparr>dataspace = 0, blend_mode = 0, smpte2086 = NULL, cta861_3 = NULL,
       smpte2094_50_size = 0, smpte2094_50 = NULL\<rparr>\<rparr>"

definition sizeof_gbm_bo_data :: nat where "sizeof_gbm_bo_data = 56"
definition sizeof_smpte2086 :: nat where "sizeof_smpte2086 = 40"
definition sizeof_cta861_3 :: nat where "sizeof_cta861_3 = 8"

definition gralloc_gbm_bo_user_data_init :: "'e platform \<Rightarrow> addr \<Rightarrow> 'e world \<Rightarrow> (addr \<times> 'e world) res" where
  "gralloc_gbm_bo_user_data_init P bo w =
    (if bo = NULL then Inr (NULL, w)
     else if gbm_bo_get_user_data (api P) bo (ext w) \<noteq> NULL
     then Inr (gbm_bo_get_user_data (api P) bo (ext w), w)
     else case malloc (mem_oom P) sizeof_gbm_bo_data w of (d, w1) \<Rightarrow>
     if d = NULL then Inl NullDeref
     else case malloc (mem_oom P) sizeof_smpte2086 w1 of (s, w2) \<Rightarrow>
     case malloc (mem_oom P) sizeof_cta861_3 w2 of (c, w3) \<Rightarrow>
     case malloc (mem_oom P) GRALLOC_GENERIC_SMPTE2094_50_MAX_SIZE w3 of (b, w4) \<Rightarrow>
     let m = (metadata zero_bo_data)\<lparr>smpte2086 := s, cta861_3 := c, smpte2094_50 := b, smpte2094_50_size := 0\<rparr> in
     Inr (d, w4\<lparr>
       bo_data := (bo_data w4)(d \<mapsto> zero_bo_data\<lparr>metadata := m\<rparr>),
       smpte_heap := (if s = NULL then smpte_heap w4 else (smpte_heap w4)(s \<mapsto> zero_smpte2086)),
       cta_heap := (if c = NULL then cta_heap w4 else (cta_heap w4)(c \<mapsto> zero_cta861_3)),
       blob_heap := (if b = NULL then blob_heap w4
                     else (blob_heap w4)(b \<mapsto> replicate GRALLOC_GENERIC_SMPTE2094_50_MAX_SIZE 0)),
       ext := gbm_bo_set_user_data (api P) bo d (ext w4)\<rparr>))"

section \<open>Mapping\<close>

definition gralloc_gbm_bo_map :: "'e platform \<Rightarrow> addr \<Rightarrow> bool \<Rightarrow> addr \<Rightarrow> 'e world \<Rightarrow> (i32 \<times> addr \<times> 'e world) res" where
  "gralloc_gbm_bo_map P bo enable_write out w =
    (if bo = NULL then Inr (- EINVAL, out, w)
     else
       let d = gbm_bo_get_user_data (api P) bo (ext w) in
       and_then (deref (bo_data w) d) (\<lambda>bd.
       if map_data bd \<noteq> NULL then Inr (- EINVAL, out, w)
       else
         let flags = (if enable_write then GBM_BO_TRANSFER_READ OR GBM_BO_TRANSFER_WRITE else GBM_BO_TRANSFER_READ)
         in case gbm_bo_map (api P) bo (gbm_bo_get_width (api P) bo (ext w))
                   (gbm_bo_get_height (api P) bo (ext w)) flags (map_data bd) (ext w) of (p, stride, md, e') \<Rightarrow>
         let w' = w\<lparr>bo_data := (bo_data w)(d \<mapsto> bd\<lparr>map_data := md\<rparr>), ext := e'\<rparr> in
         if p = NULL then Inr (- ENOMEM, NULL, w')
         else if stride \<noteq> gbm_bo_get_stride (api P) bo e' then Inl AssertFail
         else Inr (0, p, w')))"

definition gralloc_gbm_bo_unmap :: "'e platform \<Rightarrow> addr \<Rightarrow> 'e world \<Rightarrow> 'e world res" where
  "gralloc_gbm_bo_unmap P bo w =
    (let d = gbm_bo_get_user_data (api P) bo (ext w) in
     and_then (deref (bo_data w) d) (\<lambda>bd.
       Inr (w\<lparr>bo_data := (bo_data w)(d \<mapsto> bd\<lparr>map_data := NULL\<rparr>),
              ext := gbm_bo_unmap (api P) bo (map_data bd) (ext w)\<rparr>)))"

section \<open>Formats, flags and descriptors\<close>

definition gralloc_gbm_calculate_android_pixel_stride :: "'e platform \<Rightarrow> i32 \<Rightarrow> u32 \<Rightarrow> i32 res" where
  "gralloc_gbm_calculate_android_pixel_stride P android_format gbm_stride =
    (let gbm_format = color_fmt_a2g (hal P) android_format in
     if gbm_format \<le> 0 then Inr (- EINVAL)
     else if color_bytes_per_pixel gbm_format = 0 then Inl DivByZero
     else Inr (gbm_stride div ucast (color_bytes_per_pixel gbm_format)))"

definition gralloc_gbm_calculate_gbm_flags :: "'e platform \<Rightarrow> i32 \<Rightarrow> u32 \<Rightarrow> u32" where
  "gralloc_gbm_calculate_gbm_flags P usage gbm_format =
    (let u = gu P;
         sw = (if GRALLOC_GBM_USE_SW_RENDER (cfg P) then GBM_BO_USE_WRITE else 0);
         flags = GBM_BO_USE_NONE;
         flags = (if usage AND SW_READ_OFTEN u \<noteq> 0 then flags OR GBM_BO_USE_LINEAR else flags);
         flags = (if usage AND SW_READ_RARELY u \<noteq> 0 then flags OR GBM_BO_USE_LINEAR else flags);
         flags = (if usage AND SW_WRITE_OFTEN u \<noteq> 0 then flags OR GBM_BO_USE_LINEAR OR sw else flags);
         flags = (if usage AND SW_WRITE_RARELY u \<noteq> 0 then flags OR GBM_BO_USE_LINEAR OR sw else flags);
         flags = (if usage AND HW_TEXTURE u \<noteq> 0 then flags OR GBM_BO_USE_RENDERING else flags);
         flags = (if usage AND HW_RENDER u \<noteq> 0 then flags OR GBM_BO_USE_RENDERING else flags);
         flags = (if usage AND HW_2D u \<noteq> 0 then flags OR GBM_BO_USE_RENDERING else flags);
         flags = (if usage AND HW_COMPOSER u \<noteq> 0 then flags OR (GBM_BO_USE_SCANOUT OR GBM_BO_USE_RENDERING) else flags);
         flags = (if usage AND HW_FB u \<noteq> 0 then flags OR GBM_BO_USE_SCANOUT else flags);
         flags = (if usage AND EXTERNAL_DISP u \<noteq> 0 then flags OR GBM_BO_USE_NONE else flags);
         flags = (if usage AND PROTECTED u \<noteq> 0 then flags OR GBM_BO_USE_PROTECTED else flags);
         flags = (if usage AND USAGE_CURSOR u \<noteq> 0
                  then (if 35 \<le> ANDROID_API_LEVEL (cfg P) then flags OR GBM_BO_USE_CURSOR else flags)
                  else flags)
     in
     if flags AND GBM_BO_USE_WRITE \<noteq> 0 \<and> flags AND GBM_BO_USE_CURSOR \<noteq> 0 \<and> gbm_format \<noteq> GBM_FORMAT_ARGB8888
     then flags
     else if flags AND GBM_BO_USE_WRITE \<noteq> 0 \<and> flags AND GBM_BO_USE_SCANOUT \<noteq> 0
       \<and> (gbm_format \<noteq> GBM_FORMAT_XRGB8888 \<and> gbm_format \<noteq> GBM_FORMAT_XBGR8888)
     then flags
     else if flags AND GBM_BO_USE_CURSOR \<noteq> 0 \<and> flags AND GBM_BO_USE_RENDERING \<noteq> 0
       \<and> GRALLOC_GBM_NO_CURSOR_RENDERING (cfg P)
     then flags AND NOT GBM_BO_USE_CURSOR
     else flags)"

definition gralloc_gbm_is_allocator_desc_supported :: "'e platform \<Rightarrow> allocator_desc_t option \<Rightarrow> 'e world \<Rightarrow> bool res" where
  "gralloc_gbm_is_allocator_desc_supported P desc w =
    and_then (is_gralloc_gbm_ready P w) (\<lambda>r.
    if \<not> r then Inr False
    else case desc of None \<Rightarrow> Inr False | Some ds \<Rightarrow>
    let gbm_format = color_fmt_a2g (hal P) (ad_format ds) in
    if gbm_format \<le> 0 then Inr False
    else if sint (ad_width ds) > GRALLOC_GBM_WIDTH_MAX \<or> sint (ad_height ds) > GRALLOC_GBM_HEIGHT_MAX then Inr False
    else if ad_usage ds = 0 then Inr False
    else
      let flags = gralloc_gbm_calculate_gbm_flags P (ucast (ad_usage ds)) gbm_format in
      if flags AND GBM_BO_USE_WRITE \<noteq> 0 \<and> flags AND GBM_BO_USE_CURSOR \<noteq> 0 \<and> gbm_format \<noteq> GBM_FORMAT_ARGB8888
      then Inr False
      else if flags AND GBM_BO_USE_WRITE \<noteq> 0 \<and> flags AND GBM_BO_USE_SCANOUT \<noteq> 0
        \<and> (gbm_format \<noteq> GBM_FORMAT_XRGB8888 \<and> gbm_format \<noteq> GBM_FORMAT_XBGR8888)
      then Inr False
      else if flags AND GBM_BO_USE_CURSOR \<noteq> 0 \<and> flags AND GBM_BO_USE_RENDERING \<noteq> 0
        \<and> \<not> GRALLOC_GBM_NO_CURSOR_RENDERING (cfg P)
      then Inr False
      else and_then (deref_driver P w) (\<lambda>d.
        Inr (gbm_device_is_format_supported (api P) (gbm_dev d) gbm_format flags (ext w))))"

section \<open>Allocation\<close>

text \<open>An \<open>int\<close> operation whose exact result is \<open>x\<close>.\<close>

definition int_result :: "int \<Rightarrow> i32 res" where
  "int_result x = (if - (2 ^ 31) \<le> x \<and> x < 2 ^ 31 then Inr (word_of_int x) else Inl SignedOverflow)"

text \<open>\<open>ALIGN\<close> on an \<open>int\<close>.\<close>

definition ALIGN_s :: "i32 \<Rightarrow> i32 \<Rightarrow> i32 res" where
  "ALIGN_s a b = and_then (int_result (sint a + sint b)) (\<lambda>s.
     and_then (int_result (sint s - 1)) (\<lambda>s1. Inr (s1 AND NOT (b - 1))))"

text \<open>The size \<open>gralloc_gbm_android_buffer_new\<close> asks for.\<close>

definition new_buffer_size :: "'e platform \<Rightarrow> allocator_desc_t \<Rightarrow> u32 \<Rightarrow> (i32 \<times> i32) res" where
  "new_buffer_size P ds flags =
    and_then
      (if flags AND GBM_BO_USE_CURSOR \<noteq> 0
       then let w = MAX_s (ad_width ds) 64; h = MAX_s (ad_height ds) 64 in
            if \<not> GRALLOC_GBM_NO_CURSOR_ALIGNING (cfg P)
            then and_then (ALIGN_s w 4) (\<lambda>w'. and_then (ALIGN_s h 4) (\<lambda>h'. Inr (w', h')))
            else Inr (w, h)
       else Inr (ad_width ds, ad_height ds))
      (\<lambda>(width, height).
       if ad_format ds = HAL_PIXEL_FORMAT_YV12 (hal P)
       then and_then (ALIGN_s (ad_width ds) 32) (\<lambda>aw.
            and_then (ALIGN_s (ad_height ds) 2) (\<lambda>ah.
            and_then (int_result (sint height + sint (sdiv32 ah 2))) (\<lambda>height'.
              Inr (sdiv32 aw 2, height'))))
       else Inr (width, height))"

definition gralloc_handle_create :: "'e platform \<Rightarrow> i32 \<Rightarrow> i32 \<Rightarrow> i32 \<Rightarrow> i32 \<Rightarrow> 'e world \<Rightarrow> addr \<times> 'e world" where
  "gralloc_handle_create P width height hal_format usage w =
    (case native_handle_create (api P) (ext w) of
       (None, e) \<Rightarrow> (NULL, w\<lparr>ext := e\<rparr>)
     | (Some g, e) \<Rightarrow> let p = Suc (brk w) in
         (p, w\<lparr>brk := p, ext := e, handles := (handles w)(p \<mapsto> g\<lparr>magic := GRALLOC_HANDLE_MAGIC,
               version := GRALLOC_HANDLE_VERSION, gh_width := width, gh_height := height,
               gh_format := hal_format, gh_usage := usage, prime_fd := - 1\<rparr>)\<rparr>))"

definition sizeof_android_buffer :: nat where "sizeof_android_buffer = 72"

text \<open>The fields of a new \<open>android_buffer_t\<close>; the handle \<open>hh\<close> is filled in by the insertion.\<close>

definition fresh_node :: "i32 \<Rightarrow> addr \<Rightarrow> android_buffer_t" where
  "fresh_node fd bo = \<lparr>buf_fd = fd, buf_bo = bo, app_prev = NULL, app_next = NULL, hh_prev = NULL,
     hh_next = NULL, keylen = 0, hashv = 0\<rparr>"

definition gralloc_gbm_android_buffer_new ::
  "'e platform \<Rightarrow> allocator_desc_t \<Rightarrow> 'e world \<Rightarrow> (i32 \<times> (addr \<times> u32) option \<times> 'e world) res" where
  "gralloc_gbm_android_buffer_new P ds w =
    and_then (is_gralloc_gbm_ready P w) (\<lambda>r.
    if \<not> r then Inr (- ENODEV, None, w)
    else
      let gbm_format = color_fmt_a2g (hal P) (ad_format ds) in
      if gbm_format \<le> 0 then Inr (- EINVAL, None, w)
      else
        let flags = gralloc_gbm_calculate_gbm_flags P (ucast (ad_usage ds)) gbm_format in
        and_then (new_buffer_size P ds flags) (\<lambda>(width, height).
        case gralloc_handle_create P width height (ad_format ds) (ucast (ad_usage ds)) w of (handle, w1) \<Rightarrow>
        if handle = NULL then Inr (- EINVAL, None, w1)
        else and_then (deref_driver P w1) (\<lambda>d.
        case gbm_bo_create (api P) (gbm_dev d) width height gbm_format flags (ext w1) of (bo, e2) \<Rightarrow>
        let w2 = w1\<lparr>ext := e2\<rparr> in
        if bo = NULL then Inr (- EINVAL, None, w2)
        else and_then (gralloc_gbm_bo_user_data_init P bo w2) (\<lambda>(data, w3).
        if data = NULL then Inr (- EINVAL, None, w3)
        else and_then (deref (handles w3) handle) (\<lambda>g.
        case gbm_bo_get_fd (api P) bo (ext w3) of (fd, e4) \<Rightarrow>
        let g' = g\<lparr>gh_stride := gbm_bo_get_stride (api P) bo (ext w3), prime_fd := fd,
                    gh_modifier := gbm_bo_get_modifier (api P) bo e4\<rparr>;
            w4 = w3\<lparr>ext := e4, handles := (handles w3)(handle \<mapsto> g')\<rparr>
        in case malloc (mem_oom P) sizeof_android_buffer w4 of (buffer, w5) \<Rightarrow>
        if buffer = NULL then Inr (- ENOMEM, None, w5)
        else
          let w6 = w5\<lparr>nodes := (nodes w5)(buffer \<mapsto> fresh_node fd bo)\<rparr> in
          and_then (add_buffer (mem_oom P) buffer w6) (\<lambda>(_, w7).
          Inr (0, Some (handle, gh_stride g'), w7\<lparr>ext := snd (gbm_bo_get_fd (api P) bo (ext w7))\<rparr>)))))))"

section \<open>Import and free\<close>

definition sizeof_import_data :: nat where "sizeof_import_data = 72"

text \<open>The size and flags \<open>gralloc_gbm_android_buffer_import\<close> imports with.\<close>

definition import_size :: "'e platform \<Rightarrow> gralloc_handle_t \<Rightarrow> u32 \<Rightarrow> u32 \<times> u32" where
  "import_size P g flags =
    (let wh = (if gh_format g = HAL_PIXEL_FORMAT_YV12 (hal P)
               then (ALIGN (gh_width g) 32 div 2, gh_height g + ALIGN (gh_height g) 2 div 2)
               else (gh_width g, gh_height g))
     in if flags AND GBM_BO_USE_CURSOR \<noteq> 0
        then let w = MAX_u (gh_width g) 64; h = MAX_u (gh_height g) 64 in
             if \<not> GRALLOC_GBM_NO_CURSOR_ALIGNING (cfg P) then (ALIGN w 4, ALIGN h 4) else (w, h)
        else wh)"

definition gralloc_gbm_android_buffer_import :: "'e platform \<Rightarrow> addr \<Rightarrow> 'e world \<Rightarrow> (i32 \<times> 'e world) res" where
  "gralloc_gbm_android_buffer_import P handle w =
    and_then (is_gralloc_gbm_ready P w) (\<lambda>r.
    if \<not> r then Inr (- ENODEV, w)
    else case malloc (mem_oom P) sizeof_import_data w of (fd_data, w1) \<Rightarrow>
    if fd_data = NULL then Inr (- ENOMEM, w1)
    else and_then (deref (handles w1) handle) (\<lambda>g.
    let format = color_fmt_a2g (hal P) (gh_format g) in
    if format \<le> 0 then Inr (- EINVAL, w1)
    else
      let flags = gralloc_gbm_calculate_gbm_flags P (gh_usage g) format;
          (width, height) = import_size P g flags;
          im = \<lparr>im_width = width, im_height = height, im_format = format, num_fds = 1,
                 fds0 = prime_fd g, strides0 = gh_stride g, im_modifier = gh_modifier g\<rparr>
      in and_then (deref_driver P w1) (\<lambda>d.
      case gbm_bo_import (api P) (gbm_dev d) im flags (ext w1) of (bo, e2) \<Rightarrow>
      let w2 = w1\<lparr>ext := e2\<rparr> in
      if bo = NULL then Inr (- EINVAL, w2)
      else and_then (gralloc_gbm_bo_user_data_init P bo w2) (\<lambda>(_, w3).
      case malloc (mem_oom P) sizeof_android_buffer w3 of (buffer, w4) \<Rightarrow>
      if buffer = NULL then Inl NullDeref
      else
        let w5 = w4\<lparr>nodes := (nodes w4)(buffer \<mapsto> fresh_node (prime_fd g) bo)\<rparr> in
        and_then (add_buffer (mem_oom P) buffer w5) (\<lambda>(_, w6).
        if stale_import P then Inr (0, w6) else Inl UseAfterFree)))))"

definition gralloc_gbm_android_buffer_free :: "'e platform \<Rightarrow> addr \<Rightarrow> 'e world \<Rightarrow> (i32 \<times> 'e world) res" where
  "gralloc_gbm_android_buffer_free P handle w =
    (if handle = NULL then Inl AssertFail
     else and_then (is_gralloc_gbm_ready P w) (\<lambda>r.
     if \<not> r then Inr (- ENODEV, w)
     else and_then (deref (handles w) handle) (\<lambda>g.
     and_then (find_buffer_k (prime_fd g) w) (\<lambda>buffer.
     if buffer \<noteq> NULL
     then and_then (deref (nodes w) buffer) (\<lambda>b.
       case gbm_bo_destroy (api P) (buf_bo b) (ext w) of (cb, e1) \<Rightarrow>
       and_then (case cb of None \<Rightarrow> Inr w | Some data \<Rightarrow> gralloc_gbm_bo_data_destroy data w) (\<lambda>w1.
       and_then (delete_buffer buffer (w1\<lparr>ext := e1\<rparr>)) (\<lambda>(_, w2). Inr (0, w2))))
     else Inr (0, w)))))"

section \<open>Locking\<close>

definition gralloc_gbm_android_buffer_lock ::
  "'e platform \<Rightarrow> addr \<Rightarrow> i32 \<Rightarrow> i32 \<Rightarrow> i32 \<Rightarrow> i32 \<Rightarrow> i32 \<Rightarrow> addr \<Rightarrow> 'e world \<Rightarrow> (i32 \<times> addr \<times> 'e world) res" where
  "gralloc_gbm_android_buffer_lock P handle usage top_y bottom_y left_x right_x out w =
    and_then (is_gralloc_gbm_ready P w) (\<lambda>r.
    if \<not> r then Inr (- ENODEV, out, w)
    else if usage AND HW_FB (gu P) \<noteq> 0 then Inr (- EINVAL, out, w)
    else and_then (int_result (sint right_x - sint left_x)) (\<lambda>_.
    and_then (int_result (sint bottom_y - sint top_y)) (\<lambda>_.
    and_then (deref (handles w) handle) (\<lambda>g.
    if gh_usage g AND usage \<noteq> usage
       \<and> gh_usage g AND (SW_READ_OFTEN (gu P) OR SW_WRITE_OFTEN (gu P)) = 0
       \<and> gh_usage g AND HW_FB (gu P) = 0
       \<and> gh_usage g AND HW_TEXTURE (gu P) = 0
    then Inr (- EINVAL, out, w)
    else and_then (find_buffer_k (prime_fd g) w) (\<lambda>buffer.
    if buffer = NULL then Inr (- EINVAL, out, w)
    else and_then (deref (nodes w) buffer) (\<lambda>b.
    and_then (gralloc_gbm_bo_user_data_init P (buf_bo b) w) (\<lambda>(data, w1).
    and_then (deref (bo_data w1) data) (\<lambda>bd.
    if lock_count bd \<noteq> 0 \<and> locked_for bd AND usage \<noteq> usage then Inr (- EINVAL, out, w1)
    else
      let usage' = usage OR locked_for bd in
      and_then
        (if usage' AND SW_MASK P \<noteq> 0
         then gralloc_gbm_bo_map P (buf_bo b) (usage' AND SW_WRITE_MASK (gu P) \<noteq> 0) out w1
         else Inr (0, out, w1)) (\<lambda>(err, out', w2).
      if err \<noteq> 0 then Inr (err, out', w2)
      else and_then (deref (bo_data w2) data) (\<lambda>bd2.
      and_then (int_result (sint (lock_count bd2) + 1)) (\<lambda>n.
        Inr (0, out', w2\<lparr>bo_data := (bo_data w2)(data \<mapsto>
               bd2\<lparr>lock_count := n, locked_for := locked_for bd2 OR usage'\<rparr>)\<rparr>))))))))))))"

definition gralloc_gbm_android_buffer_unlock :: "'e platform \<Rightarrow> addr \<Rightarrow> 'e world \<Rightarrow> (i32 \<times> 'e world) res" where
  "gralloc_gbm_android_buffer_unlock P handle w =
    (if handle = NULL then Inl AssertFail
     else and_then (deref (handles w) handle) (\<lambda>g.
     and_then (find_buffer_k (prime_fd g) w) (\<lambda>buffer.
     if buffer = NULL then Inr (- EINVAL, w)
     else and_then (deref (nodes w) buffer) (\<lambda>b.
     if buf_bo b = NULL then Inr (- EINVAL, w)
     else
       let data = gbm_bo_get_user_data (api P) (buf_bo b) (ext w) in
       and_then (deref (bo_data w) data) (\<lambda>bd.
       let mapped = locked_for bd AND SW_MASK P in
       if lock_count bd = 0 then Inr (0, w)
       else and_then (if mapped \<noteq> 0 then gralloc_gbm_bo_unmap P (buf_bo b) w else Inr w) (\<lambda>w1.
       and_then (deref (bo_data w1) data) (\<lambda>bd1.
       and_then (int_result (sint (lock_count bd1) - 1)) (\<lambda>n.
         Inr (0, w1\<lparr>bo_data := (bo_data w1)(data \<mapsto>
                bd1\<lparr>lock_count := n, locked_for := (if n = 0 then 0 else locked_for bd1)\<rparr>)\<rparr>)))))))))"

section \<open>Queries\<close>

definition gralloc_gbm_android_buffer_query ::
  "'e platform \<Rightarrow> addr \<Rightarrow> 'e world \<Rightarrow> (i32 \<times> android_buffer_info_t option \<times> 'e world) res" where
  "gralloc_gbm_android_buffer_query P handle w =
    (if handle = NULL then Inl AssertFail
     else and_then (deref (handles w) handle) (\<lambda>g.
     and_then (find_buffer_k (prime_fd g) w) (\<lambda>buffer.
     if buffer = NULL then Inr (- EINVAL, None, w)
     else and_then (deref (nodes w) buffer) (\<lambda>b.
     let bo = buf_bo b in
     if bo = NULL then Inr (- EINVAL, None, w)
     else case gbm_bo_get_fd (api P) bo (ext w) of (fd, e1) \<Rightarrow>
       let w1 = w\<lparr>ext := e1\<rparr>;
           height = gbm_bo_get_height (api P) bo e1
       in and_then (gralloc_gbm_bo_user_data_init P bo w1) (\<lambda>(data, w2).
       and_then (deref (bo_data w2) data) (\<lambda>bd.
       let stride = gbm_bo_get_stride (api P) bo (ext w2) in
       and_then (gralloc_gbm_calculate_android_pixel_stride P (gh_format g) stride) (\<lambda>pstride.
       Inr (0, Some \<lparr>info_fd = fd, buffer_id = buffer, info_name = NULL,
              info_width = gbm_bo_get_width (api P) bo e1, info_height = height,
              info_layer_count = 1, info_plane_count = gbm_bo_get_plane_count (api P) bo e1,
              info_android_format = gh_format g, info_gbm_format = gbm_bo_get_format (api P) bo e1,
              info_modifier = gbm_bo_get_modifier (api P) bo e1,
              info_usage = gh_usage g, info_size = ucast (stride * height), info_stride = pstride,
              is_protected = (gh_usage g AND PROTECTED (gu P) \<noteq> 0),
              info_metadata = metadata bd\<rparr>, w2))))))))"

definition gralloc_gbm_android_buffer_get_extdata :: "'e platform \<Rightarrow> addr \<Rightarrow> 'e world \<Rightarrow> (addr \<times> 'e world) res" where
  "gralloc_gbm_android_buffer_get_extdata P handle w =
    (if handle = NULL then Inl AssertFail
     else and_then (deref (handles w) handle) (\<lambda>g.
     and_then (find_buffer_k (prime_fd g) w) (\<lambda>buffer.
     if buffer = NULL then Inr (NULL, w)
     else and_then (deref (nodes w) buffer) (\<lambda>b.
     if buf_bo b = NULL then Inr (NULL, w)
     else gralloc_gbm_bo_user_data_init P (buf_bo b) w))))"

end
