(* ===== verification/Gbm_Invariant.thy ===== *)
theory Gbm_Invariant
  imports Gralloc_Gbm
begin

text \<open>
  The invariant of the world of the GBM back end, and the lock protocol. \<open>world_ok P live w xs\<close>
  says that the table holds the buffers \<open>xs\<close>, that each owns a live buffer object with user data of
  its own, that no two share a block of user data, and that every lock word obeys \<open>lock_ok\<close>.
  \<open>lock_state\<close> is the abstract state a lock word stands for.
\<close>

unbundle bit_operations_syntax

declare neq0_conv [iff del] \<comment> \<open>addresses are compared with NULL, not ordered\<close>

section \<open>The lock word\<close>

text \<open>
  A buffer that is mapped for the CPU is locked exactly once; a buffer that is not locked has no
  usage and no mapping.
\<close>

definition lock_ok :: "'e platform \<Rightarrow> gbm_bo_data_t \<Rightarrow> bool" where
  "lock_ok P bd \<longleftrightarrow> 0 \<le> sint (lock_count bd) \<and> (lock_count bd = 0 \<longrightarrow> locked_for bd = 0)
     \<and> (map_data bd \<noteq> NULL \<longleftrightarrow> locked_for bd AND SW_MASK P \<noteq> 0)
     \<and> (map_data bd \<noteq> NULL \<longrightarrow> lock_count bd = 1)"

datatype lock_state =
    Unlocked
  | CpuLocked i32      \<comment> \<open>mapped, with the usage it was locked for\<close>
  | DevLocked i32 nat  \<comment> \<open>locked without a CPU usage, so many times\<close>

definition abs_lock :: "'e platform \<Rightarrow> gbm_bo_data_t \<Rightarrow> lock_state" where
  "abs_lock P bd =
    (if lock_count bd = 0 then Unlocked
     else if locked_for bd AND SW_MASK P \<noteq> 0 then CpuLocked (locked_for bd)
     else DevLocked (locked_for bd) (nat (sint (lock_count bd))))"

lemma and_or_absorb: "u AND v = u \<Longrightarrow> u OR v = v" for u v :: "'a::len word"
  by (rule bit_word_eqI) (metis bit_and_iff bit_or_iff)

lemma and_mask_zero: "u AND v = u \<Longrightarrow> v AND m = 0 \<Longrightarrow> u AND m = 0" for u v m :: "'a::len word"
  by (metis and.assoc and_zero_eq)

lemma or_and_nonzero: "v AND m \<noteq> 0 \<Longrightarrow> (u OR v) AND m \<noteq> 0" for u v m :: "'a::len word"
  by (metis bit.conj_disj_distrib2 or_eq_0_iff)

section \<open>Ownership\<close>

definition data_of :: "'e platform \<Rightarrow> 'e world \<Rightarrow> addr \<Rightarrow> addr" where
  "data_of P w a = gbm_bo_get_user_data (api P) (fld buf_bo (nodes w) a) (ext w)"

definition smpte_of :: "'e world \<Rightarrow> addr \<Rightarrow> addr" where
  "smpte_of w d = fld (\<lambda>bd. smpte2086 (metadata bd)) (bo_data w) d"

definition cta_of :: "'e world \<Rightarrow> addr \<Rightarrow> addr" where
  "cta_of w d = fld (\<lambda>bd. cta861_3 (metadata bd)) (bo_data w) d"

definition owner_ok :: "'e platform \<Rightarrow> ('e \<Rightarrow> addr set) \<Rightarrow> 'e world \<Rightarrow> addr \<Rightarrow> bool" where
  "owner_ok P live w a \<longleftrightarrow> fld buf_bo (nodes w) a \<in> live (ext w) \<and> data_of P w a \<noteq> NULL
     \<and> (\<exists>bd. bo_data w (data_of P w a) = Some bd \<and> lock_ok P bd)
     \<and> smpte_of w (data_of P w a) \<in> insert NULL (dom (smpte_heap w))
     \<and> cta_of w (data_of P w a) \<in> insert NULL (dom (cta_heap w))"

definition apart :: "'e platform \<Rightarrow> 'e world \<Rightarrow> addr \<Rightarrow> addr \<Rightarrow> bool" where
  "apart P w a b \<longleftrightarrow> data_of P w a \<noteq> data_of P w b
     \<and> (smpte_of w (data_of P w a) = smpte_of w (data_of P w b) \<longrightarrow> smpte_of w (data_of P w a) = NULL)
     \<and> (cta_of w (data_of P w a) = cta_of w (data_of P w b) \<longrightarrow> cta_of w (data_of P w a) = NULL)"

text \<open>The metadata pointers of every block of user data lie below the next address.\<close>

definition metas_ok :: "nat \<Rightarrow> (addr \<rightharpoonup> gbm_bo_data_t) \<Rightarrow> bool" where
  "metas_ok n h \<longleftrightarrow> (\<forall>d bd. h d = Some bd \<longrightarrow> smpte2086 (metadata bd) \<le> n \<and> cta861_3 (metadata bd) \<le> n)"

lemma metas_ok_mono: "metas_ok n h \<Longrightarrow> n \<le> n' \<Longrightarrow> metas_ok n' h"
  by (meson metas_ok_def order_trans)

lemma metas_ok_upd: "metas_ok n h \<Longrightarrow> smpte2086 (metadata bd) \<le> n \<Longrightarrow> cta861_3 (metadata bd) \<le> n \<Longrightarrow> metas_ok n (h(d \<mapsto> bd))"
  by (simp add: metas_ok_def)

lemma metas_ok_del: "metas_ok n h \<Longrightarrow> metas_ok n (h(d := None))"
  by (simp add: metas_ok_def)

lemma metas_okD: "metas_ok n h \<Longrightarrow> h d = Some bd \<Longrightarrow> smpte2086 (metadata bd) \<le> n \<and> cta861_3 (metadata bd) \<le> n"
  by (simp add: metas_ok_def)

lemma metas_ok_empty: "metas_ok n Map.empty"
  by (simp add: metas_ok_def)

definition heaps_ok :: "'e world \<Rightarrow> bool" where
  "heaps_ok w \<longleftrightarrow> dom (bo_data w) \<subseteq> {1..brk w} \<and> dom (smpte_heap w) \<subseteq> {1..brk w}
     \<and> dom (cta_heap w) \<subseteq> {1..brk w} \<and> dom (handles w) \<subseteq> {1..brk w} \<and> metas_ok (brk w) (bo_data w)"

definition world_ok :: "'e platform \<Rightarrow> ('e \<Rightarrow> addr set) \<Rightarrow> 'e world \<Rightarrow> addr list \<Rightarrow> bool" where
  "world_ok P live w xs \<longleftrightarrow> hash_inv w xs \<and> heaps_ok w
     \<and> (\<forall>a \<in> set xs. owner_ok P live w a)
     \<and> (\<forall>a \<in> set xs. \<forall>b \<in> set xs. a \<noteq> b \<longrightarrow> apart P w a b)"

lemma world_okD:
  assumes "world_ok P live w xs"
  shows "hash_inv w xs" "heaps_ok w" "\<And>a. a \<in> set xs \<Longrightarrow> owner_ok P live w a"
    "\<And>a b. a \<in> set xs \<Longrightarrow> b \<in> set xs \<Longrightarrow> a \<noteq> b \<Longrightarrow> apart P w a b"
  using assms by (auto simp: world_ok_def)

lemma owner_bd:
  assumes "owner_ok P live w a" "gbm_laws (api P) live"
  obtains b bd where "nodes w a = Some b" "buf_bo b \<in> live (ext w)" "buf_bo b \<noteq> NULL"
    "gbm_bo_get_user_data (api P) (buf_bo b) (ext w) = data_of P w a" "data_of P w a \<noteq> NULL"
    "bo_data w (data_of P w a) = Some bd" "lock_ok P bd"
proof -
  have null: "NULL \<notin> live (ext w)" using assms(2) by (simp add: gbm_laws_def)
  then obtain b where "nodes w a = Some b" using assms(1)
    by (cases "nodes w a") (auto simp: owner_ok_def fld_def)
  moreover then have "buf_bo b \<in> live (ext w)" using assms(1) by (simp add: owner_ok_def)
  moreover then have "buf_bo b \<noteq> NULL" using null by metis
  ultimately show ?thesis using assms(1) that by (auto simp: owner_ok_def data_of_def)
qed

text \<open>The hash table does not see the other fields of the world.\<close>

lemma hash_inv_cong:
  "brk h' = brk h \<Longrightarrow> nodes h' = nodes h \<Longrightarrow> android_buffer_table h' = android_buffer_table h \<Longrightarrow> tbl h' = tbl h
   \<Longrightarrow> hash_inv h' xs = hash_inv h xs"
  by (simp add: hash_inv_def heap_ok_def)

lemma find_buffer_k_cong:
  "brk h' = brk h \<Longrightarrow> nodes h' = nodes h \<Longrightarrow> android_buffer_table h' = android_buffer_table h \<Longrightarrow> tbl h' = tbl h
   \<Longrightarrow> find_buffer_k k h' = find_buffer_k k h"
  by (simp add: find_buffer_k_eq HASH_FIND_INT_def head_tbl_def)

text \<open>
  The abstract state: for each buffer of the table, in the order of insertion, the file descriptor
  it is known by and its lock state.
\<close>

definition lock_of :: "'e platform \<Rightarrow> 'e world \<Rightarrow> addr \<Rightarrow> lock_state" where
  "lock_of P w a = (case bo_data w (data_of P w a) of None \<Rightarrow> Unlocked | Some bd \<Rightarrow> abs_lock P bd)"

definition abs_world :: "'e platform \<Rightarrow> 'e world \<Rightarrow> addr list \<Rightarrow> (i32 \<times> lock_state) list" where
  "abs_world P w xs = map (\<lambda>a. (fld buf_fd (nodes w) a, lock_of P w a)) xs"

lemma abs_world_Nil [simp]: "abs_world P w [] = []"
  by (simp add: abs_world_def)

lemma abs_world_append [simp]: "abs_world P w (xs @ ys) = abs_world P w xs @ abs_world P w ys"
  by (simp add: abs_world_def)

lemma abs_world_length [simp]: "length (abs_world P w xs) = length xs"
  by (simp add: abs_world_def)

lemma abs_world_nth: "i < length xs \<Longrightarrow> abs_world P w xs ! i = (fld buf_fd (nodes w) (xs ! i), lock_of P w (xs ! i))"
  by (simp add: abs_world_def)

lemma lock_of_Some: "bo_data w (data_of P w a) = Some bd \<Longrightarrow> lock_of P w a = abs_lock P bd"
  by (simp add: lock_of_def)

lemma abs_world_cong:
  assumes "\<And>a. a \<in> set xs \<Longrightarrow> fld buf_fd (nodes w') a = fld buf_fd (nodes w) a"
    and "\<And>a. a \<in> set xs \<Longrightarrow> data_of P w' a = data_of P w a"
    and "\<And>a. a \<in> set xs \<Longrightarrow> bo_data w' (data_of P w a) = bo_data w (data_of P w a)"
  shows "abs_world P w' xs = abs_world P w xs"
  using assms by (simp add: abs_world_def lock_of_def)

text \<open>A change of one buffer's lock word and of the libraries' state.\<close>

lemma world_ok_update:
  assumes ok: "world_ok P live w xs" and a: "a \<in> set xs" and d: "d = data_of P w a"
    and bd: "bo_data w d = Some bd" "lock_ok P bd'" "metadata bd' = metadata bd"
    and same: "same_objects (api P) live (ext w) e'"
    and w': "w' = w\<lparr>bo_data := (bo_data w)(d \<mapsto> bd'), ext := e'\<rparr>"
  shows "world_ok P live w' xs" "\<And>x. x \<in> set xs \<Longrightarrow> data_of P w' x = data_of P w x"
    "\<And>x. x \<in> set xs \<Longrightarrow> lock_of P w' x = (if x = a then abs_lock P bd' else lock_of P w x)"
proof -
  note o = world_okD [OF ok]
  show data: "data_of P w' x = data_of P w x" if "x \<in> set xs" for x
    using o(3) [OF that] same by (simp add: w' data_of_def owner_ok_def same_objects_def)
  have meta: "smpte_of w' y = smpte_of w y" "cta_of w' y = cta_of w y" for y
    using bd by (auto simp: w' smpte_of_def cta_of_def fld_def)
  have own: "owner_ok P live w' x" if x: "x \<in> set xs" for x
  proof -
    have "\<exists>bx. bo_data w' (data_of P w x) = Some bx \<and> lock_ok P bx"
      using o(3) [OF x] bd(2) by (auto simp: w' owner_ok_def)
    then show ?thesis
      using o(3) [OF x] data [OF x] same by (simp add: owner_ok_def meta) (simp add: w' same_objects_def)
  qed
  have "apart P w' x y" if "x \<in> set xs" "y \<in> set xs" "x \<noteq> y" for x y
    using o(4) [OF that] data that by (simp add: apart_def meta)
  moreover have "hash_inv w' xs" using o(1) by (subst hash_inv_cong [of w' w]) (simp_all add: w')
  moreover have "heaps_ok w'" using o(2) bd(1,3)
    by (auto simp: heaps_ok_def w' intro!: metas_ok_upd dest: metas_okD)
  ultimately show "world_ok P live w' xs" using own by (simp add: world_ok_def)
  show "lock_of P w' x = (if x = a then abs_lock P bd' else lock_of P w x)" if x: "x \<in> set xs" for x
  proof -
    have l: "lock_of P w' x = (case bo_data w' (data_of P w x) of None \<Rightarrow> Unlocked | Some bd \<Rightarrow> abs_lock P bd)"
      by (simp only: lock_of_def data [OF x])
    have "data_of P w x \<noteq> d" if "x \<noteq> a" using o(4) [OF x a that] by (simp add: apart_def d)
    then show ?thesis unfolding l by (cases "x = a") (simp_all add: w' d lock_of_def)
  qed
qed

text \<open>Such a change replaces one entry of the abstract state.\<close>

lemma abs_world_update:
  assumes ok: "world_ok P live w xs" and i: "i < length xs" "a = xs ! i" and d: "d = data_of P w a"
    and bd: "bo_data w d = Some bd" "lock_ok P bd'" "metadata bd' = metadata bd"
    and same: "same_objects (api P) live (ext w) e'"
  shows "abs_world P (w\<lparr>bo_data := (bo_data w)(d \<mapsto> bd'), ext := e'\<rparr>) xs
      = (abs_world P w xs)[i := (fld buf_fd (nodes w) a, abs_lock P bd')]"
proof (rule nth_equalityI)
  let ?w = "w\<lparr>bo_data := (bo_data w)(d \<mapsto> bd'), ext := e'\<rparr>"
  fix j assume "j < length (abs_world P ?w xs)"
  then have j: "j < length xs" by simp
  have a: "a \<in> set xs" using i by simp
  have "distinct xs" using hash_inv_members(1) [OF world_okD(1) [OF ok]] .
  then have "xs ! j = a \<longleftrightarrow> j = i" using i j nth_eq_iff_index_eq by blast
  then show "abs_world P ?w xs ! j = (abs_world P w xs)[i := (fld buf_fd (nodes w) a, abs_lock P bd')] ! j"
    using j i world_ok_update(3) [OF ok a d bd same refl, of "xs ! j"]
    by (auto simp: abs_world_nth nth_list_update)
qed simp

lemma world_upd_swap: "w\<lparr>ext := e, bo_data := m\<rparr> = w\<lparr>bo_data := m, ext := e\<rparr>"
  by (cases w) simp

lemma same_objects_refl [simp]: "same_objects A live e e"
  by (simp add: same_objects_def)

section \<open>Lookup of a managed buffer\<close>

definition ready_world :: "'e world \<Rightarrow> bool" where
  "ready_world w \<longleftrightarrow> (\<exists>d. g_driver w = Some (Live d) \<and> ready d)"

lemma ready_world_is_ready [simp]: "ready_world w \<Longrightarrow> is_gralloc_gbm_ready P w = Inr True"
  by (auto simp: ready_world_def is_gralloc_gbm_ready_def)

text \<open>
  The library takes itself for ready. It may do so wrongly, when the driver was freed and a read of it
  finds \<open>ready\<close>; the operations then do the same.
\<close>

abbreviation ready_in :: "'e platform \<Rightarrow> 'e world \<Rightarrow> bool" where
  "ready_in P w \<equiv> is_gralloc_gbm_ready P w = Inr True"

lemma ready_in_same: "ready_in P w \<Longrightarrow> g_driver w' = g_driver w \<Longrightarrow> ready_in P w'"
  by (simp add: is_gralloc_gbm_ready_def)

text \<open>\<open>managed w h a\<close>: the handle at \<open>h\<close> leads to the buffer \<open>a\<close>.\<close>

definition managed :: "'e world \<Rightarrow> addr \<Rightarrow> addr \<Rightarrow> bool" where
  "managed w h a \<longleftrightarrow> h \<noteq> NULL \<and> a \<noteq> NULL
     \<and> (\<exists>g. handles w h = Some g \<and> find_buffer_k (prime_fd g) w = Inr a)"

lemma managed_in:
  assumes "world_ok P live w xs" "managed w h a"
  shows "a \<in> set xs"
proof -
  from assms(2) obtain g :: gralloc_handle_t where g: "find_buffer_k (prime_fd g) w = Inr a" "a \<noteq> NULL" unfolding managed_def by blast
  from find_ok [OF world_okD(1) [OF assms(1)], of "prime_fd g"] g show ?thesis
    by (auto simp: find_buffer_k_eq)
qed

lemma init_existing:
  assumes "owner_ok P live w a" "gbm_laws (api P) live" "nodes w a = Some b"
  shows "gralloc_gbm_bo_user_data_init P (buf_bo b) w = Inr (data_of P w a, w)"
proof -
  have null: "NULL \<notin> live (ext w)" using assms(2) by (simp add: gbm_laws_def)
  have "buf_bo b \<in> live (ext w)" using assms(1,3) by (simp add: owner_ok_def)
  then have "buf_bo b \<noteq> NULL" using null by metis
  then show ?thesis
    using assms(1,3) by (simp add: gralloc_gbm_bo_user_data_init_def owner_ok_def data_of_def)
qed


section \<open>The lock protocol\<close>

lemma lock_maps:
  assumes law: "gbm_laws (api P) live" and own: "owner_ok P live w a" and b: "nodes w a = Some b"
    and bd: "bo_data w (data_of P w a) = Some bd"
  shows "map_data bd \<noteq> NULL \<Longrightarrow> gralloc_gbm_bo_map P (buf_bo b) wr out w = Inr (- EINVAL, out, w)"
    and "map_data bd = NULL \<Longrightarrow> \<exists>p st md e'. gbm_bo_map (api P) (buf_bo b) (gbm_bo_get_width (api P) (buf_bo b) (ext w))
          (gbm_bo_get_height (api P) (buf_bo b) (ext w)) (if wr then GBM_BO_TRANSFER_READ OR GBM_BO_TRANSFER_WRITE else GBM_BO_TRANSFER_READ)
          NULL (ext w) = (p, st, md, e')
        \<and> same_objects (api P) live (ext w) e' \<and> (p = NULL \<longrightarrow> md = NULL) \<and> (p \<noteq> NULL \<longrightarrow> md \<noteq> NULL)
        \<and> gralloc_gbm_bo_map P (buf_bo b) wr out w =
            (let w' = w\<lparr>bo_data := (bo_data w)(data_of P w a \<mapsto> bd\<lparr>map_data := md\<rparr>), ext := e'\<rparr>
             in if p = NULL then Inr (- ENOMEM, NULL, w')
                else if st \<noteq> gbm_bo_get_stride (api P) (buf_bo b) e' then Inl AssertFail
                else Inr (0, p, w'))"
proof -
  from owner_bd [OF own law] b bd have o: "buf_bo b \<noteq> NULL"
    "gbm_bo_get_user_data (api P) (buf_bo b) (ext w) = data_of P w a" "data_of P w a \<noteq> NULL"
    by (metis option.inject)+
  show "gralloc_gbm_bo_map P (buf_bo b) wr out w = Inr (- EINVAL, out, w)" if "map_data bd \<noteq> NULL"
    using o bd that by (simp add: gralloc_gbm_bo_map_def)
  assume md: "map_data bd = NULL"
  let ?fl = "if wr then GBM_BO_TRANSFER_READ OR GBM_BO_TRANSFER_WRITE else GBM_BO_TRANSFER_READ"
  obtain p st md' e' where m: "gbm_bo_map (api P) (buf_bo b) (gbm_bo_get_width (api P) (buf_bo b) (ext w))
          (gbm_bo_get_height (api P) (buf_bo b) (ext w)) ?fl NULL (ext w) = (p, st, md', e')"
    by (metis prod_cases4)
  then have "same_objects (api P) live (ext w) e' \<and> (if p = NULL then md' = NULL else md' \<noteq> NULL)"
    using law by (auto simp: gbm_laws_def)
  then show "\<exists>p st md e'. gbm_bo_map (api P) (buf_bo b) (gbm_bo_get_width (api P) (buf_bo b) (ext w))
          (gbm_bo_get_height (api P) (buf_bo b) (ext w)) ?fl
          NULL (ext w) = (p, st, md, e')
        \<and> same_objects (api P) live (ext w) e' \<and> (p = NULL \<longrightarrow> md = NULL) \<and> (p \<noteq> NULL \<longrightarrow> md \<noteq> NULL)
        \<and> gralloc_gbm_bo_map P (buf_bo b) wr out w =
            (let w' = w\<lparr>bo_data := (bo_data w)(data_of P w a \<mapsto> bd\<lparr>map_data := md\<rparr>), ext := e'\<rparr>
             in if p = NULL then Inr (- ENOMEM, NULL, w')
                else if st \<noteq> gbm_bo_get_stride (api P) (buf_bo b) e' then Inl AssertFail
                else Inr (0, p, w'))"
    using m o bd md
    by (intro exI [of _ p] exI [of _ st] exI [of _ md'] exI [of _ e'])
      (simp add: gralloc_gbm_bo_map_def Let_def split: if_splits)
qed

text \<open>The checks before the lock word is looked at.\<close>

definition lock_permitted :: "'e platform \<Rightarrow> gralloc_handle_t \<Rightarrow> i32 \<Rightarrow> bool" where
  "lock_permitted P g usage \<longleftrightarrow> usage AND HW_FB (gu P) = 0
     \<and> (gh_usage g AND usage = usage
        \<or> gh_usage g AND (SW_READ_OFTEN (gu P) OR SW_WRITE_OFTEN (gu P)) \<noteq> 0
        \<or> gh_usage g AND HW_FB (gu P) \<noteq> 0 \<or> gh_usage g AND HW_TEXTURE (gu P) \<noteq> 0)"

definition rect_ok :: "i32 \<Rightarrow> i32 \<Rightarrow> i32 \<Rightarrow> i32 \<Rightarrow> bool" where
  "rect_ok top_y bottom_y left_x right_x \<longleftrightarrow>
     \<not> isl (int_result (sint right_x - sint left_x)) \<and> \<not> isl (int_result (sint bottom_y - sint top_y))"

lemma rect_okD:
  assumes "rect_ok top_y bottom_y left_x right_x"
  obtains x y where "int_result (sint right_x - sint left_x) = Inr x" "int_result (sint bottom_y - sint top_y) = Inr y"
  using assms unfolding rect_ok_def by (metis sum.collapse(2))

lemma lock_unfold:
  assumes ok: "world_ok P live w xs" and law: "gbm_laws (api P) live" and rdy: "ready_in P w"
    and h: "handles w h = Some g" "h \<noteq> NULL" "find_buffer_k (prime_fd g) w = Inr a" "a \<noteq> NULL"
    and perm: "lock_permitted P g usage" and rect: "rect_ok t bt l r"
    and b: "nodes w a = Some b" and bd: "bo_data w (data_of P w a) = Some bd"
  shows "gralloc_gbm_android_buffer_lock P h usage t bt l r out w =
    (if lock_count bd \<noteq> 0 \<and> locked_for bd AND usage \<noteq> usage then Inr (- EINVAL, out, w)
     else
      let usage' = usage OR locked_for bd in
      and_then
        (if usage' AND SW_MASK P \<noteq> 0
         then gralloc_gbm_bo_map P (buf_bo b) (usage' AND SW_WRITE_MASK (gu P) \<noteq> 0) out w
         else Inr (0, out, w)) (\<lambda>(err, out', w2).
      if err \<noteq> 0 then Inr (err, out', w2)
      else and_then (deref (bo_data w2) (data_of P w a)) (\<lambda>bd2.
      and_then (int_result (sint (lock_count bd2) + 1)) (\<lambda>n.
        Inr (0, out', w2\<lparr>bo_data := (bo_data w2)(data_of P w a \<mapsto>
               bd2\<lparr>lock_count := n, locked_for := locked_for bd2 OR usage'\<rparr>)\<rparr>)))))"
proof -
  have a: "a \<in> set xs" using managed_in [OF ok, of h a] h by (auto simp: managed_def)
  note own = world_okD(3) [OF ok a]
  have "data_of P w a \<noteq> NULL" using own by (simp add: owner_ok_def)
  moreover obtain x y where "int_result (sint r - sint l) = Inr x" "int_result (sint bt - sint t) = Inr y"
    by (rule rect_okD [OF rect])
  ultimately show ?thesis
    using init_existing [OF own law b] rdy h perm b bd
    by (auto simp: gralloc_gbm_android_buffer_lock_def lock_permitted_def)
qed


section \<open>The abstract lock machine\<close>

text \<open>
  \<open>lock_spec P u out st ret out' st'\<close>: locking for usage \<open>u\<close> in state \<open>st\<close> may return \<open>ret\<close> with
  the out pointer \<open>out'\<close> and the new state \<open>st'\<close>. A CPU lock is exclusive; locks without a CPU usage
  nest when the usage was asked for by the first.
\<close>

fun lock_spec :: "'e platform \<Rightarrow> i32 \<Rightarrow> addr \<Rightarrow> lock_state \<Rightarrow> i32 \<Rightarrow> addr \<Rightarrow> lock_state \<Rightarrow> bool" where
  "lock_spec P u out Unlocked ret out' st' \<longleftrightarrow>
     (if u AND SW_MASK P = 0 then ret = 0 \<and> out' = out \<and> st' = DevLocked u 1
      else (ret = 0 \<and> out' \<noteq> NULL \<and> st' = CpuLocked u) \<or> (ret = - ENOMEM \<and> out' = NULL \<and> st' = Unlocked))"
| "lock_spec P u out (CpuLocked v) ret out' st' \<longleftrightarrow> ret = - EINVAL \<and> out' = out \<and> st' = CpuLocked v"
| "lock_spec P u out (DevLocked v n) ret out' st' \<longleftrightarrow>
     (if v AND u = u then ret = 0 \<and> out' = out \<and> st' = DevLocked v (n + 1)
      else ret = - EINVAL \<and> out' = out \<and> st' = DevLocked v n)"

fun unlock_spec :: "lock_state \<Rightarrow> lock_state" where
  "unlock_spec Unlocked = Unlocked"
| "unlock_spec (CpuLocked v) = Unlocked"
| "unlock_spec (DevLocked v n) = (if n \<le> 1 then Unlocked else DevLocked v (n - 1))"

lemma int_resultI: "- (2 ^ 31) \<le> x \<Longrightarrow> x < 2 ^ 31 \<Longrightarrow> int_result x = Inr (word_of_int x)"
  by (simp add: int_result_def)

lemma sint_of_int: "- (2 ^ 31) \<le> x \<Longrightarrow> x < 2 ^ 31 \<Longrightarrow> sint (word_of_int x :: i32) = x"
  by (simp add: sint_sbintrunc' signed_take_bit_int_eq_self)

lemma sint_0_iff: "sint (x :: i32) = 0 \<longleftrightarrow> x = 0"
  by (metis signed_0 signed_word_eqI)

lemma lock_word_cases:
  assumes "lock_ok P bd"
  obtains (unlocked) "lock_count bd = 0" "locked_for bd = 0" "map_data bd = NULL" "abs_lock P bd = Unlocked"
  | (cpu) "lock_count bd = 1" "locked_for bd AND SW_MASK P \<noteq> 0" "map_data bd \<noteq> NULL"
      "abs_lock P bd = CpuLocked (locked_for bd)"
  | (dev) "0 < sint (lock_count bd)" "lock_count bd \<noteq> 0" "locked_for bd AND SW_MASK P = 0" "map_data bd = NULL"
      "abs_lock P bd = DevLocked (locked_for bd) (nat (sint (lock_count bd)))"
proof -
  have ok: "0 \<le> sint (lock_count bd)" "lock_count bd = 0 \<longrightarrow> locked_for bd = 0"
    "map_data bd \<noteq> NULL \<longleftrightarrow> locked_for bd AND SW_MASK P \<noteq> 0" "map_data bd \<noteq> NULL \<longrightarrow> lock_count bd = 1"
    using assms by (simp_all add: lock_ok_def)
  show ?thesis
  proof (cases "lock_count bd = 0")
    case True
    then show ?thesis using ok by (intro unlocked) (simp_all add: abs_lock_def)
  next
    case False
    then have pos: "0 < sint (lock_count bd)" using ok(1) sint_0_iff [of "lock_count bd"] by linarith
    show ?thesis
    proof (cases "locked_for bd AND SW_MASK P = 0")
      case True
      then show ?thesis using ok False pos by (intro dev) (simp_all add: abs_lock_def)
    next
      case f: False
      then show ?thesis using ok False by (intro cpu) (simp_all add: abs_lock_def)
    qed
  qed
qed

lemma lock_refines_aux:
  assumes ok: "world_ok P live w xs" and law: "gbm_laws (api P) live" and str: "map_keeps_stride (api P)"
    and rdy: "ready_in P w"
    and h: "handles w h = Some g" "h \<noteq> NULL" "find_buffer_k (prime_fd g) w = Inr a" "a \<noteq> NULL"
    and perm: "lock_permitted P g usage" and rect: "rect_ok t bt l r"
    and bd: "bo_data w (data_of P w a) = Some bd" and count: "sint (lock_count bd) + 1 < 2 ^ 31"
  shows "\<exists>ret out' e' bd'. gralloc_gbm_android_buffer_lock P h usage t bt l r out w
        = Inr (ret, out', w\<lparr>bo_data := (bo_data w)(data_of P w a \<mapsto> bd'), ext := e'\<rparr>)
      \<and> same_objects (api P) live (ext w) e' \<and> lock_ok P bd' \<and> metadata bd' = metadata bd
      \<and> lock_spec P usage out (abs_lock P bd) ret out' (abs_lock P bd')"
proof -
  have a: "a \<in> set xs" using managed_in [OF ok, of h a] h by (auto simp: managed_def)
  note own = world_okD(3) [OF ok a]
  let ?d = "data_of P w a"
  from owner_bd [OF own law] bd obtain b where b: "nodes w a = Some b" and d0: "?d \<noteq> NULL" and lok: "lock_ok P bd"
    by (metis option.inject)
  note run = lock_unfold [OF ok law rdy h perm rect b bd, of out]
  have same: "w\<lparr>bo_data := (bo_data w)(?d \<mapsto> bd), ext := ext w\<rparr> = w"
    using bd by (simp add: fun_upd_idem)
  from lok show ?thesis
  proof (cases rule: lock_word_cases)
    case cpu
    have "gralloc_gbm_android_buffer_lock P h usage t bt l r out w = Inr (- EINVAL, out, w)"
      using run cpu lock_maps(1) [OF law own b bd cpu(3)] or_and_nonzero [OF cpu(2), of usage]
      by (auto simp: Let_def errno_defs)
    then show ?thesis using same cpu(4) lok
      by (intro exI [of _ "- EINVAL"] exI [of _ out] exI [of _ "ext w"] exI [of _ bd]) simp
  next
    case dev
    show ?thesis
    proof (cases "locked_for bd AND usage = usage")
      case False
      then have "gralloc_gbm_android_buffer_lock P h usage t bt l r out w = Inr (- EINVAL, out, w)"
        using run dev by simp
      then show ?thesis using same dev(5) lok False
        by (intro exI [of _ "- EINVAL"] exI [of _ out] exI [of _ "ext w"] exI [of _ bd]) simp
    next
      case True
      then have sub: "usage AND locked_for bd = usage" by (simp add: and.commute)
      have u: "usage OR locked_for bd = locked_for bd" using and_or_absorb [OF sub] .
      let ?n = "word_of_int (sint (lock_count bd) + 1) :: i32"
      let ?bd = "bd\<lparr>lock_count := ?n\<rparr>"
      have n: "int_result (sint (lock_count bd) + 1) = Inr ?n" "sint ?n = sint (lock_count bd) + 1"
        using dev(1) count by (simp add: int_resultI, intro sint_of_int) simp_all
      then have n0: "?n \<noteq> 0" using dev(1) by (metis add_pos_nonneg less_numeral_extra(3) signed_0 zero_less_one zless_add1_eq)
      have eq: "gralloc_gbm_android_buffer_lock P h usage t bt l r out w
          = Inr (0, out, w\<lparr>bo_data := (bo_data w)(?d \<mapsto> ?bd), ext := ext w\<rparr>)"
        using run True dev(2,3) u n(1) bd d0 by (simp add: Let_def)
      have "lock_ok P ?bd" using dev n(2) n0 by (simp add: lock_ok_def)
      moreover have "abs_lock P ?bd = DevLocked (locked_for bd) (nat (sint (lock_count bd)) + 1)"
        using dev n(2) n0 by (simp add: abs_lock_def nat_add_distrib)
      ultimately show ?thesis using eq dev(5) True
        by (intro exI [of _ 0] exI [of _ out] exI [of _ "ext w"] exI [of _ ?bd]) simp
    qed
  next
    case unlocked
    let ?bd = "bd\<lparr>lock_count := 1, locked_for := usage\<rparr>"
    have one: "int_result 1 = Inr 1" "sint (1::i32) = 1" by (simp_all add: int_result_def)
    show ?thesis
    proof (cases "usage AND SW_MASK P = 0")
      case True
      have eq: "gralloc_gbm_android_buffer_lock P h usage t bt l r out w
          = Inr (0, out, w\<lparr>bo_data := (bo_data w)(?d \<mapsto> ?bd), ext := ext w\<rparr>)"
        using run True unlocked bd d0 one by (simp add: Let_def)
      then show ?thesis using unlocked True one
        by (intro exI [of _ 0] exI [of _ out] exI [of _ "ext w"] exI [of _ ?bd])
          (simp add: lock_ok_def abs_lock_def)
    next
      case False
      let ?wr = "usage AND SW_WRITE_MASK (gu P) \<noteq> 0"
      from lock_maps(2) [OF law own b bd unlocked(3), where wr = ?wr and out = out]
      obtain p st md e' where m: "gbm_bo_map (api P) (buf_bo b) (gbm_bo_get_width (api P) (buf_bo b) (ext w))
          (gbm_bo_get_height (api P) (buf_bo b) (ext w)) (if ?wr then GBM_BO_TRANSFER_READ OR GBM_BO_TRANSFER_WRITE else GBM_BO_TRANSFER_READ)
          NULL (ext w) = (p, st, md, e')"
        "same_objects (api P) live (ext w) e'" "p = NULL \<longrightarrow> md = NULL" "p \<noteq> NULL \<longrightarrow> md \<noteq> NULL"
        "gralloc_gbm_bo_map P (buf_bo b) ?wr out w =
            (let w' = w\<lparr>bo_data := (bo_data w)(?d \<mapsto> bd\<lparr>map_data := md\<rparr>), ext := e'\<rparr>
             in if p = NULL then Inr (- ENOMEM, NULL, w')
                else if st \<noteq> gbm_bo_get_stride (api P) (buf_bo b) e' then Inl AssertFail
                else Inr (0, p, w'))"
        by blast
      show ?thesis
      proof (cases "p = NULL")
        case True
        have "gralloc_gbm_android_buffer_lock P h usage t bt l r out w
            = Inr (- ENOMEM, NULL, w\<lparr>bo_data := (bo_data w)(?d \<mapsto> bd\<lparr>map_data := NULL\<rparr>), ext := e'\<rparr>)"
          using run False unlocked m(3,5) True by (simp add: Let_def errno_defs)
        then show ?thesis using m(2) unlocked lok False
          by (intro exI [of _ "- ENOMEM"] exI [of _ NULL] exI [of _ e'] exI [of _ "bd\<lparr>map_data := NULL\<rparr>"])
            (simp add: lock_ok_def abs_lock_def)
      next
        case p: False
        then have "st = gbm_bo_get_stride (api P) (buf_bo b) e'"
          using str m(1) by (auto simp: map_keeps_stride_def)
        then have "gralloc_gbm_android_buffer_lock P h usage t bt l r out w
            = Inr (0, p, w\<lparr>bo_data := (bo_data w)(?d \<mapsto> bd\<lparr>map_data := md, lock_count := 1, locked_for := usage\<rparr>),
                 ext := e'\<rparr>)"
          using run False unlocked m(5) p d0 one by (simp add: Let_def world_upd_swap)
        then show ?thesis using m(2,4) p unlocked False
          by (intro exI [of _ 0] exI [of _ p] exI [of _ e'] exI [of _ "bd\<lparr>map_data := md, lock_count := 1, locked_for := usage\<rparr>"])
            (simp add: lock_ok_def abs_lock_def)
      qed
    qed
  qed
qed


text \<open>Unlocking.\<close>

lemma unlock_refines_aux:
  assumes ok: "world_ok P live w xs" and law: "gbm_laws (api P) live"
    and h: "handles w h = Some g" "h \<noteq> NULL" "find_buffer_k (prime_fd g) w = Inr a" "a \<noteq> NULL"
    and bd: "bo_data w (data_of P w a) = Some bd"
  shows "\<exists>e' bd'. gralloc_gbm_android_buffer_unlock P h w
        = Inr (0, w\<lparr>bo_data := (bo_data w)(data_of P w a \<mapsto> bd'), ext := e'\<rparr>)
      \<and> same_objects (api P) live (ext w) e' \<and> lock_ok P bd' \<and> metadata bd' = metadata bd
      \<and> abs_lock P bd' = unlock_spec (abs_lock P bd)"
proof -
  have a: "a \<in> set xs" using managed_in [OF ok, of h a] h by (auto simp: managed_def)
  note own = world_okD(3) [OF ok a]
  let ?d = "data_of P w a"
  from owner_bd [OF own law] bd obtain b where b: "nodes w a = Some b" and d0: "?d \<noteq> NULL" and lok: "lock_ok P bd"
    and bo: "buf_bo b \<noteq> NULL" "gbm_bo_get_user_data (api P) (buf_bo b) (ext w) = ?d"
    by (metis option.inject)
  have same: "w\<lparr>bo_data := (bo_data w)(?d \<mapsto> bd), ext := ext w\<rparr> = w"
    using bd by (simp add: fun_upd_idem)
  have run: "gralloc_gbm_android_buffer_unlock P h w =
     (if lock_count bd = 0 then Inr (0, w)
       else and_then (if locked_for bd AND SW_MASK P \<noteq> 0 then gralloc_gbm_bo_unmap P (buf_bo b) w else Inr w) (\<lambda>w1.
       and_then (deref (bo_data w1) ?d) (\<lambda>bd1.
       and_then (int_result (sint (lock_count bd1) - 1)) (\<lambda>n.
         Inr (0, w1\<lparr>bo_data := (bo_data w1)(?d \<mapsto>
                bd1\<lparr>lock_count := n, locked_for := (if n = 0 then 0 else locked_for bd1)\<rparr>)\<rparr>)))))"
    using h b bo bd d0 by (simp add: gralloc_gbm_android_buffer_unlock_def Let_def)
  from lok show ?thesis
  proof (cases rule: lock_word_cases)
    case unlocked
    then show ?thesis using run same lok
      by (intro exI [of _ "ext w"] exI [of _ bd]) simp
  next
    case cpu
    let ?e = "gbm_bo_unmap (api P) (buf_bo b) (map_data bd) (ext w)"
    let ?bd = "bd\<lparr>map_data := NULL, lock_count := 0, locked_for := 0\<rparr>"
    have zero: "int_result 0 = Inr 0" by (simp add: int_result_def)
    have "gralloc_gbm_android_buffer_unlock P h w = Inr (0, w\<lparr>bo_data := (bo_data w)(?d \<mapsto> ?bd), ext := ?e\<rparr>)"
      using run cpu bo bd d0 zero by (simp add: gralloc_gbm_bo_unmap_def Let_def world_upd_swap)
    moreover have "same_objects (api P) live (ext w) ?e" using law by (simp add: gbm_laws_def)
    ultimately show ?thesis using cpu(4)
      by (intro exI [of _ ?e] exI [of _ ?bd]) (simp add: lock_ok_def abs_lock_def)
  next
    case dev
    let ?n = "word_of_int (sint (lock_count bd) - 1) :: i32"
    let ?bd = "bd\<lparr>lock_count := ?n, locked_for := (if ?n = 0 then 0 else locked_for bd)\<rparr>"
    have range: "sint (lock_count bd) < 2 ^ 31" using sint_lt [of "lock_count bd"] by simp
    have n: "int_result (sint (lock_count bd) - 1) = Inr ?n" using dev(1) range by (intro int_resultI) simp_all
    have sn: "sint ?n = sint (lock_count bd) - 1" using dev(1) range by (intro sint_of_int) simp_all
    have n0: "?n = 0 \<longleftrightarrow> sint (lock_count bd) = 1" using sn sint_0_iff [of ?n] by simp
    have "gralloc_gbm_android_buffer_unlock P h w = Inr (0, w\<lparr>bo_data := (bo_data w)(?d \<mapsto> ?bd), ext := ext w\<rparr>)"
      using run dev(2,3) n bd d0 by (simp add: Let_def)
    moreover have "lock_ok P ?bd" using dev sn by (auto simp: lock_ok_def)
    moreover have "abs_lock P ?bd = unlock_spec (abs_lock P bd)"
      using dev sn n0 by (auto simp: abs_lock_def nat_diff_distrib)
    ultimately show ?thesis by (intro exI [of _ "ext w"] exI [of _ ?bd]) simp
  qed
qed

end
