(* ===== verification/Gbm_Lifecycle.thy ===== *)
theory Gbm_Lifecycle
  imports Gbm_Invariant
begin

text \<open>
  Allocation, import and release of buffers keep the invariant \<open>world_ok\<close>: each new buffer owns
  fresh user data, and a release frees exactly what its buffer owned.
\<close>

unbundle bit_operations_syntax

section \<open>Growth\<close>

definition owners_ok :: "'e platform \<Rightarrow> ('e \<Rightarrow> addr set) \<Rightarrow> 'e world \<Rightarrow> addr list \<Rightarrow> bool" where
  "owners_ok P live w xs \<longleftrightarrow> heaps_ok w \<and> (\<forall>a \<in> set xs. owner_ok P live w a)
     \<and> (\<forall>a \<in> set xs. \<forall>b \<in> set xs. a \<noteq> b \<longrightarrow> apart P w a b)"

lemma world_ok_owners: "world_ok P live w xs \<longleftrightarrow> hash_inv w xs \<and> owners_ok P live w xs"
  by (simp add: world_ok_def owners_ok_def)

text \<open>\<open>later w w'\<close>: no address is used twice and no handle of \<open>w\<close> is changed. \<open>grows P live w w'\<close>:
  nothing that exists in \<open>w\<close> is changed in \<open>w'\<close>.\<close>

definition later :: "'e world \<Rightarrow> 'e world \<Rightarrow> bool" where
  "later w w' \<longleftrightarrow> brk w \<le> brk w' \<and> (\<forall>p \<in> dom (handles w). handles w' p = handles w p)"

lemma later_refl [simp]: "later w w"
  by (simp add: later_def)

lemma later_trans: "later w w' \<Longrightarrow> later w' w'' \<Longrightarrow> later w w''"
  by (auto simp: later_def dom_def)

lemma laterD: "later w w' \<Longrightarrow> brk w \<le> brk w'" "later w w' \<Longrightarrow> handles w p = Some g \<Longrightarrow> handles w' p = Some g"
  by (auto simp: later_def dom_def)

definition grows :: "'e platform \<Rightarrow> ('e \<Rightarrow> addr set) \<Rightarrow> 'e world \<Rightarrow> 'e world \<Rightarrow> bool" where
  "grows P live w w' \<longleftrightarrow> later w w' \<and> (\<forall>a \<in> dom (nodes w). nodes w' a = nodes w a)
     \<and> dom (nodes w') \<subseteq> {1..brk w'}
     \<and> android_buffer_table w' = android_buffer_table w \<and> tbl w' = tbl w
     \<and> (\<forall>d \<in> dom (bo_data w). bo_data w' d = bo_data w d)
     \<and> dom (smpte_heap w) \<subseteq> dom (smpte_heap w') \<and> dom (cta_heap w) \<subseteq> dom (cta_heap w')
     \<and> heaps_ok w' \<and> g_driver w' = g_driver w
     \<and> (\<forall>b \<in> live (ext w). b \<in> live (ext w')
          \<and> gbm_bo_get_user_data (api P) b (ext w') = gbm_bo_get_user_data (api P) b (ext w))"

lemma grows_facts:
  assumes ok: "world_ok P live w xs" and g: "grows P live w w'" and a: "a \<in> set xs"
  shows "data_of P w' a = data_of P w a" "data_of P w a \<in> dom (bo_data w)"
    "bo_data w' (data_of P w a) = bo_data w (data_of P w a)"
    "smpte_of w' (data_of P w a) = smpte_of w (data_of P w a)"
    "cta_of w' (data_of P w a) = cta_of w (data_of P w a)"
    "fld buf_bo (nodes w') a = fld buf_bo (nodes w) a"
proof -
  have own: "owner_ok P live w a" and n: "a \<in> dom (nodes w)"
    using world_okD(3) [OF ok a] hash_inv_members(2) [OF world_okD(1) [OF ok]] a by auto
  show bo: "fld buf_bo (nodes w') a = fld buf_bo (nodes w) a"
    using g n by (simp add: grows_def fld_def)
  show "data_of P w' a = data_of P w a"
    using own g bo by (simp add: data_of_def owner_ok_def grows_def)
  show d: "data_of P w a \<in> dom (bo_data w)" using own by (auto simp: owner_ok_def)
  then show "bo_data w' (data_of P w a) = bo_data w (data_of P w a)" using g by (simp add: grows_def)
  then show "smpte_of w' (data_of P w a) = smpte_of w (data_of P w a)"
    "cta_of w' (data_of P w a) = cta_of w (data_of P w a)"
    by (simp_all add: smpte_of_def cta_of_def fld_def)
qed

lemma world_ok_grows:
  assumes ok: "world_ok P live w xs" and g: "grows P live w w'"
  shows "world_ok P live w' xs"
proof -
  note o = world_okD [OF ok] and f = grows_facts [OF ok g]
  have "owner_ok P live w' a" if a: "a \<in> set xs" for a
    using o(3) [OF a] g by (auto simp: owner_ok_def f [OF a] grows_def)
  moreover have "apart P w' a b" if "a \<in> set xs" "b \<in> set xs" "a \<noteq> b" for a b
    using o(4) [OF that] that by (simp add: apart_def f)
  moreover have "hash_inv w' xs"
  proof (rule hash_inv_agree [OF o(1)])
    show "nodes w' a = nodes w a" if "a \<in> set xs" for a
      using that hash_inv_members(2) [OF o(1)] g by (auto simp: grows_def)
  qed (use g in \<open>simp_all add: grows_def\<close>)
  moreover have "heaps_ok w'" using g by (simp add: grows_def)
  ultimately show ?thesis by (simp add: world_ok_def)
qed

lemma abs_grows:
  assumes ok: "world_ok P live w xs" and g: "grows P live w w'"
  shows "abs_world P w' xs = abs_world P w xs"
proof (rule abs_world_cong)
  fix a assume a: "a \<in> set xs"
  note f = grows_facts [OF ok g a]
  show "data_of P w' a = data_of P w a" "bo_data w' (data_of P w a) = bo_data w (data_of P w a)" by (fact f)+
  have "a \<in> dom (nodes w)" using hash_inv_members(2) [OF world_okD(1) [OF ok]] a by auto
  then show "fld buf_fd (nodes w') a = fld buf_fd (nodes w) a" using g by (simp add: grows_def fld_def)
qed

text \<open>The insertion of a buffer that owns fresh user data.\<close>

lemma hash_frame_world:
  assumes "hash_frame w (w' :: 'e world)"
  shows "bo_data w' = bo_data w" "smpte_heap w' = smpte_heap w" "cta_heap w' = cta_heap w"
    "handles w' = handles w" "ext w' = ext w" "g_driver w' = g_driver w" "brk w \<le> brk w'"
    "fld buf_bo (nodes w') = fld buf_bo (nodes w)" "fld buf_fd (nodes w') = fld buf_fd (nodes w)"
    "dom (nodes w') = dom (nodes w)"
proof -
  have e: "w' = w\<lparr>brk := brk w', nodes := nodes w', android_buffer_table := android_buffer_table w', tbl := tbl w'\<rparr>"
    and p: "brk w \<le> brk w'" "payload (nodes w') = payload (nodes w)"
    using assms unfolding hash_frame_def by blast+
  show "bo_data w' = bo_data w" using arg_cong [OF e, of bo_data] by simp
  show "smpte_heap w' = smpte_heap w" using arg_cong [OF e, of smpte_heap] by simp
  show "cta_heap w' = cta_heap w" using arg_cong [OF e, of cta_heap] by simp
  show "handles w' = handles w" using arg_cong [OF e, of handles] by simp
  show "ext w' = ext w" using arg_cong [OF e, of ext] by simp
  show "g_driver w' = g_driver w" using arg_cong [OF e, of g_driver] by simp
  show "brk w \<le> brk w'" by fact
  show "fld buf_bo (nodes w') = fld buf_bo (nodes w)" "fld buf_fd (nodes w') = fld buf_fd (nodes w)"
    using payload_fld [OF p(2)] by simp_all
  show "dom (nodes w') = dom (nodes w)" by (rule payload_dom [OF p(2)])
qed

lemma abs_frame:
  assumes "hash_frame w w'"
  shows "abs_world P w' xs = abs_world P w xs" "data_of P w' a = data_of P w a"
  using hash_frame_world [OF assms] by (simp_all add: abs_world_def lock_of_def data_of_def)

lemma owners_frame:
  assumes fr: "hash_frame w w'" and ok: "owners_ok P live w xs"
  shows "owners_ok P live w' xs"
proof -
  note w' = hash_frame_world [OF fr]
  have "data_of P w' = data_of P w" "smpte_of w' = smpte_of w" "cta_of w' = cta_of w"
    by (simp_all add: fun_eq_iff data_of_def smpte_of_def cta_of_def w')
  then have "owner_ok P live w' a = owner_ok P live w a" "apart P w' a b = apart P w a b" for a b
    by (simp_all add: owner_ok_def apart_def w')
  moreover have "{1..brk w} \<subseteq> {1..brk w'}" using w'(7) by auto
  then have "heaps_ok w'" using ok metas_ok_mono [OF _ w'(7)] unfolding owners_ok_def heaps_ok_def w'(1-4) by blast
  ultimately show ?thesis using ok by (simp add: owners_ok_def)
qed

lemma world_ok_add:
  assumes huge: "no_huge_malloc oom" and ok: "world_ok P live w xs" and a: "nodes w a = Some e" "a \<notin> set xs"
    and own: "owner_ok P live w a" and new: "\<And>x. x \<in> set xs \<Longrightarrow> apart P w a x \<and> apart P w x a"
  shows "add_buffer oom a w = Inl OutOfMemory \<and> oom_after oom w \<or>
    (\<exists>w'. add_buffer oom a w = Inr (0, w') \<and> hash_frame w w' \<and> world_ok P live w' (xs @ [a]))"
proof -
  note o = world_okD [OF ok]
  have own': "owners_ok P live w (xs @ [a])"
    using o own new by (auto simp: owners_ok_def)
  have "world_ok P live w' (xs @ [a])" if "hash_inv w' (xs @ [a])" "hash_frame w w'" for w'
    using that owners_frame [OF that(2) own'] by (simp add: world_ok_owners)
  with add_buffer_ok [OF huge o(1) a] show ?thesis by blast
qed

section \<open>User data of a new object\<close>

text \<open>A run that ends because a request for memory failed: in the \<open>exit\<close> of the hash table, or in a
  write to a block whose allocation the code does not check.\<close>

definition exhausted :: "oom \<Rightarrow> 'a hash_state_scheme \<Rightarrow> 'b res \<Rightarrow> bool" where
  "exhausted oom w r \<longleftrightarrow> r = Inl OutOfMemory \<and> oom_after oom w \<or> r = Inl NullDeref \<and> starved oom w"

lemma exhausted_Inr [simp]: "\<not> exhausted oom w (Inr x)"
  by (simp add: exhausted_def)

lemma exhausted_and_then [intro]: "exhausted oom w r \<Longrightarrow> exhausted oom w (and_then r f)"
  by (auto simp: exhausted_def)

lemma malloc_cases:
  assumes "malloc oom sz h = (p, h')" "sz < 2 ^ 36" "brk w \<le> brk h"
  shows "h' = h\<lparr>brk := Suc (brk h)\<rparr>" "p = Suc (brk h) \<or> p = NULL \<and> starved oom w"
proof -
  show "h' = h\<lparr>brk := Suc (brk h)\<rparr>" using malloc_simps(1) [OF assms(1)] .
  have "starved oom w" if "oom (Suc (brk h)) sz" using starvedI [of oom _ sz w, OF that] assms(2,3) by simp
  then show "p = Suc (brk h) \<or> p = NULL \<and> starved oom w"
    using assms(1) by (auto simp: malloc_def split: if_splits)
qed

text \<open>The user data record that \<open>gralloc_gbm_bo_user_data_init\<close> builds; a metadata block whose
  allocation failed is left out.\<close>

definition fresh_bo_data :: "addr \<Rightarrow> addr \<Rightarrow> addr \<Rightarrow> gbm_bo_data_t" where
  "fresh_bo_data s c b = zero_bo_data\<lparr>metadata := (metadata zero_bo_data)\<lparr>smpte2086 := s,
     cta861_3 := c, smpte2094_50 := b, smpte2094_50_size := 0\<rparr>\<rparr>"

definition put :: "addr \<Rightarrow> 'b \<Rightarrow> (addr \<rightharpoonup> 'b) \<Rightarrow> addr \<rightharpoonup> 'b" where
  "put p x m = (if p = NULL then m else m(p \<mapsto> x))"

lemma put_dom: "dom (put p x m) \<subseteq> insert p (dom m)" "dom m \<subseteq> dom (put p x m)" "p = NULL \<or> p \<in> dom (put p x m)"
  "NULL \<notin> dom m \<Longrightarrow> NULL \<notin> dom (put p x m)"
  by (auto simp: put_def)

lemma init_fresh:
  assumes "bo \<noteq> NULL" "gbm_bo_get_user_data (api P) bo (ext w) = NULL"
  obtains (failed) "gralloc_gbm_bo_user_data_init P bo w = Inl NullDeref" "starved (mem_oom P) w"
  | (fresh) s c b h where "s = Suc (Suc (brk w)) \<or> s = NULL" "c = Suc (Suc (Suc (brk w))) \<or> c = NULL"
      "gralloc_gbm_bo_user_data_init P bo w = Inr (Suc (brk w), w\<lparr>brk := Suc (Suc (Suc (Suc (brk w)))),
        bo_data := (bo_data w)(Suc (brk w) \<mapsto> fresh_bo_data s c b),
        smpte_heap := put s zero_smpte2086 (smpte_heap w), cta_heap := put c zero_cta861_3 (cta_heap w),
        blob_heap := h, ext := gbm_bo_set_user_data (api P) bo (Suc (brk w)) (ext w)\<rparr>)"
proof -
  let ?o = "mem_oom P"
  obtain d w1 where 1: "malloc ?o sizeof_gbm_bo_data w = (d, w1)" by force
  obtain s w2 where 2: "malloc ?o sizeof_smpte2086 w1 = (s, w2)" by force
  obtain c w3 where 3: "malloc ?o sizeof_cta861_3 w2 = (c, w3)" by force
  obtain b w4 where 4: "malloc ?o GRALLOC_GENERIC_SMPTE2094_50_MAX_SIZE w3 = (b, w4)" by force
  have w: "w1 = w\<lparr>brk := Suc (brk w)\<rparr>" "w2 = w1\<lparr>brk := Suc (brk w1)\<rparr>" "w3 = w2\<lparr>brk := Suc (brk w2)\<rparr>"
    "w4 = w3\<lparr>brk := Suc (brk w3)\<rparr>"
    using malloc_simps(1) [OF 1] malloc_simps(1) [OF 2] malloc_simps(1) [OF 3] malloc_simps(1) [OF 4] by blast+
  have d: "d = Suc (brk w) \<or> d = NULL \<and> starved ?o w"
    by (rule malloc_cases(2) [OF 1]) (simp_all add: sizeof_gbm_bo_data_def)
  have s: "s = Suc (Suc (brk w)) \<or> s = NULL" "c = Suc (Suc (Suc (brk w))) \<or> c = NULL"
    using malloc_simps(2) [OF 2] malloc_simps(2) [OF 3] w by auto
  show ?thesis
  proof (cases "d = NULL")
    case True
    then show ?thesis using failed assms 1 d by (simp add: gralloc_gbm_bo_user_data_init_def)
  next
    case False
    then have d': "d = Suc (brk w)" using d by simp
    show ?thesis
    proof (rule fresh [OF s])
      show "gralloc_gbm_bo_user_data_init P bo w = Inr (Suc (brk w), w\<lparr>brk := Suc (Suc (Suc (Suc (brk w)))),
        bo_data := (bo_data w)(Suc (brk w) \<mapsto> fresh_bo_data s c b),
        smpte_heap := put s zero_smpte2086 (smpte_heap w), cta_heap := put c zero_cta861_3 (cta_heap w),
        blob_heap := put b (replicate GRALLOC_GENERIC_SMPTE2094_50_MAX_SIZE 0) (blob_heap w),
        ext := gbm_bo_set_user_data (api P) bo (Suc (brk w)) (ext w)\<rparr>)"
        using assms 1 2 3 4 d' unfolding w
        by (simp add: gralloc_gbm_bo_user_data_init_def fresh_bo_data_def put_def Let_def)
    qed
  qed
qed

lemma fresh_lock_ok: "lock_ok P (fresh_bo_data s c b)" "abs_lock P (fresh_bo_data s c b) = Unlocked"
  by (simp_all add: lock_ok_def abs_lock_def fresh_bo_data_def zero_bo_data_def)


section \<open>Single steps that only grow the world\<close>

lemma grows_refl:
  assumes "world_ok P live w xs"
  shows "grows P live w w"
  using world_okD(1,2) [OF assms] hash_inv_members(4) by (auto simp: grows_def)

lemma growsD:
  assumes "grows P live w w'"
  shows "brk w \<le> brk w'" "\<And>a. a \<in> dom (nodes w) \<Longrightarrow> nodes w' a = nodes w a"
    "dom (nodes w') \<subseteq> {1..brk w'}" "android_buffer_table w' = android_buffer_table w" "tbl w' = tbl w"
    "\<And>d. d \<in> dom (bo_data w) \<Longrightarrow> bo_data w' d = bo_data w d"
    "dom (smpte_heap w) \<subseteq> dom (smpte_heap w')" "dom (cta_heap w) \<subseteq> dom (cta_heap w')"
    "heaps_ok w'" "g_driver w' = g_driver w" "\<And>b. b \<in> live (ext w) \<Longrightarrow> b \<in> live (ext w')"
    "\<And>b. b \<in> live (ext w) \<Longrightarrow>
       gbm_bo_get_user_data (api P) b (ext w') = gbm_bo_get_user_data (api P) b (ext w)" "later w w'"
  using assms by (simp_all add: grows_def later_def)

lemma grows_trans:
  assumes 1: "grows P live w w'" and 2: "grows P live w' w''"
  shows "grows P live w w''"
proof -
  note f = growsD [OF 1] and g = growsD [OF 2]
  have "nodes w'' a = nodes w a" if "a \<in> dom (nodes w)" for a
    using f(2) [OF that] g(2) [of a] that by (simp add: domIff)
  moreover have "bo_data w'' d = bo_data w d" if "d \<in> dom (bo_data w)" for d
    using f(6) [OF that] g(6) [of d] that by (simp add: domIff)
  moreover have "dom (smpte_heap w) \<subseteq> dom (smpte_heap w'')" "dom (cta_heap w) \<subseteq> dom (cta_heap w'')"
    by (rule subset_trans [OF f(7) g(7)], rule subset_trans [OF f(8) g(8)])
  ultimately show ?thesis
    unfolding grows_def using later_trans [OF f(13) g(13)] f(4,5,10,11,12) g(3,4,5,9,10,11,12) by simp
qed

lemma grows_ext:
  assumes "grows P live w w'" "same_objects (api P) live (ext w') e"
  shows "grows P live w (w'\<lparr>ext := e\<rparr>)"
  using assms by (auto simp: grows_def later_def same_objects_def heaps_ok_def)

lemma grows_brk:
  assumes "grows P live w w'"
  shows "grows P live w (w'\<lparr>brk := Suc (brk w')\<rparr>)"
proof -
  have "{1..brk w'} \<subseteq> {1..Suc (brk w')}" by auto
  then show ?thesis using assms unfolding grows_def later_def heaps_ok_def by (simp add: subset_trans [of _ "{1..brk w'}"] metas_ok_mono [of "brk w'"])
qed

lemma grows_new_handle:
  assumes "grows P live w w'" "dom (handles w) \<subseteq> {1..brk w}"
  shows "grows P live w (w'\<lparr>brk := Suc (brk w'), handles := (handles w')(Suc (brk w') \<mapsto> g)\<rparr>)"
proof -
  have "{1..brk w'} \<subseteq> {1..Suc (brk w')}" by auto
  moreover have "Suc (brk w') \<notin> dom (handles w)" using assms(2) growsD(1) [OF assms(1)] by auto
  ultimately show ?thesis
    using assms(1) unfolding grows_def later_def heaps_ok_def
    by (auto simp: subset_trans [of _ "{1..brk w'}"] intro: metas_ok_mono [of "brk w'"])
qed

lemma grows_handle:
  assumes "grows P live w w'" "p \<in> dom (handles w')" "p \<notin> dom (handles w)"
  shows "grows P live w (w'\<lparr>handles := (handles w')(p \<mapsto> g)\<rparr>)"
  using assms by (auto simp: grows_def later_def heaps_ok_def)

lemma grows_node:
  assumes "grows P live w w'" "p \<in> {1..brk w'}" "brk w < p"
    and "dom (nodes w) \<subseteq> {1..brk w}"
  shows "grows P live w (w'\<lparr>nodes := (nodes w')(p \<mapsto> n)\<rparr>)"
proof -
  have "a \<noteq> p" if "a \<in> dom (nodes w)" for a using that assms(3,4) by auto
  then show ?thesis using assms(1,2) by (auto simp: grows_def later_def heaps_ok_def)
qed

lemma new_object_same:
  assumes "new_object A live e bo e'" "bo = NULL"
  shows "same_objects A live e e'"
  using assms by (simp add: new_object_def)

lemma new_objectD:
  assumes "new_object A live e bo e'" "b \<in> live e"
  shows "b \<in> live e'" "gbm_bo_get_user_data A b e' = gbm_bo_get_user_data A b e"
  using assms by (cases "bo = NULL"; simp add: new_object_def same_objects_def)+

lemma grows_object:
  assumes g: "grows P live w w'" and n: "new_object (api P) live (ext w') bo e"
  shows "grows P live w (w'\<lparr>ext := e\<rparr>)"
proof -
  note f = growsD [OF g]
  have "b \<in> live e \<and> gbm_bo_get_user_data (api P) b e = gbm_bo_get_user_data (api P) b (ext w)"
    if "b \<in> live (ext w)" for b
    using new_objectD [OF n f(11) [OF that]] f(12) [OF that] by simp
  moreover have "heaps_ok (w'\<lparr>ext := e\<rparr>)" using f(9) by (simp add: heaps_ok_def)
  ultimately show ?thesis using f(2-8,10,13) by (simp add: grows_def later_def)
qed

lemma gbm_set_user_data:
  assumes "gbm_laws (api P) live" "bo \<in> live e"
  shows "live (gbm_bo_set_user_data (api P) bo d e) = live e"
    "x \<in> live e \<Longrightarrow> gbm_bo_get_user_data (api P) x (gbm_bo_set_user_data (api P) bo d e)
       = (if x = bo then d else gbm_bo_get_user_data (api P) x e)"
  using assms by (simp_all add: gbm_laws_def)

lemma subset_up4: "A \<subseteq> {Suc 0..n} \<Longrightarrow> A \<subseteq> {Suc 0..Suc (Suc (Suc (Suc n)))}"
  by force

lemma grows_init:
  assumes g: "grows P live w w'" and law: "gbm_laws (api P) live"
    and bo: "bo \<in> live (ext w')" "bo \<notin> live (ext w)"
    and sc: "s = Suc (Suc (brk w')) \<or> s = NULL" "c = Suc (Suc (Suc (brk w'))) \<or> c = NULL"
  shows "grows P live w (w'\<lparr>brk := Suc (Suc (Suc (Suc (brk w')))),
    bo_data := (bo_data w')(Suc (brk w') \<mapsto> fresh_bo_data s c b),
    smpte_heap := put s zero_smpte2086 (smpte_heap w'), cta_heap := put c zero_cta861_3 (cta_heap w'),
    blob_heap := bh,
    ext := gbm_bo_set_user_data (api P) bo (Suc (brk w')) (ext w')\<rparr>)" (is "grows P live w ?w")
proof -
  let ?e = "gbm_bo_set_user_data (api P) bo (Suc (brk w')) (ext w')"
  note ext = gbm_set_user_data [OF law bo(1)]
  have sub: "{1..brk w'} \<subseteq> {1..brk ?w}" by auto
  have h: "heaps_ok w'" and n: "dom (nodes w') \<subseteq> {1..brk w'}" using g by (simp_all add: grows_def)
  have "heaps_ok ?w" using h sc unfolding heaps_ok_def
    by (auto simp: subset_up4 metas_ok_upd metas_ok_mono [of "brk w'"] fresh_bo_data_def put_def)
  moreover have "dom (nodes ?w) \<subseteq> {1..brk ?w}" using n by (simp add: subset_up4)
  moreover have "bo_data ?w d = bo_data w d" if "d \<in> dom (bo_data w)" for d
  proof -
    have "bo_data w' d = bo_data w d" using g that by (simp add: grows_def)
    moreover have "Suc (brk w') \<notin> dom (bo_data w')" using h unfolding heaps_ok_def by auto
    with calculation that have "d \<noteq> Suc (brk w')" by (metis domIff)
    ultimately show ?thesis by simp
  qed
  moreover have "x \<in> live (ext ?w) \<and> gbm_bo_get_user_data (api P) x (ext ?w) = gbm_bo_get_user_data (api P) x (ext w)"
    if "x \<in> live (ext w)" for x
  proof -
    have "x \<in> live (ext w')" "x \<noteq> bo"
      "gbm_bo_get_user_data (api P) x (ext w') = gbm_bo_get_user_data (api P) x (ext w)"
      using g that bo(2) by (auto simp: grows_def)
    then show ?thesis using ext by simp
  qed
  moreover have "dom (smpte_heap w) \<subseteq> dom (smpte_heap ?w)" "dom (cta_heap w) \<subseteq> dom (cta_heap ?w)"
    using growsD(7,8) [OF g] put_dom(2) [of "smpte_heap w'" s] put_dom(2) [of "cta_heap w'" c] by (simp_all add: subset_trans)
  moreover have "nodes ?w a = nodes w a" if "a \<in> dom (nodes w)" for a
    using g that by (simp add: grows_def)
  moreover have "later w ?w" using growsD(13) [OF g] by (simp add: later_def)
  moreover have
    "android_buffer_table ?w = android_buffer_table w" "tbl ?w = tbl w" "g_driver ?w = g_driver w"
    using g by (simp_all add: grows_def)
  ultimately show ?thesis unfolding grows_def by (intro conjI ballI) simp_all
qed

lemma fresh_apart:
  assumes ok: "world_ok P live w xs" and g: "grows P live w w'" and x: "x \<in> set xs"
    and d: "data_of P w' a = d" "brk w < d" "smpte_of w' d = NULL \<or> brk w < smpte_of w' d"
      "cta_of w' d = NULL \<or> brk w < cta_of w' d"
  shows "apart P w' a x \<and> apart P w' x a"
proof -
  note f = grows_facts [OF ok g x]
  have own: "owner_ok P live w x" and h: "heaps_ok w" using world_okD [OF ok] x by auto
  have "data_of P w x \<le> brk w" using f(2) h by (auto simp: heaps_ok_def)
  moreover have "smpte_of w (data_of P w x) \<le> brk w" "cta_of w (data_of P w x) \<le> brk w"
    using own h by (auto simp: owner_ok_def heaps_ok_def)
  ultimately show ?thesis using d by (auto simp: apart_def f)
qed

section \<open>A new buffer enters the table\<close>

text \<open>\<open>fresh_owner P live w w' bo d\<close>: in \<open>w'\<close> the new object \<open>bo\<close> owns the user data \<open>d\<close>, built
  from addresses that \<open>w\<close> did not use, and is unlocked.\<close>

definition fresh_owner :: "'e platform \<Rightarrow> ('e \<Rightarrow> addr set) \<Rightarrow> 'e world \<Rightarrow> 'e world \<Rightarrow> addr \<Rightarrow> addr \<Rightarrow> bool" where
  "fresh_owner P live w w' bo d \<longleftrightarrow> grows P live w w' \<and> bo \<in> live (ext w')
     \<and> gbm_bo_get_user_data (api P) bo (ext w') = d \<and> brk w < d
     \<and> (\<exists>bd. bo_data w' d = Some bd \<and> lock_ok P bd \<and> abs_lock P bd = Unlocked)
     \<and> (smpte_of w' d = NULL \<or> brk w < smpte_of w' d \<and> smpte_of w' d \<in> dom (smpte_heap w'))
     \<and> (cta_of w' d = NULL \<or> brk w < cta_of w' d \<and> cta_of w' d \<in> dom (cta_heap w'))"

lemma init_fresh_owner:
  assumes law: "gbm_laws (api P) live" and g: "grows P live w w'"
    and new: "new_object (api P) live e bo (ext w')" "bo \<noteq> NULL" "live (ext w) \<subseteq> live e"
  obtains (failed) "gralloc_gbm_bo_user_data_init P bo w' = Inl NullDeref" "starved (mem_oom P) w"
  | (fresh) w'' where "gralloc_gbm_bo_user_data_init P bo w' = Inr (Suc (brk w'), w'')"
    "fresh_owner P live w w'' bo (Suc (brk w'))" "handles w'' = handles w'"
proof -
  have n: "bo \<in> live (ext w')" "bo \<notin> live (ext w)" "gbm_bo_get_user_data (api P) bo (ext w') = NULL"
    using new by (auto simp: new_object_def)
  have le: "brk w \<le> brk w'" using g by (rule growsD)
  from new(2) n(3) show ?thesis
  proof (cases rule: init_fresh)
    case failed': failed
    then show ?thesis using failed starved_later [OF failed'(2) le] by simp
  next
    case i: (fresh s c b h)
    let ?w = "w'\<lparr>brk := Suc (Suc (Suc (Suc (brk w')))),
      bo_data := (bo_data w')(Suc (brk w') \<mapsto> fresh_bo_data s c b),
      smpte_heap := put s zero_smpte2086 (smpte_heap w'), cta_heap := put c zero_cta861_3 (cta_heap w'),
      blob_heap := h, ext := gbm_bo_set_user_data (api P) bo (Suc (brk w')) (ext w')\<rparr>"
    have "smpte_of ?w (Suc (brk w')) = s" "cta_of ?w (Suc (brk w')) = c"
      by (simp_all add: smpte_of_def cta_of_def fld_def fresh_bo_data_def)
    then have "fresh_owner P live w ?w bo (Suc (brk w'))"
      using grows_init [OF g law n(1,2) i(1,2)] gbm_set_user_data [OF law n(1)] n(1) le i(1,2)
      by (auto simp: fresh_owner_def fresh_lock_ok put_def)
    then show ?thesis using fresh i(3) by simp
  qed
qed

lemma fresh_owner_grows:
  assumes f: "fresh_owner P live w w' bo d"
    and g: "grows P live w w''" and same: "bo_data w'' = bo_data w'" "smpte_heap w'' = smpte_heap w'"
      "cta_heap w'' = cta_heap w'" "same_objects (api P) live (ext w') (ext w'')"
  shows "fresh_owner P live w w'' bo d"
proof -
  have "smpte_of w'' d = smpte_of w' d" "cta_of w'' d = cta_of w' d"
    using same by (simp_all add: smpte_of_def cta_of_def)
  then show ?thesis using f g same by (simp add: fresh_owner_def same_objects_def)
qed

lemma attach_ok:
  assumes huge: "no_huge_malloc (mem_oom P)" and ok: "world_ok P live w xs"
    and f: "fresh_owner P live w w' bo d"
    and w6: "w6 = w'\<lparr>brk := Suc (brk w'), nodes := (nodes w')(Suc (brk w') \<mapsto> fresh_node fd bo)\<rparr>"
  shows "add_buffer (mem_oom P) (Suc (brk w')) w6 = Inl OutOfMemory \<and> oom_after (mem_oom P) w \<or>
    (\<exists>w7. add_buffer (mem_oom P) (Suc (brk w')) w6 = Inr (0, w7) \<and> hash_frame w6 w7
       \<and> world_ok P live w7 (xs @ [Suc (brk w')])
       \<and> abs_world P w7 (xs @ [Suc (brk w')]) = abs_world P w xs @ [(fd, Unlocked)])"
proof -
  let ?a = "Suc (brk w')"
  have g: "grows P live w w'" using f by (simp add: fresh_owner_def)
  have n: "dom (nodes w) \<subseteq> {1..brk w}" using hash_inv_members(4) [OF world_okD(1) [OF ok]] .
  have le: "brk w \<le> brk w'" using growsD(1) [OF g] .
  have g6: "grows P live w w6"
    using grows_node [OF grows_brk [OF g], of ?a "fresh_node fd bo"] n le by (simp add: w6)
  have f6: "fresh_owner P live w w6 bo d"
    by (rule fresh_owner_grows [OF f g6]) (simp_all add: w6)
  have a: "nodes w6 ?a = Some (fresh_node fd bo)" by (simp add: w6)
  have bo: "fld buf_bo (nodes w6) ?a = bo" by (simp add: w6 fld_def fresh_node_def)
  have d: "data_of P w6 ?a = d" using f6 by (simp add: data_of_def bo fresh_owner_def)
  have "?a \<notin> set xs"
  proof
    assume "?a \<in> set xs"
    then have "?a \<in> dom (nodes w)" using hash_inv_members(2) [OF world_okD(1) [OF ok]] by auto
    then show False using n le by auto
  qed
  moreover have "owner_ok P live w6 ?a"
    using f6 by (auto simp: owner_ok_def d bo fresh_owner_def)
  moreover have "apart P w6 ?a x \<and> apart P w6 x ?a" if "x \<in> set xs" for x
    using fresh_apart [OF ok g6 that d] f6 by (auto simp: fresh_owner_def)
  ultimately have "add_buffer (mem_oom P) ?a w6 = Inl OutOfMemory \<and> oom_after (mem_oom P) w6 \<or>
    (\<exists>w7. add_buffer (mem_oom P) ?a w6 = Inr (0, w7) \<and> hash_frame w6 w7 \<and> world_ok P live w7 (xs @ [?a]))"
    by (intro world_ok_add [OF huge world_ok_grows [OF ok g6] a]) auto
  moreover have "oom_after (mem_oom P) w" if "oom_after (mem_oom P) w6"
    using oom_after_later [OF that growsD(1) [OF g6]] growsD(5) [OF g6] by (simp add: table_full_def)
  moreover have "abs_world P w7 (xs @ [?a]) = abs_world P w xs @ [(fd, Unlocked)]" if "hash_frame w6 w7" for w7
  proof -
    have "lock_of P w6 ?a = Unlocked" using f6 by (auto simp: fresh_owner_def lock_of_def d)
    moreover have "fld buf_fd (nodes w6) ?a = fd" by (simp add: w6 fld_def fresh_node_def)
    ultimately have "abs_world P w6 [?a] = [(fd, Unlocked)]" by (simp add: abs_world_def)
    then show ?thesis using abs_frame(1) [OF that, of P "xs @ [?a]"] abs_grows [OF ok g6] by simp
  qed
  ultimately show ?thesis by blast
qed

end
