(* ===== verification/Gbm_Buffers.thy ===== *)
theory Gbm_Buffers
  imports Gbm_Lifecycle
begin

text \<open>
  What allocation, import, release and the queries do to a world that obeys the invariant.
\<close>

unbundle bit_operations_syntax

section \<open>Allocation\<close>

lemma ready_driver:
  assumes "ready_in P w"
  obtains d where "deref_driver P w = Inr d"
  using assms by (cases "g_driver w") (auto simp: is_gralloc_gbm_ready_def deref_driver_def and_then_eq_Inr)

lemma deref_driver_cong: "g_driver w' = g_driver w \<Longrightarrow> deref_driver P w' = deref_driver P w"
  by (simp add: deref_driver_def)

definition handle_for :: "i32 \<Rightarrow> i32 \<Rightarrow> i32 \<Rightarrow> i32 \<Rightarrow> gralloc_handle_t \<Rightarrow> bool" where
  "handle_for width height format usage g \<longleftrightarrow> magic g = GRALLOC_HANDLE_MAGIC \<and> version g = GRALLOC_HANDLE_VERSION
     \<and> gh_width g = width \<and> gh_height g = height \<and> gh_format g = format \<and> gh_usage g = usage"

lemma handle_create_ok:
  assumes ok: "world_ok P live w xs" and law: "gbm_laws (api P) live"
    and run: "gralloc_handle_create P width height format usage w = (handle, w1)"
  shows "grows P live w w1" "same_objects (api P) live (ext w) (ext w1)"
    "handle \<noteq> NULL \<Longrightarrow> \<exists>g. handles w1 = (handles w)(handle \<mapsto> g) \<and> handle_for width height format usage g"
    "handle \<noteq> NULL \<Longrightarrow> brk w < handle"
proof -
  have dom: "dom (handles w) \<subseteq> {1..brk w}" using world_okD(2) [OF ok] by (simp add: heaps_ok_def)
  obtain o' e where n: "native_handle_create (api P) (ext w) = (o', e)" by force
  have "same_objects (api P) live (ext w) (snd (native_handle_create (api P) (ext w)))"
    using law by (simp add: gbm_laws_def)
  then have same: "same_objects (api P) live (ext w) e" using n by simp
  note g = grows_ext [OF grows_refl [OF ok] same]
  have "grows P live w w1 \<and> same_objects (api P) live (ext w) (ext w1)
      \<and> (handle \<noteq> NULL \<longrightarrow> (\<exists>g. handles w1 = (handles w)(handle \<mapsto> g) \<and> handle_for width height format usage g) \<and> brk w < handle)"
  proof (cases o')
    case None
    then show ?thesis
      using run n g same by (auto simp: gralloc_handle_create_def)
  next
    case (Some g0)
    let ?g = "g0\<lparr>magic := GRALLOC_HANDLE_MAGIC, version := GRALLOC_HANDLE_VERSION, gh_width := width,
                gh_height := height, gh_format := format, gh_usage := usage, prime_fd := - 1\<rparr>"
    have e: "w1 = w\<lparr>brk := Suc (brk w), ext := e, handles := (handles w)(Suc (brk w) \<mapsto> ?g)\<rparr>"
      and h: "handle = Suc (brk w)"
      using run n Some by (auto simp: gralloc_handle_create_def Let_def)
    have "w1 = (w\<lparr>ext := e\<rparr>)\<lparr>brk := Suc (brk (w\<lparr>ext := e\<rparr>)),
        handles := (handles (w\<lparr>ext := e\<rparr>))(Suc (brk (w\<lparr>ext := e\<rparr>)) \<mapsto> ?g)\<rparr>"
      unfolding e by (cases w) simp
    then have "grows P live w w1" using grows_new_handle [OF g dom, of ?g] by simp
    moreover have "handle_for width height format usage ?g" by (simp add: handle_for_def)
    ultimately show ?thesis using same by (auto simp: e h)
  qed
  then show "grows P live w w1" "same_objects (api P) live (ext w) (ext w1)"
    "handle \<noteq> NULL \<Longrightarrow> \<exists>g. handles w1 = (handles w)(handle \<mapsto> g) \<and> handle_for width height format usage g"
    "handle \<noteq> NULL \<Longrightarrow> brk w < handle"
    by blast+
qed

text \<open>What a successful allocation delivers.\<close>

definition new_buffer ::
  "'e platform \<Rightarrow> ('e \<Rightarrow> addr set) \<Rightarrow> 'e world \<Rightarrow> addr list \<Rightarrow> i32 \<Rightarrow> i32 \<Rightarrow> allocator_desc_t \<Rightarrow> addr \<Rightarrow> u32 \<Rightarrow> 'e world \<Rightarrow> bool" where
  "new_buffer P live w xs width height ds h stride w' \<longleftrightarrow>
     (\<exists>a g. a \<notin> set xs \<and> world_ok P live w' (xs @ [a]) \<and> g_driver w' = g_driver w
       \<and> later w w' \<and> brk w < h \<and> handles w' = (handles w)(h \<mapsto> g) \<and> handle_for width height (ad_format ds) (ucast (ad_usage ds)) g \<and> gh_stride g = stride
       \<and> abs_world P w' (xs @ [a]) = abs_world P w xs @ [(prime_fd g, Unlocked)])"

text \<open>A call that leaves the buffers as they were.\<close>

definition no_change :: "'e platform \<Rightarrow> ('e \<Rightarrow> addr set) \<Rightarrow> 'e world \<Rightarrow> addr list \<Rightarrow> 'e world \<Rightarrow> bool" where
  "no_change P live w xs w' \<longleftrightarrow> world_ok P live w' xs \<and> abs_world P w' xs = abs_world P w xs \<and> g_driver w' = g_driver w
     \<and> later w w'"

lemma no_change_grows: "world_ok P live w xs \<Longrightarrow> grows P live w w' \<Longrightarrow> no_change P live w xs w'"
  by (simp add: no_change_def world_ok_grows abs_grows growsD(10,13))

lemma no_change_refl: "world_ok P live w xs \<Longrightarrow> no_change P live w xs w"
  by (simp add: no_change_def)

text \<open>The error numbers of an allocation and an import that fail.\<close>

definition refusal :: "oom \<Rightarrow> 'a hash_state_scheme \<Rightarrow> i32 \<Rightarrow> bool" where
  "refusal oom w e \<longleftrightarrow> e = - EINVAL \<or> e = - ENOMEM \<and> starved oom w"

lemma refusal_not_0: "refusal oom w e \<Longrightarrow> e \<noteq> 0"
  by (auto simp: refusal_def errno_defs)

lemma refusal_EINVAL [simp]: "refusal oom w (- EINVAL)"
  by (simp add: refusal_def)

text \<open>The end of an allocation: the handle is filled in and the buffer enters the table.\<close>

lemma new_attach:
  assumes huge: "no_huge_malloc (mem_oom P)" and law: "gbm_laws (api P) live" and ok: "world_ok P live w xs"
    and f: "fresh_owner P live w w3 bo d" and g: "handles w3 = (handles w)(handle \<mapsto> g)" "brk w < handle"
    and fd: "gbm_bo_get_fd (api P) bo (ext w3) = (fd, e4)"
    and g': "handle_for width height (ad_format ds) (ucast (ad_usage ds)) g'" "prime_fd g' = fd"
    and w4: "w4 = w3\<lparr>ext := e4, handles := (handles w3)(handle \<mapsto> g')\<rparr>"
    and w6: "w6 = w4\<lparr>brk := Suc (brk w4), nodes := (nodes w4)(Suc (brk w4) \<mapsto> fresh_node fd bo)\<rparr>"
  shows "no_change P live w xs (w4\<lparr>brk := Suc (brk w4)\<rparr>)"
    "add_buffer (mem_oom P) (Suc (brk w4)) w6 = Inl OutOfMemory \<and> oom_after (mem_oom P) w
      \<or> (\<exists>w7. add_buffer (mem_oom P) (Suc (brk w4)) w6 = Inr (0, w7)
          \<and> new_buffer P live w xs width height ds handle (gh_stride g') (w7\<lparr>ext := snd (gbm_bo_get_fd (api P) bo (ext w7))\<rparr>))"
proof -
  have get_fd: "same_objects (api P) live e (snd (gbm_bo_get_fd (api P) bo e))" for e
    using law by (simp add: gbm_laws_def)
  have s4: "same_objects (api P) live (ext w3) e4" using get_fd [of "ext w3"] fd by simp
  have new: "handle \<notin> dom (handles w)" using g(2) world_okD(2) [OF ok] by (auto simp: heaps_ok_def)
  have g3: "grows P live w w3" using f by (simp add: fresh_owner_def)
  have g4: "grows P live w w4"
    using grows_handle [OF grows_ext [OF g3 s4], of handle g'] g(1) new by (simp add: w4 domI)
  show "no_change P live w xs (w4\<lparr>brk := Suc (brk w4)\<rparr>)" by (rule no_change_grows [OF ok grows_brk [OF g4]])
  have f4: "fresh_owner P live w w4 bo d" by (rule fresh_owner_grows [OF f g4]) (simp_all add: w4 s4)
  let ?a = "Suc (brk w4)"
  show "add_buffer (mem_oom P) ?a w6 = Inl OutOfMemory \<and> oom_after (mem_oom P) w
      \<or> (\<exists>w7. add_buffer (mem_oom P) ?a w6 = Inr (0, w7)
          \<and> new_buffer P live w xs width height ds handle (gh_stride g') (w7\<lparr>ext := snd (gbm_bo_get_fd (api P) bo (ext w7))\<rparr>))"
    using attach_ok [OF huge ok f4 w6]
  proof (elim disjE exE conjE)
    fix w7 assume w7: "add_buffer (mem_oom P) ?a w6 = Inr (0, w7)" "hash_frame w6 w7" "world_ok P live w7 (xs @ [?a])"
      "abs_world P w7 (xs @ [?a]) = abs_world P w xs @ [(fd, Unlocked)]"
    let ?w8 = "w7\<lparr>ext := snd (gbm_bo_get_fd (api P) bo (ext w7))\<rparr>"
    note fr = hash_frame_world [OF w7(2)]
    have g8: "grows P live w7 ?w8" by (rule grows_ext [OF grows_refl [OF w7(3)] get_fd])
    have "world_ok P live ?w8 (xs @ [?a])" by (rule world_ok_grows [OF w7(3) g8])
    moreover have "?a \<notin> set xs" using hash_inv_members(1) [OF world_okD(1) [OF w7(3)]] by simp
    moreover have "abs_world P ?w8 (xs @ [?a]) = abs_world P w xs @ [(prime_fd g', Unlocked)]"
      using abs_grows [OF w7(3) g8] w7(4) by (simp add: g'(2))
    moreover have "later w ?w8"
      using growsD(13) [OF g4] fr(4,7) by (simp add: later_def w6)
    moreover have "handles ?w8 = (handles w)(handle \<mapsto> g')" "g_driver ?w8 = g_driver w"
      using growsD(10) [OF g3] g(1) by (simp_all add: fr w6 w4)
    ultimately have "new_buffer P live w xs width height ds handle (gh_stride g') ?w8"
      using g(2) g'(1) unfolding new_buffer_def by blast
    then show ?thesis using w7(1) by blast
  qed simp
qed

lemma new_ok:
  assumes huge: "no_huge_malloc (mem_oom P)" and law: "gbm_laws (api P) live"
    and ok: "world_ok P live w xs" and rdy: "ready_in P w"
    and fmt: "fmt = color_fmt_a2g (hal P) (ad_format ds)"
    and flags: "flags = gralloc_gbm_calculate_gbm_flags P (ucast (ad_usage ds)) fmt"
    and size: "new_buffer_size P ds flags = Inr (width, height)"
  shows "exhausted (mem_oom P) w (gralloc_gbm_android_buffer_new P ds w)
    \<or> (\<exists>e w'. gralloc_gbm_android_buffer_new P ds w = Inr (e, None, w') \<and> refusal (mem_oom P) w e \<and> no_change P live w xs w')
    \<or> (\<exists>h stride w'. gralloc_gbm_android_buffer_new P ds w = Inr (0, Some (h, stride), w')
         \<and> new_buffer P live w xs width height ds h stride w')"
proof (cases "fmt \<le> 0")
  case True
  then show ?thesis using rdy no_change_refl [OF ok] fmt by (simp add: gralloc_gbm_android_buffer_new_def Let_def)
next
  case fmt0: False
  obtain d where d: "deref_driver P w = Inr d"
    using ready_driver [OF rdy] by metis
  obtain handle w1 where hc: "gralloc_handle_create P width height (ad_format ds) (ucast (ad_usage ds)) w = (handle, w1)"
    by force
  note h = handle_create_ok [OF ok law hc]
  have d1: "deref_driver P w1 = Inr d" using d growsD(10) [OF h(1)] by (simp add: deref_driver_cong [of w1 w])
  have ret: "?thesis" if "gralloc_gbm_android_buffer_new P ds w = Inr (e, None, w')" "grows P live w w'"
    "refusal (mem_oom P) w e" for e w'
    using that no_change_grows [OF ok] by blast
  show ?thesis
  proof (cases "handle = NULL")
    case True
    then show ?thesis using rdy fmt flags fmt0 size hc h(1)
      by (intro ret [of "- EINVAL" w1]) (simp_all add: gralloc_gbm_android_buffer_new_def Let_def)
  next
    case h0: False
    obtain bo e2 where c: "gbm_bo_create (api P) (gbm_dev d) width height fmt flags (ext w1) = (bo, e2)" by force
    have no: "new_object (api P) live (ext w1) bo e2" using law c by (simp add: gbm_laws_def)
    let ?w2 = "w1\<lparr>ext := e2\<rparr>"
    have g2: "grows P live w ?w2" by (rule grows_object [OF h(1) no])
    show ?thesis
    proof (cases "bo = NULL")
      case True
      then show ?thesis using rdy fmt flags fmt0 size hc h0 d1 c g2
        by (intro ret [of "- EINVAL" ?w2]) (simp_all add: gralloc_gbm_android_buffer_new_def Let_def)
    next
      case b0: False
      have sub: "live (ext w) \<subseteq> live (ext w1)" using h(2) by (simp add: same_objects_def)
      from no have no2: "new_object (api P) live (ext w1) bo (ext ?w2)" by simp
      show ?thesis
      proof (rule init_fresh_owner [OF law g2 no2 b0 sub])
        assume "gralloc_gbm_bo_user_data_init P bo ?w2 = Inl NullDeref" "starved (mem_oom P) w"
        then show ?thesis using rdy fmt flags fmt0 size hc h0 d1 c b0
          by (simp add: exhausted_def gralloc_gbm_android_buffer_new_def Let_def)
      next
        fix w3 assume w3: "gralloc_gbm_bo_user_data_init P bo ?w2 = Inr (Suc (brk ?w2), w3)"
          "fresh_owner P live w w3 bo (Suc (brk ?w2))" "handles w3 = handles ?w2"
        obtain g where g: "handles w3 = (handles w)(handle \<mapsto> g)" "handle_for width height (ad_format ds) (ucast (ad_usage ds)) g"
          using h(3) [OF h0] w3(3) by auto
        obtain fd e4 where fd: "gbm_bo_get_fd (api P) bo (ext w3) = (fd, e4)" by force
        define g' where "g' = g\<lparr>gh_stride := gbm_bo_get_stride (api P) bo (ext w3), prime_fd := fd,
                    gh_modifier := gbm_bo_get_modifier (api P) bo e4\<rparr>"
        define w4 where "w4 = w3\<lparr>ext := e4, handles := (handles w3)(handle \<mapsto> g')\<rparr>"
        let ?a = "Suc (brk w4)"
        define w6 where "w6 = w4\<lparr>brk := ?a, nodes := (nodes w4)(?a \<mapsto> fresh_node fd bo)\<rparr>"
        have g': "handle_for width height (ad_format ds) (ucast (ad_usage ds)) g'" "prime_fd g' = fd"
          using g(2) by (simp_all add: g'_def handle_for_def)
        note att = new_attach [OF huge law ok w3(2) g(1) h(4) [OF h0] fd g' w4_def w6_def]
        obtain buffer w5 where m: "malloc (mem_oom P) sizeof_android_buffer w4 = (buffer, w5)" by force
        have le: "brk w \<le> brk w4" using w3(2) growsD(1) [of P live w w3] by (simp add: w4_def fresh_owner_def)
        note m5 = malloc_cases [OF m _ le]
        have run: "gralloc_gbm_android_buffer_new P ds w = (if buffer = NULL then Inr (- ENOMEM, None, w5)
          else and_then (add_buffer (mem_oom P) ?a w6) (\<lambda>(_, w7).
          Inr (0, Some (handle, gh_stride g'), w7\<lparr>ext := snd (gbm_bo_get_fd (api P) bo (ext w7))\<rparr>)))"
          using rdy fmt flags fmt0 size hc h0 d1 c b0 w3(1) g(1) fd m m5
          by (auto simp: gralloc_gbm_android_buffer_new_def Let_def sizeof_android_buffer_def w6_def w4_def g'_def)
        show ?thesis
        proof (cases "buffer = NULL")
          case True
          then show ?thesis using run m5 att(1) by (auto simp: refusal_def sizeof_android_buffer_def)
        next
          case False
          then show ?thesis using run att(2) by (auto simp: exhausted_def)
        qed
      qed
    qed
  qed
qed

section \<open>Import\<close>

definition imported :: "'e platform \<Rightarrow> ('e \<Rightarrow> addr set) \<Rightarrow> 'e world \<Rightarrow> addr list \<Rightarrow> gralloc_handle_t \<Rightarrow> 'e world \<Rightarrow> bool" where
  "imported P live w xs g w' \<longleftrightarrow> (\<exists>a. a \<notin> set xs \<and> world_ok P live w' (xs @ [a]) \<and> g_driver w' = g_driver w
     \<and> later w w' \<and> handles w' = handles w \<and> abs_world P w' (xs @ [a]) = abs_world P w xs @ [(prime_fd g, Unlocked)])"

text \<open>The end of an import.\<close>

lemma import_attach:
  assumes huge: "no_huge_malloc (mem_oom P)" and ok: "world_ok P live w xs"
    and f: "fresh_owner P live w w3 bo d" and h: "handles w3 = handles w"
    and w5: "w5 = w3\<lparr>brk := Suc (brk w3), nodes := (nodes w3)(Suc (brk w3) \<mapsto> fresh_node (prime_fd g) bo)\<rparr>"
  shows "add_buffer (mem_oom P) (Suc (brk w3)) w5 = Inl OutOfMemory \<and> oom_after (mem_oom P) w
      \<or> (\<exists>w7. add_buffer (mem_oom P) (Suc (brk w3)) w5 = Inr (0, w7) \<and> imported P live w xs g w7)"
  using attach_ok [OF huge ok f w5]
proof (elim disjE exE conjE)
  let ?a = "Suc (brk w3)"
  fix w7 assume w7: "add_buffer (mem_oom P) ?a w5 = Inr (0, w7)" "hash_frame w5 w7" "world_ok P live w7 (xs @ [?a])"
    "abs_world P w7 (xs @ [?a]) = abs_world P w xs @ [(prime_fd g, Unlocked)]"
  have "g_driver w7 = g_driver w"
    using hash_frame_world(6) [OF w7(2)] f growsD(10) [of P live w w3] by (simp add: w5 fresh_owner_def)
  moreover have "?a \<notin> set xs" using hash_inv_members(1) [OF world_okD(1) [OF w7(3)]] by simp
  moreover have "later w w7" "handles w7 = handles w"
    using hash_frame_world(4,7) [OF w7(2)] f h growsD(1) [of P live w w3]
    by (simp_all add: later_def fresh_owner_def w5)
  ultimately have "imported P live w xs g w7" using w7 unfolding imported_def by blast
  then show ?thesis using w7(1) by blast
qed simp

lemma import_ok:
  assumes huge: "no_huge_malloc (mem_oom P)" and law: "gbm_laws (api P) live"
    and ok: "world_ok P live w xs" and rdy: "ready_in P w" and g: "handles w h = Some g" "h \<noteq> NULL"
  shows "exhausted (mem_oom P) w (gralloc_gbm_android_buffer_import P h w)
    \<or> (\<exists>e w'. gralloc_gbm_android_buffer_import P h w = Inr (e, w') \<and> refusal (mem_oom P) w e
         \<and> no_change P live w xs w' \<and> handles w' = handles w)
    \<or> (\<exists>w'. gralloc_gbm_android_buffer_import P h w = (if stale_import P then Inr (0, w') else Inl UseAfterFree)
         \<and> imported P live w xs g w')"
proof -
  obtain d where d: "deref_driver P w = Inr d"
    using ready_driver [OF rdy] by metis
  let ?w1 = "w\<lparr>brk := Suc (brk w)\<rparr>"
  let ?fmt = "color_fmt_a2g (hal P) (gh_format g)"
  have g1: "grows P live w ?w1" by (rule grows_brk [OF grows_refl [OF ok]])
  have d1: "deref_driver P ?w1 = Inr d" using d by (simp add: deref_driver_def)
  obtain fd_data where m1: "malloc (mem_oom P) sizeof_import_data w = (fd_data, ?w1)" and
    fd_data: "fd_data \<noteq> NULL \<or> starved (mem_oom P) w"
    using malloc_cases [of "mem_oom P" sizeof_import_data w _ _ w] by (cases "malloc (mem_oom P) sizeof_import_data w") (force simp: sizeof_import_data_def)
  show ?thesis
  proof (cases "fd_data = NULL \<or> ?fmt \<le> 0")
    case True
    then have "\<exists>e. gralloc_gbm_android_buffer_import P h w = Inr (e, ?w1) \<and> refusal (mem_oom P) w e"
      using rdy m1 g fd_data by (auto simp: gralloc_gbm_android_buffer_import_def Let_def refusal_def)
    then show ?thesis using no_change_grows [OF ok g1] by fastforce
  next
    case f0: False
    define flags where "flags = gralloc_gbm_calculate_gbm_flags P (gh_usage g) ?fmt"
    obtain width height where sz: "import_size P g flags = (width, height)" by force
    define im where "im = \<lparr>im_width = width, im_height = height, im_format = ?fmt, num_fds = 1,
                 fds0 = prime_fd g, strides0 = gh_stride g, im_modifier = gh_modifier g\<rparr>"
    obtain bo e2 where c: "gbm_bo_import (api P) (gbm_dev d) im flags (ext w) = (bo, e2)" by force
    have no: "new_object (api P) live (ext w) bo e2" using law c by (simp add: gbm_laws_def)
    let ?w2 = "?w1\<lparr>ext := e2\<rparr>"
    have g2: "grows P live w ?w2" using grows_object [OF g1, of bo e2] no by simp
    have run0: "gralloc_gbm_android_buffer_import P h w = (if bo = NULL then Inr (- EINVAL, ?w2)
      else and_then (gralloc_gbm_bo_user_data_init P bo ?w2) (\<lambda>(_, w3).
      case malloc (mem_oom P) sizeof_android_buffer w3 of (buffer, w4) \<Rightarrow>
      if buffer = NULL then Inl NullDeref
      else let w5 = w4\<lparr>nodes := (nodes w4)(buffer \<mapsto> fresh_node (prime_fd g) bo)\<rparr> in
        and_then (add_buffer (mem_oom P) buffer w5) (\<lambda>(_, w6). if stale_import P then Inr (0, w6) else Inl UseAfterFree)))"
      using rdy m1 g f0 d1 c sz
      by (simp add: gralloc_gbm_android_buffer_import_def Let_def flags_def [symmetric] im_def [symmetric])
    show ?thesis
    proof (cases "bo = NULL")
      case True
      then show ?thesis using run0 no_change_grows [OF ok g2] by auto
    next
      case b0: False
      from no have no2: "new_object (api P) live (ext w) bo (ext ?w2)" by simp
      show ?thesis
      proof (rule init_fresh_owner [OF law g2 no2 b0 order_refl])
        assume "gralloc_gbm_bo_user_data_init P bo ?w2 = Inl NullDeref" "starved (mem_oom P) w"
        then show ?thesis using run0 b0 by (simp add: exhausted_def)
      next
        fix w3 assume w3: "gralloc_gbm_bo_user_data_init P bo ?w2 = Inr (Suc (brk ?w2), w3)"
          "fresh_owner P live w w3 bo (Suc (brk ?w2))" "handles w3 = handles ?w2"
        obtain buffer w4 where m: "malloc (mem_oom P) sizeof_android_buffer w3 = (buffer, w4)" by force
        have "brk w \<le> brk w3" using w3(2) growsD(1) [of P live w w3] by (simp add: fresh_owner_def)
        note m4 = malloc_cases [OF m _ this, unfolded sizeof_android_buffer_def, simplified]
        have h3: "handles w3 = handles w" using w3(3) by simp
        show ?thesis
        proof (cases "buffer = NULL")
          case True
          then show ?thesis using run0 b0 w3(1) m m4 by (auto simp: exhausted_def)
        next
          case False
          then show ?thesis
            using run0 b0 w3(1) m m4 import_attach [OF huge ok w3(2) h3 refl, of g] by (auto simp: exhausted_def Let_def)
        qed
      qed
    qed
  qed
qed

section \<open>Release\<close>

text \<open>The user data of a buffer is freed exactly once: its block and the two metadata blocks it owns.\<close>

lemma data_destroy_ok:
  assumes own: "owner_ok P live w a" and bd: "bo_data w (data_of P w a) = Some bd"
  shows "gralloc_gbm_bo_data_destroy (data_of P w a) w = Inr (w\<lparr>bo_data := (bo_data w)(data_of P w a := None),
      smpte_heap := (if smpte2086 (metadata bd) = NULL then smpte_heap w else (smpte_heap w)(smpte2086 (metadata bd) := None)),
      cta_heap := (if cta861_3 (metadata bd) = NULL then cta_heap w else (cta_heap w)(cta861_3 (metadata bd) := None))\<rparr>)"
proof -
  have s: "smpte2086 (metadata bd) \<in> insert NULL (dom (smpte_heap w))"
    and c: "cta861_3 (metadata bd) \<in> insert NULL (dom (cta_heap w))" and d: "data_of P w a \<noteq> NULL"
    using own bd by (simp_all add: owner_ok_def smpte_of_def cta_of_def fld_def)
  have "free_at (smpte2086 (metadata bd)) (smpte_heap w) = Inr (if smpte2086 (metadata bd) = NULL then smpte_heap w
      else (smpte_heap w)(smpte2086 (metadata bd) := None))" using s by auto
  moreover have "free_at (cta861_3 (metadata bd)) (cta_heap w) = Inr (if cta861_3 (metadata bd) = NULL then cta_heap w
      else (cta_heap w)(cta861_3 (metadata bd) := None))" using c by auto
  ultimately show ?thesis using bd d by (simp add: gralloc_gbm_bo_data_destroy_def)
qed

lemma remove1_nth: "distinct xs \<Longrightarrow> i < length xs \<Longrightarrow> remove1 (xs ! i) xs = take i xs @ drop (Suc i) xs"
proof (induction xs arbitrary: i)
  case (Cons x xs)
  then show ?case by (cases i) (auto simp: in_set_conv_nth)
qed simp

lemma abs_world_remove:
  assumes "distinct xs" "i < length xs"
  shows "abs_world P w (remove1 (xs ! i) xs) = take i (abs_world P w xs) @ drop (Suc i) (abs_world P w xs)"
  using assms by (simp add: remove1_nth abs_world_def take_map drop_map)

text \<open>What a release leaves: the buffer \<open>a\<close>, its object and its blocks are gone, the rest is as before.\<close>

definition released :: "'e platform \<Rightarrow> ('e \<Rightarrow> addr set) \<Rightarrow> 'e world \<Rightarrow> addr list \<Rightarrow> addr \<Rightarrow> 'e world \<Rightarrow> bool" where
  "released P live w xs a w' \<longleftrightarrow> world_ok P live w' (remove1 a xs) \<and> g_driver w' = g_driver w
     \<and> abs_world P w' (remove1 a xs) = abs_world P w (remove1 a xs)
     \<and> later w w' \<and> nodes w' a = None \<and> fld buf_bo (nodes w) a \<notin> live (ext w') \<and> handles w' = handles w
     \<and> blob_heap w' = blob_heap w
     \<and> dom (bo_data w') = dom (bo_data w) - {data_of P w a}
     \<and> dom (smpte_heap w') = dom (smpte_heap w) - {smpte_of w (data_of P w a)}
     \<and> dom (cta_heap w') = dom (cta_heap w) - {cta_of w (data_of P w a)}"

lemma gbm_destroy:
  assumes "gbm_laws A live" "bo \<in> live e" "gbm_bo_destroy A bo e = (cb, e')"
  shows "live e' = live e - {bo}"
    "cb = (if gbm_bo_get_user_data A bo e = NULL then None else Some (gbm_bo_get_user_data A bo e))"
    "\<And>b. b \<in> live e' \<Longrightarrow> gbm_bo_get_user_data A b e' = gbm_bo_get_user_data A b e"
  using assms unfolding gbm_laws_def by metis+

lemma free_run:
  assumes law: "gbm_laws (api P) live" and ok: "world_ok P live w xs" and rdy: "ready_in P w"
    and h: "handles w h = Some g" "h \<noteq> NULL" "find_buffer_k (prime_fd g) w = Inr a" "a \<noteq> NULL" and a: "a \<in> set xs"
  obtains bd e1 w1 h1 where
    "bo_data w (data_of P w a) = Some bd"
    "w1 = w\<lparr>bo_data := (bo_data w)(data_of P w a := None),
      smpte_heap := (if smpte2086 (metadata bd) = NULL then smpte_heap w else (smpte_heap w)(smpte2086 (metadata bd) := None)),
      cta_heap := (if cta861_3 (metadata bd) = NULL then cta_heap w else (cta_heap w)(cta861_3 (metadata bd) := None)),
      ext := e1\<rparr>"
    "live e1 = live (ext w) - {fld buf_bo (nodes w) a}"
    "\<And>b. b \<in> live e1 \<Longrightarrow> gbm_bo_get_user_data (api P) b e1 = gbm_bo_get_user_data (api P) b (ext w)"
    "hash_frame w1 h1" "hash_inv (h1\<lparr>nodes := (nodes h1)(a := None)\<rparr>) (remove1 a xs)"
    "gralloc_gbm_android_buffer_free P h w = Inr (0, h1\<lparr>nodes := (nodes h1)(a := None)\<rparr>)"
proof -
  note own = world_okD(3) [OF ok a]
  obtain b bd where b: "nodes w a = Some b" "buf_bo b \<in> live (ext w)" "buf_bo b \<noteq> NULL"
    "gbm_bo_get_user_data (api P) (buf_bo b) (ext w) = data_of P w a" "data_of P w a \<noteq> NULL"
    "bo_data w (data_of P w a) = Some bd" by (rule owner_bd [OF own law])
  obtain cb e1 where de: "gbm_bo_destroy (api P) (buf_bo b) (ext w) = (cb, e1)" by force
  note e1 = gbm_destroy [OF law b(2) de, unfolded b(4)]
  let ?w1 = "w\<lparr>bo_data := (bo_data w)(data_of P w a := None),
      smpte_heap := (if smpte2086 (metadata bd) = NULL then smpte_heap w else (smpte_heap w)(smpte2086 (metadata bd) := None)),
      cta_heap := (if cta861_3 (metadata bd) = NULL then cta_heap w else (cta_heap w)(cta861_3 (metadata bd) := None)),
      ext := e1\<rparr>"
  have "hash_inv ?w1 xs" using world_okD(1) [OF ok] by (subst hash_inv_cong [of ?w1 w]) simp_all
  from delete_buffer_ok [OF this a] obtain h1 where h1: "hash_frame ?w1 h1"
    "delete_buffer a ?w1 = Inr (0, h1\<lparr>nodes := (nodes h1)(a := None)\<rparr>)"
    "hash_inv (h1\<lparr>nodes := (nodes h1)(a := None)\<rparr>) (remove1 a xs)" by blast
  have "gralloc_gbm_android_buffer_free P h w = Inr (0, h1\<lparr>nodes := (nodes h1)(a := None)\<rparr>)"
    using rdy h b(1) de e1(2) b(5) data_destroy_ok [OF own b(6)] h1(2)
    by (simp add: gralloc_gbm_android_buffer_free_def)
  moreover have "fld buf_bo (nodes w) a = buf_bo b" using b(1) by simp
  ultimately show ?thesis using that [OF b(6) refl, of e1 h1] e1(1,3) h1(1,3) by simp
qed

lemma hash_frame_blob:
  assumes "hash_frame w (w' :: 'e world)"
  shows "blob_heap w' = blob_heap w"
proof -
  have "w' = w\<lparr>brk := brk w', nodes := nodes w', android_buffer_table := android_buffer_table w', tbl := tbl w'\<rparr>"
    using assms unfolding hash_frame_def by blast
  from arg_cong [OF this, of blob_heap] show ?thesis by simp
qed

lemma free_ok:
  assumes law: "gbm_laws (api P) live" and ok: "world_ok P live w xs" and rdy: "ready_in P w"
    and h: "handles w h = Some g" "h \<noteq> NULL" "find_buffer_k (prime_fd g) w = Inr a" "a \<noteq> NULL"
  shows "a \<in> set xs \<and> (\<exists>w'. gralloc_gbm_android_buffer_free P h w = Inr (0, w') \<and> released P live w xs a w')"
proof -
  have a: "a \<in> set xs" using managed_in [OF ok, of h a] h by (auto simp: managed_def)
  obtain bd e1 w1 h1 where r: "bo_data w (data_of P w a) = Some bd"
    "w1 = w\<lparr>bo_data := (bo_data w)(data_of P w a := None),
      smpte_heap := (if smpte2086 (metadata bd) = NULL then smpte_heap w else (smpte_heap w)(smpte2086 (metadata bd) := None)),
      cta_heap := (if cta861_3 (metadata bd) = NULL then cta_heap w else (cta_heap w)(cta861_3 (metadata bd) := None)),
      ext := e1\<rparr>"
    "live e1 = live (ext w) - {fld buf_bo (nodes w) a}"
    "\<And>b. b \<in> live e1 \<Longrightarrow> gbm_bo_get_user_data (api P) b e1 = gbm_bo_get_user_data (api P) b (ext w)"
    "hash_frame w1 h1" "hash_inv (h1\<lparr>nodes := (nodes h1)(a := None)\<rparr>) (remove1 a xs)"
    "gralloc_gbm_android_buffer_free P h w = Inr (0, h1\<lparr>nodes := (nodes h1)(a := None)\<rparr>)"
    by (rule free_run [OF law ok rdy h a]) blast
  let ?w' = "h1\<lparr>nodes := (nodes h1)(a := None)\<rparr>"
  note o = world_okD [OF ok] and fr = hash_frame_world [OF r(5)]
  have ds: "distinct xs" and sub: "set xs \<subseteq> dom (nodes w)" using hash_inv_members [OF o(1)] by blast+
  have set': "set (remove1 a xs) = set xs - {a}" using ds by simp
  have s: "smpte_of w (data_of P w a) = smpte2086 (metadata bd)" "cta_of w (data_of P w a) = cta861_3 (metadata bd)"
    using r(1) by (simp_all add: smpte_of_def cta_of_def fld_def)
  have heap: "bo_data ?w' = (bo_data w)(data_of P w a := None)" "ext ?w' = e1" "handles ?w' = handles w"
    "smpte_heap ?w' = (if smpte2086 (metadata bd) = NULL then smpte_heap w else (smpte_heap w)(smpte2086 (metadata bd) := None))"
    "cta_heap ?w' = (if cta861_3 (metadata bd) = NULL then cta_heap w else (cta_heap w)(cta861_3 (metadata bd) := None))"
    "g_driver ?w' = g_driver w" "brk w \<le> brk ?w'" "blob_heap ?w' = blob_heap w"
    using fr(1-7) hash_frame_blob [OF r(5)] by (simp_all add: r(2))
  have null: "NULL \<notin> dom (smpte_heap w)" "NULL \<notin> dom (cta_heap w)" using o(2) by (auto simp: heaps_ok_def)
  have other: "fld buf_bo (nodes ?w') x = fld buf_bo (nodes w) x" "fld buf_fd (nodes ?w') x = fld buf_fd (nodes w) x"
    "fld buf_bo (nodes w) x \<in> live e1" "data_of P ?w' x = data_of P w x" "data_of P w x \<noteq> data_of P w a"
    "smpte_of ?w' (data_of P w x) = smpte_of w (data_of P w x)" "cta_of ?w' (data_of P w x) = cta_of w (data_of P w x)"
    if x: "x \<in> set xs - {a}" for x
  proof -
    show 1: "fld buf_bo (nodes ?w') x = fld buf_bo (nodes w) x" "fld buf_fd (nodes ?w') x = fld buf_fd (nodes w) x"
      using fun_cong [OF fr(8), of x] fun_cong [OF fr(9), of x] x by (simp_all add: fld_def r(2))
    show 2: "data_of P w x \<noteq> data_of P w a" using o(4) [of x a] x a by (auto simp: apart_def)
    then have "fld buf_bo (nodes w) x \<noteq> fld buf_bo (nodes w) a" by (auto simp: data_of_def)
    then show 3: "fld buf_bo (nodes w) x \<in> live e1" using o(3) [of x] x r(3) by (simp add: owner_ok_def)
    show "data_of P ?w' x = data_of P w x" unfolding data_of_def 1(1) heap(2) by (rule r(4) [OF 3])
    show "smpte_of ?w' (data_of P w x) = smpte_of w (data_of P w x)" "cta_of ?w' (data_of P w x) = cta_of w (data_of P w x)"
      unfolding smpte_of_def cta_of_def heap(1) using 2 by (simp_all add: fld_def)
  qed
  have own: "owner_ok P live ?w' x" if x: "x \<in> set xs - {a}" for x
  proof -
    note ox = other [OF x]
    have "owner_ok P live w x" "apart P w x a" using o(3,4) x a by auto
    then show ?thesis unfolding owner_ok_def apart_def ox(1,4,6,7) heap s using ox(3,5) null by auto
  qed
  have "apart P ?w' x y" if "x \<in> set xs - {a}" "y \<in> set xs - {a}" "x \<noteq> y" for x y
    using o(4) [of x y] that by (simp add: apart_def other [OF that(1)] other [OF that(2)])
  moreover have "heaps_ok ?w'"
    using o(2) heap(7) unfolding heaps_ok_def heap(1,3,4,5) by (auto simp: subset_iff intro!: metas_ok_del elim: metas_ok_mono split: if_splits)
  ultimately have "world_ok P live ?w' (remove1 a xs)" using r(6) own by (simp add: world_ok_def set' del: set_remove1_eq)
  moreover have "abs_world P ?w' (remove1 a xs) = abs_world P w (remove1 a xs)"
    by (rule abs_world_cong) (use set' other heap(1) in auto)
  moreover have "dom (bo_data ?w') = dom (bo_data w) - {data_of P w a}"
    "dom (smpte_heap ?w') = dom (smpte_heap w) - {smpte_of w (data_of P w a)}"
    "dom (cta_heap ?w') = dom (cta_heap w) - {cta_of w (data_of P w a)}"
    using null unfolding heap(1,4,5) s by auto
  ultimately have "released P live w xs a ?w'" using heap(2,3,6,7,8) r(3) by (simp add: released_def later_def)
  then show ?thesis using r(7) a by blast
qed

section \<open>Queries\<close>

text \<open>The pixel stride of the format can be computed.\<close>

definition stride_defined :: "'e platform \<Rightarrow> i32 \<Rightarrow> bool" where
  "stride_defined P fmt \<longleftrightarrow> color_fmt_a2g (hal P) fmt \<le> 0 \<or> color_bytes_per_pixel (color_fmt_a2g (hal P) fmt) \<noteq> 0"

lemma pixel_stride_total:
  "stride_defined P fmt \<longleftrightarrow> (\<exists>s. gralloc_gbm_calculate_android_pixel_stride P fmt stride = Inr s)"
  by (simp add: stride_defined_def gralloc_gbm_calculate_android_pixel_stride_def Let_def)

lemma managed_owner:
  assumes law: "gbm_laws (api P) live" and ok: "world_ok P live w xs"
    and h: "handles w h = Some g" "h \<noteq> NULL" "find_buffer_k (prime_fd g) w = Inr a" "a \<noteq> NULL"
  obtains i b bd where "i < length xs" "a = xs ! i" "fld buf_fd (nodes w) a = prime_fd g"
    "nodes w a = Some b" "buf_bo b \<noteq> NULL" "owner_ok P live w a" "data_of P w a \<noteq> NULL"
    "bo_data w (data_of P w a) = Some bd" "lock_ok P bd" "abs_world P w xs ! i = (prime_fd g, abs_lock P bd)"
proof -
  have a: "a \<in> set xs" using managed_in [OF ok, of h a] h by (auto simp: managed_def)
  then obtain i where i: "i < length xs" "a = xs ! i" by (auto simp: in_set_conv_nth)
  note own = world_okD(3) [OF ok a]
  from owner_bd [OF own law] obtain b bd where b: "nodes w a = Some b" "buf_bo b \<noteq> NULL" "data_of P w a \<noteq> NULL"
    "bo_data w (data_of P w a) = Some bd" "lock_ok P bd" by metis
  have key: "fld buf_fd (nodes w) a = prime_fd g"
    using find_ok [OF world_okD(1) [OF ok], of "prime_fd g"] h(3,4) by (auto simp: find_buffer_k_eq)
  have "abs_world P w xs ! i = (prime_fd g, abs_lock P bd)"
    using i key b(4) by (simp add: abs_world_nth lock_of_Some)
  then show ?thesis using that [OF i key b(1,2) own b(3,4,5)] by blast
qed

definition buffer_info :: "'e platform \<Rightarrow> 'e world \<Rightarrow> gralloc_handle_t \<Rightarrow> addr \<Rightarrow> android_buffer_info_t" where
  "buffer_info P w g a =
    (let bo = fld buf_bo (nodes w) a; A = api P; (fd, e) = gbm_bo_get_fd A bo (ext w) in
     \<lparr>info_fd = fd, buffer_id = a, info_name = NULL,
       info_width = gbm_bo_get_width A bo e, info_height = gbm_bo_get_height A bo e,
       info_layer_count = 1, info_plane_count = gbm_bo_get_plane_count A bo e,
       info_android_format = gh_format g, info_gbm_format = gbm_bo_get_format A bo e,
       info_modifier = gbm_bo_get_modifier A bo e, info_usage = gh_usage g,
       info_size = ucast (gbm_bo_get_stride A bo e * gbm_bo_get_height A bo e),
       info_stride = (case gralloc_gbm_calculate_android_pixel_stride P (gh_format g) (gbm_bo_get_stride A bo e) of
          Inl _ \<Rightarrow> 0 | Inr s \<Rightarrow> s),
       is_protected = (gh_usage g AND PROTECTED (gu P) \<noteq> 0),
       info_metadata = metadata (the (bo_data w (data_of P w a)))\<rparr>)"

lemma query_ok:
  assumes law: "gbm_laws (api P) live" and ok: "world_ok P live w xs" and fmt: "stride_defined P (gh_format g)"
    and h: "handles w h = Some g" "h \<noteq> NULL" "find_buffer_k (prime_fd g) w = Inr a" "a \<noteq> NULL"
  shows "\<exists>w'. gralloc_gbm_android_buffer_query P h w = Inr (0, Some (buffer_info P w g a), w')
    \<and> no_change P live w xs w' \<and> (\<exists>e. w' = w\<lparr>ext := e\<rparr>)"
proof -
  obtain i b bd where o: "i < length xs" "a = xs ! i" "nodes w a = Some b" "buf_bo b \<noteq> NULL"
    "owner_ok P live w a" "data_of P w a \<noteq> NULL" "bo_data w (data_of P w a) = Some bd"
    by (rule managed_owner [OF law ok h])
  obtain fd e1 where fd: "gbm_bo_get_fd (api P) (buf_bo b) (ext w) = (fd, e1)" by force
  have "same_objects (api P) live (ext w) (snd (gbm_bo_get_fd (api P) (buf_bo b) (ext w)))"
    using law by (simp add: gbm_laws_def)
  then have same: "same_objects (api P) live (ext w) e1" using fd by simp
  let ?w1 = "w\<lparr>ext := e1\<rparr>"
  have g1: "grows P live w ?w1" by (rule grows_ext [OF grows_refl [OF ok] same])
  have a: "a \<in> set xs" using o by simp
  have d: "data_of P ?w1 a = data_of P w a" by (rule grows_facts(1) [OF ok g1 a])
  have own: "owner_ok P live ?w1 a" by (rule world_okD(3) [OF world_ok_grows [OF ok g1] a])
  have init: "gralloc_gbm_bo_user_data_init P (buf_bo b) ?w1 = Inr (data_of P w a, ?w1)"
    using init_existing [OF own law, of b] o(3) d by simp
  obtain s where s: "gralloc_gbm_calculate_android_pixel_stride P (gh_format g) (gbm_bo_get_stride (api P) (buf_bo b) e1) = Inr s"
    using fmt pixel_stride_total by blast
  have "gralloc_gbm_android_buffer_query P h w = Inr (0, Some (buffer_info P w g a), ?w1)"
    using h o init fd s by (simp add: gralloc_gbm_android_buffer_query_def buffer_info_def Let_def)
  then show ?thesis using no_change_grows [OF ok g1] by auto
qed

lemma extdata_ok:
  assumes law: "gbm_laws (api P) live" and ok: "world_ok P live w xs"
    and h: "handles w h = Some g" "h \<noteq> NULL" "find_buffer_k (prime_fd g) w = Inr a" "a \<noteq> NULL"
  shows "gralloc_gbm_android_buffer_get_extdata P h w = Inr (data_of P w a, w)"
proof -
  obtain i b bd where o: "i < length xs" "a = xs ! i" "nodes w a = Some b" "buf_bo b \<noteq> NULL"
    "owner_ok P live w a" "data_of P w a \<noteq> NULL" "bo_data w (data_of P w a) = Some bd"
    by (rule managed_owner [OF law ok h])
  show ?thesis using h o(3,4) init_existing [OF o(5) law o(3)]
    by (simp add: gralloc_gbm_android_buffer_get_extdata_def)
qed

section \<open>Locks\<close>

text \<open>One entry of the abstract state changes.\<close>

definition relocked :: "'e platform \<Rightarrow> ('e \<Rightarrow> addr set) \<Rightarrow> 'e world \<Rightarrow> addr list \<Rightarrow> nat \<Rightarrow> lock_state \<Rightarrow> 'e world \<Rightarrow> bool" where
  "relocked P live w xs i st w' \<longleftrightarrow> world_ok P live w' xs \<and> g_driver w' = g_driver w \<and> handles w' = handles w
     \<and> later w w' \<and> nodes w' = nodes w \<and> (\<forall>k. find_buffer_k k w' = find_buffer_k k w)
     \<and> abs_world P w' xs = (abs_world P w xs)[i := (fst (abs_world P w xs ! i), st)]"

lemma relockedI:
  assumes ok: "world_ok P live w xs" and i: "i < length xs" "a = xs ! i"
    and bd: "bo_data w (data_of P w a) = Some bd" "lock_ok P bd'" "metadata bd' = metadata bd"
    and same: "same_objects (api P) live (ext w) e'"
  shows "relocked P live w xs i (abs_lock P bd') (w\<lparr>bo_data := (bo_data w)(data_of P w a \<mapsto> bd'), ext := e'\<rparr>)"
proof -
  have a: "a \<in> set xs" using i by simp
  have "world_ok P live (w\<lparr>bo_data := (bo_data w)(data_of P w a \<mapsto> bd'), ext := e'\<rparr>) xs"
    by (rule world_ok_update(1) [OF ok a refl bd same refl])
  moreover have "find_buffer_k k (w\<lparr>bo_data := (bo_data w)(data_of P w a \<mapsto> bd'), ext := e'\<rparr>) = find_buffer_k k w" for k
    by (rule find_buffer_k_cong) simp_all
  ultimately show ?thesis
    using abs_world_update [OF ok i refl bd same] i by (simp add: relocked_def later_def abs_world_nth)
qed

lemma lock_ok_step:
  assumes law: "gbm_laws (api P) live" and str: "map_keeps_stride (api P)" and ok: "world_ok P live w xs"
    and rdy: "ready_in P w" and perm: "lock_permitted P g usage" and rect: "rect_ok t bt l r"
    and h: "handles w h = Some g" "h \<noteq> NULL" "find_buffer_k (prime_fd g) w = Inr a" "a \<noteq> NULL"
    and count: "\<And>v n. lock_of P w a = DevLocked v n \<Longrightarrow> int n + 1 < 2 ^ 31"
  shows "\<exists>i st ret out' st' w'. i < length xs \<and> a = xs ! i \<and> abs_world P w xs ! i = (prime_fd g, st)
     \<and> gralloc_gbm_android_buffer_lock P h usage t bt l r out w = Inr (ret, out', w')
     \<and> lock_spec P usage out st ret out' st' \<and> relocked P live w xs i st' w'"
proof -
  obtain i b bd where o: "i < length xs" "a = xs ! i" "bo_data w (data_of P w a) = Some bd" "lock_ok P bd"
    "abs_world P w xs ! i = (prime_fd g, abs_lock P bd)"
    by (rule managed_owner [OF law ok h])
  have "sint (lock_count bd) + 1 < 2 ^ 31"
    using o(4) count
  proof (cases rule: lock_word_cases)
    case dev
    then show ?thesis using count [of "locked_for bd" "nat (sint (lock_count bd))"] o(3) by (simp add: lock_of_Some)
  qed simp_all
  from lock_refines_aux [OF ok law str rdy h perm rect o(3) this, of out] obtain ret out' e' bd' where
    r: "gralloc_gbm_android_buffer_lock P h usage t bt l r out w
        = Inr (ret, out', w\<lparr>bo_data := (bo_data w)(data_of P w a \<mapsto> bd'), ext := e'\<rparr>)"
      "same_objects (api P) live (ext w) e'" "lock_ok P bd'" "metadata bd' = metadata bd"
      "lock_spec P usage out (abs_lock P bd) ret out' (abs_lock P bd')" by blast
  show ?thesis using o r(1,5) relockedI [OF ok o(1,2,3) r(3,4,2)] by blast
qed

lemma unlock_ok_step:
  assumes law: "gbm_laws (api P) live" and ok: "world_ok P live w xs"
    and h: "handles w h = Some g" "h \<noteq> NULL" "find_buffer_k (prime_fd g) w = Inr a" "a \<noteq> NULL"
  shows "\<exists>i st w'. i < length xs \<and> a = xs ! i \<and> abs_world P w xs ! i = (prime_fd g, st)
     \<and> gralloc_gbm_android_buffer_unlock P h w = Inr (0, w') \<and> relocked P live w xs i (unlock_spec st) w'"
proof -
  obtain i b bd where o: "i < length xs" "a = xs ! i" "bo_data w (data_of P w a) = Some bd" "lock_ok P bd"
    "abs_world P w xs ! i = (prime_fd g, abs_lock P bd)"
    by (rule managed_owner [OF law ok h])
  from unlock_refines_aux [OF ok law h o(3)] obtain e' bd' where
    r: "gralloc_gbm_android_buffer_unlock P h w
        = Inr (0, w\<lparr>bo_data := (bo_data w)(data_of P w a \<mapsto> bd'), ext := e'\<rparr>)"
      "same_objects (api P) live (ext w) e'" "lock_ok P bd'" "metadata bd' = metadata bd"
      "abs_lock P bd' = unlock_spec (abs_lock P bd)" by blast
  show ?thesis using o r(1,5) relockedI [OF ok o(1,2,3) r(3,4,2)] by metis
qed

end
