(* ===== verification/Gbm_Service.thy ===== *)
theory Gbm_Service
  imports Gbm_Buffers
begin

text \<open>
  The back end as a service: requests of its clients, the worlds they can reach from
  \<open>gralloc_gbm_init\<close>, and the abstract machine it implements. The abstract state lists the managed
  buffers with their lock states; \<open>buffer_step\<close> says what each request may do to it.
\<close>

unbundle bit_operations_syntax

section \<open>Requests\<close>

text \<open>A client names a buffer by the address of its handle, the abstract machine by the handle.\<close>

datatype 'h request =
    NewBuffer allocator_desc_t
  | ImportBuffer 'h
  | FreeBuffer 'h
  | LockBuffer 'h i32 i32 i32 i32 i32 addr
  | UnlockBuffer 'h
  | QueryBuffer 'h
  | GetExtdata 'h

fun serve :: "'e platform \<Rightarrow> addr request \<Rightarrow> 'e world \<Rightarrow> 'e world res" where
  "serve P (NewBuffer ds) w = and_then (gralloc_gbm_android_buffer_new P ds w) (\<lambda>(_, _, w'). Inr w')"
| "serve P (ImportBuffer h) w = and_then (gralloc_gbm_android_buffer_import P h w) (\<lambda>(_, w'). Inr w')"
| "serve P (FreeBuffer h) w = and_then (gralloc_gbm_android_buffer_free P h w) (\<lambda>(_, w'). Inr w')"
| "serve P (LockBuffer h u t b l r out) w =
     and_then (gralloc_gbm_android_buffer_lock P h u t b l r out w) (\<lambda>(_, _, w'). Inr w')"
| "serve P (UnlockBuffer h) w = and_then (gralloc_gbm_android_buffer_unlock P h w) (\<lambda>(_, w'). Inr w')"
| "serve P (QueryBuffer h) w = and_then (gralloc_gbm_android_buffer_query P h w) (\<lambda>(_, _, w'). Inr w')"
| "serve P (GetExtdata h) w = and_then (gralloc_gbm_android_buffer_get_extdata P h w) (\<lambda>(_, w'). Inr w')"

text \<open>
  What a client must see to: a handle that exists; a size, a rectangle and a number of locks whose
  arithmetic does not overflow; for a query, a format with a size per pixel.
\<close>

definition lock_room :: "'e platform \<Rightarrow> 'e world \<Rightarrow> gralloc_handle_t \<Rightarrow> bool" where
  "lock_room P w g = (case find_buffer_k (prime_fd g) w of Inl _ \<Rightarrow> False
     | Inr a \<Rightarrow> (case lock_of P w a of DevLocked v n \<Rightarrow> int n + 1 < 2 ^ 31 | _ \<Rightarrow> True))"

fun handle_ok :: "'e platform \<Rightarrow> 'e world \<Rightarrow> gralloc_handle_t request \<Rightarrow> bool" where
  "handle_ok P w (NewBuffer ds) \<longleftrightarrow> \<not> isl (new_buffer_size P ds
     (gralloc_gbm_calculate_gbm_flags P (ucast (ad_usage ds)) (color_fmt_a2g (hal P) (ad_format ds))))"
| "handle_ok P w (ImportBuffer g) \<longleftrightarrow> True"
| "handle_ok P w (FreeBuffer g) \<longleftrightarrow> True"
| "handle_ok P w (LockBuffer g u t b l r out) \<longleftrightarrow> rect_ok t b l r \<and> lock_room P w g"
| "handle_ok P w (UnlockBuffer g) \<longleftrightarrow> True"
| "handle_ok P w (QueryBuffer g) \<longleftrightarrow> stride_defined P (gh_format g)"
| "handle_ok P w (GetExtdata g) \<longleftrightarrow> True"

text \<open>The request with its handle in place of the handle's address.\<close>

definition abs_request :: "'e world \<Rightarrow> addr request \<Rightarrow> gralloc_handle_t request" where
  "abs_request w r = map_request (\<lambda>h. the (handles w h)) r"

definition request_ok :: "'e platform \<Rightarrow> 'e world \<Rightarrow> addr request \<Rightarrow> bool" where
  "request_ok P w r \<longleftrightarrow> list_all (\<lambda>h. h \<noteq> NULL \<and> h \<in> dom (handles w))
       (case r of NewBuffer _ \<Rightarrow> [] | ImportBuffer h \<Rightarrow> [h] | FreeBuffer h \<Rightarrow> [h] | LockBuffer h _ _ _ _ _ _ \<Rightarrow> [h]
        | UnlockBuffer h \<Rightarrow> [h] | QueryBuffer h \<Rightarrow> [h] | GetExtdata h \<Rightarrow> [h])
     \<and> handle_ok P w (abs_request w r)"

section \<open>The abstract machine\<close>

inductive buffer_step ::
  "'e platform \<Rightarrow> gralloc_handle_t request \<Rightarrow> (i32 \<times> lock_state) list \<Rightarrow> (i32 \<times> lock_state) list \<Rightarrow> bool"
  for P :: "'e platform" where
  new: "buffer_step P (NewBuffer ds) s (s @ [(fd, Unlocked)])"
| new_refused: "buffer_step P (NewBuffer ds) s s"
| imported: "buffer_step P (ImportBuffer g) s (s @ [(prime_fd g, Unlocked)])"
| import_refused: "buffer_step P (ImportBuffer g) s s"
| freed: "i < length s \<Longrightarrow> fst (s ! i) = prime_fd g \<Longrightarrow> buffer_step P (FreeBuffer g) s (take i s @ drop (Suc i) s)"
| free_unknown: "prime_fd g \<notin> fst ` set s \<Longrightarrow> buffer_step P (FreeBuffer g) s s"
| locked: "i < length s \<Longrightarrow> s ! i = (prime_fd g, st) \<Longrightarrow> lock_permitted P g u \<Longrightarrow> lock_spec P u out st ret out' st'
    \<Longrightarrow> buffer_step P (LockBuffer g u t b l r out) s (s[i := (prime_fd g, st')])"
| lock_refused: "\<not> lock_permitted P g u \<or> prime_fd g \<notin> fst ` set s \<Longrightarrow> buffer_step P (LockBuffer g u t b l r out) s s"
| unlocked: "i < length s \<Longrightarrow> s ! i = (prime_fd g, st) \<Longrightarrow> buffer_step P (UnlockBuffer g) s (s[i := (prime_fd g, unlock_spec st)])"
| unlock_unknown: "prime_fd g \<notin> fst ` set s \<Longrightarrow> buffer_step P (UnlockBuffer g) s s"
| query: "buffer_step P (QueryBuffer g) s s"
| extdata: "buffer_step P (GetExtdata g) s s"

text \<open>What holds of every entry.\<close>

fun entry_ok :: "'e platform \<Rightarrow> lock_state \<Rightarrow> bool" where
  "entry_ok P Unlocked \<longleftrightarrow> True"
| "entry_ok P (CpuLocked v) \<longleftrightarrow> v AND SW_MASK P \<noteq> 0"
| "entry_ok P (DevLocked v n) \<longleftrightarrow> v AND SW_MASK P = 0 \<and> 0 < n"

lemma entry_ok_lock: "lock_spec P u out st ret out' st' \<Longrightarrow> entry_ok P st \<Longrightarrow> entry_ok P st'"
  by (cases st) (auto split: if_splits)

lemma entry_ok_unlock: "entry_ok P st \<Longrightarrow> entry_ok P (unlock_spec st)"
  by (cases st) auto

lemma buffer_step_entries:
  assumes "buffer_step P r s s'" "list_all (entry_ok P) (map snd s)"
  shows "list_all (entry_ok P) (map snd s')"
  using assms
proof (cases rule: buffer_step.cases)
  case (freed i g)
  then show ?thesis using assms(2) by (auto simp: list_all_iff dest: in_set_takeD in_set_dropD)
next
  case (locked i g st u out ret out' st')
  then have "entry_ok P st'" using assms(2) entry_ok_lock
    by (metis list_all_length length_map nth_map snd_conv)
  then show ?thesis using locked assms(2) by (simp add: map_update list_all_length nth_list_update)
next
  case (unlocked i g st)
  then have "entry_ok P (unlock_spec st)" using assms(2) entry_ok_unlock
    by (metis list_all_length length_map nth_map snd_conv)
  then show ?thesis using unlocked assms(2) by (simp add: map_update list_all_length nth_list_update)
qed simp_all

section \<open>The requests implement the abstract machine\<close>

text \<open>The documented behaviour of the platform that the proofs rely on.\<close>

definition platform_ok :: "'e platform \<Rightarrow> ('e \<Rightarrow> addr set) \<Rightarrow> bool" where
  "platform_ok P live \<longleftrightarrow> no_huge_malloc (mem_oom P) \<and> gbm_laws (api P) live
     \<and> map_keeps_stride (api P)"

text \<open>A state that the service can be in, with the buffers \<open>xs\<close>.\<close>

definition service_ok :: "'e platform \<Rightarrow> ('e \<Rightarrow> addr set) \<Rightarrow> 'e world \<Rightarrow> addr list \<Rightarrow> bool" where
  "service_ok P live w xs \<longleftrightarrow> world_ok P live w xs \<and> ready_world w"

text \<open>
  \<open>served P live r w xs\<close>: the request runs out of memory, or it is an import whose log line reads the
  freed import descriptor on a platform where this read traps, or it takes a step of the abstract machine.
\<close>

definition served :: "'e platform \<Rightarrow> ('e \<Rightarrow> addr set) \<Rightarrow> addr request \<Rightarrow> 'e world \<Rightarrow> addr list \<Rightarrow> bool" where
  "served P live r w xs \<longleftrightarrow> exhausted (mem_oom P) w (serve P r w)
     \<or> (serve P r w = Inl UseAfterFree \<and> \<not> stale_import P \<and> (\<exists>h. r = ImportBuffer h))
     \<or> (\<exists>w' xs'. serve P r w = Inr w' \<and> service_ok P live w' xs'
          \<and> buffer_step P (abs_request w r) (abs_world P w xs) (abs_world P w' xs'))"

lemma servedI:
  assumes "serve P r w = Inr w'" "world_ok P live w' xs'" "g_driver w' = g_driver w" "ready_world w"
    and "buffer_step P (abs_request w r) (abs_world P w xs) (abs_world P w' xs')"
  shows "served P live r w xs"
  using assms unfolding served_def service_ok_def ready_world_def by auto

lemma served_no_change:
  assumes "serve P r w = Inr w'" "no_change P live w xs w'" "ready_world w"
    and "buffer_step P (abs_request w r) (abs_world P w xs) (abs_world P w xs)"
  shows "served P live r w xs"
  using servedI [of P r w w' live xs xs] assms by (simp add: no_change_def)

lemma lookup_cases:
  assumes "world_ok P live w xs"
  obtains (unknown) "find_buffer_k (prime_fd g) w = Inr NULL" "prime_fd g \<notin> fst ` set (abs_world P w xs)"
  | (found) a where "find_buffer_k (prime_fd g) w = Inr a" "a \<noteq> NULL"
proof -
  from find_ok [OF world_okD(1) [OF assms], of "prime_fd g"] obtain a where
    a: "find_buffer_k (prime_fd g) w = Inr a"
    "if a = NULL then \<forall>a \<in> set xs. buffer_key w a \<noteq> prime_fd g else a \<in> set xs \<and> buffer_key w a = prime_fd g"
    unfolding find_buffer_k_eq by blast
  show ?thesis
  proof (cases "a = NULL")
    case True
    then have "prime_fd g \<notin> fst ` set (abs_world P w xs)" using a(2) by (auto simp: abs_world_def)
    then show ?thesis using unknown a(1) True by simp
  next
    case False
    then show ?thesis using found a(1) by simp
  qed
qed

lemma relocked_served:
  assumes "serve P r w = Inr w'" "relocked P live w xs i st' w'" "ready_world w"
    "buffer_step P (abs_request w r) (abs_world P w xs) ((abs_world P w xs)[i := (fst (abs_world P w xs ! i), st')])"
  shows "served P live r w xs"
  using servedI [of P r w w' live xs xs] assms by (simp add: relocked_def)

lemma serve_new:
  assumes env: "platform_ok P live" and sv: "service_ok P live w xs" and req: "request_ok P w (NewBuffer ds)"
  shows "served P live (NewBuffer ds) w xs"
proof -
  let ?fl = "gralloc_gbm_calculate_gbm_flags P (ucast (ad_usage ds)) (color_fmt_a2g (hal P) (ad_format ds))"
  have e: "no_huge_malloc (mem_oom P)" "gbm_laws (api P) live" using env by (simp_all add: platform_ok_def)
  have w: "world_ok P live w xs" "ready_world w" using sv by (simp_all add: service_ok_def)
  obtain wd ht where sz: "new_buffer_size P ds ?fl = Inr (wd, ht)"
    using req by (cases "new_buffer_size P ds ?fl") (auto simp: request_ok_def abs_request_def)
  from new_ok [OF e w(1) ready_world_is_ready [OF w(2)] refl refl sz] show ?thesis
  proof (elim disjE exE conjE)
    fix e w' assume "gralloc_gbm_android_buffer_new P ds w = Inr (e, None, w')" "no_change P live w xs w'"
    then show ?thesis using w(2)
      by (intro served_no_change [of _ _ _ w']) (simp_all add: abs_request_def buffer_step.new_refused)
  next
    fix h st w' assume run: "gralloc_gbm_android_buffer_new P ds w = Inr (0, Some (h, st), w')"
      "new_buffer P live w xs wd ht ds h st w'"
    then obtain a and g :: gralloc_handle_t where "world_ok P live w' (xs @ [a])" "g_driver w' = g_driver w"
      "abs_world P w' (xs @ [a]) = abs_world P w xs @ [(prime_fd g, Unlocked)]"
      unfolding new_buffer_def by blast
    then show ?thesis using run(1) w(2)
      by (intro servedI [of _ _ _ w' live "xs @ [a]"]) (simp_all add: abs_request_def buffer_step.new)
  qed (auto simp: served_def)
qed

lemma serve_import:
  assumes env: "platform_ok P live" and sv: "service_ok P live w xs" and req: "request_ok P w (ImportBuffer h)"
  shows "served P live (ImportBuffer h) w xs"
proof -
  have e: "no_huge_malloc (mem_oom P)" "gbm_laws (api P) live" using env by (simp_all add: platform_ok_def)
  have w: "world_ok P live w xs" "ready_world w" using sv by (simp_all add: service_ok_def)
  obtain g where g: "handles w h = Some g" "h \<noteq> NULL"
    using req by (auto simp: request_ok_def abs_request_def)
  from import_ok [OF e w(1) ready_world_is_ready [OF w(2)] g] show ?thesis
  proof (elim disjE exE conjE)
    fix e w' assume "gralloc_gbm_android_buffer_import P h w = Inr (e, w')" "no_change P live w xs w'"
    then show ?thesis using w(2)
      by (intro served_no_change [of _ _ _ w']) (simp_all add: abs_request_def buffer_step.import_refused)
  next
    fix w' assume run: "gralloc_gbm_android_buffer_import P h w = (if stale_import P then Inr (0, w') else Inl UseAfterFree)"
      "imported P live w xs g w'"
    then obtain a where "world_ok P live w' (xs @ [a])" "g_driver w' = g_driver w"
      "abs_world P w' (xs @ [a]) = abs_world P w xs @ [(prime_fd g, Unlocked)]"
      unfolding imported_def by blast
    then have "served P live (ImportBuffer h) w xs" if "stale_import P"
      using run(1) w(2) that g(1)
      by (intro servedI [of _ _ _ w' live "xs @ [a]"]) (simp_all add: abs_request_def buffer_step.imported)
    then show ?thesis using run(1) by (cases "stale_import P") (simp_all add: served_def)
  qed (auto simp: served_def)
qed

lemma serve_free:
  assumes env: "platform_ok P live" and sv: "service_ok P live w xs" and req: "request_ok P w (FreeBuffer h)"
  shows "served P live (FreeBuffer h) w xs"
proof -
  have law: "gbm_laws (api P) live" using env by (simp add: platform_ok_def)
  have w: "world_ok P live w xs" "ready_world w" using sv by (simp_all add: service_ok_def)
  obtain g where g: "handles w h = Some g" "h \<noteq> NULL"
    using req by (auto simp: request_ok_def)
  from w(1) show ?thesis
  proof (cases rule: lookup_cases [where g = g])
    case unknown
    then show ?thesis using g w no_change_refl [OF w(1)]
      by (intro served_no_change [of _ _ _ w]) (simp_all add: gralloc_gbm_android_buffer_free_def abs_request_def buffer_step.free_unknown)
  next
    case (found a)
    obtain w' where r: "gralloc_gbm_android_buffer_free P h w = Inr (0, w')" "released P live w xs a w'"
      using free_ok [OF law w(1) ready_world_is_ready [OF w(2)] g found] by blast
    obtain i b bd where o: "i < length xs" "a = xs ! i" "abs_world P w xs ! i = (prime_fd g, abs_lock P bd)"
      by (rule managed_owner [OF law w(1) g found])
    have "distinct xs" using hash_inv_members(1) [OF world_okD(1) [OF w(1)]] .
    then have "abs_world P w' (remove1 a xs) = take i (abs_world P w xs) @ drop (Suc i) (abs_world P w xs)"
      using r(2) abs_world_remove o(1,2) by (simp add: released_def)
    moreover have "buffer_step P (FreeBuffer g) (abs_world P w xs) (take i (abs_world P w xs) @ drop (Suc i) (abs_world P w xs))"
      using o by (intro buffer_step.freed) simp_all
    ultimately have "buffer_step P (abs_request w (FreeBuffer h)) (abs_world P w xs) (abs_world P w' (remove1 a xs))"
      using g(1) by (simp add: abs_request_def)
    then show ?thesis using r w(2)
      by (intro servedI [of _ _ _ w' live "remove1 a xs"]) (simp_all add: released_def)
  qed
qed

lemma serve_lock:
  assumes env: "platform_ok P live" and sv: "service_ok P live w xs" and req: "request_ok P w (LockBuffer h u t b l r out)"
  shows "served P live (LockBuffer h u t b l r out) w xs"
proof -
  have law: "gbm_laws (api P) live" "map_keeps_stride (api P)" using env by (simp_all add: platform_ok_def)
  have w: "world_ok P live w xs" "ready_world w" using sv by (simp_all add: service_ok_def)
  obtain g where g: "handles w h = Some g" "h \<noteq> NULL" and rect: "rect_ok t b l r" and room: "lock_room P w g"
    using req by (auto simp: request_ok_def abs_request_def)
  have refused: ?thesis if "\<not> lock_permitted P g u \<or> prime_fd g \<notin> fst ` set (abs_world P w xs)"
    "gralloc_gbm_android_buffer_lock P h u t b l r out w = Inr (- EINVAL, out, w)"
    using that g w no_change_refl [OF w(1)]
    by (intro served_no_change [of _ _ _ w]) (simp_all add: abs_request_def buffer_step.lock_refused)
  obtain x y where xy: "int_result (sint r - sint l) = Inr x" "int_result (sint b - sint t) = Inr y"
    by (rule rect_okD [OF rect])
  show ?thesis
  proof (cases "lock_permitted P g u")
    case False
    then show ?thesis using g w(2) xy
      by (intro refused) (auto simp: gralloc_gbm_android_buffer_lock_def lock_permitted_def)
  next
    case perm: True
    from w(1) show ?thesis
    proof (cases rule: lookup_cases [where g = g])
      case unknown
      then show ?thesis using g w(2) xy perm
        by (intro refused) (auto simp: gralloc_gbm_android_buffer_lock_def lock_permitted_def)
    next
      case (found a)
      have room': "int n + 1 < 2 ^ 31" if "lock_of P w a = DevLocked v n" for v n
        using room found that by (simp add: lock_room_def)
      obtain i st ret out' st' w' where s: "i < length xs" "abs_world P w xs ! i = (prime_fd g, st)"
        "gralloc_gbm_android_buffer_lock P h u t b l r out w = Inr (ret, out', w')"
        "lock_spec P u out st ret out' st'" "relocked P live w xs i st' w'"
        using lock_ok_step [OF law w(1) ready_world_is_ready [OF w(2)] perm rect g found] room' by blast
      have "buffer_step P (LockBuffer g u t b l r out) (abs_world P w xs) ((abs_world P w xs)[i := (prime_fd g, st')])"
        using s perm by (intro buffer_step.locked) simp_all
      then show ?thesis using s g w(2) by (intro relocked_served [of _ _ _ w' live xs i st']) (simp_all add: abs_request_def)
    qed
  qed
qed

lemma serve_unlock:
  assumes env: "platform_ok P live" and sv: "service_ok P live w xs" and req: "request_ok P w (UnlockBuffer h)"
  shows "served P live (UnlockBuffer h) w xs"
proof -
  have law: "gbm_laws (api P) live" using env by (simp add: platform_ok_def)
  have w: "world_ok P live w xs" "ready_world w" using sv by (simp_all add: service_ok_def)
  obtain g where g: "handles w h = Some g" "h \<noteq> NULL" using req by (auto simp: request_ok_def)
  from w(1) show ?thesis
  proof (cases rule: lookup_cases [where g = g])
    case unknown
    then show ?thesis using g w no_change_refl [OF w(1)]
      by (intro served_no_change [of _ _ _ w]) (simp_all add: gralloc_gbm_android_buffer_unlock_def abs_request_def buffer_step.unlock_unknown)
  next
    case (found a)
    obtain i st w' where s: "i < length xs" "abs_world P w xs ! i = (prime_fd g, st)"
      "gralloc_gbm_android_buffer_unlock P h w = Inr (0, w')" "relocked P live w xs i (unlock_spec st) w'"
      using unlock_ok_step [OF law w(1) g found] by blast
    have "buffer_step P (UnlockBuffer g) (abs_world P w xs) ((abs_world P w xs)[i := (prime_fd g, unlock_spec st)])"
      using s by (intro buffer_step.unlocked) simp_all
    then show ?thesis using s g w(2) by (intro relocked_served [of _ _ _ w' live xs i "unlock_spec st"]) (simp_all add: abs_request_def)
  qed
qed

lemma serve_query:
  assumes env: "platform_ok P live" and sv: "service_ok P live w xs" and req: "request_ok P w (QueryBuffer h)"
  shows "served P live (QueryBuffer h) w xs"
proof -
  have law: "gbm_laws (api P) live" using env by (simp add: platform_ok_def)
  have w: "world_ok P live w xs" "ready_world w" using sv by (simp_all add: service_ok_def)
  obtain g where g: "handles w h = Some g" "h \<noteq> NULL" and fmt: "stride_defined P (gh_format g)"
    using req by (auto simp: request_ok_def abs_request_def)
  from w(1) obtain ret info w' where "gralloc_gbm_android_buffer_query P h w = Inr (ret, info, w')" "no_change P live w xs w'"
  proof (cases rule: lookup_cases [where g = g])
    case unknown
    then show ?thesis using that [of "- EINVAL" None w] g no_change_refl [OF w(1)]
      by (simp add: gralloc_gbm_android_buffer_query_def)
  next
    case (found a)
    then show ?thesis using that query_ok [OF law w(1) fmt g found] by blast
  qed
  then show ?thesis using w(2) g(1)
    by (intro served_no_change [of _ _ _ w']) (simp_all add: abs_request_def buffer_step.query)
qed

lemma serve_extdata:
  assumes env: "platform_ok P live" and sv: "service_ok P live w xs" and req: "request_ok P w (GetExtdata h)"
  shows "served P live (GetExtdata h) w xs"
proof -
  have law: "gbm_laws (api P) live" using env by (simp add: platform_ok_def)
  have w: "world_ok P live w xs" "ready_world w" using sv by (simp_all add: service_ok_def)
  obtain g where g: "handles w h = Some g" "h \<noteq> NULL" using req by (auto simp: request_ok_def)
  from w(1) obtain p where "gralloc_gbm_android_buffer_get_extdata P h w = Inr (p, w)"
  proof (cases rule: lookup_cases [where g = g])
    case unknown
    then show ?thesis using that g by (simp add: gralloc_gbm_android_buffer_get_extdata_def)
  next
    case (found a)
    then show ?thesis using that extdata_ok [OF law w(1) g found] by blast
  qed
  then show ?thesis using w(2) no_change_refl [OF w(1)]
    by (intro served_no_change [of _ _ _ w]) (simp_all add: abs_request_def buffer_step.extdata)
qed

lemma serve_ok:
  assumes "platform_ok P live" "service_ok P live w xs" "request_ok P w r"
  shows "served P live r w xs"
  using assms by (cases r)
    (simp_all add: serve_new serve_import serve_free serve_lock serve_unlock serve_query serve_extdata)

section \<open>Reachable worlds\<close>

definition blank_world :: "'e \<Rightarrow> 'e world" where
  "blank_world e = \<lparr>brk = 0, nodes = Map.empty, android_buffer_table = NULL, tbl = None, bo_data = Map.empty,
     smpte_heap = Map.empty, cta_heap = Map.empty, blob_heap = Map.empty, handles = Map.empty,
     g_driver = None, ext = e\<rparr>"

text \<open>A handle with contents of its own choice comes in from another process.\<close>

definition receive_handle :: "gralloc_handle_t \<Rightarrow> 'e world \<Rightarrow> 'e world" where
  "receive_handle g w = w\<lparr>brk := Suc (brk w), handles := (handles w)(Suc (brk w) \<mapsto> g)\<rparr>"

inductive reachable :: "'e platform \<Rightarrow> 'e world \<Rightarrow> bool" for P :: "'e platform" where
  boot: "gralloc_gbm_init P (blank_world e) = Inr (0, w) \<Longrightarrow> reachable P w"
| receive: "reachable P w \<Longrightarrow> reachable P (receive_handle g w)"
| request: "reachable P w \<Longrightarrow> request_ok P w r \<Longrightarrow> serve P r w = Inr w' \<Longrightarrow> reachable P w'"

lemma init_blank:
  assumes "gralloc_gbm_init P (blank_world e) = Inr (r, w)"
  shows "brk w = 1" "nodes w = Map.empty" "android_buffer_table w = NULL" "tbl w = None" "bo_data w = Map.empty"
    "smpte_heap w = Map.empty" "cta_heap w = Map.empty" "handles w = Map.empty" "r = 0 \<Longrightarrow> ready_world w"
  using assms
  by (auto simp: gralloc_gbm_init_def is_gralloc_gbm_ready_def blank_world_def malloc_def Let_def errno_defs
      ready_world_def split: if_splits prod.splits)

lemma boot_service:
  assumes "gralloc_gbm_init P (blank_world e) = Inr (0, w)"
  shows "service_ok P live w []"
  using init_blank [OF assms] by (simp add: service_ok_def world_ok_def heaps_ok_def hash_inv_def heap_ok_def metas_ok_empty)

lemma receive_service:
  assumes "service_ok P live w xs"
  shows "service_ok P live (receive_handle g w) xs" "abs_world P (receive_handle g w) xs = abs_world P w xs"
proof -
  have ok: "world_ok P live w xs" "ready_world w" using assms by (simp_all add: service_ok_def)
  have "grows P live w (receive_handle g w)"
    using grows_new_handle [OF grows_refl [OF ok(1)]] world_okD(2) [OF ok(1)] by (simp add: receive_handle_def heaps_ok_def)
  then show "service_ok P live (receive_handle g w) xs" "abs_world P (receive_handle g w) xs = abs_world P w xs"
    using world_ok_grows [OF ok(1)] abs_grows [OF ok(1)] ok(2)
    by (simp_all add: service_ok_def) (simp add: ready_world_def receive_handle_def)
qed

text \<open>The abstract states that requests lead to.\<close>

inductive buffer_reachable :: "'e platform \<Rightarrow> (i32 \<times> lock_state) list \<Rightarrow> bool" for P :: "'e platform" where
  start: "buffer_reachable P []"
| step: "buffer_reachable P s \<Longrightarrow> buffer_step P r s s' \<Longrightarrow> buffer_reachable P s'"

lemma buffer_reachable_entries: "buffer_reachable P s \<Longrightarrow> list_all (entry_ok P) (map snd s)"
  by (induction rule: buffer_reachable.induct) (auto intro: buffer_step_entries)

lemma reachable_service:
  assumes env: "platform_ok P live" and r: "reachable P w"
  shows "\<exists>xs. service_ok P live w xs \<and> buffer_reachable P (abs_world P w xs)"
  using r
proof (induction rule: reachable.induct)
  case (boot e w)
  then show ?case using boot_service [OF boot] buffer_reachable.start by force
next
  case (receive w g)
  then show ?case using receive_service by metis
next
  case (request w r w')
  then obtain xs where xs: "service_ok P live w xs" "buffer_reachable P (abs_world P w xs)" by blast
  from serve_ok [OF env xs(1) request(2)] request(3) obtain xs' where "service_ok P live w' xs'"
    "buffer_step P (abs_request w r) (abs_world P w xs) (abs_world P w' xs')"
    by (auto simp: served_def)
  then show ?case using buffer_reachable.step [OF xs(2)] by blast
qed

end
