(* ===== verification/Gbm_Sample.thy ===== *)
theory Gbm_Sample
  imports Gbm_Service
begin

text \<open>
  A concrete platform for the witnesses: a small library whose buffer objects are numbered from one,
  each with its user data (None once destroyed), on which every law holds, and a world with one
  managed buffer.
\<close>

definition sample_live :: "addr option list \<Rightarrow> addr set" where
  "sample_live e = {i. 0 < i \<and> i \<le> length e \<and> e ! (i - 1) \<noteq> None}"

definition sample_get :: "addr \<Rightarrow> addr option list \<Rightarrow> addr" where
  "sample_get bo e = (if 0 < bo \<and> bo \<le> length e then (case e ! (bo - 1) of None \<Rightarrow> NULL | Some d \<Rightarrow> d) else NULL)"

definition sample_set :: "addr \<Rightarrow> addr \<Rightarrow> addr option list \<Rightarrow> addr option list" where
  "sample_set bo d e = (if 0 < bo \<and> bo \<le> length e \<and> e ! (bo - 1) \<noteq> None then e[bo - 1 := Some d] else e)"

definition sample_destroy :: "addr \<Rightarrow> addr option list \<Rightarrow> addr option \<times> addr option list" where
  "sample_destroy bo e = (if sample_get bo e = NULL then None else Some (sample_get bo e), e[bo - 1 := None])"

definition sample_handle :: gralloc_handle_t where
  "sample_handle = \<lparr>prime_fd = 5, magic = GRALLOC_HANDLE_MAGIC, version = GRALLOC_HANDLE_VERSION, gh_width = 64,
     gh_height = 64, gh_format = 1, gh_usage = 0x133, gh_stride = 256, data_owner = 0, gh_modifier = 0, gh_data = 0\<rparr>"

definition sample_api :: "addr option list gbm_api" where
  "sample_api = \<lparr>
     sys_open = \<lambda>_ e. (3, e), sys_close = \<lambda>_ e. e, gbm_create_device = \<lambda>_ e. (7, e),
     gbm_device_get_fd = \<lambda>_ _. 3, gbm_device_get_backend_name = \<lambda>_ _. 8, gbm_device_destroy = \<lambda>_ e. e,
     gbm_device_is_format_supported = \<lambda>_ _ _ _. True,
     gbm_bo_create = \<lambda>_ _ _ _ _ e. (Suc (length e), e @ [Some NULL]),
     gbm_bo_import = \<lambda>_ _ _ e. (Suc (length e), e @ [Some NULL]),
     gbm_bo_destroy = sample_destroy,
     gbm_bo_map = \<lambda>_ _ _ _ _ e. (4096, 256, 1, e), gbm_bo_unmap = \<lambda>_ _ e. e,
     gbm_bo_get_user_data = sample_get, gbm_bo_set_user_data = sample_set,
     gbm_bo_get_width = \<lambda>_ _. 64, gbm_bo_get_height = \<lambda>_ _. 64, gbm_bo_get_stride = \<lambda>_ _. 256,
     gbm_bo_get_format = \<lambda>_ _. GBM_FORMAT_ABGR8888, gbm_bo_get_plane_count = \<lambda>_ _. 1,
     gbm_bo_get_modifier = \<lambda>_ _. 0, gbm_bo_get_fd = \<lambda>_ e. (5, e),
     native_handle_create = \<lambda>e. (Some sample_handle, e)\<rparr>"

definition sample_platform :: "addr option list platform" where
  "sample_platform = \<lparr>hal = aosp_hal, gu = aosp_usage,
     cfg = \<lparr>GRALLOC_GBM_USE_SW_RENDER = False, GRALLOC_GBM_NO_CURSOR_RENDERING = False,
       GRALLOC_GBM_NO_CURSOR_ALIGNING = False, ANDROID_API_LEVEL = 35\<rparr>,
     api = sample_api, mem_oom = sample_oom, stale_driver = \<lambda>_. None, stale_import = True\<rparr>"

lemma sample_platform_fields [simp]:
  "hal sample_platform = aosp_hal" "gu sample_platform = aosp_usage" "api sample_platform = sample_api"
  "mem_oom sample_platform = sample_oom" "stale_driver sample_platform = (\<lambda>_. None)" "stale_import sample_platform"
  by (simp_all add: sample_platform_def)

lemma sample_laws: "gbm_laws sample_api sample_live"
  unfolding gbm_laws_def
proof (intro conjI allI impI)
  fix e bo cb e'
  assume bo: "bo \<in> sample_live e" and d: "gbm_bo_destroy sample_api bo e = (cb, e')"
  then have e': "e' = e[bo - 1 := None]" and b: "0 < bo" "bo \<le> length e"
    and cb: "cb = (if sample_get bo e = NULL then None else Some (sample_get bo e))"
    by (auto simp: sample_api_def sample_destroy_def sample_live_def)
  have i: "i - Suc 0 = bo - Suc 0 \<longleftrightarrow> i = bo" if "0 < i" for i using that b by linarith
  show "sample_live e' = sample_live e - {bo}"
    using b by (auto simp: sample_live_def e' nth_list_update i)
  show "cb = (if gbm_bo_get_user_data sample_api bo e = NULL then None else Some (gbm_bo_get_user_data sample_api bo e))"
    using cb by (simp add: sample_api_def)
  show "\<forall>b\<in>sample_live e'. gbm_bo_get_user_data sample_api b e' = gbm_bo_get_user_data sample_api b e"
    using b by (auto simp: sample_api_def sample_live_def sample_get_def e' nth_list_update i)
next
  fix bo d e assume bo: "bo \<in> sample_live e"
  then have b: "0 < bo" "bo \<le> length e" "e ! (bo - 1) \<noteq> None" by (auto simp: sample_live_def)
  have i: "i - Suc 0 = bo - Suc 0 \<longleftrightarrow> i = bo" if "0 < i" for i using that b by linarith
  show "sample_live (gbm_bo_set_user_data sample_api bo d e) = sample_live e"
    using b by (auto simp: sample_api_def sample_live_def sample_set_def nth_list_update i)
  show "\<forall>b\<in>sample_live e. gbm_bo_get_user_data sample_api b (gbm_bo_set_user_data sample_api bo d e)
      = (if b = bo then d else gbm_bo_get_user_data sample_api b e)"
    using b by (auto simp: sample_api_def sample_live_def sample_set_def sample_get_def nth_list_update i)
next
  fix e :: "addr option list" and bo e'
  have live: "sample_live (e @ [Some NULL]) = insert (Suc (length e)) (sample_live e)"
    by (auto simp: sample_live_def nth_append less_Suc_eq_le) 
  have new: "new_object sample_api sample_live e (Suc (length e)) (e @ [Some NULL])"
    unfolding new_object_def live by (auto simp: sample_api_def sample_live_def sample_get_def nth_append)
  show "new_object sample_api sample_live e bo e'"
    if "gbm_bo_create sample_api dev w h f fl e = (bo, e')" for dev w h f fl
    using that new by (auto simp: sample_api_def)
  show "new_object sample_api sample_live e bo e'"
    if "gbm_bo_import sample_api dev d fl e = (bo, e')" for dev d fl
    using that new by (auto simp: sample_api_def)
qed (auto simp: sample_live_def sample_api_def)

lemma sample_platform_ok: "platform_ok sample_platform sample_live"
  using sample_laws sample_oom_huge
  by (auto simp: platform_ok_def sample_oom_def map_keeps_stride_def sample_api_def)

section \<open>A world with one buffer\<close>

text \<open>The buffer at address 1 (key 5, object 1) with user data at 2 and the handle at 3.\<close>

definition sample_driver :: gralloc_gbm_driver_t where
  "sample_driver = \<lparr>ready = True, dri_fd = 3, gbm_dev = 7, gbm_dev_fd = 3, gbm_backend_name = 8\<rparr>"

definition sample_world :: "addr option list world" where
  "sample_world = \<lparr>brk = 6, nodes = [1 \<mapsto> sample_node 5 1], android_buffer_table = 1,
     tbl = Some (single_table 1 5),
     bo_data = [2 \<mapsto> zero_bo_data\<lparr>metadata := (metadata zero_bo_data)\<lparr>smpte2086 := 4, cta861_3 := 5\<rparr>\<rparr>],
     smpte_heap = [4 \<mapsto> zero_smpte2086], cta_heap = [5 \<mapsto> zero_cta861_3], blob_heap = Map.empty,
     handles = [3 \<mapsto> sample_handle], g_driver = Some (Live sample_driver), ext = [Some 2]\<rparr>"

lemma sample_world_values:
  "handles sample_world 3 = Some sample_handle" "prime_fd sample_handle = 5" "gh_format sample_handle = 1"
  "gh_usage sample_handle = 0x133" "nodes sample_world 1 = Some (sample_node 5 1)"
  "data_of sample_platform sample_world 1 = 2" "lock_of sample_platform sample_world 1 = Unlocked"
  "fld buf_bo (nodes sample_world) 1 = 1" "ext sample_world = [Some 2]" "brk sample_world = 6"
  by (simp_all add: sample_world_def sample_handle_def data_of_def lock_of_def sample_node_def sample_api_def
      sample_get_def abs_lock_def zero_bo_data_def)

lemmas sample_world_simps = sample_world_values sample_world_values [unfolded One_nat_def]

lemma sample_world_ok: "world_ok sample_platform sample_live sample_world [1]"
proof -
  have "hash_inv sample_world [1]" by (rule single_inv [of _ _ 5 1]) (simp_all add: sample_world_def)
  moreover have "heaps_ok sample_world" by (simp add: heaps_ok_def sample_world_def metas_ok_def)
  moreover have "owner_ok sample_platform sample_live sample_world 1"
    unfolding owner_ok_def sample_world_values
    by (simp add: sample_live_def sample_world_def lock_ok_def zero_bo_data_def smpte_of_def cta_of_def fld_def)
  ultimately show ?thesis by (simp add: world_ok_def)
qed

lemma sample_ready: "ready_world sample_world"
  by (simp add: ready_world_def sample_world_def sample_driver_def)

lemma sample_service: "service_ok sample_platform sample_live sample_world [1]"
  using sample_world_ok sample_ready by (simp add: service_ok_def)

lemma sample_abs: "abs_world sample_platform sample_world [1] = [(5, Unlocked)]"
  using sample_world_simps by (simp add: abs_world_def sample_node_def fld_def)

lemma sample_find: "find_buffer_k 5 sample_world = Inr 1"
proof -
  from find_ok [OF world_okD(1) [OF sample_world_ok], of 5] sample_world_values(5) obtain a where
    "find_buffer_k 5 sample_world = Inr a" "if a = NULL then buffer_key sample_world 1 \<noteq> 5 else a = 1"
    by (auto simp: find_buffer_k_eq split: if_splits)
  then show ?thesis using sample_world_values(5) by (auto simp: sample_node_def fld_def split: if_splits)
qed

end
