(* ===== verification/Gbm_Props.thy ===== *)
theory Gbm_Props
  imports Gbm_Sample
begin

text \<open>
  The properties of the GBM back end: its reachable worlds, the abstract machine it refines, and the
  effect of each operation.
\<close>

unbundle bit_operations_syntax

section \<open>The service\<close>

text \<open>C1: every world the clients can lead the back end into from \<open>gralloc_gbm_init\<close> obeys the
  invariant, for some list of managed buffers: the hash table is well formed and holds exactly these,
  each owns a live object and user data of its own, the driver is ready. The lock states are those an
  abstract buffer machine can reach, so a mapped buffer is locked once and a buffer locked without a
  CPU usage at least once.\<close>

theorem reachable_invariant:
  assumes "platform_ok P live" and "reachable P w"
  shows "\<exists>xs. service_ok P live w xs \<and> buffer_reachable P (abs_world P w xs)
    \<and> list_all (entry_ok P) (map snd (abs_world P w xs))"
  using reachable_service [OF assms] buffer_reachable_entries by blast

definition sample_booted :: "addr option list world" where
  "sample_booted = (blank_world [])\<lparr>brk := 1, g_driver := Some (Live sample_driver)\<rparr>"

lemma sample_booted: "gralloc_gbm_init sample_platform (blank_world []) = Inr (0, sample_booted)"
  by (simp add: gralloc_gbm_init_def is_gralloc_gbm_ready_def blank_world_def malloc_def sample_oom_def
      sizeof_driver_def sample_api_def Let_def sample_booted_def zero_driver_def sample_driver_def)

lemma sample_received: "reachable sample_platform (receive_handle sample_handle sample_booted)"
  using reachable.receive [OF reachable.boot [OF sample_booted]] .

theorem reachable_invariant_witness:
  "\<exists>xs. service_ok sample_platform sample_live (receive_handle sample_handle sample_booted) xs"
  using reachable_invariant [OF sample_platform_ok sample_received] by blast


lemma sample_not_starved: "\<not> starved sample_oom h"
  by (auto simp: starved_def sample_oom_def)

lemma sample_not_full: "\<not> table_full (receive_handle g sample_booted)" "\<not> table_full sample_world"
  by (simp_all add: table_full_def receive_handle_def sample_booted_def blank_world_def sample_world_def single_table_def)

lemma sample_not_exhausted: "\<not> exhausted sample_oom sample_world r"
  by (simp add: exhausted_def oom_after_def sample_not_starved sample_not_full)


text \<open>C3: each request takes a step of the abstract machine: an allocation or import appends an
  unlocked entry or changes nothing, a release removes one entry of the descriptor, a lock or unlock
  changes the lock state of one entry as \<open>lock_spec\<close> and \<open>unlock_spec\<close> say, queries change nothing;
  and the invariant holds again afterwards.\<close>

theorem requests_refine_buffer_machine:
  assumes "platform_ok P live" and "service_ok P live w xs" and "request_ok P w r"
    and "serve P r w = Inr w'"
  shows "\<exists>xs'. service_ok P live w' xs'
    \<and> buffer_step P (abs_request w r) (abs_world P w xs) (abs_world P w' xs')"
  using serve_ok [OF assms(1-3)] assms(4) by (auto simp: served_def)

lemma sample_free:
  "\<exists>w'. serve sample_platform (FreeBuffer 3) sample_world = Inr w' \<and> released sample_platform sample_live sample_world [1] 1 w'"
proof -
  have "find_buffer_k (prime_fd sample_handle) sample_world = Inr 1" by (simp only: sample_world_values sample_find)
  then show ?thesis
    using free_ok [OF sample_laws [folded sample_platform_fields(3)] sample_world_ok ready_world_is_ready [OF sample_ready] sample_world_values(1)]
    by auto
qed

theorem requests_refine_buffer_machine_witness:
  "\<exists>w' xs'. serve sample_platform (FreeBuffer 3) sample_world = Inr w'
    \<and> buffer_step sample_platform (FreeBuffer sample_handle) [(5, Unlocked)] (abs_world sample_platform w' xs')"
proof -
  have req: "request_ok sample_platform sample_world (FreeBuffer 3)"
    using sample_world_values(1) by (auto simp: request_ok_def abs_request_def)
  obtain w' where "serve sample_platform (FreeBuffer 3) sample_world = Inr w'" using sample_free by blast
  from this requests_refine_buffer_machine [OF sample_platform_ok sample_service req this] show ?thesis
    using sample_abs sample_world_values(1) by (auto simp: abs_request_def)
qed

section \<open>Allocation, import and release\<close>

text \<open>C16: an allocation with a size that can be computed does one of three things. It adds one unlocked
  buffer under the descriptor of the handle it returns, whose size, format, usage, magic number and
  stride are set; it fails with \<open>-EINVAL\<close>, or with \<open>-ENOMEM\<close> when memory is lacking, and leaves the
  managed buffers as they were; or memory is lacking where the code does not check for it.\<close>

theorem buffer_new_spec:
  assumes "platform_ok P live" and "service_ok P live w xs"
    and "new_buffer_size P ds (gralloc_gbm_calculate_gbm_flags P (ucast (ad_usage ds))
           (color_fmt_a2g (hal P) (ad_format ds))) = Inr (width, height)"
  shows "exhausted (mem_oom P) w (gralloc_gbm_android_buffer_new P ds w)
    \<or> (\<exists>e w'. gralloc_gbm_android_buffer_new P ds w = Inr (e, None, w') \<and> refusal (mem_oom P) w e \<and> no_change P live w xs w')
    \<or> (\<exists>h stride w'. gralloc_gbm_android_buffer_new P ds w = Inr (0, Some (h, stride), w')
         \<and> new_buffer P live w xs width height ds h stride w')"
  using new_ok [of P live w xs] assms by (simp add: platform_ok_def service_ok_def)

definition sample_desc :: allocator_desc_t where
  "sample_desc = \<lparr>ad_name = None, ad_width = 640, ad_height = 480, ad_layer_count = 1, ad_format = 1,
     ad_usage = 0x33, ad_reserved_size = 0\<rparr>"

lemma sample_flags: "gralloc_gbm_calculate_gbm_flags sample_platform 0x33 f = 16"
  by (simp add: gralloc_gbm_calculate_gbm_flags_def aosp_usage_def sample_platform_def Let_def gbm_flags)

theorem buffer_new_spec_witness:
  "\<exists>r. gralloc_gbm_android_buffer_new sample_platform sample_desc sample_world = r
    \<and> ((\<exists>w'. r = Inr (- EINVAL, None, w')) \<or> (\<exists>h s w'. r = Inr (0, Some (h, s), w')
        \<and> new_buffer sample_platform sample_live sample_world [1] 640 480 sample_desc h s w'))"
proof -
  have "new_buffer_size sample_platform sample_desc (gralloc_gbm_calculate_gbm_flags sample_platform
      (ucast (ad_usage sample_desc)) (color_fmt_a2g (hal sample_platform) (ad_format sample_desc))) = Inr (640, 480)"
    using sample_flags by (simp add: sample_desc_def new_buffer_size_def gbm_flags aosp_hal_def)
  from buffer_new_spec [OF sample_platform_ok sample_service this] show ?thesis
    by (auto simp: sample_not_exhausted refusal_def sample_not_starved)
qed

text \<open>C17: an import of a handle adds one unlocked buffer under the descriptor of the handle; or it fails
  with \<open>-EINVAL\<close>, or with \<open>-ENOMEM\<close> when memory is lacking, and changes no buffer; or memory is lacking where
  the code does not check for it. The success ends in a log line that reads the freed import
  descriptor, so it is a use after free where such a read traps.\<close>

theorem buffer_import_spec:
  assumes "platform_ok P live" and "service_ok P live w xs" and "handles w h = Some g" and "h \<noteq> NULL"
  shows "exhausted (mem_oom P) w (gralloc_gbm_android_buffer_import P h w)
    \<or> (\<exists>e w'. gralloc_gbm_android_buffer_import P h w = Inr (e, w') \<and> refusal (mem_oom P) w e
         \<and> no_change P live w xs w' \<and> handles w' = handles w)
    \<or> (\<exists>w'. gralloc_gbm_android_buffer_import P h w = (if stale_import P then Inr (0, w') else Inl UseAfterFree)
         \<and> imported P live w xs g w')"
  using import_ok [of P live w xs h g] assms by (simp add: platform_ok_def service_ok_def)

theorem buffer_import_spec_witness:
  "\<exists>r. gralloc_gbm_android_buffer_import sample_platform 3 sample_world = r
    \<and> ((\<exists>w'. r = Inr (- EINVAL, w')) \<or> (\<exists>w'. r = Inr (0, w')
        \<and> imported sample_platform sample_live sample_world [1] sample_handle w'))"
  using buffer_import_spec [OF sample_platform_ok sample_service sample_world_values(1)]
  by (auto simp: sample_not_exhausted refusal_def sample_not_starved)

text \<open>C10: the release of a managed buffer succeeds, removes exactly one buffer of its descriptor, and
  destroys its object. It frees the user data and the two metadata blocks it points to, once each, and
  nothing else; the third block, of the SMPTE 2094-50 payload, is never freed.\<close>

theorem buffer_free_spec:
  assumes "platform_ok P live" and "service_ok P live w xs" and "handles w h = Some g" and "h \<noteq> NULL"
    and "find_buffer_k (prime_fd g) w = Inr a" and "a \<noteq> NULL"
  shows "a \<in> set xs \<and> (\<exists>w'. gralloc_gbm_android_buffer_free P h w = Inr (0, w') \<and> released P live w xs a w')"
  using free_ok [of P live w xs h g a] assms by (simp add: platform_ok_def service_ok_def)

theorem buffer_free_spec_witness:
  "\<exists>w'. gralloc_gbm_android_buffer_free sample_platform 3 sample_world = Inr (0, w')
     \<and> world_ok sample_platform sample_live w' [] \<and> bo_data w' 2 = None"
proof -
  have "find_buffer_k (prime_fd sample_handle) sample_world = Inr 1" by (simp only: sample_world_values sample_find)
  then obtain w' where w': "gralloc_gbm_android_buffer_free sample_platform 3 sample_world = Inr (0, w')"
    "released sample_platform sample_live sample_world [1] 1 w'"
    using buffer_free_spec [OF sample_platform_ok sample_service sample_world_values(1), of 1] by auto
  then have "bo_data w' 2 = None" using sample_world_values(6) by (auto simp: released_def dom_def)
  then show ?thesis using w' by (auto simp: released_def)
qed

section \<open>Locks and queries\<close>

text \<open>C8: a permitted lock of a managed buffer behaves as the abstract lock state says: an unlocked
  buffer is locked (for a CPU usage it is mapped and the address returned, or the mapping fails with
  \<open>-ENOMEM\<close> and it stays unlocked); a buffer locked without CPU access is locked once more when the
  usage is part of the first lock's and refused otherwise; no other buffer changes.\<close>

theorem buffer_lock_refines:
  assumes "platform_ok P live" and "service_ok P live w xs" and "lock_permitted P g usage" and "rect_ok t bt l r"
    and "handles w h = Some g" and "h \<noteq> NULL" and "find_buffer_k (prime_fd g) w = Inr a" and "a \<noteq> NULL"
    and "lock_room P w g"
  shows "\<exists>i st ret out' st' w'. i < length xs \<and> a = xs ! i \<and> abs_world P w xs ! i = (prime_fd g, st)
     \<and> gralloc_gbm_android_buffer_lock P h usage t bt l r out w = Inr (ret, out', w')
     \<and> lock_spec P usage out st ret out' st' \<and> relocked P live w xs i st' w'"
proof -
  have "int n + 1 < 2 ^ 31" if "lock_of P w a = DevLocked v n" for v n
    using assms(7,9) that by (simp add: lock_room_def)
  with lock_ok_step [of P live w xs g usage t bt l r h a] assms show ?thesis
    by (simp add: platform_ok_def service_ok_def)
qed

lemma sample_lock_facts:
  "lock_permitted sample_platform sample_handle 0x33" "rect_ok 0 64 0 64"
  "find_buffer_k (prime_fd sample_handle) sample_world = Inr 1"
  "lock_room sample_platform sample_world sample_handle"
proof -
  show f: "find_buffer_k (prime_fd sample_handle) sample_world = Inr 1" by (simp only: sample_world_values sample_find)
  show "lock_permitted sample_platform sample_handle 0x33"
    by (simp add: lock_permitted_def aosp_usage_def sample_handle_def)
  show "rect_ok 0 64 0 64" by (simp add: rect_ok_def int_result_def)
  show "lock_room sample_platform sample_world sample_handle"
    using sample_world_values(7) by (simp only: lock_room_def f) simp
qed

lemma sample_sw: "0x33 AND SW_MASK sample_platform \<noteq> 0" "gralloc_usage.HW_FB aosp_usage AND 0x33 = 0"
  by (simp_all add: SW_MASK_def aosp_usage_def)

theorem buffer_lock_refines_witness:
  "\<exists>ret out' st' w'. gralloc_gbm_android_buffer_lock sample_platform 3 0x33 0 64 0 64 0 sample_world = Inr (ret, out', w')
     \<and> lock_spec sample_platform 0x33 0 Unlocked ret out' st'
     \<and> abs_world sample_platform w' [1] = [(5, st')]"
proof -
  obtain i st ret out' st' w' where r: "i < length [1::nat]" "abs_world sample_platform sample_world [1] ! i = (prime_fd sample_handle, st)"
    "gralloc_gbm_android_buffer_lock sample_platform 3 0x33 0 64 0 64 0 sample_world = Inr (ret, out', w')"
    "lock_spec sample_platform 0x33 0 st ret out' st'" "relocked sample_platform sample_live sample_world [1] i st' w'"
    using buffer_lock_refines [OF sample_platform_ok sample_service sample_lock_facts(1,2) sample_world_values(1) _
      sample_lock_facts(3) _ sample_lock_facts(4), of 0] by auto
  then have "st = Unlocked" "abs_world sample_platform w' [1] = [(5, st')]"
    using sample_abs by (auto simp: relocked_def)
  then show ?thesis using r by blast
qed

text \<open>C24: a buffer locked for the CPU refuses every further lock, even for the same usage, and
  nothing changes. (The comment in the code promises \<open>multiple locks with compatible usages\<close>; the
  mapping that already exists makes the second one fail.)\<close>

theorem cpu_lock_is_exclusive:
  assumes "platform_ok P live" and "service_ok P live w xs" and "handles w h = Some g" and "h \<noteq> NULL"
    and "find_buffer_k (prime_fd g) w = Inr a" and "a \<noteq> NULL" and "rect_ok t bt l r"
    and "lock_of P w a = CpuLocked v"
  shows "gralloc_gbm_android_buffer_lock P h usage t bt l r out w = Inr (- EINVAL, out, w)"
proof -
  have law: "gbm_laws (api P) live" and ok: "world_ok P live w xs" and rdy: "ready_world w"
    using assms(1,2) by (simp_all add: platform_ok_def service_ok_def)
  obtain x y where xy: "int_result (sint r - sint l) = Inr x" "int_result (sint bt - sint t) = Inr y"
    by (rule rect_okD [OF assms(7)])
  show ?thesis
  proof (cases "lock_permitted P g usage")
    case False
    then show ?thesis using assms(3,4) rdy xy
      by (auto simp: gralloc_gbm_android_buffer_lock_def lock_permitted_def)
  next
    case True
    obtain i b bd where o: "nodes w a = Some b" "owner_ok P live w a" "bo_data w (data_of P w a) = Some bd" "lock_ok P bd"
      by (rule managed_owner [OF law ok assms(3-6)])
    note run = lock_unfold [OF ok law ready_world_is_ready [OF rdy] assms(3-6) True assms(7) o(1,3), of out]
    have "abs_lock P bd = CpuLocked v" using assms(8) o(3) by (simp add: lock_of_Some)
    with o(4) show ?thesis
    proof (cases rule: lock_word_cases)
      case cpu
      then show ?thesis using run lock_maps(1) [OF law o(2,1,3)] or_and_nonzero [OF cpu(2), of usage]
        by (auto simp: Let_def errno_defs)
    qed simp_all
  qed
qed

text \<open>The sample buffer, locked for the CPU.\<close>

definition sample_locked :: "addr option list world" where
  "sample_locked = sample_world\<lparr>bo_data := (bo_data sample_world)(2 \<mapsto>
     (the (bo_data sample_world 2))\<lparr>map_data := 1, lock_count := 1, locked_for := 0x33\<rparr>)\<rparr>"

lemma sample_locked_facts:
  "service_ok sample_platform sample_live sample_locked [1]" "lock_of sample_platform sample_locked 1 = CpuLocked 0x33"
  "handles sample_locked 3 = Some sample_handle" "find_buffer_k (prime_fd sample_handle) sample_locked = Inr 1"
proof -
  let ?bd = "zero_bo_data\<lparr>metadata := (metadata zero_bo_data)\<lparr>smpte2086 := 4, cta861_3 := 5\<rparr>\<rparr>"
  let ?bd' = "?bd\<lparr>map_data := 1, lock_count := 1, locked_for := 0x33\<rparr>"
  have bd: "bo_data sample_world 2 = Some ?bd" by (simp add: sample_world_def)
  have eq: "sample_locked = sample_world\<lparr>bo_data := (bo_data sample_world)(2 \<mapsto> ?bd'), ext := ext sample_world\<rparr>"
    by (simp add: sample_locked_def bd)
  have lk: "lock_ok sample_platform ?bd'" "abs_lock sample_platform ?bd' = CpuLocked 0x33"
    using sample_sw by (simp_all add: lock_ok_def abs_lock_def)
  note u = world_ok_update [OF sample_world_ok _ sample_world_values(6) [symmetric] bd lk(1) _ same_objects_refl eq]
  have "world_ok sample_platform sample_live sample_locked [1]" by (rule u(1)) simp_all
  then show "service_ok sample_platform sample_live sample_locked [1]"
    using sample_ready by (simp add: service_ok_def ready_world_def sample_locked_def)
  have "lock_of sample_platform sample_locked 1 = (if (1::nat) = 1 then abs_lock sample_platform ?bd' else lock_of sample_platform sample_world 1)"
    by (rule u(3)) simp_all
  then show "lock_of sample_platform sample_locked 1 = CpuLocked 0x33" using lk by simp
  show "handles sample_locked 3 = Some sample_handle" using sample_world_values(1) by (simp add: sample_locked_def)
  have "find_buffer_k (prime_fd sample_handle) sample_locked = find_buffer_k (prime_fd sample_handle) sample_world"
    by (rule find_buffer_k_cong) (simp_all add: sample_locked_def)
  then show "find_buffer_k (prime_fd sample_handle) sample_locked = Inr 1" using sample_lock_facts(3) by simp
qed

theorem cpu_lock_is_exclusive_witness:
  "gralloc_gbm_android_buffer_lock sample_platform 3 0x33 0 64 0 64 9 sample_locked = Inr (- EINVAL, 9, sample_locked)"
  using cpu_lock_is_exclusive [OF sample_platform_ok sample_locked_facts(1,3) _ sample_locked_facts(4) _
    sample_lock_facts(2) sample_locked_facts(2)] by simp

text \<open>C9: unlocking a managed buffer always returns 0 and undoes one lock: a CPU lock is unmapped and
  released, the last of several other locks releases the buffer, an unlocked buffer stays as it is.\<close>

theorem buffer_unlock_refines:
  assumes "platform_ok P live" and "service_ok P live w xs" and "handles w h = Some g" and "h \<noteq> NULL"
    and "find_buffer_k (prime_fd g) w = Inr a" and "a \<noteq> NULL"
  shows "\<exists>i st w'. i < length xs \<and> a = xs ! i \<and> abs_world P w xs ! i = (prime_fd g, st)
     \<and> gralloc_gbm_android_buffer_unlock P h w = Inr (0, w') \<and> relocked P live w xs i (unlock_spec st) w'"
  using unlock_ok_step [of P live w xs h g a] assms by (simp add: platform_ok_def service_ok_def)

theorem buffer_unlock_refines_witness:
  "\<exists>w'. gralloc_gbm_android_buffer_unlock sample_platform 3 sample_locked = Inr (0, w')
     \<and> abs_world sample_platform w' [1] = [(5, Unlocked)]"
proof -
  obtain i st w' where r: "i < length [1::nat]" "(1::nat) = [1] ! i"
    "abs_world sample_platform sample_locked [1] ! i = (prime_fd sample_handle, st)"
    "gralloc_gbm_android_buffer_unlock sample_platform 3 sample_locked = Inr (0, w')"
    "relocked sample_platform sample_live sample_locked [1] i (unlock_spec st) w'"
    using buffer_unlock_refines [OF sample_platform_ok sample_locked_facts(1,3) _ sample_locked_facts(4)] by auto
  have "abs_world sample_platform sample_locked [1] ! i = (fld buf_fd (nodes sample_locked) 1, CpuLocked 0x33)"
    using r(1) sample_locked_facts(2) abs_world_nth [of i "[1]" sample_platform sample_locked] by simp
  then have "st = CpuLocked 0x33" using r(3) by simp
  moreover have "length (abs_world sample_platform w' [1]) = 1" by simp
  ultimately show ?thesis using r sample_world_values(2) by (auto simp: relocked_def abs_world_def)
qed

text \<open>A lock and an unlock of an unlocked buffer leave the lock states of all buffers as they
  were.\<close>

theorem lock_unlock_roundtrip:
  assumes "platform_ok P live" and "service_ok P live w xs" and "lock_permitted P g usage" and "rect_ok t bt l r"
    and "handles w h = Some g" and "h \<noteq> NULL" and "find_buffer_k (prime_fd g) w = Inr a" and "a \<noteq> NULL"
    and "lock_of P w a = Unlocked"
  shows "\<exists>ret out' w1 w2. gralloc_gbm_android_buffer_lock P h usage t bt l r out w = Inr (ret, out', w1)
     \<and> gralloc_gbm_android_buffer_unlock P h w1 = Inr (0, w2)
     \<and> service_ok P live w2 xs \<and> abs_world P w2 xs = abs_world P w xs"
proof -
  have room: "int n + 1 < 2 ^ 31" if "lock_of P w a = DevLocked v n" for v n using assms(9) that by simp
  have env: "gbm_laws (api P) live" "map_keeps_stride (api P)" "world_ok P live w xs" "ready_world w"
    using assms(1,2) by (simp_all add: platform_ok_def service_ok_def)
  from lock_ok_step [OF env(1-3) ready_world_is_ready [OF env(4)] assms(3-8)] room obtain i st ret out' st' w1 where
    l: "i < length xs" "a = xs ! i" "abs_world P w xs ! i = (prime_fd g, st)"
     "gralloc_gbm_android_buffer_lock P h usage t bt l r out w = Inr (ret, out', w1)"
     "lock_spec P usage out st ret out' st'" "relocked P live w xs i st' w1" by blast
  have st: "st = Unlocked" using l(1,2,3) assms(9) by (simp add: abs_world_nth)
  have w1: "world_ok P live w1 xs" "handles w1 h = Some g" "find_buffer_k (prime_fd g) w1 = Inr a"
    using l(6) assms(5,7) by (simp_all add: relocked_def)
  obtain j st1 w2 where u: "j < length xs" "a = xs ! j" "abs_world P w1 xs ! j = (prime_fd g, st1)"
    "gralloc_gbm_android_buffer_unlock P h w1 = Inr (0, w2)" "relocked P live w1 xs j (unlock_spec st1) w2"
    using unlock_ok_step [OF env(1) w1(1,2) assms(6) w1(3) assms(8)] by blast
  have "distinct xs" using hash_inv_members(1) [OF world_okD(1) [OF env(3)]] .
  then have ji: "j = i" using l(1,2) u(1,2) nth_eq_iff_index_eq by blast
  have a1: "abs_world P w1 xs = (abs_world P w xs)[i := (prime_fd g, st')]"
    using l(3,6) by (simp add: relocked_def)
  then have "st1 = st'" using u(3) l(1) ji by simp
  moreover have "unlock_spec st' = Unlocked" using l(5) st by (auto split: if_splits)
  ultimately have "abs_world P w2 xs = (abs_world P w xs)[i := (prime_fd g, Unlocked)]"
    using u(5) a1 ji l(1) by (simp add: relocked_def)
  then have "abs_world P w2 xs = abs_world P w xs" using l(3) st by (metis list_update_id)
  moreover have "service_ok P live w2 xs"
    using u(5) l(6) env(4) by (simp add: relocked_def service_ok_def ready_world_def)
  ultimately show ?thesis using l(4) u(4) by blast
qed

theorem lock_unlock_roundtrip_witness:
  "\<exists>ret out' w1 w2. gralloc_gbm_android_buffer_lock sample_platform 3 0x33 0 64 0 64 0 sample_world = Inr (ret, out', w1)
     \<and> gralloc_gbm_android_buffer_unlock sample_platform 3 w1 = Inr (0, w2)
     \<and> abs_world sample_platform w2 [1] = [(5, Unlocked)]"
  using lock_unlock_roundtrip [OF sample_platform_ok sample_service sample_lock_facts(1,2) sample_world_values(1) _
      sample_lock_facts(3) _ sample_world_values(7), of 0] sample_abs by auto

text \<open>The refusals of a lock, in the order of the code: without the driver \<open>-ENODEV\<close>; a
  framebuffer usage, a usage the buffer was not allocated for, or a handle that is not managed give
  \<open>-EINVAL\<close>; the world and the out pointer are left alone.\<close>

theorem buffer_lock_refusals:
  assumes "handles w h = Some g" and "h \<noteq> NULL" and "rect_ok t bt l r"
    and "is_gralloc_gbm_ready P w = Inr rdy"
    and "rdy \<Longrightarrow> usage AND HW_FB (gu P) \<noteq> 0 \<or> \<not> lock_permitted P g usage \<or> find_buffer_k (prime_fd g) w = Inr NULL"
  shows "gralloc_gbm_android_buffer_lock P h usage t bt l r out w
    = Inr (if rdy then - EINVAL else - ENODEV, out, w)"
proof -
  obtain x y where xy: "int_result (sint r - sint l) = Inr x" "int_result (sint bt - sint t) = Inr y"
    by (rule rect_okD [OF assms(3)])
  show ?thesis
    using assms(1,2,4,5) xy by (cases rdy) (auto simp: gralloc_gbm_android_buffer_lock_def lock_permitted_def)
qed

theorem buffer_lock_refusals_witness:
  "gralloc_gbm_android_buffer_lock sample_platform 3 0x1000 0 64 0 64 9 sample_world = Inr (- EINVAL, 9, sample_world)
   \<and> gralloc_gbm_android_buffer_lock sample_platform 3 0x33 0 64 0 64 9 (sample_world\<lparr>g_driver := None\<rparr>)
     = Inr (- ENODEV, 9, sample_world\<lparr>g_driver := None\<rparr>)"
proof
  have "(0x1000::i32) AND HW_FB (gu sample_platform) \<noteq> 0" by (simp add: aosp_usage_def)
  then show "gralloc_gbm_android_buffer_lock sample_platform 3 0x1000 0 64 0 64 9 sample_world = Inr (- EINVAL, 9, sample_world)"
    using buffer_lock_refusals [OF sample_world_values(1) _ sample_lock_facts(2), of sample_platform True] sample_ready by simp
  have "is_gralloc_gbm_ready sample_platform (sample_world\<lparr>g_driver := None\<rparr>) = Inr False"
    by (simp add: is_gralloc_gbm_ready_def)
  then show "gralloc_gbm_android_buffer_lock sample_platform 3 0x33 0 64 0 64 9 (sample_world\<lparr>g_driver := None\<rparr>)
     = Inr (- ENODEV, 9, sample_world\<lparr>g_driver := None\<rparr>)"
    using buffer_lock_refusals [of "sample_world\<lparr>g_driver := None\<rparr>" 3 sample_handle, OF _ _ sample_lock_facts(2), of sample_platform False]
      sample_world_values(1) by simp
qed

text \<open>A query of a managed buffer returns the properties of its object and handle and the
  metadata of its user data, with the size the 32-bit product of stride and height, and changes no
  buffer. It needs a format with a number of bytes per pixel.\<close>

theorem buffer_query_spec:
  assumes "platform_ok P live" and "service_ok P live w xs" and "stride_defined P (gh_format g)"
    and "handles w h = Some g" and "h \<noteq> NULL" and "find_buffer_k (prime_fd g) w = Inr a" and "a \<noteq> NULL"
  shows "\<exists>w'. gralloc_gbm_android_buffer_query P h w = Inr (0, Some (buffer_info P w g a), w')
    \<and> no_change P live w xs w' \<and> (\<exists>e. w' = w\<lparr>ext := e\<rparr>)"
  using query_ok [of P live w xs g h a] assms by (simp add: platform_ok_def service_ok_def)

lemma sample_a2g: "color_fmt_a2g aosp_hal 1 = GBM_FORMAT_ABGR8888"
proof -
  let ?r = "color_format_map aosp_hal ! 0"
  have "?r \<in> set (color_format_map aosp_hal)" "cf_android_format ?r = 1" "cf_gbm_format ?r = GBM_FORMAT_ABGR8888"
    by (simp_all add: color_format_map_def aosp_hal_def)
  then show ?thesis using a2g.scan_hit [of aosp_hal ?r] aosp_hal_distinct by (simp add: hal_formats_distinct_def)
qed

lemma sample_stride: "stride_defined sample_platform (gh_format sample_handle)"
  using sample_a2g sample_world_values(3) by (simp add: stride_defined_def color_bytes_values)

theorem buffer_query_spec_witness:
  "\<exists>w' info. gralloc_gbm_android_buffer_query sample_platform 3 sample_world = Inr (0, Some info, w')
    \<and> info_width info = 64 \<and> info_size info = 16384 \<and> info_stride info = 64"
proof -
  obtain w' where "gralloc_gbm_android_buffer_query sample_platform 3 sample_world
      = Inr (0, Some (buffer_info sample_platform sample_world sample_handle 1), w')"
    using buffer_query_spec [OF sample_platform_ok sample_service sample_stride sample_world_values(1) _ sample_lock_facts(3)] by auto
  moreover have "\<not> GBM_FORMAT_ABGR8888 \<le> 0" by (simp add: fourcc_vals)
  then have "gralloc_gbm_calculate_android_pixel_stride sample_platform 1 256 = Inr 64"
    using sample_a2g by (simp add: gralloc_gbm_calculate_android_pixel_stride_def color_bytes_values)
  ultimately show ?thesis using sample_world_values(3)
    by (auto simp: buffer_info_def Let_def sample_api_def)
qed

end
