(* ===== verification/Gbm_Policy.thy ===== *)
theory Gbm_Policy
  imports Gbm_Props
begin

text \<open>
  The stateless decisions of the back end (the translation of usage bits, the descriptors it supports,
  the sizes it allocates and imports with, the pixel stride) and the life of the driver.
\<close>

unbundle bit_operations_syntax

section \<open>Flags\<close>

text \<open>The usage bits that ask for each flag.\<close>

fun asks :: "i32 \<Rightarrow> i32 list \<Rightarrow> bool" where
  "asks usage [] \<longleftrightarrow> False"
| "asks usage (b # bs) \<longleftrightarrow> usage AND b \<noteq> 0 \<or> asks usage bs"

lemma or_if: "(if c then f OR x else f) = f OR (if c then x else 0)" for f x :: "'a::len word"
  by simp

lemma and_or_nonzero: "(a OR b) AND m \<noteq> 0 \<longleftrightarrow> a AND m \<noteq> 0 \<or> b AND m \<noteq> 0" for a b m :: "'a::len word"
  by (metis bit.conj_disj_distrib2 or_eq_0_iff)

lemma if_and_nonzero: "(if c then x else 0) AND m \<noteq> 0 \<longleftrightarrow> c \<and> x AND m \<noteq> 0" for x m :: "'a::len word"
  by simp

text \<open>The flags before the tests for combinations.\<close>

definition requested_flags :: "'e platform \<Rightarrow> i32 \<Rightarrow> u32" where
  "requested_flags P usage =
    (let u = gu P in
     (if asks usage [SW_READ_OFTEN u, SW_READ_RARELY u, SW_WRITE_OFTEN u, SW_WRITE_RARELY u] then 16 else 0)
     OR (if GRALLOC_GBM_USE_SW_RENDER (cfg P) \<and> asks usage [SW_WRITE_OFTEN u, SW_WRITE_RARELY u] then 8 else 0)
     OR (if asks usage [HW_TEXTURE u, HW_RENDER u, HW_2D u, HW_COMPOSER u] then 4 else 0)
     OR (if asks usage [HW_COMPOSER u, HW_FB u] then 1 else 0)
     OR (if asks usage [PROTECTED u] then 32 else 0)
     OR (if 35 \<le> ANDROID_API_LEVEL (cfg P) \<and> asks usage [USAGE_CURSOR u] then 2 else 0))"

lemma if_or_cond: "(if c \<or> d then x else 0) = (if c then x else 0) OR (if d then x else 0)" for x :: "'a::len word"
  by simp

lemma if_or_val: "(if c then x OR y else 0) = (if c then x else 0) OR (if c then y else 0)" for x y :: "'a::len word"
  by simp

lemma if_if_val: "(if c then (if s then x else 0) else 0) = (if s \<and> c then x else 0)" for x :: "'a::len word"
  by simp

lemma conj_disj_right: "s \<and> (c \<or> d) \<longleftrightarrow> s \<and> c \<or> s \<and> d"
  by blast

lemma if_zero: "(if c then 0 else 0) = (0 :: 'a::len word)"
  by simp

lemma flags_split:
  "gralloc_gbm_calculate_gbm_flags P usage f =
    (let r = requested_flags P usage in
     if r AND 8 \<noteq> 0 \<and> r AND 2 \<noteq> 0 \<and> f \<noteq> GBM_FORMAT_ARGB8888 then r
     else if r AND 8 \<noteq> 0 \<and> r AND 1 \<noteq> 0 \<and> (f \<noteq> GBM_FORMAT_XRGB8888 \<and> f \<noteq> GBM_FORMAT_XBGR8888) then r
     else if r AND 2 \<noteq> 0 \<and> r AND 4 \<noteq> 0 \<and> GRALLOC_GBM_NO_CURSOR_RENDERING (cfg P) then r AND NOT 2 else r)"
  unfolding gralloc_gbm_calculate_gbm_flags_def requested_flags_def asks.simps
  by (simp only: or.assoc or_if,
      simp only: Let_def gbm_flags if_or_val if_zero if_if_val or.right_neutral or.left_neutral or.assoc
        if_or_cond simp_thms conj_disj_right,
      simp only: or.assoc or.commute or.left_commute or.left_idem)

lemma requested_bits:
  "requested_flags P usage AND 1 \<noteq> 0 \<longleftrightarrow> asks usage [HW_COMPOSER (gu P), HW_FB (gu P)]"
  "requested_flags P usage AND 2 \<noteq> 0 \<longleftrightarrow> 35 \<le> ANDROID_API_LEVEL (cfg P) \<and> asks usage [USAGE_CURSOR (gu P)]"
  "requested_flags P usage AND 4 \<noteq> 0 \<longleftrightarrow> asks usage [HW_TEXTURE (gu P), HW_RENDER (gu P), HW_2D (gu P), HW_COMPOSER (gu P)]"
  "requested_flags P usage AND 8 \<noteq> 0 \<longleftrightarrow> GRALLOC_GBM_USE_SW_RENDER (cfg P) \<and> asks usage [SW_WRITE_OFTEN (gu P), SW_WRITE_RARELY (gu P)]"
  "requested_flags P usage AND 16 \<noteq> 0 \<longleftrightarrow>
     asks usage [SW_READ_OFTEN (gu P), SW_READ_RARELY (gu P), SW_WRITE_OFTEN (gu P), SW_WRITE_RARELY (gu P)]"
  "requested_flags P usage AND 32 \<noteq> 0 \<longleftrightarrow> asks usage [PROTECTED (gu P)]"
  unfolding requested_flags_def Let_def and_or_nonzero if_and_nonzero by simp_all

lemma requested_range: "requested_flags P usage AND NOT 63 = 0"
proof -
  have "\<not> requested_flags P usage AND NOT 63 \<noteq> 0"
    unfolding requested_flags_def Let_def and_or_nonzero if_and_nonzero by simp
  then show ?thesis by simp
qed

lemma mask_away: "(r AND NOT 2) AND 1 = r AND 1" "(r AND NOT 2) AND 4 = r AND 4" "(r AND NOT 2) AND 8 = r AND 8"
  "(r AND NOT 2) AND 16 = r AND 16" "(r AND NOT 2) AND 32 = r AND 32" "(r AND NOT 2) AND 2 = 0" for r :: u32
  by (simp_all add: and.assoc)

text \<open>The tests for combinations keep the flags in the first two cases and drop the cursor flag in
  the third.\<close>

definition cursor_dropped :: "'e platform \<Rightarrow> i32 \<Rightarrow> u32 \<Rightarrow> bool" where
  "cursor_dropped P usage f \<longleftrightarrow>
    (let u = gu P; wr = GRALLOC_GBM_USE_SW_RENDER (cfg P) \<and> asks usage [SW_WRITE_OFTEN u, SW_WRITE_RARELY u] in
     GRALLOC_GBM_NO_CURSOR_RENDERING (cfg P) \<and> asks usage [HW_TEXTURE u, HW_RENDER u, HW_2D u, HW_COMPOSER u]
     \<and> \<not> (wr \<and> f \<noteq> GBM_FORMAT_ARGB8888)
     \<and> \<not> (wr \<and> asks usage [HW_COMPOSER u, HW_FB u] \<and> f \<noteq> GBM_FORMAT_XRGB8888 \<and> f \<noteq> GBM_FORMAT_XBGR8888))"

lemma final_flags:
  "gralloc_gbm_calculate_gbm_flags P usage f = requested_flags P usage AND NOT 2 \<and> cursor_dropped P usage f
    \<or> gralloc_gbm_calculate_gbm_flags P usage f = requested_flags P usage
      \<and> (requested_flags P usage AND 2 \<noteq> 0 \<longrightarrow> \<not> cursor_dropped P usage f)"
proof -
  define r where "r = requested_flags P usage"
  note bits = requested_bits [of P usage, folded r_def]
  have "cursor_dropped P usage f \<longleftrightarrow> GRALLOC_GBM_NO_CURSOR_RENDERING (cfg P) \<and> r AND 4 \<noteq> 0
     \<and> \<not> (r AND 8 \<noteq> 0 \<and> f \<noteq> GBM_FORMAT_ARGB8888)
     \<and> \<not> (r AND 8 \<noteq> 0 \<and> r AND 1 \<noteq> 0 \<and> f \<noteq> GBM_FORMAT_XRGB8888 \<and> f \<noteq> GBM_FORMAT_XBGR8888)"
    unfolding cursor_dropped_def Let_def bits by blast
  then show ?thesis unfolding flags_split r_def [symmetric] Let_def by presburger
qed

lemma final_bits:
  fixes F r :: u32
  assumes "F = r AND NOT 2 \<and> d \<or> F = r \<and> (r AND 2 \<noteq> 0 \<longrightarrow> \<not> d)" "r AND NOT 63 = 0"
  shows "F AND 1 = r AND 1" "F AND 4 = r AND 4" "F AND 8 = r AND 8" "F AND 16 = r AND 16" "F AND 32 = r AND 32"
    "F AND 2 \<noteq> 0 \<longleftrightarrow> r AND 2 \<noteq> 0 \<and> \<not> d" "F AND NOT 63 = 0"
proof -
  have "(r AND NOT 2) AND NOT 63 = 0" using assms(2) by (metis and.assoc and.commute and_zero_eq)
  then show "F AND 1 = r AND 1" "F AND 4 = r AND 4" "F AND 8 = r AND 8" "F AND 16 = r AND 16" "F AND 32 = r AND 32"
    "F AND 2 \<noteq> 0 \<longleftrightarrow> r AND 2 \<noteq> 0 \<and> \<not> d" "F AND NOT 63 = 0"
    using assms mask_away [of r] by metis+
qed

text \<open>Each flag is set exactly for its usage bits: LINEAR for CPU access, WRITE for CPU writing in
  builds that render in software, RENDERING for textures, render targets and the composer, SCANOUT for
  the composer and framebuffers, PROTECTED for protected content, CURSOR for cursors from API level 35
  unless rendering was asked for too, the build forbids that combination and no other bad combination
  came first. No other bit is ever set.\<close>

theorem gbm_flags_spec:
  "let F = gralloc_gbm_calculate_gbm_flags P usage f; u = gu P in
     (F AND GBM_BO_USE_LINEAR \<noteq> 0 \<longleftrightarrow> asks usage [SW_READ_OFTEN u, SW_READ_RARELY u, SW_WRITE_OFTEN u, SW_WRITE_RARELY u])
   \<and> (F AND GBM_BO_USE_WRITE \<noteq> 0 \<longleftrightarrow> GRALLOC_GBM_USE_SW_RENDER (cfg P) \<and> asks usage [SW_WRITE_OFTEN u, SW_WRITE_RARELY u])
   \<and> (F AND GBM_BO_USE_RENDERING \<noteq> 0 \<longleftrightarrow> asks usage [HW_TEXTURE u, HW_RENDER u, HW_2D u, HW_COMPOSER u])
   \<and> (F AND GBM_BO_USE_SCANOUT \<noteq> 0 \<longleftrightarrow> asks usage [HW_COMPOSER u, HW_FB u])
   \<and> (F AND GBM_BO_USE_PROTECTED \<noteq> 0 \<longleftrightarrow> asks usage [PROTECTED u])
   \<and> (F AND GBM_BO_USE_CURSOR \<noteq> 0 \<longleftrightarrow> 35 \<le> ANDROID_API_LEVEL (cfg P) \<and> asks usage [USAGE_CURSOR u]
        \<and> \<not> cursor_dropped P usage f)
   \<and> F AND NOT 63 = 0"
  using final_bits [OF final_flags requested_range, of P usage f] requested_bits [of P usage]
  unfolding Let_def gbm_flags by simp

section \<open>Supported descriptors\<close>

definition sample_signed_desc :: allocator_desc_t where
  "sample_signed_desc = \<lparr>ad_name = None, ad_width = - 1, ad_height = - 5, ad_layer_count = 1, ad_format = 77,
     ad_usage = 0x33, ad_reserved_size = 0\<rparr>"

lemma refused_or: "(if c then Inr False else Inr b) = Inr (\<not> c \<and> b)"
  by simp

text \<open>What a ready back end accepts: a usage that is not 0, sizes up to 16384 as signed numbers
  (so every negative size passes), no software-written cursor in another format than ARGB8888, no
  software-written scanout in another format than the two without alpha, no rendered cursor unless the
  build removes the flag; the device decides the rest. The format check rejects nothing.\<close>

theorem desc_supported_spec:
  assumes "g_driver w = Some (Live d)" and "ready d"
  shows "gralloc_gbm_is_allocator_desc_supported P (Some ds) w =
    (let f = color_fmt_a2g (hal P) (ad_format ds); F = gralloc_gbm_calculate_gbm_flags P (ucast (ad_usage ds)) f in
     Inr (sint (ad_width ds) \<le> 16384 \<and> sint (ad_height ds) \<le> 16384 \<and> ad_usage ds \<noteq> 0
       \<and> \<not> (F AND GBM_BO_USE_WRITE \<noteq> 0 \<and> F AND GBM_BO_USE_CURSOR \<noteq> 0 \<and> f \<noteq> GBM_FORMAT_ARGB8888)
       \<and> \<not> (F AND GBM_BO_USE_WRITE \<noteq> 0 \<and> F AND GBM_BO_USE_SCANOUT \<noteq> 0 \<and> f \<notin> {GBM_FORMAT_XRGB8888, GBM_FORMAT_XBGR8888})
       \<and> \<not> (F AND GBM_BO_USE_CURSOR \<noteq> 0 \<and> F AND GBM_BO_USE_RENDERING \<noteq> 0 \<and> \<not> GRALLOC_GBM_NO_CURSOR_RENDERING (cfg P))
       \<and> gbm_device_is_format_supported (api P) (gbm_dev d) f F (ext w)))"
proof -
  have nz: "(color_fmt_a2g (hal P) (ad_format ds) \<le> 0) = False" using a2g_not_0 by simp
  have "is_gralloc_gbm_ready P w = Inr True" "deref_driver P w = Inr d"
    using assms by (simp_all add: is_gralloc_gbm_ready_def deref_driver_def)
  then have "gralloc_gbm_is_allocator_desc_supported P (Some ds) w =
    (let f = color_fmt_a2g (hal P) (ad_format ds); F = gralloc_gbm_calculate_gbm_flags P (ucast (ad_usage ds)) f in
     if \<not> (sint (ad_width ds) \<le> 16384 \<and> sint (ad_height ds) \<le> 16384) then Inr False
     else if ad_usage ds = 0 then Inr False
     else if F AND GBM_BO_USE_WRITE \<noteq> 0 \<and> F AND GBM_BO_USE_CURSOR \<noteq> 0 \<and> f \<noteq> GBM_FORMAT_ARGB8888 then Inr False
     else if F AND GBM_BO_USE_WRITE \<noteq> 0 \<and> F AND GBM_BO_USE_SCANOUT \<noteq> 0 \<and> f \<notin> {GBM_FORMAT_XRGB8888, GBM_FORMAT_XBGR8888} then Inr False
     else if F AND GBM_BO_USE_CURSOR \<noteq> 0 \<and> F AND GBM_BO_USE_RENDERING \<noteq> 0 \<and> \<not> GRALLOC_GBM_NO_CURSOR_RENDERING (cfg P) then Inr False
     else Inr (gbm_device_is_format_supported (api P) (gbm_dev d) f F (ext w)))"
    by (simp only: nz gralloc_gbm_is_allocator_desc_supported_def Let_def GRALLOC_GBM_WIDTH_MAX_def GRALLOC_GBM_HEIGHT_MAX_def
        and_then_Inr option.case if_False not_True_eq_False not_less de_Morgan_conj not_le insert_iff empty_iff simp_thms de_Morgan_disj)
  then show ?thesis by (simp only: Let_def refused_or not_not conj_assoc)
qed

theorem desc_supported_spec_witness:
  "gralloc_gbm_is_allocator_desc_supported sample_platform (Some sample_signed_desc) sample_world = Inr True"
proof -
  have "g_driver sample_world = Some (Live sample_driver)" "ready sample_driver"
    by (simp_all add: sample_world_def sample_driver_def)
  from desc_supported_spec [OF this, of sample_platform sample_signed_desc] show ?thesis
    by (simp add: sample_signed_desc_def sample_flags Let_def gbm_flags sample_api_def)
qed

section \<open>Sizes\<close>

lemma ALIGN_s_4:
  assumes "0 \<le> sint a" "sint a \<le> 2 ^ 20"
  shows "ALIGN_s a 4 = Inr (ALIGN a 4)"
proof -
  have four: "sint (4 :: i32) = 4" by (simp add: sint_sbintrunc' signed_take_bit_int_eq_self)
  have "sint (word_of_int (sint a + 4) :: i32) = sint a + 4" using assms by (intro sint_of_int) simp_all
  then show ?thesis
    using assms four by (simp add: ALIGN_s_def ALIGN_def int_result_def algebra_simps)
qed

lemma sint_nonneg_uint:
  assumes "0 \<le> sint (a :: i32)"
  shows "sint a = int (unat a)"
proof -
  have "uint a = take_bit 32 (sint a)" by (simp add: uint_sint)
  also have "\<dots> = sint a" using assms sint_lt [of a] by (simp add: take_bit_int_eq_self)
  finally show ?thesis by simp
qed

lemma ALIGN_4:
  assumes "unat a \<le> 2 ^ 20"
  shows "unat (ALIGN a 4) = (unat a + 3) div 4 * 4"
  using unat_ALIGN [of a 2] assms by simp

lemma ALIGN_4_idem:
  assumes "unat a \<le> 2 ^ 19"
  shows "ALIGN (ALIGN a 4) 4 = ALIGN a 4" "unat a \<le> unat (ALIGN a 4)" "unat (ALIGN a 4) \<le> 2 ^ 20"
proof -
  have a: "unat (ALIGN a 4) = (unat a + 3) div 4 * 4" using ALIGN_4 [of a] assms by simp
  then show le: "unat (ALIGN a 4) \<le> 2 ^ 20" using assms by simp
  show "unat a \<le> unat (ALIGN a 4)" using a by linarith
  from ALIGN_4 [OF le(1)] a have "unat (ALIGN (ALIGN a 4) 4) = unat (ALIGN a 4)" by simp
  then show "ALIGN (ALIGN a 4) 4 = ALIGN a 4" by (simp add: word_unat_eq_iff)
qed

text \<open>The size of the cursor case, and what the import makes of it.\<close>

lemma cursor_size:
  assumes "0 \<le> sint a" "sint a \<le> 16384"
  shows "ALIGN_s (MAX_s a 64) 4 = Inr (ALIGN (MAX_s a 64) 4)"
    "ALIGN (MAX_u (ALIGN (MAX_s a 64) 4) 64) 4 = ALIGN (MAX_s a 64) 4" "MAX_u (MAX_s a 64) 64 = MAX_s a 64"
proof -
  have s64: "sint (64 :: i32) = 64" by (simp add: sint_sbintrunc' signed_take_bit_int_eq_self)
  let ?m = "MAX_s a 64"
  have m: "64 \<le> sint ?m" "sint ?m \<le> 16384" using assms s64 by (auto simp: MAX_s_def)
  then have u: "64 \<le> unat ?m" "unat ?m \<le> 16384" using sint_nonneg_uint [of ?m] by linarith+
  show "ALIGN_s ?m 4 = Inr (ALIGN ?m 4)" using m by (intro ALIGN_s_4) simp_all
  have "unat ?m \<le> 2 ^ 19" using u(2) by simp
  note al = ALIGN_4_idem [OF this]
  have max: "MAX_u x 64 = x" if "64 \<le> unat x" for x :: u32
  proof -
    have "64 \<le> x" using that by (simp add: word_le_nat_alt)
    then show ?thesis by (auto simp: MAX_u_def)
  qed
  show "MAX_u ?m 64 = ?m" by (rule max [OF u(1)])
  have "MAX_u (ALIGN ?m 4) 64 = ALIGN ?m 4" by (rule max [OF order_trans [OF u(1) al(2)]])
  then show "ALIGN (MAX_u (ALIGN ?m 4) 64) 4 = ALIGN ?m 4" using al(1) by simp
qed

text \<open>C28: for every format but YV12 and every width and height from 0 to 16384 (the largest the library
  accepts) the size a buffer is allocated with can be computed, and is the size the same handle is
  imported with: the adjustment for cursors is idempotent. Near \<open>2 ^ 31\<close> the alignment for cursors overflows.\<close>

theorem import_size_roundtrip:
  assumes "ad_format ds \<noteq> HAL_PIXEL_FORMAT_YV12 (hal P)"
    and "0 \<le> sint (ad_width ds)" "sint (ad_width ds) \<le> 16384" "0 \<le> sint (ad_height ds)" "sint (ad_height ds) \<le> 16384"
  shows "\<exists>width height. new_buffer_size P ds flags = Inr (width, height)
    \<and> import_size P (g\<lparr>gh_width := width, gh_height := height, gh_format := ad_format ds\<rparr>) flags = (width, height)"
proof -
  note w = cursor_size [OF assms(2,3)] and h = cursor_size [OF assms(4,5)]
  consider (plain) "flags AND GBM_BO_USE_CURSOR = 0" | (raw) "flags AND GBM_BO_USE_CURSOR \<noteq> 0" "GRALLOC_GBM_NO_CURSOR_ALIGNING (cfg P)"
    | (aligned) "flags AND GBM_BO_USE_CURSOR \<noteq> 0" "\<not> GRALLOC_GBM_NO_CURSOR_ALIGNING (cfg P)" by blast
  then show ?thesis
  proof cases
    case plain
    then show ?thesis using assms(1) by (simp add: new_buffer_size_def import_size_def)
  next
    case raw
    then show ?thesis using assms(1) w h by (simp add: new_buffer_size_def import_size_def Let_def)
  next
    case aligned
    then show ?thesis using assms(1) w h by (simp add: new_buffer_size_def import_size_def Let_def)
  qed
qed

theorem import_size_roundtrip_witness:
  "\<exists>wh. new_buffer_size sample_platform sample_desc 2 = Inr wh
    \<and> import_size sample_platform (sample_handle\<lparr>gh_width := fst wh, gh_height := snd wh, gh_format := 1\<rparr>) 2 = wh"
proof -
  have "ad_format sample_desc \<noteq> HAL_PIXEL_FORMAT_YV12 (hal sample_platform)"
    "0 \<le> sint (ad_width sample_desc)" "sint (ad_width sample_desc) \<le> 16384"
    "0 \<le> sint (ad_height sample_desc)" "sint (ad_height sample_desc) \<le> 16384"
    by (simp_all add: sample_desc_def aosp_hal_def)
  from import_size_roundtrip [OF this, of 2 sample_handle] show ?thesis by (auto simp: sample_desc_def)
qed

text \<open>For YV12 the two disagree: the handle records the size that was already adjusted, and the
  import adjusts it again, so a 64x64 image allocated as 32x96 is imported as 16x144.\<close>

theorem yv12_import_size_differs:
  assumes "ad_format ds = HAL_PIXEL_FORMAT_YV12 (hal P)" "ad_width ds = 64" "ad_height ds = 64"
    and "flags AND GBM_BO_USE_CURSOR = 0"
  shows "new_buffer_size P ds flags = Inr (32, 96)
    \<and> import_size P (g\<lparr>gh_width := 32, gh_height := 96, gh_format := ad_format ds\<rparr>) flags = (16, 144)"
proof
  have c: "sint (64 :: i32) = 64" "sint (32 :: i32) = 32" "sint (2 :: i32) = 2" "sint (95 :: i32) = 95" "sint (96 :: i32) = 96"
     "sint (65 :: i32) = 65" "sint (66 :: i32) = 66"
    by (simp_all add: sint_sbintrunc' signed_take_bit_int_eq_self)
  show "new_buffer_size P ds flags = Inr (32, 96)"
    using assms by (simp add: new_buffer_size_def ALIGN_s_def int_result_def c sdiv32_def)
  show "import_size P (g\<lparr>gh_width := 32, gh_height := 96, gh_format := ad_format ds\<rparr>) flags = (16, 144)"
    using assms by (simp add: import_size_def ALIGN_def)
qed

theorem yv12_import_size_differs_witness:
  "new_buffer_size sample_platform (sample_desc\<lparr>ad_format := 0x32315659, ad_width := 64, ad_height := 64\<rparr>) 16 = Inr (32, 96)"
  using yv12_import_size_differs [of "sample_desc\<lparr>ad_format := 0x32315659, ad_width := 64, ad_height := 64\<rparr>" sample_platform 16]
  by (simp add: aosp_hal_def gbm_flags)

lemma unat_u8_less: "unat (b :: u8) < 256"
  using unsigned_less [of b] by simp

text \<open>
  The bytes of one pixel in a row of the first plane, as the comments of \<^verbatim>\<open>gbm.h\<close> lay each format out: the
  formats whose entry in the table of bits per pixel agrees with it.
\<close>

definition pixel_bytes :: "hal_formats \<Rightarrow> (u32 \<times> nat) list" where
  "pixel_bytes H = [
     (HAL_PIXEL_FORMAT_RGBA_8888 H, 4), (HAL_PIXEL_FORMAT_RGBX_8888 H, 4), (HAL_PIXEL_FORMAT_BGRA_8888 H, 4),
     (HAL_PIXEL_FORMAT_RGB_888 H, 3), (HAL_PIXEL_FORMAT_RGB_565 H, 2), (HAL_PIXEL_FORMAT_RGBA_1010102 H, 4),
     (HAL_PIXEL_FORMAT_RGBA_FP16 H, 8), (HAL_PIXEL_FORMAT_Y8 H, 1), (HAL_PIXEL_FORMAT_Y16 H, 2),
     (HAL_PIXEL_FORMAT_YCRCB_420_SP H, 1), (HAL_PIXEL_FORMAT_YCBCR_420_888 H, 1)]"

text \<open>What the code divides by.\<close>

definition table_bytes :: "hal_formats \<Rightarrow> u32 \<Rightarrow> nat" where
  "table_bytes H f = unat (color_bytes_per_pixel (color_fmt_a2g H f))"

lemma stride_divides:
  assumes "s < 2 ^ 32"
  shows "gralloc_gbm_calculate_android_pixel_stride P f (of_nat s)
    = (if table_bytes (hal P) f = 0 then Inl DivByZero else Inr (of_nat (s div table_bytes (hal P) f)))"
proof -
  let ?g = "color_fmt_a2g (hal P) f" and ?b = "table_bytes (hal P) f"
  have nz: "\<not> ?g \<le> 0" using a2g_not_0 [of "hal P" f] by simp
  have z: "color_bytes_per_pixel ?g = 0 \<longleftrightarrow> ?b = 0" by (simp add: table_bytes_def unat_eq_zero)
  have b: "unat (ucast (color_bytes_per_pixel ?g) :: u32) = ?b"
    using unat_u8_less [of "color_bytes_per_pixel ?g"] by (simp add: table_bytes_def unsigned_ucast_eq take_bit_nat_eq_self)
  have small: "unat (of_nat m :: u32) = m" if "m \<le> s" for m
    using that assms by (simp add: unat_of_nat)
  have "unat (of_nat s div ucast (color_bytes_per_pixel ?g) :: u32) = s div ?b"
    by (simp only: unat_div b small [OF order_refl])
  then have "of_nat s div ucast (color_bytes_per_pixel ?g) = (of_nat (s div ?b) :: u32)"
    by (simp only: word_unat_eq_iff small [OF div_le_dividend])
  then show ?thesis using nz z by (simp add: gralloc_gbm_calculate_android_pixel_stride_def Let_def)
qed

lemma table_bytes_row:
  assumes "hal_formats_distinct H" "r \<in> set (color_format_map H)"
  shows "table_bytes H (cf_android_format r) = unat (color_bytes_per_pixel (cf_gbm_format r))"
  using assms by (simp add: table_bytes_def hal_formats_distinct_def a2g.scan_hit)

lemma table_bytes_values:
  assumes "hal_formats_distinct H"
  shows "\<forall>(f, b) \<in> set (pixel_bytes H). table_bytes H f = b"
    "table_bytes H (HAL_PIXEL_FORMAT_YCBCR_422_I H) = 4" "table_bytes H (HAL_PIXEL_FORMAT_YCBCR_422_SP H) = 2"
    "table_bytes H (HAL_PIXEL_FORMAT_YV12 H) = 2" "table_bytes H (HAL_PIXEL_FORMAT_YCBCR_P010 H) = 255"
    "table_bytes H HAL_PIXEL_FORMAT_EXT_UNKNOWN = 0"
    "f \<notin> cf_android_format ` set (color_format_map H) \<Longrightarrow> table_bytes H f = 255"
proof -
  have all: "list_all (\<lambda>r. table_bytes H (cf_android_format r) = unat (color_bytes_per_pixel (cf_gbm_format r))) (color_format_map H)"
    using table_bytes_row [OF assms] by (simp add: list_all_iff)
  note rows = all [unfolded color_format_map_def, simplified]
  show "\<forall>(f, b) \<in> set (pixel_bytes H). table_bytes H f = b"
    "table_bytes H (HAL_PIXEL_FORMAT_YCBCR_422_I H) = 4" "table_bytes H (HAL_PIXEL_FORMAT_YCBCR_422_SP H) = 2"
    "table_bytes H (HAL_PIXEL_FORMAT_YV12 H) = 2" "table_bytes H (HAL_PIXEL_FORMAT_YCBCR_P010 H) = 255"
    "table_bytes H HAL_PIXEL_FORMAT_EXT_UNKNOWN = 0"
    using rows by (simp_all add: pixel_bytes_def color_bytes_values color_bytes_values_P010)
  assume "f \<notin> cf_android_format ` set (color_format_map H)"
  then have "color_fmt_a2g H f = - EINVAL" by (rule a2g.scan_miss)
  moreover have "color_bytes_per_pixel (- EINVAL) = - 1"
    by (rule bytes.scan_miss) (simp add: color_bpp_map_def fourcc_vals errno_defs)
  ultimately show "table_bytes H f = 255" by (simp add: table_bytes_def unsigned_minus_1_eq_mask mask_eq_exp_minus_1)
qed

text \<open>C30: the pixel stride of a row of \<open>s\<close> bytes, for every format. For the formats whose bytes per pixel
  the code has right (\<open>pixel_bytes\<close>, written down from the layouts in gbm.h) it is the number of pixels
  whose bytes fill the row. It is half of that for packed 4:2:2 (two bytes per pixel, four in the table) and
  for the planar formats 4:2:2 and YV12, whose first plane has one byte per pixel; for P010 and for every
  format that is not in the table the code divides by the 255 that stands for "not found"; and for the unknown
  format, which has 0 bits per pixel, it divides by zero.\<close>

theorem pixel_stride_by_format:
  assumes "hal_formats_distinct (hal P)" and "s < 2 ^ 32"
  shows "(\<forall>(f, b) \<in> set (pixel_bytes (hal P)). \<forall>n. s = n * b \<longrightarrow>
      gralloc_gbm_calculate_android_pixel_stride P f (of_nat s) = Inr (of_nat n))
    \<and> (\<forall>n. s = n * 2 \<longrightarrow>
      gralloc_gbm_calculate_android_pixel_stride P (HAL_PIXEL_FORMAT_YCBCR_422_I (hal P)) (of_nat s) = Inr (of_nat (n div 2)))
    \<and> gralloc_gbm_calculate_android_pixel_stride P (HAL_PIXEL_FORMAT_YCBCR_422_SP (hal P)) (of_nat s) = Inr (of_nat (s div 2))
    \<and> gralloc_gbm_calculate_android_pixel_stride P (HAL_PIXEL_FORMAT_YV12 (hal P)) (of_nat s) = Inr (of_nat (s div 2))
    \<and> gralloc_gbm_calculate_android_pixel_stride P (HAL_PIXEL_FORMAT_YCBCR_P010 (hal P)) (of_nat s) = Inr (of_nat (s div 255))
    \<and> (\<forall>f. f \<notin> cf_android_format ` set (color_format_map (hal P)) \<longrightarrow>
      gralloc_gbm_calculate_android_pixel_stride P f (of_nat s) = Inr (of_nat (s div 255)))
    \<and> gralloc_gbm_calculate_android_pixel_stride P HAL_PIXEL_FORMAT_EXT_UNKNOWN (of_nat s) = Inl DivByZero"
proof -
  note d = stride_divides [OF assms(2), of P] and v = table_bytes_values [OF assms(1)]
  have pos: "\<forall>(f, b) \<in> set (pixel_bytes (hal P)). b \<noteq> 0" by (simp add: pixel_bytes_def)
  have "gralloc_gbm_calculate_android_pixel_stride P f (of_nat s) = Inr (of_nat n)"
    if "(f, b) \<in> set (pixel_bytes (hal P))" "s = n * b" for f b n
    using that(1) v(1) pos d [of f] by (auto simp: that(2))
  then show ?thesis using d v(2-7) by auto
qed

theorem pixel_stride_by_format_witness:
  "gralloc_gbm_calculate_android_pixel_stride sample_platform 1 2560 = Inr 640
    \<and> gralloc_gbm_calculate_android_pixel_stride sample_platform 0x14 2560 = Inr 640
    \<and> gralloc_gbm_calculate_android_pixel_stride sample_platform 0x32315659 2560 = Inr 1280"
  using pixel_stride_by_format [of sample_platform 2560] aosp_hal_distinct
  by (simp add: pixel_bytes_def aosp_hal_def)

section \<open>The driver\<close>

text \<open>C29: initialisation ends with a ready driver and 0, or with an error. After a missing device
  (\<open>-ENODEV\<close>) or a failed GBM device (\<open>-EINVAL\<close>) the global pointer still refers to the freed
  driver, and the next readiness test, with which every operation starts, reads it.\<close>

theorem init_outcomes:
  assumes "g_driver w = None" and "gralloc_gbm_init P w = Inr (ret, w')"
  shows "ret = 0 \<and> ready_world w'
    \<or> ret = - ENOMEM \<and> g_driver w' = None
    \<or> ret \<in> {- ENODEV, - EINVAL} \<and> (\<exists>d. g_driver w' = Some (Freed d)
         \<and> is_gralloc_gbm_ready P w' = (case stale_driver P d of None \<Rightarrow> Inl UseAfterFree | Some d' \<Rightarrow> Inr (ready d')))"
proof -
  have stale: "is_gralloc_gbm_ready P v = (case stale_driver P d of None \<Rightarrow> Inl UseAfterFree | Some d' \<Rightarrow> Inr (ready d'))"
    if "g_driver v = Some (Freed d)" for v d
    using that by (simp add: is_gralloc_gbm_ready_def split: option.split)
  have "is_gralloc_gbm_ready P w = Inr False" using assms(1) by (simp add: is_gralloc_gbm_ready_def)
  then have "ret = 0 \<and> ready_world w' \<or> ret = - ENOMEM \<and> g_driver w' = None
    \<or> ret \<in> {- ENODEV, - EINVAL} \<and> (\<exists>d. g_driver w' = Some (Freed d))"
    using assms(2) by (auto simp: gralloc_gbm_init_def Let_def ready_world_def split: if_splits prod.splits)
  then show ?thesis using stale by blast
qed

text \<open>A platform without the device.\<close>

definition deviceless_platform :: "addr option list platform" where
  "deviceless_platform = sample_platform\<lparr>api := sample_api\<lparr>sys_open := \<lambda>_ e. (- 1, e)\<rparr>\<rparr>"

theorem init_outcomes_witness:
  "\<exists>w'. gralloc_gbm_init deviceless_platform (blank_world []) = Inr (- ENODEV, w')
     \<and> is_gralloc_gbm_ready deviceless_platform w' = Inl UseAfterFree"
proof -
  have "\<exists>w'. gralloc_gbm_init deviceless_platform (blank_world []) = Inr (- ENODEV, w')"
    by (simp add: gralloc_gbm_init_def is_gralloc_gbm_ready_def blank_world_def malloc_def sample_oom_def
        sizeof_driver_def deviceless_platform_def Let_def)
  then obtain w' where w': "gralloc_gbm_init deviceless_platform (blank_world []) = Inr (- ENODEV, w')" by blast
  have "g_driver (blank_world []) = None" by (simp add: blank_world_def)
  from init_outcomes [OF this w'] w' show ?thesis
    by (auto simp: errno_defs deviceless_platform_def split: option.splits cell.splits)
qed

text \<open>Deinitialisation destroys the device, frees the driver and keeps the pointer to it: a second
  one faults, as does the next readiness test where reading freed memory traps. Without a driver it
  dereferences NULL; the check for readiness only logs.\<close>

theorem deinit_leaves_dangling_driver:
  assumes "g_driver w = Some (Live d)" and "stale_driver P d = None"
  shows "\<exists>w'. gralloc_gbm_deinit P w = Inr (0, w')
    \<and> ext w' = gbm_device_destroy (api P) (gbm_dev d) (ext w)
    \<and> gralloc_gbm_deinit P w' = Inl UseAfterFree \<and> is_gralloc_gbm_ready P w' = Inl UseAfterFree
    \<and> gralloc_gbm_deinit P (w\<lparr>g_driver := None\<rparr>) = Inl NullDeref"
  using assms by (simp add: gralloc_gbm_deinit_def deref_driver_def is_gralloc_gbm_ready_def Let_def)

theorem deinit_leaves_dangling_driver_witness:
  "\<exists>w'. gralloc_gbm_deinit sample_platform sample_world = Inr (0, w')
    \<and> gralloc_gbm_deinit sample_platform w' = Inl UseAfterFree"
proof -
  have "g_driver sample_world = Some (Live sample_driver)" by (simp add: sample_world_def)
  from deinit_leaves_dangling_driver [OF this, of sample_platform] show ?thesis by auto
qed

end
