(* ===== verification/Gbm_Robust.thy ===== *)
theory Gbm_Robust
  imports Gbm_Policy
begin

text \<open>
  The invariant without a contract: whatever a caller passes, a call of the library that returns
  leaves a world that obeys the invariant. (A call that breaks the contract may fault instead.)
  These are the facts the mapper and the allocator rest on.
\<close>

unbundle bit_operations_syntax

text \<open>
  A world with or without a driver. When the driver is missing, or was freed and does not read as ready,
  there are no buffers; what a read of the freed driver finds is the platform's business.
\<close>

definition gbm_ok :: "'e platform \<Rightarrow> ('e \<Rightarrow> addr set) \<Rightarrow> 'e world \<Rightarrow> addr list \<Rightarrow> bool" where
  "gbm_ok P live w xs \<longleftrightarrow> world_ok P live w xs
     \<and> (case g_driver w of None \<Rightarrow> xs = [] | Some (Live d) \<Rightarrow> ready d
          | Some (Freed d) \<Rightarrow> xs = [] \<or> (\<exists>d'. stale_driver P d = Some d' \<and> ready d'))"

text \<open>The handles stay and no address is used twice.\<close>

definition same_handles :: "'e world \<Rightarrow> 'e world \<Rightarrow> bool" where
  "same_handles w w' \<longleftrightarrow> brk w \<le> brk w' \<and> handles w' = handles w"

lemma same_handles_refl [simp]: "same_handles w w"
  by (simp add: same_handles_def)

lemma ready_cases:
  assumes "gbm_ok P live w xs"
  obtains (yes) "ready_in P w"
  | (no) "is_gralloc_gbm_ready P w = Inr False" "xs = []"
  | (trap) "is_gralloc_gbm_ready P w = Inl UseAfterFree"
proof (cases "g_driver w")
  case None
  then show ?thesis using assms by (intro no) (simp_all add: gbm_ok_def is_gralloc_gbm_ready_def)
next
  case (Some c)
  show ?thesis
  proof (cases c)
    case (Live d)
    then show ?thesis using assms Some by (intro yes) (simp add: gbm_ok_def is_gralloc_gbm_ready_def)
  next
    case (Freed d)
    show ?thesis
    proof (cases "stale_driver P d")
      case None
      then show ?thesis using Some Freed by (intro trap) (simp add: is_gralloc_gbm_ready_def)
    next
      case stale: (Some d')
      then have "is_gralloc_gbm_ready P w = Inr (ready d')" using Some Freed by (simp add: is_gralloc_gbm_ready_def)
      then show ?thesis using yes no assms Some Freed stale by (cases "ready d'") (auto simp: gbm_ok_def)
    qed
  qed
qed

lemma gbm_ok_world: "gbm_ok P live w xs \<Longrightarrow> world_ok P live w xs"
  by (simp add: gbm_ok_def)

lemma gbm_ok_ready: "world_ok P live w xs \<Longrightarrow> ready_world w \<Longrightarrow> gbm_ok P live w xs"
  by (auto simp: gbm_ok_def ready_world_def)

lemma gbm_ok_in: "world_ok P live w xs \<Longrightarrow> ready_in P w \<Longrightarrow> gbm_ok P live w xs"
  by (auto simp: gbm_ok_def is_gralloc_gbm_ready_def and_then_eq_Inr split: option.splits cell.splits)

lemma gbm_ok_same_driver: "gbm_ok P live w xs \<Longrightarrow> world_ok P live w' xs \<Longrightarrow> g_driver w' = g_driver w \<Longrightarrow> gbm_ok P live w' xs"
  by (simp add: gbm_ok_def)

lemma gbm_ok_grows: "gbm_ok P live w xs \<Longrightarrow> grows P live w w' \<Longrightarrow> gbm_ok P live w' xs"
  using gbm_ok_same_driver gbm_ok_world world_ok_grows growsD(10) by metis

lemma gbm_ok_no_change: "gbm_ok P live w xs \<Longrightarrow> no_change P live w xs w' \<Longrightarrow> gbm_ok P live w' xs"
  unfolding no_change_def using gbm_ok_same_driver by metis

lemma ready_same: "ready_world w \<Longrightarrow> g_driver w' = g_driver w \<Longrightarrow> ready_world w'"
  by (simp add: ready_world_def)

lemma pixel_strideD: "gralloc_gbm_calculate_android_pixel_stride P fmt stride = Inr s \<Longrightarrow> stride_defined P fmt"
  using pixel_stride_total by blast

lemma gbm_ok_ext: "gbm_ok P live w xs \<Longrightarrow> same_objects (api P) live (ext w) e \<Longrightarrow> gbm_ok P live (w\<lparr>ext := e\<rparr>) xs"
  by (rule gbm_ok_grows [OF _ grows_ext [OF grows_refl [OF gbm_ok_world]]])

lemma gbm_ok_brk: "gbm_ok P live w xs \<Longrightarrow> gbm_ok P live (w\<lparr>brk := Suc (brk w)\<rparr>) xs"
  by (rule gbm_ok_grows [OF _ grows_brk [OF grows_refl [OF gbm_ok_world]]])

lemma same_handles_brk [simp]: "same_handles w (w\<lparr>brk := Suc (brk w)\<rparr>)" "same_handles w (w\<lparr>ext := e\<rparr>)"
  by (simp_all add: same_handles_def)

text \<open>Which handles there are and what they hold concerns no buffer.\<close>

lemma gbm_ok_handles:
  assumes "gbm_ok P live w xs" "dom hs \<subseteq> {1..brk w}"
  shows "gbm_ok P live (w\<lparr>handles := hs\<rparr>) xs"
proof -
  have "data_of P (w\<lparr>handles := hs\<rparr>) = data_of P w" "smpte_of (w\<lparr>handles := hs\<rparr>) = smpte_of w"
    "cta_of (w\<lparr>handles := hs\<rparr>) = cta_of w"
    by (simp_all add: fun_eq_iff data_of_def smpte_of_def cta_of_def)
  moreover have "hash_inv (w\<lparr>handles := hs\<rparr>) xs = hash_inv w xs"
    by (rule hash_inv_cong) simp_all
  ultimately show ?thesis
    using assms by (simp add: gbm_ok_def world_ok_def heaps_ok_def owner_ok_def apart_def)
qed

lemma gbm_ok_drop_handle:
  assumes "gbm_ok P live w xs"
  shows "gbm_ok P live (w\<lparr>handles := (handles w)(h := None)\<rparr>) xs"
proof (rule gbm_ok_handles [OF assms])
  show "dom ((handles w)(h := None)) \<subseteq> {1..brk w}"
    using world_okD(2) [OF gbm_ok_world [OF assms]] by (auto simp: heaps_ok_def)
qed

section \<open>One lemma per operation\<close>

lemma init_keeps:
  assumes ok: "gbm_ok P live w xs" and run: "gralloc_gbm_init P w = Inr (r, w')"
  shows "gbm_ok P live w' xs \<and> same_handles w w' \<and> (r = 0 \<longrightarrow> ready_in P w')"
proof (cases rule: ready_cases [OF ok, case_names yes no trap])
  case yes
  then show ?thesis using ok run by (simp add: gralloc_gbm_init_def)
next
  case no
  have w: "heaps_ok w" "hash_inv w []" using world_okD(1,2) [OF gbm_ok_world [OF ok]] no(2) by simp_all
  have sub: "brk w' = Suc (brk w) \<and> nodes w' = nodes w \<and> android_buffer_table w' = android_buffer_table w \<and> tbl w' = tbl w
    \<and> bo_data w' = bo_data w \<and> smpte_heap w' = smpte_heap w \<and> cta_heap w' = cta_heap w \<and> handles w' = handles w
    \<and> (case g_driver w' of None \<Rightarrow> True | Some (Live d) \<Rightarrow> ready d | Some (Freed d) \<Rightarrow> True) \<and> (r = 0 \<longrightarrow> ready_in P w')"
    using run no(1)
    by (auto simp: gralloc_gbm_init_def malloc_def Let_def ready_world_def errno_defs split: if_splits prod.splits)
  have "heaps_ok w'" using w(1) sub metas_ok_mono [of "brk w" "bo_data w" "Suc (brk w)"] unfolding heaps_ok_def by auto
  moreover have "hash_inv w' []" using w(2) sub by (auto simp: hash_inv_def heap_ok_def)
  ultimately show ?thesis using sub no(2) by (auto simp: gbm_ok_def world_ok_def same_handles_def split: option.splits cell.splits)
next
  case trap
  then show ?thesis using run by (simp add: gralloc_gbm_init_def)
qed

text \<open>An allocation either fails and changes no buffer, or adds one.\<close>

lemma new_keeps:
  assumes env: "platform_ok P live" and ok: "gbm_ok P live w xs"
    and run: "gralloc_gbm_android_buffer_new P ds w = Inr (r, out, w')"
  shows "(r \<noteq> 0 \<and> out = None \<and> gbm_ok P live w' xs \<and> abs_world P w' xs = abs_world P w xs \<and> later w w')
    \<or> (\<exists>h st a g. r = 0 \<and> out = Some (h, st) \<and> brk w < h \<and> later w w' \<and> handles w' = (handles w)(h \<mapsto> g)
        \<and> gbm_ok P live w' (xs @ [a]) \<and> abs_world P w' (xs @ [a]) = abs_world P w xs @ [(prime_fd g, Unlocked)]
        \<and> gh_format g = ad_format ds \<and> gh_usage g = ucast (ad_usage ds) \<and> gh_stride g = st)"
proof (cases rule: ready_cases [OF ok, case_names yes no trap])
  case yes
  let ?fmt = "color_fmt_a2g (hal P) (ad_format ds)"
  let ?fl = "gralloc_gbm_calculate_gbm_flags P (ucast (ad_usage ds)) ?fmt"
  note w = gbm_ok_world [OF ok]
  have e: "no_huge_malloc (mem_oom P)" "gbm_laws (api P) live" using env by (simp_all add: platform_ok_def)
  show ?thesis
  proof (cases "?fmt \<le> 0")
    case True
    then show ?thesis using run yes ok by (auto simp: gralloc_gbm_android_buffer_new_def Let_def errno_defs)
  next
    case False
    then obtain wd ht where sz: "new_buffer_size P ds ?fl = Inr (wd, ht)"
      using run yes by (cases "new_buffer_size P ds ?fl") (auto simp: gralloc_gbm_android_buffer_new_def Let_def)
    from new_ok [OF e w yes refl refl sz] show ?thesis
    proof (elim disjE exE conjE)
      fix e v assume "gralloc_gbm_android_buffer_new P ds w = Inr (e, None, v)" "refusal (mem_oom P) w e" "no_change P live w xs v"
      then show ?thesis using run gbm_ok_no_change [OF ok, of v] by (auto simp: no_change_def dest: refusal_not_0)
    next
      fix h st v assume v: "gralloc_gbm_android_buffer_new P ds w = Inr (0, Some (h, st), v)"
        "new_buffer P live w xs wd ht ds h st v"
      then obtain a g where n: "world_ok P live v (xs @ [a])" "g_driver v = g_driver w" "later w v" "brk w < h"
        "handles v = (handles w)(h \<mapsto> g)" "handle_for wd ht (ad_format ds) (ucast (ad_usage ds)) g" "gh_stride g = st"
        "abs_world P v (xs @ [a]) = abs_world P w xs @ [(prime_fd g, Unlocked)]"
        unfolding new_buffer_def by blast
      have "gbm_ok P live v (xs @ [a])" using gbm_ok_in [OF n(1) ready_in_same [OF yes n(2)]] .
      moreover have "gh_format g = ad_format ds" "gh_usage g = ucast (ad_usage ds)" using n(6) by (simp_all add: handle_for_def)
      moreover have "r = 0" "out = Some (h, st)" "w' = v" using run v(1) by simp_all
      ultimately show ?thesis using n(3,4,5,7,8) by blast
    qed (use run in simp)
  qed
next
  case no
  then show ?thesis using run ok by (auto simp: gralloc_gbm_android_buffer_new_def errno_defs)
qed (use run in \<open>simp add: gralloc_gbm_android_buffer_new_def\<close>)

lemma import_keeps:
  assumes env: "platform_ok P live" and ok: "gbm_ok P live w xs"
    and run: "gralloc_gbm_android_buffer_import P h w = Inr (r, w')"
  shows "same_handles w w' \<and> (\<exists>xs'. gbm_ok P live w' xs')"
proof (cases rule: ready_cases [OF ok, case_names yes no trap])
  case yes
  note w = gbm_ok_world [OF ok]
  have w1: "gbm_ok P live (w\<lparr>brk := Suc (brk w)\<rparr>) xs" by (rule gbm_ok_brk [OF ok])
  show ?thesis
  proof (cases "\<exists>g. handles w h = Some g \<and> h \<noteq> NULL")
    case False
    then have "w' = w\<lparr>brk := Suc (brk w)\<rparr>"
      using run yes by (auto simp: gralloc_gbm_android_buffer_import_def res_simps malloc_def split: if_splits prod.splits)
    then show ?thesis using w1 by auto
  next
    case True
    then obtain g where g: "handles w h = Some g" "h \<noteq> NULL" by blast
    have law: "no_huge_malloc (mem_oom P)" "gbm_laws (api P) live" using env by (simp_all add: platform_ok_def)
    from import_ok [OF law w yes g] show ?thesis
    proof (elim disjE exE conjE)
      fix e v assume "gralloc_gbm_android_buffer_import P h w = Inr (e, v)" "no_change P live w xs v" "handles v = handles w"
      moreover then have "gbm_ok P live v xs" using gbm_ok_no_change [OF ok] by blast
      moreover have "same_handles w v" using calculation(2,3) by (simp add: no_change_def same_handles_def later_def)
      ultimately show ?thesis using run by auto
    next
      fix v assume v: "gralloc_gbm_android_buffer_import P h w = (if stale_import P then Inr (0, v) else Inl UseAfterFree)"
        "imported P live w xs g v"
      then obtain a where "world_ok P live v (xs @ [a])" "g_driver v = g_driver w" "same_handles w v"
        unfolding imported_def same_handles_def later_def by blast
      then have "same_handles w v \<and> gbm_ok P live v (xs @ [a])" using gbm_ok_in ready_in_same [OF yes] by blast
      then show ?thesis using run v(1) by (auto split: if_splits)
    qed (use run in simp)
  qed
qed (use run ok in \<open>auto simp: gralloc_gbm_android_buffer_import_def\<close>)

lemma free_keeps:
  assumes env: "platform_ok P live" and ok: "gbm_ok P live w xs"
    and run: "gralloc_gbm_android_buffer_free P h w = Inr (r, w')"
  shows "same_handles w w' \<and> (\<exists>xs'. gbm_ok P live w' xs')"
proof (cases rule: ready_cases [OF ok, case_names yes no trap])
  case yes
  have law: "gbm_laws (api P) live" using env by (simp add: platform_ok_def)
  note w = gbm_ok_world [OF ok]
  obtain g where g: "handles w h = Some g" "h \<noteq> NULL"
    using run yes by (auto simp: gralloc_gbm_android_buffer_free_def res_simps split: if_splits)
  from w show ?thesis
  proof (cases rule: lookup_cases [where g = g])
    case unknown
    then show ?thesis using run g yes ok by (auto simp: gralloc_gbm_android_buffer_free_def)
  next
    case (found a)
    obtain v where "gralloc_gbm_android_buffer_free P h w = Inr (0, v)" "released P live w xs a v"
      using free_ok [OF law w yes g found] by blast
    then have v: "w' = v" "world_ok P live v (remove1 a xs)" "g_driver v = g_driver w" "same_handles w v"
      using run by (simp_all add: released_def same_handles_def later_def)
    show ?thesis using gbm_ok_in [OF v(2) ready_in_same [OF yes v(3)]] v(1,4) by blast
  qed
qed (use run ok in \<open>auto simp: gralloc_gbm_android_buffer_free_def split: if_splits\<close>)

lemma lock_run_room:
  assumes law: "gbm_laws (api P) live" and ok: "world_ok P live w xs" and rdy: "ready_in P w"
    and h: "handles w h = Some g" "h \<noteq> NULL" "find_buffer_k (prime_fd g) w = Inr a" "a \<noteq> NULL"
    and perm: "lock_permitted P g usage" and rect: "rect_ok t bt l r"
    and run: "gralloc_gbm_android_buffer_lock P h usage t bt l r out w = Inr (ret, out', w')"
    and dev: "lock_of P w a = DevLocked v n" "\<not> int n + 1 < 2 ^ 31"
  shows "w' = w"
proof -
  obtain i b bd where o: "nodes w a = Some b" "data_of P w a \<noteq> NULL" "bo_data w (data_of P w a) = Some bd" "lock_ok P bd"
    by (rule managed_owner [OF law ok h])
  note lock = lock_unfold [OF ok law rdy h perm rect o(1,3), of out]
  have st: "abs_lock P bd = DevLocked v n" using dev(1) o(3) by (simp add: lock_of_Some)
  from o(4) show ?thesis
  proof (cases rule: lock_word_cases)
    case d: dev
    have "int n = sint (lock_count bd)" using st d(1,5) by auto
    then have big: "int_result (sint (lock_count bd) + 1) = Inl SignedOverflow"
      using dev(2) d(1) by (simp add: int_result_def)
    show ?thesis
    proof (cases "locked_for bd AND usage = usage")
      case True
      then have "usage OR locked_for bd = locked_for bd" by (intro and_or_absorb) (simp add: and.commute)
      then show ?thesis using run lock d(2,3) True o(2,3) big by (simp add: Let_def)
    next
      case False
      then show ?thesis using run lock d(2) by simp
    qed
  qed (use st in simp_all)
qed

lemma lock_keeps:
  assumes env: "platform_ok P live" and ok: "gbm_ok P live w xs"
    and run: "gralloc_gbm_android_buffer_lock P h usage t bt l r out w = Inr (ret, out', w')"
  shows "gbm_ok P live w' xs \<and> same_handles w w'"
proof (cases rule: ready_cases [OF ok, case_names yes no trap])
  case yes
  have law: "gbm_laws (api P) live" "map_keeps_stride (api P)" using env by (simp_all add: platform_ok_def)
  note w = gbm_ok_world [OF ok]
  show ?thesis
  proof (cases "usage AND HW_FB (gu P) \<noteq> 0")
    case True
    then show ?thesis using run yes ok by (simp add: gralloc_gbm_android_buffer_lock_def)
  next
    case fb: False
    obtain g where g: "handles w h = Some g" "h \<noteq> NULL" and rect: "rect_ok t bt l r"
      using run yes fb
      by (auto simp: gralloc_gbm_android_buffer_lock_def res_simps rect_ok_def)
    obtain x y where xy: "int_result (sint r - sint l) = Inr x" "int_result (sint bt - sint t) = Inr y"
      by (rule rect_okD [OF rect])
    show ?thesis
    proof (cases "lock_permitted P g usage")
      case False
      then have "w' = w" using run yes xy g fb by (auto simp: gralloc_gbm_android_buffer_lock_def lock_permitted_def)
      then show ?thesis using ok by simp
    next
      case perm: True
      from w show ?thesis
      proof (cases rule: lookup_cases [where g = g])
        case unknown
        then have "w' = w" using run yes xy g fb perm by (auto simp: gralloc_gbm_android_buffer_lock_def lock_permitted_def)
        then show ?thesis using ok by simp
      next
        case (found a)
        show ?thesis
        proof (cases "\<exists>v n. lock_of P w a = DevLocked v n \<and> \<not> int n + 1 < 2 ^ 31")
          case True
          then have "w' = w" using lock_run_room [OF law(1) w yes g found perm rect run] by blast
          then show ?thesis using ok by simp
        next
          case False
          then have room: "int n + 1 < 2 ^ 31" if "lock_of P w a = DevLocked v n" for v n using that by blast
          obtain i st st' where "relocked P live w xs i st' w'"
            using lock_ok_step [OF law w yes perm rect g found, of out] room run by auto
          then show ?thesis using gbm_ok_same_driver [OF ok] by (simp add: relocked_def same_handles_def later_def)
        qed
      qed
    qed
  qed
qed (use run ok in \<open>auto simp: gralloc_gbm_android_buffer_lock_def\<close>)

lemma unlock_keeps:
  assumes env: "platform_ok P live" and ok: "gbm_ok P live w xs"
    and run: "gralloc_gbm_android_buffer_unlock P h w = Inr (r, w')"
  shows "gbm_ok P live w' xs \<and> same_handles w w'"
proof -
  have law: "gbm_laws (api P) live" using env by (simp add: platform_ok_def)
  note w = gbm_ok_world [OF ok]
  obtain g where g: "handles w h = Some g" "h \<noteq> NULL"
    using run by (auto simp: gralloc_gbm_android_buffer_unlock_def res_simps split: if_splits)
  from w show ?thesis
  proof (cases rule: lookup_cases [where g = g])
    case unknown
    then show ?thesis using run g ok by (auto simp: gralloc_gbm_android_buffer_unlock_def)
  next
    case (found a)
    obtain i st where "relocked P live w xs i (unlock_spec st) w'"
      using unlock_ok_step [OF law w g found] run by auto
    then show ?thesis using gbm_ok_same_driver [OF ok] by (simp add: relocked_def same_handles_def later_def)
  qed
qed

lemma query_keeps:
  assumes env: "platform_ok P live" and ok: "gbm_ok P live w xs"
    and run: "gralloc_gbm_android_buffer_query P h w = Inr (r, info, w')"
  shows "gbm_ok P live w' xs \<and> same_handles w w'"
proof -
  have law: "gbm_laws (api P) live" using env by (simp add: platform_ok_def)
  note w = gbm_ok_world [OF ok]
  obtain g where g: "handles w h = Some g" "h \<noteq> NULL"
    using run by (auto simp: gralloc_gbm_android_buffer_query_def res_simps split: if_splits)
  from w have "no_change P live w xs w' \<and> handles w' = handles w"
  proof (cases rule: lookup_cases [where g = g])
    case unknown
    then show ?thesis using run g no_change_refl [OF w] by (auto simp: gralloc_gbm_android_buffer_query_def)
  next
    case (found a)
    obtain i b bd where o: "nodes w a = Some b" "buf_bo b \<noteq> NULL" by (rule managed_owner [OF law w g found])
    have "stride_defined P (gh_format g)"
      using run g found o by (auto simp: gralloc_gbm_android_buffer_query_def res_simps Let_def dest!: pixel_strideD split: prod.splits)
    from query_ok [OF law w this g found] run show ?thesis by auto
  qed
  then show ?thesis using gbm_ok_no_change [OF ok] by (auto simp: no_change_def same_handles_def later_def)
qed

lemma extdata_keeps:
  assumes env: "platform_ok P live" and ok: "gbm_ok P live w xs"
    and run: "gralloc_gbm_android_buffer_get_extdata P h w = Inr (d, w')"
  shows "w' = w \<and> (d \<noteq> NULL \<longrightarrow> (\<exists>a \<in> set xs. d = data_of P w a))"
proof -
  have law: "gbm_laws (api P) live" using env by (simp add: platform_ok_def)
  note w = gbm_ok_world [OF ok]
  obtain g where g: "handles w h = Some g" "h \<noteq> NULL"
    using run by (auto simp: gralloc_gbm_android_buffer_get_extdata_def res_simps split: if_splits)
  from w show ?thesis
  proof (cases rule: lookup_cases [where g = g])
    case unknown
    then show ?thesis using run g by (auto simp: gralloc_gbm_android_buffer_get_extdata_def)
  next
    case (found a)
    have "a \<in> set xs" using managed_in [OF w, of h a] g found by (auto simp: managed_def)
    then show ?thesis using extdata_ok [OF law w g found] run by auto
  qed
qed

end
