(* ===== verification/Gbm_Holds.thy ===== *)
theory Gbm_Holds
  imports Gbm_Robust "HOL-Library.Multiset"
begin

text \<open>
  The content of the buffer table as a multiset of descriptors, which an allocation or an import
  adds to and a release takes from: what the mapper and the allocator count on.
\<close>

declare neq0_conv [iff del]

definition keys :: "'e platform \<Rightarrow> 'e world \<Rightarrow> addr list \<Rightarrow> i32 multiset" where
  "keys P w xs = image_mset fst (mset (abs_world P w xs))"

definition holds :: "'e platform \<Rightarrow> ('e \<Rightarrow> addr set) \<Rightarrow> 'e world \<Rightarrow> i32 multiset \<Rightarrow> bool" where
  "holds P live w M \<longleftrightarrow> (\<exists>xs. gbm_ok P live w xs \<and> keys P w xs = M)"

lemma holds_empty: "holds P live w {#} \<longleftrightarrow> gbm_ok P live w []"
  by (auto simp: holds_def keys_def abs_world_def)

lemma keys_nodes: "keys P w xs = image_mset (fld buf_fd (nodes w)) (mset xs)"
  by (simp add: keys_def abs_world_def comp_def flip: mset_map)

lemma holds_ext: "holds P live w M \<Longrightarrow> same_objects (api P) live (ext w) e \<Longrightarrow> holds P live (w\<lparr>ext := e\<rparr>) M"
  unfolding holds_def using gbm_ok_ext by (fastforce simp: keys_nodes)

lemma holds_brk: "holds P live w M \<Longrightarrow> holds P live (w\<lparr>brk := Suc (brk w)\<rparr>) M"
  unfolding holds_def using gbm_ok_brk by (fastforce simp: keys_nodes)

lemma holds_drop: "holds P live w M \<Longrightarrow> holds P live (w\<lparr>handles := (handles w)(h := None)\<rparr>) M"
  unfolding holds_def using gbm_ok_drop_handle by (fastforce simp: keys_nodes)

lemma holds_handles: "holds P live w M \<Longrightarrow> dom (handles w) \<subseteq> {1..brk w}"
  unfolding holds_def
proof (elim exE conjE)
  fix xs assume "gbm_ok P live w xs"
  from world_okD(2) [OF gbm_ok_world [OF this]] show "dom (handles w) \<subseteq> {1..brk w}" by (simp add: heaps_ok_def)
qed

text \<open>A lookup succeeds exactly for the descriptors in the table.\<close>

lemma holds_find:
  assumes "holds P live w M"
  shows "\<exists>a. find_buffer_k k w = Inr a \<and> (a \<noteq> NULL \<longleftrightarrow> k \<in># M)"
proof -
  obtain xs where xs: "gbm_ok P live w xs" "keys P w xs = M" using assms by (auto simp: holds_def)
  note h = world_okD(1) [OF gbm_ok_world [OF xs(1)]]
  show ?thesis using find_ok [OF h, of k] hash_inv_members(3) [OF h] xs(2)
    by (auto simp: find_buffer_k_eq keys_nodes split: if_splits)
qed

section \<open>Operations\<close>

lemma init_holds:
  assumes "holds P live w M" "gralloc_gbm_init P w = Inr (r, w')"
  shows "holds P live w' M" "handles w' = handles w" "brk w \<le> brk w'" "r = 0 \<Longrightarrow> ready_in P w'" "r \<noteq> 0 \<Longrightarrow> M = {#}"
proof -
  obtain xs where xs: "gbm_ok P live w xs" "keys P w xs = M" using assms(1) by (auto simp: holds_def)
  note k = init_keeps [OF xs(1) assms(2)]
  have "keys P w' xs = M \<and> (r \<noteq> 0 \<longrightarrow> M = {#})"
  proof (cases rule: ready_cases [OF xs(1), case_names yes no trap])
    case yes
    then show ?thesis using xs(2) assms(2) by (simp add: gralloc_gbm_init_def)
  qed (use xs(2) assms(2) in \<open>auto simp: keys_def abs_world_def gralloc_gbm_init_def\<close>)
  then show "holds P live w' M" "handles w' = handles w" "brk w \<le> brk w'" "r = 0 \<Longrightarrow> ready_in P w'" "r \<noteq> 0 \<Longrightarrow> M = {#}"
    using k by (auto simp: holds_def same_handles_def)
qed

lemma new_adds:
  assumes "platform_ok P live" "holds P live w M" "gralloc_gbm_android_buffer_new P ds w = Inr (r, out, w')"
  shows "(r \<noteq> 0 \<and> out = None \<and> holds P live w' M \<and> later w w')
    \<or> (\<exists>h st g. r = 0 \<and> out = Some (h, st) \<and> brk w < h \<and> later w w' \<and> handles w' = (handles w)(h \<mapsto> g)
        \<and> holds P live w' (add_mset (prime_fd g) M) \<and> gh_format g = ad_format ds \<and> gh_usage g = ucast (ad_usage ds)
        \<and> gh_stride g = st)"
proof -
  obtain xs where xs: "gbm_ok P live w xs" "keys P w xs = M" using assms(2) by (auto simp: holds_def)
  from new_keeps [OF assms(1) xs(1) assms(3)] xs(2) show ?thesis
    unfolding holds_def keys_def by fastforce
qed

lemma import_adds:
  assumes env: "platform_ok P live" and ok: "holds P live w M" and h: "handles w h = Some g" "h \<noteq> NULL"
    and run: "gralloc_gbm_android_buffer_import P h w = Inr (r, w')"
  shows "holds P live w' (if r = 0 then add_mset (prime_fd g) M else M)" "handles w' = handles w" "brk w \<le> brk w'"
    "r = 0 \<Longrightarrow> ready_in P w'"
proof -
  obtain xs where xs: "gbm_ok P live w xs" "keys P w xs = M" using ok by (auto simp: holds_def)
  have "holds P live w' (if r = 0 then add_mset (prime_fd g) M else M) \<and> same_handles w w' \<and> (r = 0 \<longrightarrow> ready_in P w')"
  proof (cases rule: ready_cases [OF xs(1), case_names yes no trap])
    case yes
    have law: "no_huge_malloc (mem_oom P)" "gbm_laws (api P) live" using env by (simp_all add: platform_ok_def)
    from import_ok [OF law gbm_ok_world [OF xs(1)] yes h] show ?thesis
    proof (elim disjE exE conjE)
      fix e v assume v: "gralloc_gbm_android_buffer_import P h w = Inr (e, v)" "refusal (mem_oom P) w e"
        "no_change P live w xs v" "handles v = handles w"
      then have "gbm_ok P live v xs" "keys P v xs = M" "same_handles w v"
        using gbm_ok_no_change [OF xs(1)] xs(2) by (auto simp: no_change_def keys_def same_handles_def later_def)
      then show ?thesis using run v(1) refusal_not_0 [OF v(2)] by (auto simp: holds_def)
    next
      fix v assume v: "gralloc_gbm_android_buffer_import P h w = (if stale_import P then Inr (0, v) else Inl UseAfterFree)"
        "imported P live w xs g v"
      then obtain a where a: "world_ok P live v (xs @ [a])" "g_driver v = g_driver w" "same_handles w v"
        "abs_world P v (xs @ [a]) = abs_world P w xs @ [(prime_fd g, Unlocked)]"
        unfolding imported_def same_handles_def later_def by blast
      have "gbm_ok P live v (xs @ [a])" "keys P v (xs @ [a]) = add_mset (prime_fd g) M"
        using gbm_ok_in [OF a(1) ready_in_same [OF yes a(2)]] a(4) xs(2) by (simp_all add: keys_def)
      then have "holds P live v (add_mset (prime_fd g) M)" by (auto simp: holds_def)
      then show ?thesis using run v(1) a(3) ready_in_same [OF yes a(2)] by (auto split: if_splits)
    qed (use run in simp)
  qed (use run ok in \<open>auto simp: gralloc_gbm_android_buffer_import_def errno_defs\<close>)
  then show "holds P live w' (if r = 0 then add_mset (prime_fd g) M else M)" "handles w' = handles w" "brk w \<le> brk w'"
    "r = 0 \<Longrightarrow> ready_in P w'"
    by (simp_all add: same_handles_def)
qed

lemma free_removes:
  assumes env: "platform_ok P live" and ok: "holds P live w M" and h: "handles w h = Some g" "h \<noteq> NULL"
    and run: "gralloc_gbm_android_buffer_free P h w = Inr (r, w')"
  shows "handles w' = handles w" "brk w \<le> brk w'" "holds P live w' (M - {#prime_fd g#})" "ready_in P w \<Longrightarrow> r = 0"
proof -
  obtain xs where xs: "gbm_ok P live w xs" "keys P w xs = M" using ok by (auto simp: holds_def)
  note w = gbm_ok_world [OF xs(1)]
  have law: "gbm_laws (api P) live" using env by (simp add: platform_ok_def)
  have "handles w' = handles w \<and> brk w \<le> brk w' \<and> holds P live w' (M - {#prime_fd g#}) \<and> (ready_in P w \<longrightarrow> r = 0)"
  proof (cases rule: ready_cases [OF xs(1), case_names yes no trap])
    case yes
    from w show ?thesis
    proof (cases rule: lookup_cases [where g = g])
      case unknown
      then have "prime_fd g \<notin># M" using xs(2) by (auto simp: keys_def)
      then show ?thesis using run h yes unknown ok by (auto simp: gralloc_gbm_android_buffer_free_def diff_single_trivial)
    next
      case (found a)
      obtain v where v: "a \<in> set xs" "gralloc_gbm_android_buffer_free P h w = Inr (0, v)" "released P live w xs a v"
        using free_ok [OF law w yes h found] by blast
      have fd: "fld buf_fd (nodes w) a = prime_fd g"
        by (rule managed_owner [OF law w h found]) blast
      have "keys P v (remove1 a xs) = keys P w (remove1 a xs)" using v(3) by (simp add: keys_def released_def)
      also have "\<dots> = M - {#prime_fd g#}" using v(1) fd xs(2) [symmetric] by (simp add: keys_nodes image_mset_Diff)
      finally have k: "keys P v (remove1 a xs) = M - {#prime_fd g#}" .
      have r: "world_ok P live v (remove1 a xs)" "g_driver v = g_driver w"
        using v(3) by (simp_all add: released_def)
      moreover note gbm_ok_in [OF r(1) ready_in_same [OF yes r(2)]]
      ultimately show ?thesis using v run k by (auto simp: holds_def released_def later_def)
    qed
  next
    case no
    then show ?thesis using xs(2) run h ok by (auto simp: keys_def abs_world_def gralloc_gbm_android_buffer_free_def)
  qed (use run h in \<open>simp add: gralloc_gbm_android_buffer_free_def\<close>)
  then show "handles w' = handles w" "brk w \<le> brk w'" "holds P live w' (M - {#prime_fd g#})" "ready_in P w \<Longrightarrow> r = 0" by blast+
qed

end
