(* ===== verification/Plane_Layouts.thy ===== *)
theory Plane_Layouts
  imports Formats
begin

text \<open>
  The plane layouts of \<^verbatim>\<open>mapper_stablec/MapperPlaneLayouts.hpp\<close>: one definition per entry
  of the table \<open>GetPlaneLayoutsMap\<close>, the table, and the lookup \<open>getPlaneLayouts\<close>. The
  lemmas check the table against the bits-per-pixel table of \<open>Formats\<close> and against the
  component orders that the comments of \<^verbatim>\<open>include/gbm.h\<close> give.
\<close>

unbundle bit_operations_syntax

section \<open>Plane layouts\<close>

text \<open>
  \<open>PlaneLayout\<close> and its component type are AIDL types; these are the members the code sets.
  Members that the table leaves out are 0, and \<open>offsetInBytes\<close> to \<open>totalSizeInBytes\<close> are
  filled in by the metadata query.
\<close>

datatype PlaneLayoutComponentType =
    PlaneLayoutComponentType_R | PlaneLayoutComponentType_G | PlaneLayoutComponentType_B
  | PlaneLayoutComponentType_A | PlaneLayoutComponentType_Y | PlaneLayoutComponentType_CB
  | PlaneLayoutComponentType_CR

record PlaneLayoutComponent =
  comp_type :: PlaneLayoutComponentType
  offsetInBits :: int
  sizeInBits :: int

record PlaneLayout =
  components :: "PlaneLayoutComponent list"
  offsetInBytes :: int
  sampleIncrementInBits :: int
  strideInBytes :: int
  widthInSamples :: int
  heightInSamples :: int
  totalSizeInBytes :: int
  horizontalSubsampling :: int
  verticalSubsampling :: int

definition component :: "PlaneLayoutComponentType \<Rightarrow> int \<Rightarrow> int \<Rightarrow> PlaneLayoutComponent" where
  "component t off sz = \<lparr>comp_type = t, offsetInBits = off, sizeInBits = sz\<rparr>"

definition plane :: "PlaneLayoutComponent list \<Rightarrow> int \<Rightarrow> int \<Rightarrow> int \<Rightarrow> PlaneLayout" where
  "plane cs incr hs vs = \<lparr>components = cs, offsetInBytes = 0, sampleIncrementInBits = incr,
     strideInBytes = 0, widthInSamples = 0, heightInSamples = 0, totalSizeInBytes = 0,
     horizontalSubsampling = hs, verticalSubsampling = vs\<rparr>"

section \<open>The table\<close>

definition layout_ABGR8888 :: "PlaneLayout list" where
  "layout_ABGR8888 = [
     plane [component PlaneLayoutComponentType_R 0 8,
            component PlaneLayoutComponentType_G 8 8,
            component PlaneLayoutComponentType_B 16 8,
            component PlaneLayoutComponentType_A 24 8]
       (uint (color_bpp GBM_FORMAT_ABGR8888)) 1 1]"

definition layout_XBGR8888 :: "PlaneLayout list" where
  "layout_XBGR8888 = [
     plane [component PlaneLayoutComponentType_R 0 8,
            component PlaneLayoutComponentType_G 8 8,
            component PlaneLayoutComponentType_B 16 8]
       (uint (color_bpp GBM_FORMAT_XBGR8888)) 1 1]"

definition layout_ARGB8888 :: "PlaneLayout list" where
  "layout_ARGB8888 = [
     plane [component PlaneLayoutComponentType_B 0 8,
            component PlaneLayoutComponentType_G 8 8,
            component PlaneLayoutComponentType_R 16 8,
            component PlaneLayoutComponentType_A 24 8]
       (uint (color_bpp GBM_FORMAT_ARGB8888)) 1 1]"

definition layout_BGR888 :: "PlaneLayout list" where
  "layout_BGR888 = [
     plane [component PlaneLayoutComponentType_R 0 8,
            component PlaneLayoutComponentType_G 8 8,
            component PlaneLayoutComponentType_B 16 8]
       (uint (color_bpp GBM_FORMAT_BGR888)) 1 1]"

definition layout_BGR565 :: "PlaneLayout list" where
  "layout_BGR565 = [
     plane [component PlaneLayoutComponentType_R 0 5,
            component PlaneLayoutComponentType_G 5 6,
            component PlaneLayoutComponentType_B 11 5]
       (uint (color_bpp GBM_FORMAT_BGR565)) 1 1]"

definition layout_YUV422 :: "PlaneLayout list" where
  "layout_YUV422 = [
     plane [component PlaneLayoutComponentType_Y 0 8]
       (8) 1 1,
     plane [component PlaneLayoutComponentType_CB 0 8]
       (8) 2 1,
     plane [component PlaneLayoutComponentType_CR 0 8]
       (8) 2 1]"

definition layout_YVU420 :: "PlaneLayout list" where
  "layout_YVU420 = [
     plane [component PlaneLayoutComponentType_Y 0 8]
       (8) 1 1,
     plane [component PlaneLayoutComponentType_CR 0 8]
       (8) 2 2,
     plane [component PlaneLayoutComponentType_CB 0 8]
       (8) 2 2]"

definition layout_VYUY :: "PlaneLayout list" where
  "layout_VYUY = [
     plane [component PlaneLayoutComponentType_CR 0 8,
            component PlaneLayoutComponentType_Y 8 8,
            component PlaneLayoutComponentType_CB 16 8,
            component PlaneLayoutComponentType_Y 24 8]
       (uint (color_bpp GBM_FORMAT_VYUY)) 1 1]"

definition layout_YUV420 :: "PlaneLayout list" where
  "layout_YUV420 = [
     plane [component PlaneLayoutComponentType_Y 0 8]
       (8) 1 1,
     plane [component PlaneLayoutComponentType_CB 0 8]
       (8) 2 2,
     plane [component PlaneLayoutComponentType_CR 0 8]
       (8) 2 2]"

definition layout_ABGR2101010 :: "PlaneLayout list" where
  "layout_ABGR2101010 = [
     plane [component PlaneLayoutComponentType_R 0 10,
            component PlaneLayoutComponentType_G 10 10,
            component PlaneLayoutComponentType_B 20 10,
            component PlaneLayoutComponentType_A 30 2]
       (uint (color_bpp GBM_FORMAT_ABGR2101010)) 1 1]"

definition layout_R8 :: "PlaneLayout list" where
  "layout_R8 = [
     plane [component PlaneLayoutComponentType_R 0 8]
       (uint (color_bpp GBM_FORMAT_R8)) 1 1]"

definition layout_R16 :: "PlaneLayout list" where
  "layout_R16 = [
     plane [component PlaneLayoutComponentType_R 0 16]
       (uint (color_bpp GBM_FORMAT_R16)) 1 1]"

definition layout_GR88 :: "PlaneLayout list" where
  "layout_GR88 = [
     plane [component PlaneLayoutComponentType_R 0 8,
            component PlaneLayoutComponentType_G 8 8]
       (uint (color_bpp GBM_FORMAT_GR88)) 1 1]"

definition layout_ABGR16161616F :: "PlaneLayout list" where
  "layout_ABGR16161616F = [
     plane [component PlaneLayoutComponentType_R 0 16,
            component PlaneLayoutComponentType_G 16 16,
            component PlaneLayoutComponentType_B 32 16,
            component PlaneLayoutComponentType_A 48 16]
       (uint (color_bpp GBM_FORMAT_ABGR16161616F)) 1 1]"

definition layout_RGB565 :: "PlaneLayout list" where
  "layout_RGB565 = [
     plane [component PlaneLayoutComponentType_B 0 5,
            component PlaneLayoutComponentType_G 5 6,
            component PlaneLayoutComponentType_R 11 5]
       (uint (color_bpp GBM_FORMAT_RGB565)) 1 1]"

definition layout_NV12 :: "PlaneLayout list" where
  "layout_NV12 = [
     plane [component PlaneLayoutComponentType_Y 0 8]
       (8) 1 1,
     plane [component PlaneLayoutComponentType_CB 0 8,
            component PlaneLayoutComponentType_CR 8 8]
       (16) 2 2]"

definition layout_NV21 :: "PlaneLayout list" where
  "layout_NV21 = [
     plane [component PlaneLayoutComponentType_Y 0 8]
       (8) 1 1,
     plane [component PlaneLayoutComponentType_CR 0 8,
            component PlaneLayoutComponentType_CB 8 8]
       (16) 2 2]"

definition layout_RGBX8888 :: "PlaneLayout list" where
  "layout_RGBX8888 = [
     plane [component PlaneLayoutComponentType_B 16 8,
            component PlaneLayoutComponentType_G 8 8,
            component PlaneLayoutComponentType_R 0 8]
       (uint (color_bpp GBM_FORMAT_RGBX8888)) 1 1]"

definition layout_XRGB8888 :: "PlaneLayout list" where
  "layout_XRGB8888 = [
     plane [component PlaneLayoutComponentType_B 16 8,
            component PlaneLayoutComponentType_G 8 8,
            component PlaneLayoutComponentType_R 0 8]
       (uint (color_bpp GBM_FORMAT_XRGB8888)) 1 1]"

definition kPlaneLayoutsMap :: "(u32 \<times> PlaneLayout list) list" where
  "kPlaneLayoutsMap = [
     (GBM_FORMAT_ABGR8888, layout_ABGR8888),
     (GBM_FORMAT_XBGR8888, layout_XBGR8888),
     (GBM_FORMAT_ARGB8888, layout_ARGB8888),
     (GBM_FORMAT_BGR888, layout_BGR888),
     (GBM_FORMAT_BGR565, layout_BGR565),
     (GBM_FORMAT_YUV422, layout_YUV422),
     (GBM_FORMAT_YVU420, layout_YVU420),
     (GBM_FORMAT_VYUY, layout_VYUY),
     (GBM_FORMAT_YUV420, layout_YUV420),
     (GBM_FORMAT_ABGR2101010, layout_ABGR2101010),
     (GBM_FORMAT_R8, layout_R8),
     (GBM_FORMAT_R16, layout_R16),
     (GBM_FORMAT_GR88, layout_GR88),
     (GBM_FORMAT_ABGR16161616F, layout_ABGR16161616F),
     (GBM_FORMAT_RGB565, layout_RGB565),
     (GBM_FORMAT_NV12, layout_NV12),
     (GBM_FORMAT_NV21, layout_NV21),
     (GBM_FORMAT_RGBX8888, layout_RGBX8888),
     (GBM_FORMAT_XRGB8888, layout_XRGB8888)]"

text \<open>\<open>getPlaneLayouts\<close>: the error number, or the layouts stored through the out pointer.\<close>

definition getPlaneLayouts :: "u32 \<Rightarrow> i32 + PlaneLayout list" where
  "getPlaneLayouts fmt = (case map_of kPlaneLayoutsMap fmt of None \<Rightarrow> Inl (- EINVAL) | Some ls \<Rightarrow> Inr ls)"

lemmas layout_defs = layout_ABGR8888_def
  layout_XBGR8888_def
  layout_ARGB8888_def
  layout_BGR888_def
  layout_BGR565_def
  layout_YUV422_def
  layout_YVU420_def
  layout_VYUY_def
  layout_YUV420_def
  layout_ABGR2101010_def
  layout_R8_def
  layout_R16_def
  layout_GR88_def
  layout_ABGR16161616F_def
  layout_RGB565_def
  layout_NV12_def
  layout_NV21_def
  layout_RGBX8888_def
  layout_XRGB8888_def component_def plane_def

section \<open>What the comments of gbm.h say\<close>

text \<open>
  \<^verbatim>\<open>include/gbm.h\<close> documents each code by its components from the most significant bit
  down, e.g. \<^verbatim>\<open>[31:0] A:B:G:R 8:8:8:8\<close>; an \<open>x\<close> is padding (None). A planar format has a
  list of these, each with its horizontal and vertical subsampling.
\<close>

type_synonym bit_fields = "(PlaneLayoutComponentType option \<times> int) list"

definition rgb_fields :: "int \<Rightarrow> PlaneLayoutComponentType option list \<Rightarrow> (int \<times> int \<times> bit_fields) list" where
  "rgb_fields sz cs = [(1, 1, map (\<lambda>c. (c, sz)) cs)]"

definition gbm_h_comment :: "(u32 \<times> (int \<times> int \<times> bit_fields) list) list" where
  "gbm_h_comment =
    (let R = PlaneLayoutComponentType_R; G = PlaneLayoutComponentType_G; B = PlaneLayoutComponentType_B;
         A = PlaneLayoutComponentType_A; Y = PlaneLayoutComponentType_Y;
         Cb = PlaneLayoutComponentType_CB; Cr = PlaneLayoutComponentType_CR
     in [
     (GBM_FORMAT_R8, rgb_fields 8 [Some R]),
     (GBM_FORMAT_R16, rgb_fields 16 [Some R]),
     (GBM_FORMAT_GR88, rgb_fields 8 [Some G, Some R]),
     (GBM_FORMAT_RGB565, [(1, 1, [(Some R, 5), (Some G, 6), (Some B, 5)])]),
     (GBM_FORMAT_BGR565, [(1, 1, [(Some B, 5), (Some G, 6), (Some R, 5)])]),
     (GBM_FORMAT_BGR888, rgb_fields 8 [Some B, Some G, Some R]),
     (GBM_FORMAT_XRGB8888, rgb_fields 8 [None, Some R, Some G, Some B]),
     (GBM_FORMAT_XBGR8888, rgb_fields 8 [None, Some B, Some G, Some R]),
     (GBM_FORMAT_RGBX8888, rgb_fields 8 [Some R, Some G, Some B, None]),
     (GBM_FORMAT_ARGB8888, rgb_fields 8 [Some A, Some R, Some G, Some B]),
     (GBM_FORMAT_ABGR8888, rgb_fields 8 [Some A, Some B, Some G, Some R]),
     (GBM_FORMAT_ABGR2101010, [(1, 1, [(Some A, 2), (Some B, 10), (Some G, 10), (Some R, 10)])]),
     (GBM_FORMAT_ABGR16161616F, rgb_fields 16 [Some A, Some B, Some G, Some R]),
     (GBM_FORMAT_VYUY, rgb_fields 8 [Some Y, Some Cb, Some Y, Some Cr]),
     (GBM_FORMAT_NV12, [(1, 1, [(Some Y, 8)]), (2, 2, [(Some Cr, 8), (Some Cb, 8)])]),
     (GBM_FORMAT_NV21, [(1, 1, [(Some Y, 8)]), (2, 2, [(Some Cb, 8), (Some Cr, 8)])]),
     (GBM_FORMAT_YUV420, [(1, 1, [(Some Y, 8)]), (2, 2, [(Some Cb, 8)]), (2, 2, [(Some Cr, 8)])]),
     (GBM_FORMAT_YVU420, [(1, 1, [(Some Y, 8)]), (2, 2, [(Some Cr, 8)]), (2, 2, [(Some Cb, 8)])]),
     (GBM_FORMAT_YUV422, [(1, 1, [(Some Y, 8)]), (2, 1, [(Some Cb, 8)]), (2, 1, [(Some Cr, 8)])])])"

text \<open>The components of a field list, placed from the least significant bit \<open>off\<close> up.\<close>

fun place_fields :: "int \<Rightarrow> bit_fields \<Rightarrow> PlaneLayoutComponent list" where
  "place_fields off [] = []"
| "place_fields off ((None, sz) # fs) = place_fields (off + sz) fs"
| "place_fields off ((Some c, sz) # fs) = component c off sz # place_fields (off + sz) fs"

definition plane_matches :: "PlaneLayout \<Rightarrow> int \<times> int \<times> bit_fields \<Rightarrow> bool" where
  "plane_matches p = (\<lambda>(hs, vs, fs).
     horizontalSubsampling p = hs \<and> verticalSubsampling p = vs
     \<and> sampleIncrementInBits p = sum_list (map snd fs)
     \<and> set (components p) = set (place_fields 0 (rev fs)))"

definition layout_matches :: "u32 \<Rightarrow> PlaneLayout list \<Rightarrow> bool" where
  "layout_matches f ls \<longleftrightarrow> (case map_of gbm_h_comment f of None \<Rightarrow> False | Some ps \<Rightarrow> list_all2 plane_matches ls ps)"

section \<open>Properties\<close>

definition component_wf :: "int \<Rightarrow> PlaneLayoutComponent \<Rightarrow> bool" where
  "component_wf incr c \<longleftrightarrow> 0 \<le> offsetInBits c \<and> 0 < sizeInBits c \<and> offsetInBits c + sizeInBits c \<le> incr"

definition bits_disjoint :: "PlaneLayoutComponent \<Rightarrow> PlaneLayoutComponent \<Rightarrow> bool" where
  "bits_disjoint c d \<longleftrightarrow> offsetInBits c + sizeInBits c \<le> offsetInBits d
     \<or> offsetInBits d + sizeInBits d \<le> offsetInBits c"

fun pairwise_list :: "('a \<Rightarrow> 'a \<Rightarrow> bool) \<Rightarrow> 'a list \<Rightarrow> bool" where
  "pairwise_list P [] = True"
| "pairwise_list P (x # xs) = (list_all (P x) xs \<and> pairwise_list P xs)"

definition plane_wf :: "PlaneLayout \<Rightarrow> bool" where
  "plane_wf p \<longleftrightarrow> components p \<noteq> [] \<and> 0 < sampleIncrementInBits p
     \<and> 1 \<le> horizontalSubsampling p \<and> 1 \<le> verticalSubsampling p
     \<and> list_all (component_wf (sampleIncrementInBits p)) (components p)
     \<and> pairwise_list bits_disjoint (components p)"

text \<open>Four times the bits a pixel takes over all planes (the subsampling divides by 1, 2 or 4).\<close>

definition layout_bits4 :: "PlaneLayout list \<Rightarrow> int" where
  "layout_bits4 ls = sum_list (map (\<lambda>p. 4 * sampleIncrementInBits p div (horizontalSubsampling p * verticalSubsampling p)) ls)"

lemmas layout_eval = layout_defs color_bpp_values component_wf_def bits_disjoint_def plane_wf_def
  layout_bits4_def

lemma kPlaneLayoutsMap_distinct: "distinct (map fst kPlaneLayoutsMap)"
  by (simp add: kPlaneLayoutsMap_def fourcc_vals)

lemma getPlaneLayouts_Inr: "getPlaneLayouts f = Inr ls \<longleftrightarrow> (f, ls) \<in> set kPlaneLayoutsMap"
  by (auto simp: getPlaneLayouts_def map_of_is_SomeI [OF kPlaneLayoutsMap_distinct]
      dest: map_of_SomeD split: option.splits)

text \<open>C31: every layout in the table is well formed: at least one component per plane, every component
  inside the sample increment, no two components of a plane overlapping, subsampling at least 1
  (so the width and height divisions of the metadata query never divide by zero).\<close>

theorem plane_layouts_wf:
  "getPlaneLayouts f = Inr ls \<Longrightarrow> ls \<noteq> [] \<and> list_all plane_wf ls"
proof -
  have "\<forall>(f, ls) \<in> set kPlaneLayoutsMap. ls \<noteq> [] \<and> list_all plane_wf ls"
    by (simp add: kPlaneLayoutsMap_def layout_eval)
  then show "getPlaneLayouts f = Inr ls \<Longrightarrow> ls \<noteq> [] \<and> list_all plane_wf ls"
    by (auto simp: getPlaneLayouts_Inr)
qed

theorem plane_layouts_wf_witness: "list_all plane_wf layout_NV12"
proof -
  have "getPlaneLayouts GBM_FORMAT_NV12 = Inr layout_NV12"
    by (simp add: getPlaneLayouts_Inr kPlaneLayoutsMap_def)
  from plane_layouts_wf [OF this] show ?thesis by simp
qed

text \<open>The layouts agree with the bits-per-pixel table: the bits of a pixel over all planes are
  \<open>color_bpp\<close> of the format, for every format but NV12 and NV21, which both take 12 bits and
  are listed with 8 and 16.\<close>

theorem plane_layouts_bpp:
  "list_all (\<lambda>(f, ls).
      f = GBM_FORMAT_NV12 \<or> f = GBM_FORMAT_NV21 \<or> layout_bits4 ls = 4 * uint (color_bpp f)) kPlaneLayoutsMap
   \<and> layout_bits4 layout_NV12 = 4 * 12 \<and> color_bpp GBM_FORMAT_NV12 = 8
   \<and> layout_bits4 layout_NV21 = 4 * 12 \<and> color_bpp GBM_FORMAT_NV21 = 16"
  by (simp add: kPlaneLayoutsMap_def layout_eval)

text \<open>The table covers the format table, as its comment says, except for P010 and the unknown
  format, whose lookup fails with \<open>-EINVAL\<close>.\<close>

theorem plane_layouts_coverage:
  "list_all (\<lambda>r. (\<exists>ls. getPlaneLayouts (cf_gbm_format r) = Inr ls)
      \<or> cf_gbm_format r = GBM_FOURCC_CODE_P010 \<or> cf_gbm_format r = GBM_FORMAT_EXT_UNKNOWN) (color_format_map hal)
   \<and> getPlaneLayouts GBM_FOURCC_CODE_P010 = Inl (- EINVAL)
   \<and> getPlaneLayouts GBM_FORMAT_EXT_UNKNOWN = Inl (- EINVAL)"
proof (intro conjI)
  show "list_all (\<lambda>r. (\<exists>ls. getPlaneLayouts (cf_gbm_format r) = Inr ls)
      \<or> cf_gbm_format r = GBM_FOURCC_CODE_P010 \<or> cf_gbm_format r = GBM_FORMAT_EXT_UNKNOWN) (color_format_map hal)"
    by (simp add: color_format_map_def getPlaneLayouts_Inr kPlaneLayoutsMap_def) blast
  have "map_of kPlaneLayoutsMap GBM_FOURCC_CODE_P010 = None"
    "map_of kPlaneLayoutsMap GBM_FORMAT_EXT_UNKNOWN = None"
    by (simp_all add: map_of_eq_None_iff kPlaneLayoutsMap_def fourcc_vals)
  then show "getPlaneLayouts GBM_FOURCC_CODE_P010 = Inl (- EINVAL)"
    "getPlaneLayouts GBM_FORMAT_EXT_UNKNOWN = Inl (- EINVAL)"
    by (simp_all add: getPlaneLayouts_def)
qed

text \<open>Every layout places its components where the comment on its code in gbm.h puts them,
  except XRGB8888 and RGBX8888: both have red in the low byte, which is neither
  \<open>x:R:G:B\<close> nor \<open>R:G:B:x\<close>.\<close>

theorem plane_layouts_match_comments:
  "list_all (\<lambda>(f, ls).
      layout_matches f ls \<or> f = GBM_FORMAT_XRGB8888 \<or> f = GBM_FORMAT_RGBX8888) kPlaneLayoutsMap
   \<and> \<not> layout_matches GBM_FORMAT_XRGB8888 layout_XRGB8888
   \<and> \<not> layout_matches GBM_FORMAT_RGBX8888 layout_RGBX8888"
  unfolding kPlaneLayoutsMap_def layout_defs color_bpp_values
  by (simp add: layout_matches_def plane_matches_def gbm_h_comment_def rgb_fields_def fourcc_vals
      component_def set_eq_subset)

end
