(* ===== verification/Mapper_World.thy ===== *)
theory Mapper_World
  imports Gralloc_Gbm Plane_Layouts
begin

text \<open>
  The state of the mapper library (\<^verbatim>\<open>mapper_stablec\<close>), the interface of its back ends
  (\<^verbatim>\<open>MapperBackendImpl.hpp\<close>) and the code it calls that the repository does not contain: libcutils'
  native handles, \<open>mmap\<close>, the DMA-BUF allocator library, the error numbers of \<open>IMapper.h\<close> and the
  metadata encoding of \<open>IMapperMetadataTypes.h\<close>. These are fields of the record \<open>mapper_env\<close>.
\<close>

section \<open>Metadata\<close>

text \<open>The AIDL enumeration, with the members the code names; a metadata type is the number of one of
  them or of none.\<close>

datatype StandardMetadataType =
    BUFFER_ID | NAME | WIDTH | HEIGHT | LAYER_COUNT | PIXEL_FORMAT_REQUESTED | PIXEL_FORMAT_FOURCC
  | PIXEL_FORMAT_MODIFIER | USAGE | ALLOCATION_SIZE | PROTECTED_CONTENT | STRIDE | COMPRESSION
  | INTERLACED | CHROMA_SITING | PLANE_LAYOUTS | CROP | DATASPACE | BLEND_MODE | SMPTE2086 | CTA861_3
  | SMPTE2094_40 | SMPTE2094_10 | SMPTE2094_50 | OTHER_METADATA

record AIMapper_MetadataType =
  mt_name :: string
  mt_value :: StandardMetadataType

record Rect =
  r_left :: i32
  r_top :: i32
  r_right :: i32
  r_bottom :: i32

text \<open>What a query hands to the encoder \<open>provide\<close>, with its C++ type.\<close>

datatype metadata_value =
    V_uint64 u64
  | V_pointer addr             \<comment> \<open>a pointer as a \<open>uint64_t\<close>\<close>
  | V_uint32 u32
  | V_int32 i32
  | V_bool bool
  | V_string string
  | V_string_at addr           \<comment> \<open>the C string at an address\<close>
  | V_format i32               \<comment> \<open>\<open>PixelFormat\<close>\<close>
  | V_usage i64                \<comment> \<open>\<open>BufferUsage\<close>\<close>
  | V_compression_none | V_interlaced_none | V_chroma_siting_none \<comment> \<open>constants of \<open>Gralloc4.h\<close>\<close>
  | V_planes "PlaneLayout list"
  | V_crops "Rect list"
  | V_dataspace i32
  | V_blend_mode i32
  | V_smpte2086 "smpte2086_t option"
  | V_cta861_3 "cta861_3_t option"
  | V_bytes "u8 list option"

text \<open>The bytes behind the \<open>metadata\<close> pointer of a client, as each type the code reads them as.\<close>

record metadata_input =
  in_dataspace :: i32
  in_blend_mode :: i32
  in_smpte2086 :: smpte2086_t
  in_cta861_3 :: cta861_3_t
  in_bytes :: "u8 list"  \<comment> \<open>\<open>metadataSize\<close> bytes\<close>

section \<open>State\<close>

datatype MapperBackendType = MAPPER_GRALLOC_GBM | MAPPER_GRALLOC_DMABUF | MAPPER_GRALLOC_UNKNOWN

text \<open>The header of a native handle.\<close>

record native_handle_t =
  numFds :: i32
  numInts :: i32

record buffer_info_t =
  bi_prime_fd :: i32
  bi_buffer_id :: addr
  bi_width :: i32
  bi_height :: i32
  bi_format :: i32
  bi_usage :: i64
  bi_stride :: u32
  bi_size :: u64
  bi_mapped :: addr
  bi_is_protected :: bool

text \<open>
  \<open>gbm\<close> holds the heaps, the GBM back end's statics and the libraries' state. \<open>dma_allocators\<close> counts
  the \<open>BufferAllocator\<close> objects created; the static pointer to the last is NULL when there is none.
  \<open>mBackend\<close> is the member of the mapper: the back ends have no state of their own, so the shared
  pointer is the kind of back end it refers to.
\<close>

record 'e mapper =
  gbm :: "'e world"
  natives :: "addr \<rightharpoonup> native_handle_t"
  metas :: "addr \<rightharpoonup> buffer_metadata_t"
  dma_infos :: "addr \<rightharpoonup> buffer_info_t"
  importedBufferTable :: "i32 \<rightharpoonup> addr"
  dma_allocators :: nat
  mBackend :: "MapperBackendType option"

section \<open>The environment\<close>

datatype SyncType = kSyncRead | kSyncWrite | kSyncReadWrite

record mapper_errors =
  AIMAPPER_ERROR_NONE :: i32
  AIMAPPER_ERROR_BAD_BUFFER :: i32
  AIMAPPER_ERROR_BAD_VALUE :: i32
  AIMAPPER_ERROR_NO_RESOURCES :: i32
  AIMAPPER_ERROR_UNSUPPORTED :: i32

text \<open>
  \<open>native_handle_clone\<close> returns the contents of the copy (with its own descriptors) or None;
  \<open>mmap\<close> returns the address or the value of \<open>errno\<close>; \<open>provide\<close> encodes a value for a type into a
  buffer of some size and returns the number of bytes or a negative error; \<open>no_such_type\<close> is the
  result for a number that is no metadata type; \<open>stale_info\<close> is what a read of freed buffer
  information finds, None when it traps; \<open>checked_optional\<close> says whether the standard library aborts
  on \<open>operator->\<close> of an empty \<open>std::optional\<close>.
\<close>

record 'e mapper_env =
  plat :: "'e platform"
  errs :: mapper_errors
  native_handle_clone :: "gralloc_handle_t \<Rightarrow> 'e \<Rightarrow> gralloc_handle_t option \<times> 'e"
  native_handle_close :: "gralloc_handle_t \<Rightarrow> 'e \<Rightarrow> 'e"
  dmabuf_heap_list_empty :: "'e \<Rightarrow> bool"
  mmap :: "u64 \<Rightarrow> i32 \<Rightarrow> 'e \<Rightarrow> (i32 + addr) \<times> 'e"
  CpuSyncStart :: "i32 \<Rightarrow> SyncType \<Rightarrow> 'e \<Rightarrow> 'e"
  CpuSyncEnd :: "i32 \<Rightarrow> SyncType \<Rightarrow> 'e \<Rightarrow> 'e"
  provide :: "StandardMetadataType \<Rightarrow> metadata_value \<Rightarrow> nat \<Rightarrow> i32"
  no_such_type :: i32
  stale_info :: "buffer_info_t \<Rightarrow> buffer_info_t option"
  checked_optional :: bool

section \<open>The interface of a back end\<close>

text \<open>\<open>MapperBackendImplV5\<close>: the table of virtual functions. An access region has the members of
  \<open>ARect\<close>; out pointers are values passed in and out.\<close>

record 'e backend =
  isReady :: "'e mapper \<Rightarrow> bool res"
  init :: "'e mapper \<Rightarrow> (i32 \<times> 'e mapper) res"
  importBuffer :: "addr \<Rightarrow> 'e mapper \<Rightarrow> (i32 \<times> 'e mapper) res"
  freeBuffer :: "addr \<Rightarrow> 'e mapper \<Rightarrow> (i32 \<times> 'e mapper) res"
  lock :: "addr \<Rightarrow> u64 \<Rightarrow> Rect \<Rightarrow> i32 \<Rightarrow> addr \<Rightarrow> 'e mapper \<Rightarrow> (i32 \<times> addr \<times> 'e mapper) res"
  unlock :: "addr \<Rightarrow> 'e mapper \<Rightarrow> (i32 \<times> 'e mapper) res"
  flushLockedBuffer :: "addr \<Rightarrow> 'e mapper \<Rightarrow> (i32 \<times> 'e mapper) res"
  rereadLockedBuffer :: "addr \<Rightarrow> 'e mapper \<Rightarrow> (i32 \<times> 'e mapper) res"
  getStandardMetadata :: "addr \<Rightarrow> StandardMetadataType \<Rightarrow> nat \<Rightarrow> 'e mapper \<Rightarrow> (i32 \<times> metadata_value option \<times> 'e mapper) res"
  setStandardMetadata :: "addr \<Rightarrow> StandardMetadataType \<Rightarrow> addr \<Rightarrow> 'e mapper \<Rightarrow> (i32 \<times> 'e mapper) res"

text \<open>A function of the GBM library, run on the mapper's state.\<close>

definition on_gbm :: "('e world \<Rightarrow> ('a \<times> 'e world) res) \<Rightarrow> 'e mapper \<Rightarrow> ('a \<times> 'e mapper) res" where
  "on_gbm f m = and_then (f (gbm m)) (\<lambda>(a, w). Inr (a, m\<lparr>gbm := w\<rparr>))"

text \<open>Memory and the libraries' state of the process.\<close>

definition m_malloc :: "'e mapper_env \<Rightarrow> nat \<Rightarrow> 'e mapper \<Rightarrow> addr \<times> 'e mapper" where
  "m_malloc E sz m = (case malloc (mem_oom (plat E)) sz (gbm m) of (p, w) \<Rightarrow> (p, m\<lparr>gbm := w\<rparr>))"

definition on_ext :: "('e \<Rightarrow> 'e) \<Rightarrow> 'e mapper \<Rightarrow> 'e mapper" where
  "on_ext f m = m\<lparr>gbm := (gbm m)\<lparr>ext := f (ext (gbm m))\<rparr>\<rparr>"

end
