(* ===== verification/Mapper_Gbm.thy ===== *)
theory Mapper_Gbm
  imports Mapper_World
begin

text \<open>
  The GBM back end of the mapper, \<^verbatim>\<open>backend/MapperGrallocGbm.cpp\<close>: it forwards to the GBM library
  and translates the result of a query into the metadata value of the type asked for.
\<close>

section \<open>Forwarding\<close>

definition gbm_isReady :: "'e mapper_env \<Rightarrow> 'e mapper \<Rightarrow> bool res" where
  "gbm_isReady E m = is_gralloc_gbm_ready (plat E) (gbm m)"

definition gbm_init :: "'e mapper_env \<Rightarrow> 'e mapper \<Rightarrow> (i32 \<times> 'e mapper) res" where
  "gbm_init E = on_gbm (gralloc_gbm_init (plat E))"

definition gbm_importBuffer :: "'e mapper_env \<Rightarrow> addr \<Rightarrow> 'e mapper \<Rightarrow> (i32 \<times> 'e mapper) res" where
  "gbm_importBuffer E h = on_gbm (gralloc_gbm_android_buffer_import (plat E) h)"

definition gbm_freeBuffer :: "'e mapper_env \<Rightarrow> addr \<Rightarrow> 'e mapper \<Rightarrow> (i32 \<times> 'e mapper) res" where
  "gbm_freeBuffer E h = on_gbm (gralloc_gbm_android_buffer_free (plat E) h)"

text \<open>The CPU usage is cut to an \<open>int\<close>; the acquire fence is not looked at.\<close>

definition gbm_lock ::
  "'e mapper_env \<Rightarrow> addr \<Rightarrow> u64 \<Rightarrow> Rect \<Rightarrow> i32 \<Rightarrow> addr \<Rightarrow> 'e mapper \<Rightarrow> (i32 \<times> addr \<times> 'e mapper) res" where
  "gbm_lock E h cpuUsage rect acquireFence out m =
    and_then (gralloc_gbm_android_buffer_lock (plat E) h (ucast cpuUsage) (r_top rect) (r_bottom rect)
        (r_left rect) (r_right rect) out (gbm m)) (\<lambda>(ret, out', w). Inr (ret, out', m\<lparr>gbm := w\<rparr>))"

definition gbm_unlock :: "'e mapper_env \<Rightarrow> addr \<Rightarrow> 'e mapper \<Rightarrow> (i32 \<times> 'e mapper) res" where
  "gbm_unlock E h = on_gbm (gralloc_gbm_android_buffer_unlock (plat E) h)"

definition gbm_flushLockedBuffer :: "addr \<Rightarrow> 'e mapper \<Rightarrow> (i32 \<times> 'e mapper) res" where
  "gbm_flushLockedBuffer h m = Inr (0, m)"

definition gbm_rereadLockedBuffer :: "addr \<Rightarrow> 'e mapper \<Rightarrow> (i32 \<times> 'e mapper) res" where
  "gbm_rereadLockedBuffer h m = Inr (0, m)"

section \<open>Reading metadata\<close>

text \<open>Division of \<open>int64_t\<close> values.\<close>

definition trunc_div :: "int \<Rightarrow> int \<Rightarrow> int res" where
  "trunc_div a b = (if b = 0 then Inl DivByZero else Inr (sgn a * sgn b * (\<bar>a\<bar> div \<bar>b\<bar>)))"

definition DIV_ROUND_UP_s :: "i32 \<Rightarrow> int \<Rightarrow> int res" where
  "DIV_ROUND_UP_s n d = and_then (int_result (sint n + d)) (\<lambda>s.
     and_then (int_result (sint s - 1)) (\<lambda>s1. trunc_div (sint s1) d))"

definition fill_plane :: "android_buffer_info_t \<Rightarrow> PlaneLayout \<Rightarrow> PlaneLayout res" where
  "fill_plane info p =
    and_then (int_result (sint (info_stride info) * int (unat (color_bytes_per_pixel (info_gbm_format info))))) (\<lambda>st.
    and_then (DIV_ROUND_UP_s (info_height info) 1) (\<lambda>rows.
    and_then (trunc_div (sint (info_width info)) (horizontalSubsampling p)) (\<lambda>ws.
    and_then (trunc_div (sint (info_height info)) (verticalSubsampling p)) (\<lambda>hs.
      Inr (p\<lparr>offsetInBytes := 0, strideInBytes := sint st, totalSizeInBytes := sint st * rows,
             widthInSamples := ws, heightInSamples := hs\<rparr>)))))"

fun fill_planes :: "android_buffer_info_t \<Rightarrow> PlaneLayout list \<Rightarrow> PlaneLayout list res" where
  "fill_planes info [] = Inr []"
| "fill_planes info (p # ps) = and_then (fill_plane info p) (\<lambda>q.
     and_then (fill_planes info ps) (\<lambda>qs. Inr (q # qs)))"

text \<open>A query either returns a code of its own or hands a value to \<open>provide\<close>.\<close>

datatype answer = Code i32 | Value metadata_value

text \<open>
  \<open>operator->\<close> on the empty optional: an abort in a checked library; otherwise the members are
  written to the storage and the optional stays empty.
\<close>

definition set_through_empty :: "'e mapper_env \<Rightarrow> ('a option \<Rightarrow> metadata_value) \<Rightarrow> answer res" where
  "set_through_empty E V = (if checked_optional E then Inl EmptyOptional else Inr (Value (V None)))"

definition gbm_metadata_answer ::
  "'e mapper_env \<Rightarrow> 'e world \<Rightarrow> android_buffer_info_t \<Rightarrow> StandardMetadataType \<Rightarrow> answer res" where
  "gbm_metadata_answer E w info t =
    (case t of
       BUFFER_ID \<Rightarrow> Inr (Value (V_pointer (buffer_id info)))
     | NAME \<Rightarrow> Inr (Value (if info_name info \<noteq> NULL then V_string_at (info_name info) else V_string ''<unknown name>''))
     | WIDTH \<Rightarrow> Inr (Value (V_int32 (info_width info)))
     | HEIGHT \<Rightarrow> Inr (Value (V_int32 (info_height info)))
     | LAYER_COUNT \<Rightarrow> Inr (Value (V_int32 (info_layer_count info)))
     | PIXEL_FORMAT_REQUESTED \<Rightarrow> Inr (Value (V_format (info_android_format info)))
     | PIXEL_FORMAT_FOURCC \<Rightarrow> Inr (Value (V_uint32 (info_gbm_format info)))
     | PIXEL_FORMAT_MODIFIER \<Rightarrow> Inr (Value (V_uint64 (info_modifier info)))
     | USAGE \<Rightarrow> Inr (Value (V_usage (scast (info_usage info))))
     | ALLOCATION_SIZE \<Rightarrow> Inr (Value (V_uint64 (info_size info)))
     | PROTECTED_CONTENT \<Rightarrow> Inr (Value (V_bool (is_protected info)))
     | COMPRESSION \<Rightarrow> Inr (Value V_compression_none)
     | INTERLACED \<Rightarrow> Inr (Value V_interlaced_none)
     | CHROMA_SITING \<Rightarrow> Inr (Value V_chroma_siting_none)
     | PLANE_LAYOUTS \<Rightarrow>
         (case getPlaneLayouts (info_gbm_format info) of
            Inl _ \<Rightarrow> Inr (Code (AIMAPPER_ERROR_UNSUPPORTED (errs E)))
          | Inr ls \<Rightarrow> and_then (fill_planes info ls) (\<lambda>ps. Inr (Value (V_planes ps))))
     | CROP \<Rightarrow> Inr (Value (V_crops [\<lparr>r_left = 0, r_top = 0, r_right = info_width info, r_bottom = info_height info\<rparr>]))
     | DATASPACE \<Rightarrow> Inr (Value (V_dataspace (dataspace (info_metadata info))))
     | BLEND_MODE \<Rightarrow> Inr (Value (V_blend_mode (dataspace (info_metadata info))))
     | SMPTE2086 \<Rightarrow> and_then (deref (smpte_heap w) (smpte2086 (info_metadata info))) (\<lambda>_.
         set_through_empty E V_smpte2086)
     | CTA861_3 \<Rightarrow> and_then (deref (cta_heap w) (cta861_3 (info_metadata info))) (\<lambda>_.
         set_through_empty E V_cta861_3)
     | SMPTE2094_40 \<Rightarrow> Inr (Code (AIMAPPER_ERROR_UNSUPPORTED (errs E)))
     | SMPTE2094_10 \<Rightarrow> Inr (Code (AIMAPPER_ERROR_UNSUPPORTED (errs E)))
     | STRIDE \<Rightarrow> Inr (Value (V_int32 (info_stride info)))
     | SMPTE2094_50 \<Rightarrow>
         (if 0 < sint (smpte2094_50_size (info_metadata info))
          then and_then (deref (blob_heap w) (smpte2094_50 (info_metadata info))) (\<lambda>bytes.
            if length bytes < nat (sint (smpte2094_50_size (info_metadata info))) then Inl BadDeref
            else Inr (Value (V_bytes (Some (take (nat (sint (smpte2094_50_size (info_metadata info)))) bytes)))))
          else Inr (Value (V_bytes None)))
     | OTHER_METADATA \<Rightarrow> Inr (Code (AIMAPPER_ERROR_UNSUPPORTED (errs E))))"

definition grallocGbmQueryAndroidBufferMetadata ::
  "'e mapper_env \<Rightarrow> addr \<Rightarrow> StandardMetadataType \<Rightarrow> 'e mapper \<Rightarrow> (answer \<times> 'e mapper) res" where
  "grallocGbmQueryAndroidBufferMetadata E h t m =
    and_then (gralloc_gbm_android_buffer_query (plat E) h (gbm m)) (\<lambda>(ret, info, w).
    let m1 = m\<lparr>gbm := w\<rparr> in
    case (ret = 0, info) of
      (True, Some i) \<Rightarrow> and_then (gbm_metadata_answer E w i t) (\<lambda>a. Inr (a, m1))
    | _ \<Rightarrow> Inr (Code (AIMAPPER_ERROR_NO_RESOURCES (errs E)), m1))"

text \<open>\<open>provideStandardMetadata\<close> calls the query for the types it knows.\<close>

definition provideStandardMetadata ::
  "'e mapper_env \<Rightarrow> StandardMetadataType \<Rightarrow> nat \<Rightarrow> (StandardMetadataType \<Rightarrow> 'e mapper \<Rightarrow> (answer \<times> 'e mapper) res)
   \<Rightarrow> 'e mapper \<Rightarrow> (i32 \<times> metadata_value option \<times> 'e mapper) res" where
  "provideStandardMetadata E t destSize query m =
    (if t = OTHER_METADATA then Inr (no_such_type E, None, m)
     else and_then (query t m) (\<lambda>(a, m1).
       case a of Code c \<Rightarrow> Inr (c, None, m1) | Value v \<Rightarrow> Inr (provide E t v destSize, Some v, m1)))"

definition gbm_getStandardMetadata ::
  "'e mapper_env \<Rightarrow> addr \<Rightarrow> StandardMetadataType \<Rightarrow> nat \<Rightarrow> 'e mapper \<Rightarrow> (i32 \<times> metadata_value option \<times> 'e mapper) res" where
  "gbm_getStandardMetadata E h t destSize =
    provideStandardMetadata E t destSize (grallocGbmQueryAndroidBufferMetadata E h)"

section \<open>Writing metadata\<close>

text \<open>The assignment for one type: pointers are taken over, the old ones are not freed.\<close>

definition merge_metadata :: "StandardMetadataType \<Rightarrow> buffer_metadata_t \<Rightarrow> buffer_metadata_t \<Rightarrow> buffer_metadata_t" where
  "merge_metadata t new old =
    (case t of
       DATASPACE \<Rightarrow> old\<lparr>dataspace := dataspace new\<rparr>
     | BLEND_MODE \<Rightarrow> old\<lparr>blend_mode := blend_mode new\<rparr>
     | SMPTE2086 \<Rightarrow> old\<lparr>smpte2086 := smpte2086 new\<rparr>
     | CTA861_3 \<Rightarrow> old\<lparr>cta861_3 := cta861_3 new\<rparr>
     | SMPTE2094_50 \<Rightarrow> old\<lparr>smpte2094_50 := smpte2094_50 new, smpte2094_50_size := smpte2094_50_size new\<rparr>
     | _ \<Rightarrow> old)"

definition gbm_setStandardMetadata ::
  "'e mapper_env \<Rightarrow> addr \<Rightarrow> StandardMetadataType \<Rightarrow> addr \<Rightarrow> 'e mapper \<Rightarrow> (i32 \<times> 'e mapper) res" where
  "gbm_setStandardMetadata E h t data m =
    and_then (gralloc_gbm_android_buffer_get_extdata (plat E) h (gbm m)) (\<lambda>(d, w).
    let m1 = m\<lparr>gbm := w\<rparr> in
    if d = NULL then Inr (- EINVAL, m1)
    else if t \<notin> {DATASPACE, BLEND_MODE, SMPTE2086, CTA861_3, SMPTE2094_50} then Inr (0, m1)
    else and_then (deref (metas m1) data) (\<lambda>new.
      and_then (deref (bo_data w) d) (\<lambda>bd.
        Inr (0, m1\<lparr>gbm := w\<lparr>bo_data := (bo_data w)(d \<mapsto> bd\<lparr>metadata := merge_metadata t new (metadata bd)\<rparr>)\<rparr>\<rparr>))))"

definition MapperBackendGrallocGbm :: "'e mapper_env \<Rightarrow> 'e backend" where
  "MapperBackendGrallocGbm E = \<lparr>isReady = gbm_isReady E, init = gbm_init E, importBuffer = gbm_importBuffer E,
     freeBuffer = gbm_freeBuffer E, lock = gbm_lock E, unlock = gbm_unlock E,
     flushLockedBuffer = gbm_flushLockedBuffer, rereadLockedBuffer = gbm_rereadLockedBuffer,
     getStandardMetadata = gbm_getStandardMetadata E, setStandardMetadata = gbm_setStandardMetadata E\<rparr>"

end
