(* ===== verification/Mapper_DmaBuf.thy ===== *)
theory Mapper_DmaBuf
  imports Mapper_Gbm
begin

text \<open>
  The DMA-BUF back end of the mapper, \<^verbatim>\<open>backend/MapperDmaBuf.cpp\<close>, with its table of imported
  buffers and its static allocator. The table is a map from descriptors to pointers; the buffer
  information lives in a heap of its own.
\<close>

unbundle bit_operations_syntax

definition dma_isReady :: "'e mapper_env \<Rightarrow> 'e mapper \<Rightarrow> bool res" where
  "dma_isReady E m =
    Inr (if dma_allocators m = 0 then False
         else if dmabuf_heap_list_empty E (ext (gbm m)) then False
         else True)"

text \<open>\<open>new\<close> throws rather than return NULL; an earlier allocator is not deleted.\<close>

definition dma_init :: "'e mapper \<Rightarrow> (i32 \<times> 'e mapper) res" where
  "dma_init m = Inr (0, m\<lparr>dma_allocators := Suc (dma_allocators m)\<rparr>)"

definition sizeof_buffer_info :: nat where "sizeof_buffer_info = 64"

text \<open>The result of \<open>calloc\<close> is not checked.\<close>

definition buffer_info_create :: "'e mapper_env \<Rightarrow> addr \<Rightarrow> gralloc_handle_t \<Rightarrow> 'e mapper \<Rightarrow> (addr \<times> 'e mapper) res" where
  "buffer_info_create E h g m =
    (case m_malloc E sizeof_buffer_info m of (bi, m1) \<Rightarrow>
     if bi = NULL then Inl NullDeref
     else and_then (int_result (sint (gh_width g) * sint (gh_height g))) (\<lambda>sz.
       Inr (bi, m1\<lparr>dma_infos := (dma_infos m1)(bi \<mapsto>
         \<lparr>bi_prime_fd = prime_fd g, bi_buffer_id = h, bi_width = gh_width g, bi_height = gh_height g,
          bi_format = gh_format g, bi_usage = ucast (gh_usage g), bi_stride = gh_stride g,
          bi_size = scast sz, bi_mapped = NULL,
          bi_is_protected = (gh_usage g AND PROTECTED (gu (plat E)) \<noteq> 0)\<rparr>)\<rparr>)))"

text \<open>\<open>insert\<close> does nothing when the key is present.\<close>

definition dma_importBuffer :: "'e mapper_env \<Rightarrow> addr \<Rightarrow> 'e mapper \<Rightarrow> (i32 \<times> 'e mapper) res" where
  "dma_importBuffer E h m =
    (if h = NULL then Inr (- EINVAL, m)
     else and_then (deref (handles (gbm m)) h) (\<lambda>g.
     and_then (buffer_info_create E h g m) (\<lambda>(bi, m1).
     if bi = NULL then Inr (- EINVAL, m1)
     else and_then (deref (dma_infos m1) bi) (\<lambda>info.
       Inr (0, if importedBufferTable m1 (bi_prime_fd info) = None
               then m1\<lparr>importedBufferTable := (importedBufferTable m1)(bi_prime_fd info \<mapsto> bi)\<rparr>
               else m1)))))"

text \<open>The pointer the table holds for a handle, NULL when there is none.\<close>

definition dma_find :: "gralloc_handle_t \<Rightarrow> 'e mapper \<Rightarrow> addr" where
  "dma_find g m = (case importedBufferTable m (prime_fd g) of None \<Rightarrow> NULL | Some p \<Rightarrow> p)"

text \<open>The key to erase is read from the freed block.\<close>

definition dma_freeBuffer :: "'e mapper_env \<Rightarrow> addr \<Rightarrow> 'e mapper \<Rightarrow> (i32 \<times> 'e mapper) res" where
  "dma_freeBuffer E h m =
    (if h = NULL then Inr (- EINVAL, m)
     else and_then (deref (handles (gbm m)) h) (\<lambda>g.
     let bi = dma_find g m in
     if bi = NULL then Inr (- EINVAL, m)
     else case dma_infos m bi of
       None \<Rightarrow> Inl DoubleFree
     | Some info \<Rightarrow>
         let m1 = m\<lparr>dma_infos := (dma_infos m)(bi := None)\<rparr> in
         case stale_info E info of
           None \<Rightarrow> Inl UseAfterFree
         | Some found \<Rightarrow> Inr (0, m1\<lparr>importedBufferTable := (importedBufferTable m1)(bi_prime_fd found := None)\<rparr>)))"

definition sync_type :: "bool \<Rightarrow> bool \<Rightarrow> SyncType" where
  "sync_type cpu_read cpu_write =
    (if cpu_read \<and> cpu_write then kSyncReadWrite
     else if cpu_read then kSyncRead
     else if cpu_write then kSyncWrite
     else kSyncReadWrite)"

text \<open>The usage constants are \<open>int\<close>s, converted to 64 bits for the test.\<close>

definition dma_lock ::
  "'e mapper_env \<Rightarrow> addr \<Rightarrow> u64 \<Rightarrow> Rect \<Rightarrow> i32 \<Rightarrow> addr \<Rightarrow> 'e mapper \<Rightarrow> (i32 \<times> addr \<times> 'e mapper) res" where
  "dma_lock E h cpuUsage rect acquireFence out m =
    (if h = NULL then Inr (- EINVAL, out, m)
     else and_then (deref (handles (gbm m)) h) (\<lambda>g.
     let bi = dma_find g m in
     if bi = NULL then Inr (- EINVAL, out, m)
     else and_then (deref (dma_infos m) bi) (\<lambda>info.
     case (if bi_mapped info \<noteq> NULL then (Inr (bi_mapped info), m)
           else case mmap E (bi_size info) (bi_prime_fd info) (ext (gbm m)) of (r, e) \<Rightarrow>
             let m1 = on_ext (\<lambda>_. e) m in
             case r of Inl err \<Rightarrow> (Inl err, m1)
             | Inr p \<Rightarrow> (Inr p, m1\<lparr>dma_infos := (dma_infos m1)(bi \<mapsto> info\<lparr>bi_mapped := p\<rparr>)\<rparr>)) of
       (Inl err, m1) \<Rightarrow> Inr (- err, out, m1)
     | (Inr p, m1) \<Rightarrow>
         let u = gu (plat E) in
         if cpuUsage AND scast (HW_FB u) \<noteq> 0 then Inr (- EINVAL, out, m1)
         else
           let cpu_read = (cpuUsage AND scast (SW_READ_OFTEN u) \<noteq> 0 \<or> cpuUsage AND scast (SW_READ_RARELY u) \<noteq> 0);
               cpu_write = (cpuUsage AND scast (SW_WRITE_OFTEN u) \<noteq> 0 \<or> cpuUsage AND scast (SW_WRITE_RARELY u) \<noteq> 0)
           in if dma_allocators m1 = 0 then Inl NullDeref
              else Inr (0, p, on_ext (CpuSyncStart E (prime_fd g) (sync_type cpu_read cpu_write)) m1))))"

text \<open>The direction comes from the usage of the handle, not from the lock.\<close>

definition dma_unlock :: "'e mapper_env \<Rightarrow> addr \<Rightarrow> 'e mapper \<Rightarrow> (i32 \<times> 'e mapper) res" where
  "dma_unlock E h m =
    (if h = NULL then Inr (- EINVAL, m)
     else and_then (deref (handles (gbm m)) h) (\<lambda>g.
     let u = gu (plat E); usage = gh_usage g in
     if usage AND HW_FB u \<noteq> 0 then Inr (- EINVAL, m)
     else
       let cpu_read = (usage AND SW_READ_OFTEN u \<noteq> 0 \<or> usage AND SW_READ_RARELY u \<noteq> 0);
           cpu_write = (usage AND SW_WRITE_OFTEN u \<noteq> 0 \<or> usage AND SW_WRITE_RARELY u \<noteq> 0)
       in if dma_allocators m = 0 then Inl NullDeref
          else Inr (0, on_ext (CpuSyncEnd E (prime_fd g) (sync_type cpu_read cpu_write)) m)))"

definition dma_flushLockedBuffer :: "addr \<Rightarrow> 'e mapper \<Rightarrow> (i32 \<times> 'e mapper) res" where
  "dma_flushLockedBuffer h m = Inr (0, m)"

definition dma_rereadLockedBuffer :: "addr \<Rightarrow> 'e mapper \<Rightarrow> (i32 \<times> 'e mapper) res" where
  "dma_rereadLockedBuffer h m = Inr (0, m)"

definition DRM_FORMAT_R8 :: u32 where
  "DRM_FORMAT_R8 = gbm_fourcc_code (CHR ''R'') (CHR ''8'') (CHR '' '') (CHR '' '')"

definition dma_metadata_answer :: "'e mapper_env \<Rightarrow> buffer_info_t \<Rightarrow> StandardMetadataType \<Rightarrow> answer" where
  "dma_metadata_answer E info t =
    (case t of
       BUFFER_ID \<Rightarrow> Value (V_pointer (bi_buffer_id info))
     | WIDTH \<Rightarrow> Value (V_int32 (bi_width info))
     | HEIGHT \<Rightarrow> Value (V_int32 (bi_height info))
     | LAYER_COUNT \<Rightarrow> Value (V_int32 1)
     | PIXEL_FORMAT_REQUESTED \<Rightarrow> Value (V_format (bi_format info))
     | PIXEL_FORMAT_FOURCC \<Rightarrow> Value (V_uint32 DRM_FORMAT_R8)
     | USAGE \<Rightarrow> Value (V_usage (bi_usage info))
     | ALLOCATION_SIZE \<Rightarrow> Value (V_uint64 (bi_size info))
     | PROTECTED_CONTENT \<Rightarrow> Value (V_bool (bi_is_protected info))
     | COMPRESSION \<Rightarrow> Value V_compression_none
     | INTERLACED \<Rightarrow> Value V_interlaced_none
     | CHROMA_SITING \<Rightarrow> Value V_chroma_siting_none
     | CROP \<Rightarrow> Value (V_crops [\<lparr>r_left = 0, r_top = 0, r_right = bi_width info, r_bottom = bi_height info\<rparr>])
     | STRIDE \<Rightarrow> Value (V_int32 (bi_stride info))
     | _ \<Rightarrow> Code (AIMAPPER_ERROR_UNSUPPORTED (errs E)))"

definition queryAndroidBufferMetadata ::
  "'e mapper_env \<Rightarrow> addr \<Rightarrow> StandardMetadataType \<Rightarrow> 'e mapper \<Rightarrow> (answer \<times> 'e mapper) res" where
  "queryAndroidBufferMetadata E h t m =
    (if h = NULL then Inr (Code (- EINVAL), m)
     else and_then (deref (handles (gbm m)) h) (\<lambda>g.
     let info = dma_find g m in
     if info = NULL then Inr (Code (- EINVAL), m)
     else and_then (deref (dma_infos m) info) (\<lambda>i. Inr (dma_metadata_answer E i t, m))))"

definition dma_getStandardMetadata ::
  "'e mapper_env \<Rightarrow> addr \<Rightarrow> StandardMetadataType \<Rightarrow> nat \<Rightarrow> 'e mapper \<Rightarrow> (i32 \<times> metadata_value option \<times> 'e mapper) res" where
  "dma_getStandardMetadata E h t destSize = provideStandardMetadata E t destSize (queryAndroidBufferMetadata E h)"

definition dma_setStandardMetadata ::
  "addr \<Rightarrow> StandardMetadataType \<Rightarrow> addr \<Rightarrow> 'e mapper \<Rightarrow> (i32 \<times> 'e mapper) res" where
  "dma_setStandardMetadata h t data m = Inr (0, m)"

definition MapperBackendDmaBuf :: "'e mapper_env \<Rightarrow> 'e backend" where
  "MapperBackendDmaBuf E = \<lparr>isReady = dma_isReady E, init = dma_init, importBuffer = dma_importBuffer E,
     freeBuffer = dma_freeBuffer E, lock = dma_lock E, unlock = dma_unlock E,
     flushLockedBuffer = dma_flushLockedBuffer, rereadLockedBuffer = dma_rereadLockedBuffer,
     getStandardMetadata = dma_getStandardMetadata E, setStandardMetadata = dma_setStandardMetadata\<rparr>"

end
