(* ===== verification/Mapper.thy ===== *)
theory Mapper
  imports Mapper_DmaBuf
begin

text \<open>
  The mapper, \<^verbatim>\<open>mapper_stablec/Mapper.cpp\<close>: each call selects the back end of its handle, brings
  it up, and forwards. A back end has no state of its own, so the shared pointers the two fetch
  functions hand out are represented by the kind of back end.
\<close>

section \<open>Back ends\<close>

definition selectBackendByType :: "'e mapper_env \<Rightarrow> MapperBackendType \<Rightarrow> 'e backend" where
  "selectBackendByType E t =
    (case t of MAPPER_GRALLOC_DMABUF \<Rightarrow> MapperBackendDmaBuf E | _ \<Rightarrow> MapperBackendGrallocGbm E)"

definition selectBackend :: "'e mapper_env \<Rightarrow> addr \<Rightarrow> 'e mapper \<Rightarrow> (i32 \<times> 'e mapper) res" where
  "selectBackend E h m =
    (if h = NULL then Inl AssertFail
     else and_then (deref (handles (gbm m)) h) (\<lambda>g.
       Inr (0, m\<lparr>mBackend := Some (if gh_format g = HAL_PIXEL_FORMAT_BLOB (hal (plat E)) \<and> gh_height g = 1
                                   then MAPPER_GRALLOC_DMABUF else MAPPER_GRALLOC_GBM)\<rparr>)))"

text \<open>\<open>CHECK_BACKEND\<close>: None stands for the return of \<open>AIMAPPER_ERROR_NO_RESOURCES\<close>.\<close>

definition CHECK_BACKEND :: "'e mapper_env \<Rightarrow> 'e mapper \<Rightarrow> ('e backend option \<times> 'e mapper) res" where
  "CHECK_BACKEND E m =
    (case mBackend m of
       None \<Rightarrow> Inr (None, m)
     | Some t \<Rightarrow>
         let B = selectBackendByType E t in
         and_then (isReady B m) (\<lambda>r.
         if r then Inr (Some B, m)
         else and_then (init B m) (\<lambda>(ret, m1).
           if ret \<noteq> 0 then Inr (None, m1) else Inr (Some B, m1))))"

text \<open>The two steps that every call starts with.\<close>

definition with_backend ::
  "'e mapper_env \<Rightarrow> addr \<Rightarrow> ('e mapper \<Rightarrow> 'a res) \<Rightarrow> ('e backend \<Rightarrow> 'e mapper \<Rightarrow> 'a res) \<Rightarrow> 'e mapper \<Rightarrow> 'a res" where
  "with_backend E h fail run m =
    and_then (selectBackend E h m) (\<lambda>(_, m1).
    and_then (CHECK_BACKEND E m1) (\<lambda>(b, m2).
    case b of None \<Rightarrow> fail m2 | Some B \<Rightarrow> run B m2))"

section \<open>Import and release\<close>

definition is_native_handle_valid :: "addr \<Rightarrow> 'e mapper \<Rightarrow> bool res" where
  "is_native_handle_valid h m =
    (if h = NULL then Inr False
     else and_then (deref (natives m) h) (\<lambda>n. Inr (numFds n \<noteq> 0)))"

text \<open>A copy of the native handle at \<open>h\<close> at a new address (libcutils does not run on the accounted
  memory), and its removal.\<close>

definition clone_handle :: "'e mapper_env \<Rightarrow> addr \<Rightarrow> 'e mapper \<Rightarrow> (addr \<times> 'e mapper) res" where
  "clone_handle E h m =
    and_then (deref (handles (gbm m)) h) (\<lambda>g.
    and_then (deref (natives m) h) (\<lambda>n.
    case native_handle_clone E g (ext (gbm m)) of
      (None, e) \<Rightarrow> Inr (NULL, on_ext (\<lambda>_. e) m)
    | (Some g', e) \<Rightarrow>
        let p = Suc (brk (gbm m)) in
        Inr (p, m\<lparr>gbm := (gbm m)\<lparr>brk := p, handles := (handles (gbm m))(p \<mapsto> g'), ext := e\<rparr>,
                  natives := (natives m)(p \<mapsto> n)\<rparr>)))"

definition close_and_delete_handle :: "'e mapper_env \<Rightarrow> addr \<Rightarrow> 'e mapper \<Rightarrow> 'e mapper res" where
  "close_and_delete_handle E h m =
    and_then (deref (handles (gbm m)) h) (\<lambda>g.
      Inr (m\<lparr>gbm := (gbm m)\<lparr>handles := (handles (gbm m))(h := None), ext := native_handle_close E g (ext (gbm m))\<rparr>,
             natives := (natives m)(h := None)\<rparr>))"

definition mapper_importBuffer :: "'e mapper_env \<Rightarrow> addr \<Rightarrow> addr \<Rightarrow> 'e mapper \<Rightarrow> (i32 \<times> addr \<times> 'e mapper) res" where
  "mapper_importBuffer E h out m =
    (let er = errs E in
     and_then (is_native_handle_valid h m) (\<lambda>v.
     if \<not> v then Inr (AIMAPPER_ERROR_BAD_BUFFER er, out, m)
     else with_backend E h (\<lambda>m1. Inr (AIMAPPER_ERROR_NO_RESOURCES er, out, m1)) (\<lambda>B m1.
       and_then (clone_handle E h m1) (\<lambda>(c, m2).
       if c = NULL then Inr (AIMAPPER_ERROR_NO_RESOURCES er, out, m2)
       else and_then (importBuffer B c m2) (\<lambda>(ret, m3).
       if ret \<noteq> 0 then and_then (close_and_delete_handle E c m3) (\<lambda>m4. Inr (AIMAPPER_ERROR_NO_RESOURCES er, out, m4))
       else Inr (AIMAPPER_ERROR_NONE er, c, m3)))) m))"

text \<open>A call whose back end function returns an error number.\<close>

definition forward ::
  "'e mapper_env \<Rightarrow> ('e backend \<Rightarrow> addr \<Rightarrow> 'e mapper \<Rightarrow> (i32 \<times> 'e mapper) res) \<Rightarrow> addr \<Rightarrow> 'e mapper \<Rightarrow> (i32 \<times> 'e mapper) res" where
  "forward E f h =
    with_backend E h (\<lambda>m1. Inr (AIMAPPER_ERROR_NO_RESOURCES (errs E), m1)) (\<lambda>B m1.
      and_then (f B h m1) (\<lambda>(ret, m2).
        Inr (if ret \<noteq> 0 then AIMAPPER_ERROR_NO_RESOURCES (errs E) else AIMAPPER_ERROR_NONE (errs E), m2)))"

text \<open>The imported handle is neither closed nor deleted.\<close>

definition mapper_freeBuffer :: "'e mapper_env \<Rightarrow> addr \<Rightarrow> 'e mapper \<Rightarrow> (i32 \<times> 'e mapper) res" where
  "mapper_freeBuffer E h m =
    (if h = NULL then Inr (AIMAPPER_ERROR_BAD_BUFFER (errs E), m) else forward E freeBuffer h m)"

definition mapper_getTransportSize :: "'e mapper_env \<Rightarrow> addr \<Rightarrow> u32 \<times> u32 \<Rightarrow> 'e mapper \<Rightarrow> (i32 \<times> u32 \<times> u32) res" where
  "mapper_getTransportSize E h out m =
    (if h = NULL then Inr (AIMAPPER_ERROR_BAD_BUFFER (errs E), out)
     else and_then (deref (natives m) h) (\<lambda>n. Inr (AIMAPPER_ERROR_NONE (errs E), numFds n, numInts n)))"

section \<open>Locks\<close>

definition mapper_lock ::
  "'e mapper_env \<Rightarrow> addr \<Rightarrow> u64 \<Rightarrow> Rect \<Rightarrow> i32 \<Rightarrow> addr \<Rightarrow> 'e mapper \<Rightarrow> (i32 \<times> addr \<times> 'e mapper) res" where
  "mapper_lock E h cpuUsage rect acquireFence out m =
    (let er = errs E in
     if h = NULL then Inr (AIMAPPER_ERROR_BAD_BUFFER er, out, m)
     else if cpuUsage = 0 then Inr (AIMAPPER_ERROR_BAD_VALUE er, out, m)
     else with_backend E h (\<lambda>m1. Inr (AIMAPPER_ERROR_NO_RESOURCES er, out, m1)) (\<lambda>B m1.
       and_then (lock B h cpuUsage rect acquireFence out m1) (\<lambda>(ret, out', m2).
         Inr (if ret \<noteq> 0 then AIMAPPER_ERROR_NO_RESOURCES er else AIMAPPER_ERROR_NONE er, out', m2))) m)"

definition mapper_unlock :: "'e mapper_env \<Rightarrow> addr \<Rightarrow> 'e mapper \<Rightarrow> (i32 \<times> 'e mapper) res" where
  "mapper_unlock E h m =
    (if h = NULL then Inr (AIMAPPER_ERROR_BAD_BUFFER (errs E), m) else forward E unlock h m)"

definition mapper_flushLockedBuffer :: "'e mapper_env \<Rightarrow> addr \<Rightarrow> 'e mapper \<Rightarrow> (i32 \<times> 'e mapper) res" where
  "mapper_flushLockedBuffer E h = forward E flushLockedBuffer h"

definition mapper_rereadLockedBuffer :: "'e mapper_env \<Rightarrow> addr \<Rightarrow> 'e mapper \<Rightarrow> (i32 \<times> 'e mapper) res" where
  "mapper_rereadLockedBuffer E h = forward E rereadLockedBuffer h"

section \<open>Metadata\<close>

definition STANDARD_METADATA_NAME :: string where
  "STANDARD_METADATA_NAME = ''android.hardware.graphics.common.StandardMetadataType''"

definition is_standard_metadata :: "AIMapper_MetadataType \<Rightarrow> bool" where
  "is_standard_metadata t \<longleftrightarrow> mt_name t = STANDARD_METADATA_NAME"

definition mapper_getStandardMetadata ::
  "'e mapper_env \<Rightarrow> addr \<Rightarrow> StandardMetadataType \<Rightarrow> nat \<Rightarrow> 'e mapper \<Rightarrow> (i32 \<times> metadata_value option \<times> 'e mapper) res" where
  "mapper_getStandardMetadata E h t outDataSize m =
    (let er = errs E in
     if h = NULL then Inr (AIMAPPER_ERROR_BAD_BUFFER er, None, m)
     else with_backend E h (\<lambda>m1. Inr (AIMAPPER_ERROR_NO_RESOURCES er, None, m1)) (\<lambda>B m1.
       and_then (getStandardMetadata B h t outDataSize m1) (\<lambda>(result, v, m2).
         Inr (if sint result < 0 then AIMAPPER_ERROR_NO_RESOURCES er else result, v, m2))) m)"

definition mapper_getMetadata ::
  "'e mapper_env \<Rightarrow> addr \<Rightarrow> AIMapper_MetadataType \<Rightarrow> nat \<Rightarrow> 'e mapper \<Rightarrow> (i32 \<times> metadata_value option \<times> 'e mapper) res" where
  "mapper_getMetadata E h mt outDataSize m =
    (if h = NULL then Inr (AIMAPPER_ERROR_BAD_BUFFER (errs E), None, m)
     else if is_standard_metadata mt then mapper_getStandardMetadata E h (mt_value mt) outDataSize m
     else Inr (AIMAPPER_ERROR_UNSUPPORTED (errs E), None, m))"

definition sizeof_buffer_metadata :: nat where "sizeof_buffer_metadata = 40"

definition zero_metadata :: buffer_metadata_t where
  "zero_metadata = \<lparr>dataspace = 0, blend_mode = 0, smpte2086 = NULL, cta861_3 = NULL,
     smpte2094_50_size = 0, smpte2094_50 = NULL\<rparr>"

text \<open>
  The switch of \<open>setStandardMetadata\<close>: Inl an error it returns, Inr the filled-in block. Blocks it
  allocates stay allocated, also after an error. A result of \<open>calloc\<close> that is NULL fails an assertion.
\<close>

definition fill_metadata ::
  "'e mapper_env \<Rightarrow> StandardMetadataType \<Rightarrow> metadata_input \<Rightarrow> buffer_metadata_t \<Rightarrow> 'e mapper
   \<Rightarrow> ((i32 + buffer_metadata_t) \<times> 'e mapper) res" where
  "fill_metadata E t inp data m =
    (let er = errs E in
     if t \<in> {BUFFER_ID, NAME, WIDTH, HEIGHT, LAYER_COUNT, PIXEL_FORMAT_REQUESTED, PIXEL_FORMAT_FOURCC,
             PIXEL_FORMAT_MODIFIER, USAGE, STRIDE}
     then Inr (Inl (AIMAPPER_ERROR_BAD_VALUE er), m)
     else case t of
       DATASPACE \<Rightarrow> Inr (Inr (data\<lparr>dataspace := in_dataspace inp\<rparr>), m)
     | BLEND_MODE \<Rightarrow> Inr (Inr (data\<lparr>blend_mode := in_blend_mode inp\<rparr>), m)
     | SMPTE2086 \<Rightarrow>
         (case m_malloc E sizeof_smpte2086 m of (p, m1) \<Rightarrow>
          if p = NULL then Inl AssertFail
          else Inr (Inr (data\<lparr>smpte2086 := p\<rparr>),
                    m1\<lparr>gbm := (gbm m1)\<lparr>smpte_heap := (smpte_heap (gbm m1))(p \<mapsto> in_smpte2086 inp)\<rparr>\<rparr>))
     | CTA861_3 \<Rightarrow>
         (case m_malloc E sizeof_cta861_3 m of (p, m1) \<Rightarrow>
          if p = NULL then Inl AssertFail
          else Inr (Inr (data\<lparr>cta861_3 := p\<rparr>),
                    m1\<lparr>gbm := (gbm m1)\<lparr>cta_heap := (cta_heap (gbm m1))(p \<mapsto> in_cta861_3 inp)\<rparr>\<rparr>))
     | SMPTE2094_50 \<Rightarrow>
         (if GRALLOC_GENERIC_SMPTE2094_50_MAX_SIZE < length (in_bytes inp)
          then Inr (Inl (AIMAPPER_ERROR_BAD_VALUE er), m)
          else case m_malloc E (length (in_bytes inp)) m of (p, m1) \<Rightarrow>
            if p = NULL then Inl AssertFail
            else Inr (Inr (data\<lparr>smpte2094_50 := p, smpte2094_50_size := of_nat (length (in_bytes inp))\<rparr>),
                      m1\<lparr>gbm := (gbm m1)\<lparr>blob_heap := (blob_heap (gbm m1))(p \<mapsto> in_bytes inp)\<rparr>\<rparr>))
     | _ \<Rightarrow> Inr (Inr data, m))"

definition mapper_setStandardMetadata ::
  "'e mapper_env \<Rightarrow> addr \<Rightarrow> StandardMetadataType \<Rightarrow> metadata_input \<Rightarrow> 'e mapper \<Rightarrow> (i32 \<times> 'e mapper) res" where
  "mapper_setStandardMetadata E h t inp m =
    (let er = errs E in
     if h = NULL then Inr (AIMAPPER_ERROR_BAD_BUFFER er, m)
     else with_backend E h (\<lambda>m1. Inr (AIMAPPER_ERROR_NO_RESOURCES er, m1)) (\<lambda>B m1.
       case m_malloc E sizeof_buffer_metadata m1 of (data, m2) \<Rightarrow>
       if data = NULL then Inr (AIMAPPER_ERROR_NO_RESOURCES er, m2)
       else and_then (fill_metadata E t inp zero_metadata (m2\<lparr>metas := (metas m2)(data \<mapsto> zero_metadata)\<rparr>)) (\<lambda>(r, m3).
         case r of Inl e \<Rightarrow> Inr (e, m3)
         | Inr d \<Rightarrow>
             and_then (setStandardMetadata B h t data (m3\<lparr>metas := (metas m3)(data \<mapsto> d)\<rparr>)) (\<lambda>(ret, m4).
               Inr (if ret \<noteq> 0 then AIMAPPER_ERROR_NO_RESOURCES er else AIMAPPER_ERROR_NONE er, m4)))) m)"

definition mapper_setMetadata ::
  "'e mapper_env \<Rightarrow> addr \<Rightarrow> AIMapper_MetadataType \<Rightarrow> metadata_input \<Rightarrow> 'e mapper \<Rightarrow> (i32 \<times> 'e mapper) res" where
  "mapper_setMetadata E h mt inp m =
    (if h = NULL then Inr (AIMAPPER_ERROR_BAD_BUFFER (errs E), m)
     else if is_standard_metadata mt then mapper_setStandardMetadata E h (mt_value mt) inp m
     else Inr (AIMAPPER_ERROR_UNSUPPORTED (errs E), m))"

record AIMapper_MetadataTypeDescription =
  md_type :: AIMapper_MetadataType
  isGettable :: bool
  isSettable :: bool

definition newStandardMetadata :: "StandardMetadataType \<Rightarrow> bool \<Rightarrow> bool \<Rightarrow> AIMapper_MetadataTypeDescription" where
  "newStandardMetadata t g s = \<lparr>md_type = \<lparr>mt_name = STANDARD_METADATA_NAME, mt_value = t\<rparr>, isGettable = g, isSettable = s\<rparr>"

definition sSupportedMetadataTypes :: "AIMapper_MetadataTypeDescription list" where
  "sSupportedMetadataTypes = [
     newStandardMetadata BUFFER_ID True False, newStandardMetadata NAME False False,
     newStandardMetadata WIDTH True False, newStandardMetadata HEIGHT True False,
     newStandardMetadata LAYER_COUNT True False, newStandardMetadata PIXEL_FORMAT_REQUESTED True False,
     newStandardMetadata PIXEL_FORMAT_FOURCC True False, newStandardMetadata PIXEL_FORMAT_MODIFIER True False,
     newStandardMetadata USAGE True False, newStandardMetadata ALLOCATION_SIZE True False,
     newStandardMetadata PROTECTED_CONTENT False False, newStandardMetadata STRIDE True False,
     newStandardMetadata COMPRESSION True False, newStandardMetadata INTERLACED True False,
     newStandardMetadata CHROMA_SITING True False, newStandardMetadata PLANE_LAYOUTS True False,
     newStandardMetadata CROP True False,
     newStandardMetadata DATASPACE True True, newStandardMetadata BLEND_MODE True True,
     newStandardMetadata SMPTE2086 True True, newStandardMetadata CTA861_3 True True,
     newStandardMetadata SMPTE2094_50 True True]"

definition mapper_listSupportedMetadataTypes :: "'e mapper_env \<Rightarrow> i32 \<times> AIMapper_MetadataTypeDescription list \<times> nat" where
  "mapper_listSupportedMetadataTypes E =
    (AIMAPPER_ERROR_NONE (errs E), sSupportedMetadataTypes, length sSupportedMetadataTypes)"

section \<open>Dumps and the reserved region\<close>

text \<open>The dump functions build a callback and never call it.\<close>

definition mapper_dumpBuffer :: "'e mapper_env \<Rightarrow> addr \<Rightarrow> i32" where
  "mapper_dumpBuffer E h = (if h = NULL then AIMAPPER_ERROR_BAD_BUFFER (errs E) else AIMAPPER_ERROR_NONE (errs E))"

definition mapper_dumpAllBuffers :: "'e mapper_env \<Rightarrow> i32" where
  "mapper_dumpAllBuffers E = AIMAPPER_ERROR_NONE (errs E)"

definition mapper_getReservedRegion :: "'e mapper_env \<Rightarrow> addr \<Rightarrow> addr \<times> u64 \<Rightarrow> i32 \<times> addr \<times> u64" where
  "mapper_getReservedRegion E h out =
    (if h = NULL then (AIMAPPER_ERROR_BAD_BUFFER (errs E), out) else (AIMAPPER_ERROR_NONE (errs E), NULL, 0))"

end
