(* ===== verification/Mapper_Inv.thy ===== *)
theory Mapper_Inv
  imports Gbm_Robust Mapper
begin

text \<open>
  The invariant of the mapper, and the contract of a back end as a locale: what every virtual
  function keeps. The mapper's calls are proved against the contract, both back ends are shown to
  meet it, and the invariant follows for every sequence of calls, whatever their arguments.
\<close>

unbundle bit_operations_syntax

declare neq0_conv [iff del]

section \<open>What the code outside the repository promises\<close>

text \<open>
  The platform is as for the GBM library; the other calls do not touch buffer objects. Nothing is said of
  what reads of freed memory find.
\<close>

definition env_ok :: "'e mapper_env \<Rightarrow> ('e \<Rightarrow> addr set) \<Rightarrow> bool" where
  "env_ok E live \<longleftrightarrow> platform_ok (plat E) live
     \<and> (\<forall>g e. same_objects (api (plat E)) live e (snd (native_handle_clone E g e)))
     \<and> (\<forall>g e. same_objects (api (plat E)) live e (native_handle_close E g e))
     \<and> (\<forall>n fd e. same_objects (api (plat E)) live e (snd (mmap E n fd e)))
     \<and> (\<forall>fd s e. same_objects (api (plat E)) live e (CpuSyncStart E fd s e))
     \<and> (\<forall>fd s e. same_objects (api (plat E)) live e (CpuSyncEnd E fd s e))"

lemma env_okD:
  assumes "env_ok E live"
  shows "platform_ok (plat E) live" "gbm_laws (api (plat E)) live"
    "same_objects (api (plat E)) live e (snd (native_handle_clone E g e))"
    "same_objects (api (plat E)) live e (native_handle_close E g e)"
    "same_objects (api (plat E)) live e (snd (mmap E n fd e))"
    "same_objects (api (plat E)) live e (CpuSyncStart E fd s e)"
    "same_objects (api (plat E)) live e (CpuSyncEnd E fd s e)"
  using assms by (simp_all add: env_ok_def platform_ok_def)

section \<open>The invariant\<close>

text \<open>
  The DMA-BUF back end erases a table entry by a key that it reads from a block it has freed. The key
  read back is the old one when the allocator leaves the first word of a freed block alone.
\<close>

definition reads_back :: "'e mapper_env \<Rightarrow> bool" where
  "reads_back E \<longleftrightarrow> (\<forall>i j. stale_info E i = Some j \<longrightarrow> bi_prime_fd j = bi_prime_fd i)"

lemma reads_backD: "reads_back E \<Longrightarrow> stale_info E i = Some j \<Longrightarrow> bi_prime_fd j = bi_prime_fd i"
  unfolding reads_back_def by blast

text \<open>
  Every entry of the DMA-BUF table leads to live buffer information with the entry's key, or it dangles,
  which needs a freed block that read back another key.
\<close>

definition dma_ok :: "'e mapper_env \<Rightarrow> 'e mapper \<Rightarrow> bool" where
  "dma_ok E m \<longleftrightarrow> dom (dma_infos m) \<subseteq> {1..brk (gbm m)}
     \<and> (\<forall>fd p. importedBufferTable m fd = Some p \<longrightarrow> p \<in> {1..brk (gbm m)} \<and>
          (case dma_infos m p of Some i \<Rightarrow> bi_prime_fd i = fd | None \<Rightarrow> \<not> reads_back E))"

definition mapper_ok :: "'e mapper_env \<Rightarrow> ('e \<Rightarrow> addr set) \<Rightarrow> 'e mapper \<Rightarrow> bool" where
  "mapper_ok E live m \<longleftrightarrow> env_ok E live \<and> (\<exists>xs. gbm_ok (plat E) live (gbm m) xs) \<and> dma_ok E m"

text \<open>A metadata block whose pointers no user data holds.\<close>

definition block_ok :: "'e world \<Rightarrow> buffer_metadata_t \<Rightarrow> bool" where
  "block_ok w b \<longleftrightarrow> smpte2086 b \<in> insert NULL (dom (smpte_heap w)) \<and> cta861_3 b \<in> insert NULL (dom (cta_heap w))
     \<and> (\<forall>d bd. bo_data w d = Some bd \<longrightarrow>
          (smpte2086 (metadata bd) = smpte2086 b \<longrightarrow> smpte2086 b = NULL)
        \<and> (cta861_3 (metadata bd) = cta861_3 b \<longrightarrow> cta861_3 b = NULL))"

definition has_block :: "'e mapper \<Rightarrow> addr \<Rightarrow> bool" where
  "has_block m data \<longleftrightarrow> (\<forall>b. metas m data = Some b \<longrightarrow> block_ok (gbm m) b)"

text \<open>What a call of a back end leaves alone.\<close>

definition kept :: "'e mapper \<Rightarrow> 'e mapper \<Rightarrow> bool" where
  "kept m m' \<longleftrightarrow> mBackend m' = mBackend m \<and> natives m' = natives m \<and> metas m' = metas m \<and> same_handles (gbm m) (gbm m')"

lemma kept_refl [simp]: "kept m m"
  by (simp add: kept_def)

lemma kept_trans: "kept m m' \<Longrightarrow> kept m' m'' \<Longrightarrow> kept m m''"
  by (auto simp: kept_def same_handles_def)

section \<open>The contract of a back end\<close>

locale mapper_backend =
  fixes B :: "'e backend" and good :: "'e mapper \<Rightarrow> bool" and block :: "'e mapper \<Rightarrow> addr \<Rightarrow> bool"
  assumes init_good: "good m \<Longrightarrow> init B m = Inr (r, m') \<Longrightarrow> good m' \<and> kept m m'"
    and import_good: "good m \<Longrightarrow> importBuffer B h m = Inr (r, m') \<Longrightarrow> good m' \<and> kept m m'"
    and free_good: "good m \<Longrightarrow> freeBuffer B h m = Inr (r, m') \<Longrightarrow> good m' \<and> kept m m'"
    and lock_good: "good m \<Longrightarrow> lock B h u rect fence out m = Inr (r, out', m') \<Longrightarrow> good m' \<and> kept m m'"
    and unlock_good: "good m \<Longrightarrow> unlock B h m = Inr (r, m') \<Longrightarrow> good m' \<and> kept m m'"
    and flush_good: "good m \<Longrightarrow> flushLockedBuffer B h m = Inr (r, m') \<Longrightarrow> good m' \<and> kept m m'"
    and reread_good: "good m \<Longrightarrow> rereadLockedBuffer B h m = Inr (r, m') \<Longrightarrow> good m' \<and> kept m m'"
    and get_good: "good m \<Longrightarrow> getStandardMetadata B h t n m = Inr (r, v, m') \<Longrightarrow> good m' \<and> kept m m'"
    and set_good: "good m \<Longrightarrow> block m data \<Longrightarrow> setStandardMetadata B h t data m = Inr (r, m') \<Longrightarrow> good m' \<and> kept m m'"

text \<open>The mapper over back ends that meet the contract.\<close>

locale mapper_library =
  fixes E :: "'e mapper_env" and good :: "'e mapper \<Rightarrow> bool" and block :: "'e mapper \<Rightarrow> addr \<Rightarrow> bool"
  assumes backend: "mapper_backend (selectBackendByType E t) good block"
    and select_good: "good m \<Longrightarrow> good (m\<lparr>mBackend := b\<rparr>)"
    and clone_good: "good m \<Longrightarrow> clone_handle E h m = Inr (p, m') \<Longrightarrow> good m'"
    and close_good: "good m \<Longrightarrow> close_and_delete_handle E h m = Inr m' \<Longrightarrow> good m'"
    and alloc_good: "good m \<Longrightarrow> m_malloc E n m = (p, m') \<Longrightarrow> good m'"
    and fill_good: "good m \<Longrightarrow> fill_metadata E mt inp zero_metadata (m\<lparr>metas := (metas m)(p \<mapsto> zero_metadata)\<rparr>) = Inr (r, m') \<Longrightarrow>
       (case r of Inl e \<Rightarrow> good m' | Inr d \<Rightarrow> good (m'\<lparr>metas := (metas m')(p \<mapsto> d)\<rparr>) \<and> block (m'\<lparr>metas := (metas m')(p \<mapsto> d)\<rparr>) p)"
begin

lemma select_keeps: "good m \<Longrightarrow> selectBackend E h m = Inr (r, m') \<Longrightarrow> good m' \<and> (\<exists>t. mBackend m' = Some t)"
  using select_good by (auto simp: selectBackend_def res_simps split: if_splits)

lemma check_keeps:
  assumes "good m" "CHECK_BACKEND E m = Inr (b, m')"
  shows "good m'" "b = Some B \<Longrightarrow> mapper_backend B good block"
  using assms backend mapper_backend.init_good [OF backend]
  by (auto simp: CHECK_BACKEND_def res_simps Let_def split: option.splits if_splits)

lemma with_backend_keeps:
  assumes run: "with_backend E h fail run m = Inr x" and m: "good m"
    and fail: "\<And>m1. good m1 \<Longrightarrow> fail m1 = Inr x \<Longrightarrow> Q"
    and body: "\<And>B m1. good m1 \<Longrightarrow> mapper_backend B good block \<Longrightarrow> run B m1 = Inr x \<Longrightarrow> Q"
  shows Q
proof -
  obtain r m1 b m2 where 1: "selectBackend E h m = Inr (r, m1)" and 2: "CHECK_BACKEND E m1 = Inr (b, m2)"
    and 3: "(case b of None \<Rightarrow> fail m2 | Some B \<Rightarrow> run B m2) = Inr x"
    using run by (auto simp: with_backend_def res_simps)
  have g1: "good m1" using select_keeps [OF m 1] by simp
  note g2 = check_keeps [OF g1 2]
  show Q
  proof (cases b)
    case None
    then show ?thesis using 3 g2(1) fail by simp
  next
    case (Some B)
    then show ?thesis using 3 g2 body by simp
  qed
qed

lemma forward_keeps:
  assumes "forward E f h m = Inr (r, m')" "good m"
    and f: "\<And>B m1 r1 m2. good m1 \<Longrightarrow> mapper_backend B good block \<Longrightarrow> f B h m1 = Inr (r1, m2) \<Longrightarrow> good m2"
  shows "good m'"
  using assms(1) [unfolded forward_def]
  by (rule with_backend_keeps) (use assms(2) f in \<open>auto simp: res_simps\<close>)

lemma good_import:
  assumes "mapper_importBuffer E h out m = Inr (r, out', m')" "good m"
  shows "good m'"
proof -
  let ?body = "\<lambda>B m1. and_then (clone_handle E h m1) (\<lambda>(c, m2).
       if c = NULL then Inr (AIMAPPER_ERROR_NO_RESOURCES (errs E), out, m2)
       else and_then (importBuffer B c m2) (\<lambda>(ret, m3).
       if ret \<noteq> 0 then and_then (close_and_delete_handle E c m3) (\<lambda>m4. Inr (AIMAPPER_ERROR_NO_RESOURCES (errs E), out, m4))
       else Inr (AIMAPPER_ERROR_NONE (errs E), c, m3)))"
  consider "m' = m" | (go) "with_backend E h (\<lambda>m1. Inr (AIMAPPER_ERROR_NO_RESOURCES (errs E), out, m1)) ?body m = Inr (r, out', m')"
    using assms(1) by (auto simp: mapper_importBuffer_def res_simps Let_def split: if_splits)
  then show ?thesis
  proof cases
    case go
    then show ?thesis
    proof (rule with_backend_keeps)
      fix B m1 assume m1: "good m1" and B: "mapper_backend B good block" and run: "?body B m1 = Inr (r, out', m')"
      then obtain c m2 where 2: "clone_handle E h m1 = Inr (c, m2)" by (auto simp: res_simps)
      have g2: "good m2" by (rule clone_good [OF m1 2])
      show "good m'"
      proof (cases "c = NULL")
        case False
        then obtain ret m3 where 3: "importBuffer B c m2 = Inr (ret, m3)" using run 2 by (auto simp: res_simps)
        have "good m3" using mapper_backend.import_good [OF B g2 3] by simp
        then show ?thesis using run 2 3 False close_good by (auto simp: res_simps split: if_splits)
      qed (use run 2 g2 in simp)
    qed (use assms(2) in auto)
  qed (use assms in simp)
qed

lemma good_free: "mapper_freeBuffer E h m = Inr (r, m') \<Longrightarrow> good m \<Longrightarrow> good m'"
  by (auto simp: mapper_freeBuffer_def split: if_splits elim!: forward_keeps dest: mapper_backend.free_good)

lemma good_unlock: "mapper_unlock E h m = Inr (r, m') \<Longrightarrow> good m \<Longrightarrow> good m'"
  by (auto simp: mapper_unlock_def split: if_splits elim!: forward_keeps dest: mapper_backend.unlock_good)

lemma good_flush: "mapper_flushLockedBuffer E h m = Inr (r, m') \<Longrightarrow> good m \<Longrightarrow> good m'"
  by (auto simp: mapper_flushLockedBuffer_def elim!: forward_keeps dest: mapper_backend.flush_good)

lemma good_reread: "mapper_rereadLockedBuffer E h m = Inr (r, m') \<Longrightarrow> good m \<Longrightarrow> good m'"
  by (auto simp: mapper_rereadLockedBuffer_def elim!: forward_keeps dest: mapper_backend.reread_good)

lemma good_lock:
  assumes "mapper_lock E h u rect fence out m = Inr (r, out', m')" "good m"
  shows "good m'"
  using assms
  by (auto simp: mapper_lock_def Let_def res_simps split: if_splits elim!: with_backend_keeps dest: mapper_backend.lock_good)

lemma good_get:
  assumes "mapper_getMetadata E h t n m = Inr (r, v, m')" "good m"
  shows "good m'"
  using assms
  by (auto simp: mapper_getMetadata_def mapper_getStandardMetadata_def Let_def res_simps split: if_splits
      elim!: with_backend_keeps dest: mapper_backend.get_good)

lemma good_set:
  assumes "mapper_setMetadata E h mt inp m = Inr (r, m')" "good m"
  shows "good m'"
proof -
  let ?t = "mt_value mt"
  let ?body = "\<lambda>B m1. case m_malloc E sizeof_buffer_metadata m1 of (data, m2) \<Rightarrow>
       if data = NULL then Inr (AIMAPPER_ERROR_NO_RESOURCES (errs E), m2)
       else and_then (fill_metadata E ?t inp zero_metadata (m2\<lparr>metas := (metas m2)(data \<mapsto> zero_metadata)\<rparr>)) (\<lambda>(r, m3).
         case r of Inl e \<Rightarrow> Inr (e, m3)
         | Inr d \<Rightarrow>
             and_then (setStandardMetadata B h ?t data (m3\<lparr>metas := (metas m3)(data \<mapsto> d)\<rparr>)) (\<lambda>(ret, m4).
               Inr (if ret \<noteq> 0 then AIMAPPER_ERROR_NO_RESOURCES (errs E) else AIMAPPER_ERROR_NONE (errs E), m4)))"
  consider "m' = m" | (go) "with_backend E h (\<lambda>m1. Inr (AIMAPPER_ERROR_NO_RESOURCES (errs E), m1)) ?body m = Inr (r, m')"
    using assms(1) by (auto simp: mapper_setMetadata_def mapper_setStandardMetadata_def Let_def split: if_splits)
  then show ?thesis
  proof cases
    case go
    then show ?thesis
    proof (rule with_backend_keeps)
      fix B m1 assume m1: "good m1" and B: "mapper_backend B good block" and run: "?body B m1 = Inr (r, m')"
      obtain data m2 where 2: "m_malloc E sizeof_buffer_metadata m1 = (data, m2)" by force
      have g2: "good m2" by (rule alloc_good [OF m1 2])
      show "good m'"
      proof (cases "data = NULL")
        case False
        then obtain x m3 where 3: "fill_metadata E ?t inp zero_metadata (m2\<lparr>metas := (metas m2)(data \<mapsto> zero_metadata)\<rparr>) = Inr (x, m3)"
          using run 2 by (auto simp: res_simps)
        show ?thesis
        proof (cases x)
          case (Inl e)
          then show ?thesis using run 2 False 3 fill_good [OF g2 3] by simp
        next
          case (Inr d)
          then show ?thesis using run 2 False 3 fill_good [OF g2 3]
            by (auto simp: res_simps dest: mapper_backend.set_good [OF B])
        qed
      qed (use run 2 g2 in simp)
    qed (use assms(2) in auto)
  qed (use assms in simp)
qed

end

end
