(* ===== verification/Mapper_Laws.thy ===== *)
theory Mapper_Laws
  imports Mapper_Inv
begin

text \<open>
  Both back ends meet the contract \<open>mapper_backend\<close>, and the mapper's own steps keep the invariant:
  the interpretations of the two locales on the model.
\<close>

unbundle bit_operations_syntax

section \<open>Steps of the world\<close>

text \<open>A new metadata block at the next address.\<close>

lemma world_ok_heaps:
  assumes ok: "world_ok P live w xs" and d: "dom (smpte_heap w) \<subseteq> dom s" "dom s \<subseteq> insert (Suc (brk w)) (dom (smpte_heap w))"
    "dom (cta_heap w) \<subseteq> dom c" "dom c \<subseteq> insert (Suc (brk w)) (dom (cta_heap w))"
  shows "world_ok P live (w\<lparr>brk := Suc (brk w), smpte_heap := s, cta_heap := c, blob_heap := b\<rparr>) xs"
proof (rule world_ok_grows [OF ok])
  note g = growsD [OF grows_brk [OF grows_refl [OF ok]]]
  have "heaps_ok w" using world_okD(2) [OF ok] .
  then have "dom s \<subseteq> {1..Suc (brk w)}" "dom c \<subseteq> {1..Suc (brk w)}"
    using d(2,4) unfolding heaps_ok_def by (force, force)
  then have "heaps_ok (w\<lparr>brk := Suc (brk w), smpte_heap := s, cta_heap := c, blob_heap := b\<rparr>)"
    using g(9) by (simp add: heaps_ok_def)
  then show "grows P live w (w\<lparr>brk := Suc (brk w), smpte_heap := s, cta_heap := c, blob_heap := b\<rparr>)"
    using g d(1,3) by (simp add: grows_def later_def)
qed

text \<open>The metadata of one buffer takes over the pointers of a block that nobody holds.\<close>

lemma merge_pointers:
  "smpte2086 (merge_metadata t b old) \<in> {smpte2086 old, smpte2086 b}"
  "cta861_3 (merge_metadata t b old) \<in> {cta861_3 old, cta861_3 b}"
  by (cases t; simp add: merge_metadata_def)+

lemma pick_apart:
  "S \<in> {p, q} \<Longrightarrow> (p = r \<longrightarrow> p = NULL) \<Longrightarrow> (r = q \<longrightarrow> q = NULL) \<Longrightarrow> S = r \<longrightarrow> S = NULL"
  by auto

lemma world_ok_meta:
  fixes t :: StandardMetadataType
  assumes ok: "world_ok P live w xs" and a: "a \<in> set xs" and bd: "bo_data w (data_of P w a) = Some bd"
    and b: "block_ok w b"
  defines "w' \<equiv> w\<lparr>bo_data := (bo_data w)(data_of P w a \<mapsto> bd\<lparr>metadata := merge_metadata t b (metadata bd)\<rparr>)\<rparr>"
  shows "world_ok P live w' xs" "abs_world P w' xs = abs_world P w xs"
proof -
  let ?d = "data_of P w a" and ?m = "merge_metadata t b (metadata bd)"
  note o = world_okD [OF ok] and h = world_okD(2) [OF ok, unfolded heaps_ok_def]
  have data: "data_of P w' x = data_of P w x" for x by (simp add: w'_def data_of_def)
  have other: "data_of P w x \<noteq> ?d" if "x \<in> set xs" "x \<noteq> a" for x
    using o(4) [OF that(1) a that(2)] by (simp add: apart_def)
  have s: "smpte_of w' (data_of P w x) = (if x = a then smpte2086 ?m else smpte_of w (data_of P w x))"
    "cta_of w' (data_of P w x) = (if x = a then cta861_3 ?m else cta_of w (data_of P w x))" if "x \<in> set xs" for x
    using other [OF that] by (auto simp: w'_def smpte_of_def cta_of_def fld_def)
  have old: "smpte_of w ?d = smpte2086 (metadata bd)" "cta_of w ?d = cta861_3 (metadata bd)"
    using bd by (simp_all add: smpte_of_def cta_of_def fld_def)
  have own: "owner_ok P live w' x" if x: "x \<in> set xs" for x
  proof -
    have "\<exists>y. bo_data w' (data_of P w x) = Some y \<and> lock_ok P y"
      using o(3) [OF x] bd by (auto simp: w'_def owner_ok_def lock_ok_def)
    moreover have "smpte2086 ?m \<in> insert NULL (dom (smpte_heap w))" "cta861_3 ?m \<in> insert NULL (dom (cta_heap w))"
      using merge_pointers [of t b "metadata bd"] b o(3) [OF a] old by (auto simp: block_ok_def owner_ok_def)
    ultimately show ?thesis using o(3) [OF x] unfolding owner_ok_def data s [OF x] by (simp add: w'_def)
  qed
  have fresh: "smpte_of w (data_of P w x) = smpte2086 b \<longrightarrow> smpte2086 b = NULL"
    "cta_of w (data_of P w x) = cta861_3 b \<longrightarrow> cta861_3 b = NULL" if "x \<in> set xs" for x
    using o(3) [OF that] b by (auto simp: owner_ok_def block_ok_def smpte_of_def cta_of_def fld_def)
  have "apart P w' x y" if x: "x \<in> set xs" and y: "y \<in> set xs" and ne: "x \<noteq> y" for x y
  proof -
    have ap: "apart P w x y" by (rule o(4) [OF x y ne])
    note pick_s = pick_apart [OF merge_pointers(1) [of t b "metadata bd"]] and pick_c = pick_apart [OF merge_pointers(2) [of t b "metadata bd"]]
    consider "x = a" "y \<noteq> a" | "x \<noteq> a" "y = a" | "x \<noteq> a" "y \<noteq> a" using ne by blast
    then show ?thesis
    proof cases
      case 1
      then show ?thesis using ap pick_s [OF _ fresh(1) [OF y]] pick_c [OF _ fresh(2) [OF y]]
        unfolding apart_def data s [OF x] s [OF y] by (simp add: old)
    next
      case 2
      then have "smpte2086 (metadata bd) = smpte_of w (data_of P w x) \<longrightarrow> smpte2086 (metadata bd) = NULL"
        "cta861_3 (metadata bd) = cta_of w (data_of P w x) \<longrightarrow> cta861_3 (metadata bd) = NULL"
        using ap unfolding apart_def by (metis old)+
      from pick_s [OF this(1) fresh(1) [OF x]] pick_c [OF this(2) fresh(2) [OF x]] show ?thesis
        using 2 other [OF x] unfolding apart_def data s [OF x] s [OF y] by auto
    next
      case 3
      then show ?thesis using ap unfolding apart_def data s [OF x] s [OF y] by simp
    qed
  qed
  moreover have "hash_inv w' xs" using o(1) by (subst hash_inv_cong [of w' w]) (simp_all add: w'_def)
  moreover have "heaps_ok w'"
  proof -
    have "smpte2086 b \<le> brk w" "cta861_3 b \<le> brk w" using b h by (auto simp: block_ok_def)
    then have "smpte2086 ?m \<le> brk w" "cta861_3 ?m \<le> brk w"
      using merge_pointers [of t b "metadata bd"] metas_okD [of "brk w" "bo_data w", OF _ bd] h by auto
    moreover have "?d \<in> {1..brk w}" using h bd by blast
    ultimately show ?thesis using h by (auto simp: heaps_ok_def w'_def intro!: metas_ok_upd)
  qed
  ultimately show "world_ok P live w' xs" using own by (simp add: world_ok_def)
  have "abs_lock P (bd\<lparr>metadata := ?m\<rparr>) = abs_lock P bd" by (simp add: abs_lock_def)
  then have "lock_of P w' x = lock_of P w x" for x
    unfolding lock_of_def data using bd by (simp add: w'_def)
  moreover have "nodes w' = nodes w" by (simp add: w'_def)
  ultimately show "abs_world P w' xs = abs_world P w xs" by (simp add: abs_world_def)
qed

section \<open>Steps of the mapper\<close>

lemma mapper_okE:
  assumes "mapper_ok E live m"
  obtains xs where "env_ok E live" "gbm_ok (plat E) live (gbm m) xs" "dma_ok E m"
  using assms unfolding mapper_ok_def by blast

lemma mapper_ok_world:
  assumes "mapper_ok E live m" "gbm_ok (plat E) live w xs"
  shows "brk (gbm m) \<le> brk w \<Longrightarrow> mapper_ok E live (m\<lparr>gbm := w\<rparr>)" "same_handles (gbm m) w \<Longrightarrow> kept m (m\<lparr>gbm := w\<rparr>)"
proof -
  assume "brk (gbm m) \<le> brk w"
  then have "{1..brk (gbm m)} \<subseteq> {1..brk w}" by auto
  then have "dma_ok E (m\<lparr>gbm := w\<rparr>)"
    using assms(1) unfolding mapper_ok_def dma_ok_def by fastforce
  then show "mapper_ok E live (m\<lparr>gbm := w\<rparr>)"
    using assms by (auto simp: mapper_ok_def)
qed (simp add: kept_def)

lemma mapper_ok_ext:
  assumes "mapper_ok E live m" "same_objects (api (plat E)) live (ext (gbm m)) e"
  shows "mapper_ok E live (on_ext (\<lambda>_. e) m)" "kept m (on_ext (\<lambda>_. e) m)"
  using mapper_ok_world [OF assms(1) gbm_ok_ext [OF _ assms(2)]] assms(1)
  by (auto simp: on_ext_def elim!: mapper_okE)

lemma mapper_ok_malloc:
  assumes "mapper_ok E live m" "m_malloc E n m = (p, m')"
  shows "mapper_ok E live m'" "kept m m'" "p \<noteq> NULL \<Longrightarrow> p = Suc (brk (gbm m)) \<and> m' = m\<lparr>gbm := (gbm m)\<lparr>brk := p\<rparr>\<rparr>"
proof -
  obtain xs where xs: "gbm_ok (plat E) live (gbm m) xs" using assms(1) by (rule mapper_okE)
  have m': "m' = m\<lparr>gbm := (gbm m)\<lparr>brk := Suc (brk (gbm m))\<rparr>\<rparr>" and p: "p \<noteq> NULL \<longrightarrow> p = Suc (brk (gbm m))"
    using assms(2) by (auto simp: m_malloc_def malloc_def Let_def split: if_splits)
  show "mapper_ok E live m'" "kept m m'" "p \<noteq> NULL \<Longrightarrow> p = Suc (brk (gbm m)) \<and> m' = m\<lparr>gbm := (gbm m)\<lparr>brk := p\<rparr>\<rparr>"
    using mapper_ok_world [OF assms(1) gbm_ok_brk [OF xs]] m' p by simp_all
qed

section \<open>The GBM back end\<close>

lemma gbm_step:
  assumes "mapper_ok E live m" "gbm_ok (plat E) live w xs \<and> same_handles (gbm m) w"
  shows "mapper_ok E live (m\<lparr>gbm := w\<rparr>) \<and> kept m (m\<lparr>gbm := w\<rparr>)"
  using mapper_ok_world [OF assms(1)] assms(2) by (auto simp: same_handles_def)

lemma gbm_init_keeps:
  assumes "mapper_ok E live m" "gbm_init E m = Inr (r, m')"
  shows "mapper_ok E live m' \<and> kept m m'"
proof -
  obtain xs where xs: "env_ok E live" "gbm_ok (plat E) live (gbm m) xs" using assms(1) by (rule mapper_okE)
  obtain w where w: "gralloc_gbm_init (plat E) (gbm m) = Inr (r, w)" "m' = m\<lparr>gbm := w\<rparr>"
    using assms(2) by (auto simp: gbm_init_def on_gbm_def res_simps)
  show ?thesis unfolding w(2)
    by (rule gbm_step [OF assms(1)]) (use init_keeps [OF xs(2) w(1)] in blast)
qed

lemma gbm_import_keeps:
  assumes "mapper_ok E live m" "gbm_importBuffer E h m = Inr (r, m')"
  shows "mapper_ok E live m' \<and> kept m m'"
proof -
  obtain xs where xs: "env_ok E live" "gbm_ok (plat E) live (gbm m) xs" using assms(1) by (rule mapper_okE)
  obtain w where w: "gralloc_gbm_android_buffer_import (plat E) h (gbm m) = Inr (r, w)" "m' = m\<lparr>gbm := w\<rparr>"
    using assms(2) by (auto simp: gbm_importBuffer_def on_gbm_def res_simps)
  obtain xs' where "gbm_ok (plat E) live w xs' \<and> same_handles (gbm m) w"
    using import_keeps [OF env_okD(1) [OF xs(1)] xs(2) w(1)] by blast
  then show ?thesis unfolding w(2) by (rule gbm_step [OF assms(1)])
qed

lemma gbm_free_keeps:
  assumes "mapper_ok E live m" "gbm_freeBuffer E h m = Inr (r, m')"
  shows "mapper_ok E live m' \<and> kept m m'"
proof -
  obtain xs where xs: "env_ok E live" "gbm_ok (plat E) live (gbm m) xs" using assms(1) by (rule mapper_okE)
  obtain w where w: "gralloc_gbm_android_buffer_free (plat E) h (gbm m) = Inr (r, w)" "m' = m\<lparr>gbm := w\<rparr>"
    using assms(2) by (auto simp: gbm_freeBuffer_def on_gbm_def res_simps)
  obtain xs' where "gbm_ok (plat E) live w xs' \<and> same_handles (gbm m) w"
    using free_keeps [OF env_okD(1) [OF xs(1)] xs(2) w(1)] by blast
  then show ?thesis unfolding w(2) by (rule gbm_step [OF assms(1)])
qed

lemma gbm_lock_keeps:
  assumes "mapper_ok E live m" "gbm_lock E h u rect fence out m = Inr (r, out', m')"
  shows "mapper_ok E live m' \<and> kept m m'"
proof -
  obtain xs where xs: "env_ok E live" "gbm_ok (plat E) live (gbm m) xs" using assms(1) by (rule mapper_okE)
  obtain w where w: "gralloc_gbm_android_buffer_lock (plat E) h (ucast u) (r_top rect) (r_bottom rect) (r_left rect)
      (r_right rect) out (gbm m) = Inr (r, out', w)" "m' = m\<lparr>gbm := w\<rparr>"
    using assms(2) by (auto simp: gbm_lock_def res_simps)
  show ?thesis unfolding w(2)
    by (rule gbm_step [OF assms(1) lock_keeps [OF env_okD(1) [OF xs(1)] xs(2) w(1)]])
qed

lemma gbm_unlock_keeps:
  assumes "mapper_ok E live m" "gbm_unlock E h m = Inr (r, m')"
  shows "mapper_ok E live m' \<and> kept m m'"
proof -
  obtain xs where xs: "env_ok E live" "gbm_ok (plat E) live (gbm m) xs" using assms(1) by (rule mapper_okE)
  obtain w where w: "gralloc_gbm_android_buffer_unlock (plat E) h (gbm m) = Inr (r, w)" "m' = m\<lparr>gbm := w\<rparr>"
    using assms(2) by (auto simp: gbm_unlock_def on_gbm_def res_simps)
  show ?thesis unfolding w(2)
    by (rule gbm_step [OF assms(1) unlock_keeps [OF env_okD(1) [OF xs(1)] xs(2) w(1)]])
qed

lemma provide_keeps:
  assumes "provideStandardMetadata E t n query m = Inr (r, v, m')" "P m"
    and "\<And>a m1. query t m = Inr (a, m1) \<Longrightarrow> P m1"
  shows "P m'"
proof (cases "t = OTHER_METADATA")
  case False
  then obtain a m1 where a: "query t m = Inr (a, m1)"
    and r: "(case a of Code c \<Rightarrow> Inr (c, None, m1) | Value v \<Rightarrow> Inr (provide E t v n, Some v, m1)) = (Inr (r, v, m') :: _ res)"
    using assms(1) by (auto simp: provideStandardMetadata_def and_then_eq_Inr)
  have "m1 = m'" using r by (cases a) simp_all
  then show ?thesis using assms(3) [OF a] by simp
qed (use assms(1,2) in \<open>simp add: provideStandardMetadata_def\<close>)

lemma gbm_get_keeps:
  assumes "mapper_ok E live m" "gbm_getStandardMetadata E h t n m = Inr (r, v, m')"
  shows "mapper_ok E live m' \<and> kept m m'"
proof -
  obtain xs where xs: "env_ok E live" "gbm_ok (plat E) live (gbm m) xs" using assms(1) by (rule mapper_okE)
  show ?thesis using assms(2) [unfolded gbm_getStandardMetadata_def]
  proof (rule provide_keeps)
    fix a m1 assume "grallocGbmQueryAndroidBufferMetadata E h t m = Inr (a, m1)"
    then obtain ret info w where w: "gralloc_gbm_android_buffer_query (plat E) h (gbm m) = Inr (ret, info, w)" "m1 = m\<lparr>gbm := w\<rparr>"
      by (auto simp: grallocGbmQueryAndroidBufferMetadata_def res_simps Let_def split: bool.splits option.splits)
    show "mapper_ok E live m1 \<and> kept m m1" unfolding w(2)
      by (rule gbm_step [OF assms(1)])
        (use query_keeps [OF env_okD(1) [OF xs(1)] xs(2) w(1)] in blast)
  qed (use assms(1) in simp)
qed

lemma gbm_set_keeps:
  assumes "mapper_ok E live m" "has_block m data" "gbm_setStandardMetadata E h t data m = Inr (r, m')"
  shows "mapper_ok E live m' \<and> kept m m'"
proof -
  obtain xs where xs: "env_ok E live" "gbm_ok (plat E) live (gbm m) xs" using assms(1) by (rule mapper_okE)
  obtain d w where d: "gralloc_gbm_android_buffer_get_extdata (plat E) h (gbm m) = Inr (d, w)"
    using assms(3) by (auto simp: gbm_setStandardMetadata_def res_simps)
  note e = extdata_keeps [OF env_okD(1) [OF xs(1)] xs(2) d]
  have same: "m\<lparr>gbm := gbm m\<rparr> = m" by simp
  show ?thesis
  proof (cases "d = NULL \<or> t \<notin> {DATASPACE, BLEND_MODE, SMPTE2086, CTA861_3, SMPTE2094_50}")
    case True
    then have "m' = m" using assms(3) d e same by (auto simp: gbm_setStandardMetadata_def res_simps Let_def split: if_splits)
    then show ?thesis using assms(1) by simp
  next
    case False
    then obtain new bd where b: "metas m data = Some new" "bo_data (gbm m) d = Some bd"
      "m' = m\<lparr>gbm := (gbm m)\<lparr>bo_data := (bo_data (gbm m))(d \<mapsto> bd\<lparr>metadata := merge_metadata t new (metadata bd)\<rparr>)\<rparr>\<rparr>"
      using assms(3) d e by (auto simp: gbm_setStandardMetadata_def res_simps Let_def split: if_splits)
    obtain a where a: "a \<in> set xs" "d = data_of (plat E) (gbm m) a" using e False by blast
    have "block_ok (gbm m) new" using assms(2) b(1) by (simp add: has_block_def)
    from world_ok_meta(1) [OF gbm_ok_world [OF xs(2)] a(1) b(2) [unfolded a(2)] this, of t]
    have "gbm_ok (plat E) live ((gbm m)\<lparr>bo_data := (bo_data (gbm m))(d \<mapsto> bd\<lparr>metadata := merge_metadata t new (metadata bd)\<rparr>)\<rparr>) xs"
      unfolding a(2) by (rule gbm_ok_same_driver [OF xs(2)]) simp
    then show ?thesis unfolding b(3) by (intro gbm_step [OF assms(1)] conjI) (assumption, simp add: same_handles_def)
  qed
qed

lemma gbm_backend_ok: "mapper_backend (MapperBackendGrallocGbm E) (mapper_ok E live) has_block"
  by unfold_locales
    (auto simp: MapperBackendGrallocGbm_def gbm_flushLockedBuffer_def gbm_rereadLockedBuffer_def
      dest: gbm_init_keeps gbm_import_keeps gbm_free_keeps gbm_lock_keeps gbm_unlock_keeps gbm_get_keeps gbm_set_keeps)

end
