(* ===== verification/Mapper_Service.thy ===== *)
theory Mapper_Service
  imports Mapper_Laws
begin

text \<open>
  The DMA-BUF back end meets the contract too, the mapper's own steps keep the invariant, and so does
  every call of the mapper: the states that any sequence of calls reaches obey \<open>mapper_ok\<close>.
\<close>

unbundle bit_operations_syntax

section \<open>The DMA-BUF back end\<close>

lemma mapper_ok_frame [simp]:
  "mapper_ok E live (m\<lparr>metas := x\<rparr>) = mapper_ok E live m" "mapper_ok E live (m\<lparr>mBackend := b\<rparr>) = mapper_ok E live m"
  "mapper_ok E live (m\<lparr>dma_allocators := n\<rparr>) = mapper_ok E live m" "mapper_ok E live (m\<lparr>natives := ns\<rparr>) = mapper_ok E live m"
  by (simp_all add: mapper_ok_def dma_ok_def)

lemma dma_init_keeps: "mapper_ok E live m \<Longrightarrow> dma_init m = Inr (r, m') \<Longrightarrow> mapper_ok E live m' \<and> kept m m'"
  by (auto simp: dma_init_def kept_def)

lemma dma_okD:
  assumes "dma_ok E m"
  shows "dom (dma_infos m) \<subseteq> {1..brk (gbm m)}"
    "importedBufferTable m fd = Some p \<Longrightarrow> p \<in> {1..brk (gbm m)}"
    "importedBufferTable m fd = Some p \<Longrightarrow> dma_infos m p = Some i \<Longrightarrow> bi_prime_fd i = fd"
    "importedBufferTable m fd = Some p \<Longrightarrow> dma_infos m p = None \<Longrightarrow> \<not> reads_back E"
  using assms unfolding dma_ok_def by (blast, blast, fastforce, fastforce)

lemma dma_okI:
  assumes "dom (dma_infos m) \<subseteq> {1..brk (gbm m)}"
    and "\<And>fd p. importedBufferTable m fd = Some p \<Longrightarrow> p \<in> {1..brk (gbm m)}"
    and "\<And>fd p i. importedBufferTable m fd = Some p \<Longrightarrow> dma_infos m p = Some i \<Longrightarrow> bi_prime_fd i = fd"
    and "\<And>fd p. importedBufferTable m fd = Some p \<Longrightarrow> dma_infos m p = None \<Longrightarrow> \<not> reads_back E"
  shows "dma_ok E m"
  unfolding dma_ok_def
proof (intro conjI allI impI)
  fix fd p assume t: "importedBufferTable m fd = Some p"
  show "case dma_infos m p of Some i \<Rightarrow> bi_prime_fd i = fd | None \<Rightarrow> \<not> reads_back E"
    using assms(3,4) [OF t] by (cases "dma_infos m p") auto
qed (use assms(1,2) in blast)+

text \<open>The information of an import.\<close>

definition new_info :: "'e mapper_env \<Rightarrow> addr \<Rightarrow> gralloc_handle_t \<Rightarrow> i32 \<Rightarrow> buffer_info_t" where
  "new_info E h g sz = \<lparr>bi_prime_fd = prime_fd g, bi_buffer_id = h, bi_width = gh_width g, bi_height = gh_height g,
     bi_format = gh_format g, bi_usage = ucast (gh_usage g), bi_stride = gh_stride g, bi_size = scast sz,
     bi_mapped = NULL, bi_is_protected = (gh_usage g AND PROTECTED (gu (plat E)) \<noteq> 0)\<rparr>"

lemma info_created:
  assumes "mapper_ok E live m" "buffer_info_create E h g m = Inr (bi, m1)"
  obtains sz where "bi = Suc (brk (gbm m))" "int_result (sint (gh_width g) * sint (gh_height g)) = Inr sz"
    "m1 = m\<lparr>gbm := (gbm m)\<lparr>brk := bi\<rparr>, dma_infos := (dma_infos m)(bi \<mapsto> new_info E h g sz)\<rparr>"
proof -
  obtain p m0 where p: "m_malloc E sizeof_buffer_info m = (p, m0)" by force
  note a = mapper_ok_malloc(3) [OF assms(1) p]
  show ?thesis using assms(2) p a that
    by (auto simp: buffer_info_create_def res_simps new_info_def split: if_splits)
qed

lemma dma_import_keeps:
  assumes ok: "mapper_ok E live m" and run: "dma_importBuffer E h m = Inr (r, m')"
  shows "mapper_ok E live m' \<and> kept m m'"
proof (cases "h = NULL")
  case False
  obtain xs where xs: "env_ok E live" "gbm_ok (plat E) live (gbm m) xs" "dma_ok E m" using ok by (rule mapper_okE)
  obtain g bi m1 where g: "handles (gbm m) h = Some g" "buffer_info_create E h g m = Inr (bi, m1)"
    using run False by (auto simp: dma_importBuffer_def res_simps)
  obtain sz where m1: "bi = Suc (brk (gbm m))" "m1 = m\<lparr>gbm := (gbm m)\<lparr>brk := bi\<rparr>, dma_infos := (dma_infos m)(bi \<mapsto> new_info E h g sz)\<rparr>"
    using info_created [OF ok g(2)] by metis
  have m': "m' = (if importedBufferTable m (prime_fd g) = None
               then m1\<lparr>importedBufferTable := (importedBufferTable m)(prime_fd g \<mapsto> bi)\<rparr> else m1)"
    using run False g m1 by (auto simp: dma_importBuffer_def res_simps new_info_def split: if_splits)
  have gm: "gbm m' = (gbm m)\<lparr>brk := Suc (brk (gbm m))\<rparr>" using m1 by (simp add: m')
  have infos: "dma_infos m' = (dma_infos m)(bi \<mapsto> new_info E h g sz)" using m1 by (simp add: m')
  have entry: "(fd = prime_fd g \<and> p = bi) \<or> (importedBufferTable m fd = Some p \<and> p \<noteq> bi)"
    if "importedBufferTable m' fd = Some p" for fd p
    using that dma_okD(2) [OF xs(3), of fd p] m1 by (auto simp: m' split: if_splits)
  have "dma_ok E m'"
  proof (rule dma_okI)
    show "dom (dma_infos m') \<subseteq> {1..brk (gbm m')}" using dma_okD(1) [OF xs(3)] m1(1) by (auto simp: infos gm)
    fix fd p assume t: "importedBufferTable m' fd = Some p"
    show "p \<in> {1..brk (gbm m')}" using entry [OF t] dma_okD(2) [OF xs(3), of fd p] m1(1) by (auto simp: gm)
    show "dma_infos m' p = None \<Longrightarrow> \<not> reads_back E"
      using entry [OF t] dma_okD(4) [OF xs(3), of fd p] by (auto simp: infos)
    show "dma_infos m' p = Some i \<Longrightarrow> bi_prime_fd i = fd" for i
      using entry [OF t] dma_okD(3) [OF xs(3), of fd p i] by (auto simp: infos new_info_def)
  qed
  then show ?thesis using gbm_ok_brk [OF xs(2)] xs(1) gm
    unfolding mapper_ok_def kept_def by (auto simp: m' m1(2))
qed (use assms in \<open>simp add: dma_importBuffer_def\<close>)

lemma dma_free_keeps:
  assumes ok: "mapper_ok E live m" and run: "dma_freeBuffer E h m = Inr (r, m')"
  shows "mapper_ok E live m' \<and> kept m m'"
proof -
  obtain xs where xs: "env_ok E live" "gbm_ok (plat E) live (gbm m) xs" "dma_ok E m" using ok by (rule mapper_okE)
  show ?thesis
  proof (cases "m' = m")
    case False
    then obtain g i found where g: "handles (gbm m) h = Some g" "dma_find g m \<noteq> NULL"
      "dma_infos m (dma_find g m) = Some i" "stale_info E i = Some found"
      "m' = m\<lparr>dma_infos := (dma_infos m)(dma_find g m := None), importedBufferTable := (importedBufferTable m)(bi_prime_fd found := None)\<rparr>"
      using run by (auto simp: dma_freeBuffer_def Let_def res_simps split: if_splits option.splits)
    have entry: "importedBufferTable m fd = Some p \<and> fd \<noteq> bi_prime_fd found" if "importedBufferTable m' fd = Some p" for fd p
      using that by (auto simp: g(5) split: if_splits)
    have "dma_ok E m'"
    proof (rule dma_okI)
      show "dom (dma_infos m') \<subseteq> {1..brk (gbm m')}" using dma_okD(1) [OF xs(3)] by (auto simp: g(5))
      fix fd p assume t: "importedBufferTable m' fd = Some p"
      note o = entry [OF t]
      show "p \<in> {1..brk (gbm m')}" using o dma_okD(2) [OF xs(3), of fd p] by (simp add: g(5))
      show "dma_infos m' p = Some j \<Longrightarrow> bi_prime_fd j = fd" for j
        using o dma_okD(3) [OF xs(3), of fd p j] by (auto simp: g(5) split: if_splits)
      assume free: "dma_infos m' p = None"
      show "\<not> reads_back E"
      proof (cases "p = dma_find g m")
        case True
        then have "bi_prime_fd i = fd" using o dma_okD(3) [OF xs(3), of fd p i] g(3) by blast
        then show ?thesis using o g(4) reads_backD by metis
      next
        case other: False
        then have "dma_infos m p = None" using free by (simp add: g(5))
        then show ?thesis using o dma_okD(4) [OF xs(3), of fd p] by blast
      qed
    qed
    then show ?thesis using xs(1,2) unfolding mapper_ok_def kept_def by (auto simp: g(5))
  qed (use ok in simp)
qed

text \<open>Mapping a buffer.\<close>

lemma dma_info_upd:
  assumes "mapper_ok E live m" "dma_infos m p = Some i" "bi_prime_fd i' = bi_prime_fd i"
  shows "mapper_ok E live (m\<lparr>dma_infos := (dma_infos m)(p \<mapsto> i')\<rparr>)" "kept m (m\<lparr>dma_infos := (dma_infos m)(p \<mapsto> i')\<rparr>)"
proof -
  obtain xs where xs: "env_ok E live" "gbm_ok (plat E) live (gbm m) xs" "dma_ok E m" using assms(1) by (rule mapper_okE)
  have "dma_ok E (m\<lparr>dma_infos := (dma_infos m)(p \<mapsto> i')\<rparr>)"
    using dma_okD(1) [OF xs(3)] dma_okD(2-4) [OF xs(3)] assms(2,3) domI [of "dma_infos m", OF assms(2)]
    by (intro dma_okI) (auto split: if_splits)
  then show "mapper_ok E live (m\<lparr>dma_infos := (dma_infos m)(p \<mapsto> i')\<rparr>)" using xs by (auto simp: mapper_ok_def)
  show "kept m (m\<lparr>dma_infos := (dma_infos m)(p \<mapsto> i')\<rparr>)" by (simp add: kept_def)
qed

text \<open>The mapping step of a lock: the address or the error, and the state.\<close>

definition dma_map :: "'e mapper_env \<Rightarrow> addr \<Rightarrow> buffer_info_t \<Rightarrow> 'e mapper \<Rightarrow> (i32 + addr) \<times> 'e mapper" where
  "dma_map E bi info m =
    (if bi_mapped info \<noteq> NULL then (Inr (bi_mapped info), m)
     else case mmap E (bi_size info) (bi_prime_fd info) (ext (gbm m)) of (r, e) \<Rightarrow>
       let m1 = on_ext (\<lambda>_. e) m in
       case r of Inl err \<Rightarrow> (Inl err, m1)
       | Inr p \<Rightarrow> (Inr p, m1\<lparr>dma_infos := (dma_infos m1)(bi \<mapsto> info\<lparr>bi_mapped := p\<rparr>)\<rparr>))"

lemma dma_map_keeps:
  assumes ok: "mapper_ok E live m" and i: "dma_infos m bi = Some info" and run: "dma_map E bi info m = (r, m1)"
  shows "mapper_ok E live m1 \<and> kept m m1"
proof (cases "bi_mapped info \<noteq> NULL")
  case False
  obtain x e where mm: "mmap E (bi_size info) (bi_prime_fd info) (ext (gbm m)) = (x, e)" by force
  obtain xs where xs: "env_ok E live" using ok by (rule mapper_okE)
  have "same_objects (api (plat E)) live (ext (gbm m)) e"
    using env_okD(5) [OF xs, of "ext (gbm m)" "bi_size info" "bi_prime_fd info"] mm by simp
  note s = mapper_ok_ext [OF ok this]
  have i1: "dma_infos (on_ext (\<lambda>_. e) m) bi = Some info" using i by (simp add: on_ext_def)
  note u = dma_info_upd [OF s(1) i1, of "info\<lparr>bi_mapped := p\<rparr>" for p]
  show ?thesis using run False mm s u kept_trans [OF s(2)]
    by (auto simp: dma_map_def Let_def split: sum.splits)
qed (use assms in \<open>simp add: dma_map_def\<close>)

lemma dma_lock_keeps:
  assumes ok: "mapper_ok E live m" and run: "dma_lock E h u rect fence out m = Inr (r, out', m')"
  shows "mapper_ok E live m' \<and> kept m m'"
proof -
  obtain xs where xs: "env_ok E live" using ok by (rule mapper_okE)
  show ?thesis
  proof (cases "m' = m")
    case False
    then obtain g info where g: "handles (gbm m) h = Some g" "dma_find g m \<noteq> NULL" "dma_infos m (dma_find g m) = Some info"
      using run by (auto simp: dma_lock_def Let_def res_simps split: if_splits)
    obtain x m1 where mp: "dma_map E (dma_find g m) info m = (x, m1)" by force
    have k: "mapper_ok E live m1 \<and> kept m m1" by (rule dma_map_keeps [OF ok g(3) mp])
    have h: "h \<noteq> NULL" using run False by (auto simp: dma_lock_def)
    have "m' = m1 \<or> (\<exists>fd s. m' = on_ext (CpuSyncStart E fd s) m1)"
      using run g h mp [unfolded dma_map_def]
      by (cases x) (auto simp: dma_lock_def Let_def split: if_splits)
    moreover have "mapper_ok E live (on_ext (CpuSyncStart E fd s) m1) \<and> kept m (on_ext (CpuSyncStart E fd s) m1)" for fd s
      using mapper_ok_ext [of E live m1 "CpuSyncStart E fd s (ext (gbm m1))"] k env_okD(6) [OF xs] kept_trans
      by (auto simp: on_ext_def)
    ultimately show ?thesis using k by blast
  qed (use ok in simp)
qed

lemma dma_unlock_keeps:
  assumes ok: "mapper_ok E live m" and run: "dma_unlock E h m = Inr (r, m')"
  shows "mapper_ok E live m' \<and> kept m m'"
proof -
  obtain xs where xs: "env_ok E live" using ok by (rule mapper_okE)
  have "m' = m \<or> (\<exists>fd s. m' = on_ext (CpuSyncEnd E fd s) m)"
    using run by (auto simp: dma_unlock_def Let_def res_simps split: if_splits)
  moreover have "mapper_ok E live (on_ext (CpuSyncEnd E fd s) m) \<and> kept m (on_ext (CpuSyncEnd E fd s) m)" for fd s
    using mapper_ok_ext [OF ok env_okD(7) [OF xs], of fd s] by (simp add: on_ext_def)
  ultimately show ?thesis using ok by auto
qed

lemma dma_get_keeps:
  assumes ok: "mapper_ok E live m" and run: "dma_getStandardMetadata E h t n m = Inr (r, v, m')"
  shows "mapper_ok E live m' \<and> kept m m'"
  using run [unfolded dma_getStandardMetadata_def]
proof (rule provide_keeps)
  fix a m1 assume "queryAndroidBufferMetadata E h t m = Inr (a, m1)"
  then have "m1 = m" by (auto simp: queryAndroidBufferMetadata_def Let_def res_simps split: if_splits)
  then show "mapper_ok E live m1 \<and> kept m m1" using ok by simp
qed (use ok in simp)

lemma dma_backend_ok: "mapper_backend (MapperBackendDmaBuf E) (mapper_ok E live) has_block"
  by unfold_locales
    (auto simp: MapperBackendDmaBuf_def dma_flushLockedBuffer_def dma_rereadLockedBuffer_def dma_setStandardMetadata_def
      dest: dma_init_keeps dma_import_keeps dma_free_keeps dma_lock_keeps dma_unlock_keeps dma_get_keeps)

interpretation gbm_backend: mapper_backend "MapperBackendGrallocGbm E" "mapper_ok E live" has_block
  by (rule gbm_backend_ok)

interpretation dma_backend: mapper_backend "MapperBackendDmaBuf E" "mapper_ok E live" has_block
  by (rule dma_backend_ok)

section \<open>The mapper's own steps\<close>

lemma clone_keeps:
  assumes ok: "mapper_ok E live m" and run: "clone_handle E h m = Inr (p, m')"
  shows "mapper_ok E live m'"
proof -
  obtain xs where xs: "env_ok E live" "gbm_ok (plat E) live (gbm m) xs" using ok by (rule mapper_okE)
  obtain g n where g: "handles (gbm m) h = Some g" "natives m h = Some n"
    using run by (auto simp: clone_handle_def res_simps)
  obtain c e where c: "native_handle_clone E g (ext (gbm m)) = (c, e)" by force
  have "same_objects (api (plat E)) live (ext (gbm m)) e" using env_okD(3) [OF xs(1), of "ext (gbm m)" g] c by simp
  note s = mapper_ok_ext(1) [OF ok this] and w = gbm_ok_ext [OF xs(2) this]
  show ?thesis
  proof (cases c)
    case None
    then show ?thesis using run g c s by (auto simp: clone_handle_def res_simps)
  next
    case (Some g')
    let ?w = "(gbm m)\<lparr>brk := Suc (brk (gbm m)), handles := (handles (gbm m))(Suc (brk (gbm m)) \<mapsto> g'), ext := e\<rparr>"
    have dom: "dom (handles (gbm m)) \<subseteq> {1..brk (gbm m)}"
      using world_okD(2) [OF gbm_ok_world [OF xs(2)]] by (simp add: heaps_ok_def)
    have eq: "?w = ((gbm m)\<lparr>ext := e\<rparr>)\<lparr>brk := Suc (brk ((gbm m)\<lparr>ext := e\<rparr>)),
        handles := (handles ((gbm m)\<lparr>ext := e\<rparr>))(Suc (brk ((gbm m)\<lparr>ext := e\<rparr>)) \<mapsto> g')\<rparr>" by simp
    have "gbm_ok (plat E) live ?w xs" unfolding eq
      by (rule gbm_ok_grows [OF w grows_new_handle [OF grows_refl [OF gbm_ok_world [OF w]]]]) (use dom in simp)
    then have "mapper_ok E live (m\<lparr>gbm := ?w\<rparr>)" by (rule mapper_ok_world(1) [OF ok]) simp
    moreover have "m' = m\<lparr>gbm := ?w\<rparr>\<lparr>natives := (natives m)(p \<mapsto> n)\<rparr>"
      using run g c Some by (auto simp: clone_handle_def res_simps Let_def)
    ultimately show ?thesis by simp
  qed
qed

lemma close_keeps:
  assumes ok: "mapper_ok E live m" and run: "close_and_delete_handle E h m = Inr m'"
  shows "mapper_ok E live m'"
proof -
  obtain xs where xs: "env_ok E live" "gbm_ok (plat E) live (gbm m) xs" "dma_ok E m" using ok by (rule mapper_okE)
  obtain g where g: "handles (gbm m) h = Some g"
    "m' = m\<lparr>gbm := (gbm m)\<lparr>handles := (handles (gbm m))(h := None), ext := native_handle_close E g (ext (gbm m))\<rparr>,
            natives := (natives m)(h := None)\<rparr>"
    using run by (auto simp: close_and_delete_handle_def res_simps)
  have "gbm_ok (plat E) live (gbm m') xs"
    using gbm_ok_ext [OF gbm_ok_drop_handle [OF xs(2), of h], of "native_handle_close E g (ext (gbm m))"] env_okD(4) [OF xs(1)]
    by (simp add: g(2))
  moreover have "dma_ok E m'" using xs(3) by (simp add: g(2) dma_ok_def)
  ultimately show ?thesis using xs(1) by (auto simp: mapper_ok_def)
qed

lemma block_keeps:
  assumes ok: "mapper_ok E live m"
    and d: "dom (smpte_heap (gbm m)) \<subseteq> dom s" "dom s \<subseteq> insert (Suc (brk (gbm m))) (dom (smpte_heap (gbm m)))"
      "dom (cta_heap (gbm m)) \<subseteq> dom c" "dom c \<subseteq> insert (Suc (brk (gbm m))) (dom (cta_heap (gbm m)))"
    and w: "w = (gbm m)\<lparr>brk := Suc (brk (gbm m)), smpte_heap := s, cta_heap := c, blob_heap := b\<rparr>"
  shows "mapper_ok E live (m\<lparr>gbm := w\<rparr>)"
    "smpte2086 x \<in> insert NULL (dom s - dom (smpte_heap (gbm m))) \<Longrightarrow> cta861_3 x \<in> insert NULL (dom c - dom (cta_heap (gbm m)))
     \<Longrightarrow> block_ok w x"
proof -
  obtain xs where xs: "env_ok E live" "gbm_ok (plat E) live (gbm m) xs" using ok by (rule mapper_okE)
  have "gbm_ok (plat E) live w xs"
    by (rule gbm_ok_same_driver [OF xs(2)]) (use world_ok_heaps [OF gbm_ok_world [OF xs(2)] d] w in simp_all)
  then show "mapper_ok E live (m\<lparr>gbm := w\<rparr>)" by (rule mapper_ok_world(1) [OF ok]) (simp add: w)
  assume x: "smpte2086 x \<in> insert NULL (dom s - dom (smpte_heap (gbm m)))" "cta861_3 x \<in> insert NULL (dom c - dom (cta_heap (gbm m)))"
  then have "smpte2086 x \<in> {NULL, Suc (brk (gbm m))}" "cta861_3 x \<in> {NULL, Suc (brk (gbm m))}" using d by auto
  moreover have "smpte2086 (metadata bd) \<le> brk (gbm m)" "cta861_3 (metadata bd) \<le> brk (gbm m)"
    if "bo_data (gbm m) a = Some bd" for a bd
    using world_okD(2) [OF gbm_ok_world [OF xs(2)]] that by (auto simp: heaps_ok_def dest: metas_okD)
  ultimately show "block_ok w x" using x unfolding block_ok_def w by fastforce
qed

lemma fill_keeps:
  assumes ok: "mapper_ok E live m"
    and run: "fill_metadata E mt inp zero_metadata (m\<lparr>metas := (metas m)(p \<mapsto> zero_metadata)\<rparr>) = Inr (r, m')"
  shows "case r of Inl e \<Rightarrow> mapper_ok E live m'
    | Inr d \<Rightarrow> mapper_ok E live (m'\<lparr>metas := (metas m')(p \<mapsto> d)\<rparr>) \<and> has_block (m'\<lparr>metas := (metas m')(p \<mapsto> d)\<rparr>) p"
proof -
  let ?m = "m\<lparr>metas := (metas m)(p \<mapsto> zero_metadata)\<rparr>"
  obtain xs where xs: "env_ok E live" "gbm_ok (plat E) live (gbm m) xs" using ok by (rule mapper_okE)
  have heaps: "Suc (brk (gbm m)) \<notin> dom (smpte_heap (gbm m))" "Suc (brk (gbm m)) \<notin> dom (cta_heap (gbm m))"
    using world_okD(2) [OF gbm_ok_world [OF xs(2)]] by (auto simp: heaps_ok_def)
  have null: "block_ok w d" if "smpte2086 d = NULL" "cta861_3 d = NULL" for w :: "'a world" and d
    using that by (simp add: block_ok_def)
  have m: "mapper_ok E live ?m" using ok by simp
  have alloc: "a = Suc (brk (gbm m)) \<and> m1 = ?m\<lparr>gbm := (gbm m)\<lparr>brk := Suc (brk (gbm m))\<rparr>\<rparr>"
    if "m_malloc E n ?m = (a, m1)" "a \<noteq> NULL" for n a m1
    using mapper_ok_malloc(3) [OF m that] by simp
  consider (smpte) "mt = SMPTE2086" | (cta) "mt = CTA861_3" | (blob) "mt = SMPTE2094_50" | (other) "mt \<notin> {SMPTE2086, CTA861_3, SMPTE2094_50}"
    by blast
  then show ?thesis
  proof cases
    case other
    then show ?thesis using run m null
      by (cases mt) (auto simp: fill_metadata_def has_block_def zero_metadata_def)
  next
    case smpte
    let ?h = "(smpte_heap (gbm m))(Suc (brk (gbm m)) \<mapsto> in_smpte2086 inp)"
    let ?w = "(gbm m)\<lparr>brk := Suc (brk (gbm m)), smpte_heap := ?h\<rparr>"
    have w: "?w = (gbm m)\<lparr>brk := Suc (brk (gbm m)), smpte_heap := ?h, cta_heap := cta_heap (gbm m), blob_heap := blob_heap (gbm m)\<rparr>"
      by simp
    have "mapper_ok E live (m\<lparr>gbm := ?w\<rparr>)" by (rule block_keeps(1) [OF ok _ _ _ _ w]) auto
    moreover have "block_ok ?w d" if "smpte2086 d = Suc (brk (gbm m))" "cta861_3 d = NULL" for d
      by (rule block_keeps(2) [OF ok _ _ _ _ w]) (use that heaps in auto)
    moreover obtain a m1 where a: "m_malloc E sizeof_smpte2086 ?m = (a, m1)" by force
    ultimately show ?thesis using run smpte alloc [OF a]
      by (auto simp: fill_metadata_def Let_def has_block_def zero_metadata_def split: if_splits)
  next
    case cta
    let ?h = "(cta_heap (gbm m))(Suc (brk (gbm m)) \<mapsto> in_cta861_3 inp)"
    let ?w = "(gbm m)\<lparr>brk := Suc (brk (gbm m)), cta_heap := ?h\<rparr>"
    have w: "?w = (gbm m)\<lparr>brk := Suc (brk (gbm m)), smpte_heap := smpte_heap (gbm m), cta_heap := ?h, blob_heap := blob_heap (gbm m)\<rparr>"
      by simp
    have "mapper_ok E live (m\<lparr>gbm := ?w\<rparr>)" by (rule block_keeps(1) [OF ok _ _ _ _ w]) auto
    moreover have "block_ok ?w d" if "smpte2086 d = NULL" "cta861_3 d = Suc (brk (gbm m))" for d
      by (rule block_keeps(2) [OF ok _ _ _ _ w]) (use that heaps in auto)
    moreover obtain a m1 where a: "m_malloc E sizeof_cta861_3 ?m = (a, m1)" by force
    ultimately show ?thesis using run cta alloc [OF a]
      by (auto simp: fill_metadata_def Let_def has_block_def zero_metadata_def split: if_splits)
  next
    case blob
    let ?h = "(blob_heap (gbm m))(Suc (brk (gbm m)) \<mapsto> in_bytes inp)"
    let ?w = "(gbm m)\<lparr>brk := Suc (brk (gbm m)), blob_heap := ?h\<rparr>"
    have w: "?w = (gbm m)\<lparr>brk := Suc (brk (gbm m)), smpte_heap := smpte_heap (gbm m), cta_heap := cta_heap (gbm m), blob_heap := ?h\<rparr>"
      by simp
    have "mapper_ok E live (m\<lparr>gbm := ?w\<rparr>)" by (rule block_keeps(1) [OF ok _ _ _ _ w]) auto
    moreover have "block_ok ?w d" if "smpte2086 d = NULL" "cta861_3 d = NULL" for d
      by (rule block_keeps(2) [OF ok _ _ _ _ w]) (use that heaps in auto)
    moreover obtain a m1 where a: "m_malloc E (length (in_bytes inp)) ?m = (a, m1)" by force
    ultimately show ?thesis using run blob ok alloc [OF a]
      by (auto simp: fill_metadata_def Let_def has_block_def zero_metadata_def split: if_splits)
  qed
qed

lemma backend_ok: "mapper_backend (selectBackendByType E t) (mapper_ok E live) has_block"
  by (cases t) (simp_all add: selectBackendByType_def gbm_backend_ok dma_backend_ok)

interpretation library: mapper_library E "mapper_ok E live" has_block
  by (rule mapper_library.intro)
    (rule backend_ok | erule (1) clone_keeps | erule (1) close_keeps | erule (1) mapper_ok_malloc(1)
      | erule (1) fill_keeps | simp only: mapper_ok_frame)+

section \<open>Calls and the states they reach\<close>

datatype mapper_call =
    ImportCall addr addr
  | FreeCall addr
  | LockCall addr u64 Rect i32 addr
  | UnlockCall addr
  | FlushCall addr
  | RereadCall addr
  | GetCall addr AIMapper_MetadataType nat
  | SetCall addr AIMapper_MetadataType metadata_input

fun call :: "'e mapper_env \<Rightarrow> mapper_call \<Rightarrow> 'e mapper \<Rightarrow> 'e mapper res" where
  "call E (ImportCall h out) m = and_then (mapper_importBuffer E h out m) (\<lambda>(_, _, m'). Inr m')"
| "call E (FreeCall h) m = and_then (mapper_freeBuffer E h m) (\<lambda>(_, m'). Inr m')"
| "call E (LockCall h u rect fence out) m = and_then (mapper_lock E h u rect fence out m) (\<lambda>(_, _, m'). Inr m')"
| "call E (UnlockCall h) m = and_then (mapper_unlock E h m) (\<lambda>(_, m'). Inr m')"
| "call E (FlushCall h) m = and_then (mapper_flushLockedBuffer E h m) (\<lambda>(_, m'). Inr m')"
| "call E (RereadCall h) m = and_then (mapper_rereadLockedBuffer E h m) (\<lambda>(_, m'). Inr m')"
| "call E (GetCall h t n) m = and_then (mapper_getMetadata E h t n m) (\<lambda>(_, _, m'). Inr m')"
| "call E (SetCall h t inp) m = and_then (mapper_setMetadata E h t inp m) (\<lambda>(_, m'). Inr m')"

lemma call_keeps: "call E c m = Inr m' \<Longrightarrow> mapper_ok E live m \<Longrightarrow> mapper_ok E live m'"
  by (cases c)
    (auto simp: and_then_eq_Inr dest: library.good_import library.good_free library.good_lock library.good_unlock
      library.good_flush library.good_reread library.good_get library.good_set)

definition blank_mapper :: "'e \<Rightarrow> 'e mapper" where
  "blank_mapper e = \<lparr>gbm = blank_world e, natives = Map.empty, metas = Map.empty, dma_infos = Map.empty,
     importedBufferTable = Map.empty, dma_allocators = 0, mBackend = None\<rparr>"

text \<open>A handle from another process, with its header.\<close>

definition receive :: "gralloc_handle_t \<Rightarrow> native_handle_t \<Rightarrow> 'e mapper \<Rightarrow> 'e mapper" where
  "receive g n m = m\<lparr>gbm := receive_handle g (gbm m), natives := (natives m)(Suc (brk (gbm m)) \<mapsto> n)\<rparr>"

inductive mapper_reachable :: "'e mapper_env \<Rightarrow> 'e mapper \<Rightarrow> bool" for E :: "'e mapper_env" where
  start: "mapper_reachable E (blank_mapper e)"
| receive: "mapper_reachable E m \<Longrightarrow> mapper_reachable E (receive g n m)"
| call: "mapper_reachable E m \<Longrightarrow> call E c m = Inr m' \<Longrightarrow> mapper_reachable E m'"

lemma blank_mapper_ok: "env_ok E live \<Longrightarrow> mapper_ok E live (blank_mapper e)"
  by (auto simp: mapper_ok_def blank_mapper_def dma_ok_def gbm_ok_def blank_world_def world_ok_def heaps_ok_def
      hash_inv_def heap_ok_def metas_ok_empty)

lemma receive_keeps:
  assumes "mapper_ok E live m"
  shows "mapper_ok E live (receive g n m)"
proof -
  obtain xs where xs: "env_ok E live" "gbm_ok (plat E) live (gbm m) xs" using assms by (rule mapper_okE)
  have dom: "dom (handles (gbm m)) \<subseteq> {1..brk (gbm m)}"
    using world_okD(2) [OF gbm_ok_world [OF xs(2)]] by (simp add: heaps_ok_def)
  have g: "grows (plat E) live (gbm m) (receive_handle g (gbm m))"
    using grows_new_handle [OF grows_refl [OF gbm_ok_world [OF xs(2)]] dom] by (simp add: receive_handle_def)
  from mapper_ok_world(1) [OF assms gbm_ok_grows [OF xs(2) g] growsD(1) [OF g]] show ?thesis
    by (simp add: receive_def)
qed

lemma reachable_mapper_ok: "mapper_reachable E m \<Longrightarrow> env_ok E live \<Longrightarrow> mapper_ok E live m"
  by (induction rule: mapper_reachable.induct) (auto intro: blank_mapper_ok receive_keeps call_keeps)

end
