(* ===== verification/Mapper_Metadata.thy ===== *)
theory Mapper_Metadata
  imports Mapper_Service
begin

text \<open>
  What the metadata calls do to one buffer of the GBM back end, from the call of the client to the
  user data of the buffer object and back: the calculations the properties rest on.
\<close>

text \<open>A lookup that returned returns the same when there is more fuel, that is after an allocation.\<close>

lemma HASH_FIND_IN_BKT_mono:
  "HASH_FIND_IN_BKT n m k hv p = Inr x \<Longrightarrow> n \<le> n' \<Longrightarrow> HASH_FIND_IN_BKT n' m k hv p = Inr x"
proof (induction n m k hv p arbitrary: n' rule: HASH_FIND_IN_BKT.induct)
  case (2 n m k hv p)
  obtain n1 where n': "n' = Suc n1" "n \<le> n1" using "2.prems"(2) by (cases n') auto
  show ?case using "2.prems"(1) "2.IH" [OF _ _ _ _ n'(2)] by (auto simp: n'(1) res_simps split: if_splits)
qed simp

lemma find_buffer_k_later:
  assumes "find_buffer_k k w = Inr a" "brk w \<le> brk w'" "nodes w' = nodes w"
    "android_buffer_table w' = android_buffer_table w" "tbl w' = tbl w"
  shows "find_buffer_k k w' = Inr a"
  using assms HASH_FIND_IN_BKT_mono [of "Suc (brk w)" "nodes w" _ _ _ _ "Suc (brk w')"]
  by (auto simp: find_buffer_k_eq HASH_FIND_INT_def head_tbl_def Let_def res_simps split: if_splits simp del: HASH_FIND_IN_BKT.simps)

section \<open>A buffer the mapper serves through the GBM back end\<close>

definition blob_handle :: "'e mapper_env \<Rightarrow> gralloc_handle_t \<Rightarrow> bool" where
  "blob_handle E g \<longleftrightarrow> gh_format g = HAL_PIXEL_FORMAT_BLOB (hal (plat E)) \<and> gh_height g = 1"

text \<open>The handle \<open>h\<close> with contents \<open>g\<close> leads to the buffer at \<open>a\<close>, whose user data is \<open>bd\<close>.\<close>

definition gbm_served ::
  "'e mapper_env \<Rightarrow> ('e \<Rightarrow> addr set) \<Rightarrow> 'e mapper \<Rightarrow> addr \<Rightarrow> gralloc_handle_t \<Rightarrow> addr \<Rightarrow> gbm_bo_data_t \<Rightarrow> bool" where
  "gbm_served E live m h g a bd \<longleftrightarrow> mapper_ok E live m \<and> ready_in (plat E) (gbm m)
     \<and> h \<noteq> NULL \<and> handles (gbm m) h = Some g \<and> \<not> blob_handle E g \<and> stride_defined (plat E) (gh_format g)
     \<and> find_buffer_k (prime_fd g) (gbm m) = Inr a \<and> a \<noteq> NULL \<and> bo_data (gbm m) (data_of (plat E) (gbm m) a) = Some bd"

lemma servedD:
  assumes "gbm_served E live m h g a bd"
  shows "mapper_ok E live m" "ready_in (plat E) (gbm m)" "h \<noteq> NULL" "handles (gbm m) h = Some g" "\<not> blob_handle E g"
    "stride_defined (plat E) (gh_format g)" "find_buffer_k (prime_fd g) (gbm m) = Inr a" "a \<noteq> NULL"
    "bo_data (gbm m) (data_of (plat E) (gbm m) a) = Some bd"
  using assms by (simp_all add: gbm_served_def)

lemma served_cong:
  assumes s: "gbm_served E live m h g a bd" and ok: "mapper_ok E live m'"
    and same: "handles (gbm m') = handles (gbm m)" "nodes (gbm m') = nodes (gbm m)" "tbl (gbm m') = tbl (gbm m)"
      "android_buffer_table (gbm m') = android_buffer_table (gbm m)" "ext (gbm m') = ext (gbm m)"
      "g_driver (gbm m') = g_driver (gbm m)" "brk (gbm m) \<le> brk (gbm m')"
    and bd: "bo_data (gbm m') (data_of (plat E) (gbm m) a) = Some bd'"
  shows "gbm_served E live m' h g a bd'"
proof -
  have "find_buffer_k (prime_fd g) (gbm m') = Inr a"
    by (rule find_buffer_k_later [OF servedD(7) [OF s]]) (simp_all add: same)
  moreover have "data_of (plat E) (gbm m') a = data_of (plat E) (gbm m) a" by (simp add: data_of_def same)
  ultimately show ?thesis using s ok bd by (simp add: gbm_served_def same ready_in_same [of "plat E" "gbm m"])
qed

lemma served_ready: "gbm_served E live m h g a bd \<Longrightarrow> is_gralloc_gbm_ready (plat E) (gbm m) = Inr True"
  by (rule servedD(2))

lemma served_world:
  assumes "gbm_served E live m h g a bd"
  obtains xs where "gbm_laws (api (plat E)) live" "world_ok (plat E) live (gbm m) xs"
    "data_of (plat E) (gbm m) a \<noteq> NULL"
proof -
  obtain xs where xs: "env_ok E live" "gbm_ok (plat E) live (gbm m) xs" using servedD(1) [OF assms] by (rule mapper_okE)
  note law = env_okD(2) [OF xs(1)] and w = gbm_ok_world [OF xs(2)]
  obtain bd where "data_of (plat E) (gbm m) a \<noteq> NULL"
    by (rule managed_owner [OF law w servedD(4,3,7,8) [OF assms]])
  then show ?thesis using that law w by blast
qed

lemma served_select:
  assumes "gbm_served E live m h g a bd"
  shows "with_backend E h fail run m = run (MapperBackendGrallocGbm E) (m\<lparr>mBackend := Some MAPPER_GRALLOC_GBM\<rparr>)"
    "gbm_served E live (m\<lparr>mBackend := b\<rparr>) h g a bd"
proof -
  note d = servedD [OF assms]
  have "selectBackend E h m = Inr (0, m\<lparr>mBackend := Some MAPPER_GRALLOC_GBM\<rparr>)"
    using d(3,4,5) by (auto simp: selectBackend_def blob_handle_def)
  then show "with_backend E h fail run m = run (MapperBackendGrallocGbm E) (m\<lparr>mBackend := Some MAPPER_GRALLOC_GBM\<rparr>)"
    using served_ready [OF assms]
    by (simp add: with_backend_def CHECK_BACKEND_def selectBackendByType_def MapperBackendGrallocGbm_def gbm_isReady_def)
  show "gbm_served E live (m\<lparr>mBackend := b\<rparr>) h g a bd"
    by (rule served_cong [OF assms]) (use d in simp_all)
qed

lemma gbm_backend_metadata [simp]:
  "setStandardMetadata (MapperBackendGrallocGbm E) = gbm_setStandardMetadata E"
  "getStandardMetadata (MapperBackendGrallocGbm E) = gbm_getStandardMetadata E"
  by (simp_all add: MapperBackendGrallocGbm_def)

section \<open>Setting metadata\<close>

definition standard :: "StandardMetadataType \<Rightarrow> AIMapper_MetadataType" where
  "standard t = \<lparr>mt_name = STANDARD_METADATA_NAME, mt_value = t\<rparr>"

lemma gbm_set_run:
  assumes s: "gbm_served E live m h g a bd" and t: "t \<in> {DATASPACE, BLEND_MODE, SMPTE2086, CTA861_3, SMPTE2094_50}"
    and new: "metas m data = Some new" "data \<noteq> NULL"
  shows "gbm_setStandardMetadata E h t data m = Inr (0, m\<lparr>gbm := (gbm m)\<lparr>bo_data :=
    (bo_data (gbm m))(data_of (plat E) (gbm m) a \<mapsto> bd\<lparr>metadata := merge_metadata t new (metadata bd)\<rparr>)\<rparr>\<rparr>)"
proof -
  obtain xs where xs: "gbm_laws (api (plat E)) live" "world_ok (plat E) live (gbm m) xs" "data_of (plat E) (gbm m) a \<noteq> NULL"
    using s by (rule served_world)
  note d = servedD [OF s]
  show ?thesis using extdata_ok [OF xs(1,2) d(4,3,7,8)] xs(3) t new d(9)
    by (simp add: gbm_setStandardMetadata_def Let_def)
qed

lemma gbm_set_ignored:
  assumes s: "gbm_served E live m h g a bd" and t: "t \<notin> {DATASPACE, BLEND_MODE, SMPTE2086, CTA861_3, SMPTE2094_50}"
  shows "gbm_setStandardMetadata E h t data m = Inr (0, m)"
proof -
  obtain xs where xs: "gbm_laws (api (plat E)) live" "world_ok (plat E) live (gbm m) xs" "data_of (plat E) (gbm m) a \<noteq> NULL"
    using s by (rule served_world)
  note d = servedD [OF s]
  show ?thesis using extdata_ok [OF xs(1,2) d(4,3,7,8)] xs(3) t
    by (simp add: gbm_setStandardMetadata_def Let_def)
qed

text \<open>What the client is told.\<close>

definition set_code :: "'e mapper_env \<Rightarrow> StandardMetadataType \<Rightarrow> metadata_input \<Rightarrow> i32" where
  "set_code E t inp =
    (if t \<in> {BUFFER_ID, NAME, WIDTH, HEIGHT, LAYER_COUNT, PIXEL_FORMAT_REQUESTED, PIXEL_FORMAT_FOURCC,
             PIXEL_FORMAT_MODIFIER, USAGE, STRIDE}
       \<or> t = SMPTE2094_50 \<and> GRALLOC_GENERIC_SMPTE2094_50_MAX_SIZE < length (in_bytes inp)
     then AIMAPPER_ERROR_BAD_VALUE (errs E) else AIMAPPER_ERROR_NONE (errs E))"

text \<open>What the metadata of the buffer becomes: values are copied, pointers lead to copies of the input.\<close>

definition written ::
  "StandardMetadataType \<Rightarrow> metadata_input \<Rightarrow> 'e world \<Rightarrow> buffer_metadata_t \<Rightarrow> buffer_metadata_t \<Rightarrow> bool" where
  "written t inp w old new =
    (case t of
       DATASPACE \<Rightarrow> new = old\<lparr>dataspace := in_dataspace inp\<rparr>
     | BLEND_MODE \<Rightarrow> new = old\<lparr>blend_mode := in_blend_mode inp\<rparr>
     | SMPTE2086 \<Rightarrow> new = old\<lparr>smpte2086 := smpte2086 new\<rparr> \<and> deref (smpte_heap w) (smpte2086 new) = Inr (in_smpte2086 inp)
     | CTA861_3 \<Rightarrow> new = old\<lparr>cta861_3 := cta861_3 new\<rparr> \<and> deref (cta_heap w) (cta861_3 new) = Inr (in_cta861_3 inp)
     | SMPTE2094_50 \<Rightarrow>
         if GRALLOC_GENERIC_SMPTE2094_50_MAX_SIZE < length (in_bytes inp) then new = old
         else new = old\<lparr>smpte2094_50 := smpte2094_50 new, smpte2094_50_size := of_nat (length (in_bytes inp))\<rparr>
           \<and> deref (blob_heap w) (smpte2094_50 new) = Inr (in_bytes inp)
     | _ \<Rightarrow> new = old)"

text \<open>A request gets memory while it is not lacking.\<close>

lemma m_malloc_served:
  assumes "\<not> starved (mem_oom (plat E)) (gbm m)" "n < 2 ^ 36" "brk (gbm m) \<le> brk (gbm x)"
  shows "m_malloc E n x = (Suc (brk (gbm x)), x\<lparr>gbm := (gbm x)\<lparr>brk := Suc (brk (gbm x))\<rparr>\<rparr>)"
proof -
  have "\<not> mem_oom (plat E) (Suc (brk (gbm x))) n"
    using starvedI [of "mem_oom (plat E)" _ n "gbm m"] assms by force
  then show ?thesis by (simp add: m_malloc_def malloc_def)
qed

lemma set_served:
  assumes s: "gbm_served E live m h g a bd" and mem: "\<not> starved (mem_oom (plat E)) (gbm m)"
  shows "\<exists>m' bd'. mapper_setMetadata E h (standard t) inp m = Inr (set_code E t inp, m')
    \<and> gbm_served E live m' h g a bd' \<and> written t inp (gbm m') (metadata bd) (metadata bd') \<and> locked_for bd' = locked_for bd"
proof -
  let ?m1 = "m\<lparr>mBackend := Some MAPPER_GRALLOC_GBM\<rparr>"
  note d = servedD [OF s] and s1 = served_select [OF s]
  note alloc = m_malloc_served [OF mem]
  let ?p = "Suc (brk (gbm m))"
  let ?m2 = "?m1\<lparr>gbm := (gbm m)\<lparr>brk := ?p\<rparr>\<rparr>"
  have m2: "m_malloc E sizeof_buffer_metadata ?m1 = (?p, ?m2)" by (simp add: alloc sizeof_buffer_metadata_def)
  have ok2: "mapper_ok E live ?m2"
    by (rule mapper_ok_malloc(1) [OF servedD(1) [OF s1(2)] m2])
  have s2: "gbm_served E live ?m2 h g a bd" by (rule served_cong [OF s ok2]) (use d in simp_all)
  let ?m3 = "?m2\<lparr>metas := (metas ?m2)(?p \<mapsto> zero_metadata)\<rparr>"
  have run: "mapper_setMetadata E h (standard t) inp m = and_then (fill_metadata E t inp zero_metadata ?m3) (\<lambda>(r, m3).
         case r of Inl e \<Rightarrow> Inr (e, m3)
         | Inr d \<Rightarrow> and_then (setStandardMetadata (MapperBackendGrallocGbm E) h t ?p (m3\<lparr>metas := (metas m3)(?p \<mapsto> d)\<rparr>)) (\<lambda>(ret, m4).
               Inr (if ret \<noteq> 0 then AIMAPPER_ERROR_NO_RESOURCES (errs E) else AIMAPPER_ERROR_NONE (errs E), m4)))"
    using d(3) m2
    by (simp add: served_select(1) [OF s] mapper_setMetadata_def standard_def is_standard_metadata_def mapper_setStandardMetadata_def Let_def)
  have set1: "\<exists>m' bd'. mapper_setMetadata E h (standard t) inp m = Inr (AIMAPPER_ERROR_NONE (errs E), m')
    \<and> gbm_served E live m' h g a bd' \<and> metadata bd' = merge_metadata t dd (metadata bd) \<and> locked_for bd' = locked_for bd
    \<and> smpte_heap (gbm m') = sh \<and> cta_heap (gbm m') = ch \<and> blob_heap (gbm m') = bh"
    if f: "fill_metadata E t inp zero_metadata ?m3 = Inr (Inr dd, ?m3\<lparr>gbm := (gbm m)\<lparr>brk := b, smpte_heap := sh, cta_heap := ch, blob_heap := bh\<rparr>\<rparr>)"
      "?p \<le> b" "t \<in> {DATASPACE, BLEND_MODE, SMPTE2086, CTA861_3, SMPTE2094_50}" for dd b sh ch bh
  proof -
    let ?m3' = "?m3\<lparr>gbm := (gbm m)\<lparr>brk := b, smpte_heap := sh, cta_heap := ch, blob_heap := bh\<rparr>\<rparr>"
    let ?m4 = "?m3'\<lparr>metas := (metas ?m3')(?p \<mapsto> dd)\<rparr>"
    have ok4: "mapper_ok E live ?m4" using fill_keeps [OF ok2 f(1)] by simp
    have s4: "gbm_served E live ?m4 h g a bd" by (rule served_cong [OF s ok4]) (use d f(2) in simp_all)
    let ?bd = "bd\<lparr>metadata := merge_metadata t dd (metadata bd)\<rparr>"
    have data: "data_of (plat E) (gbm ?m4) a = data_of (plat E) (gbm m) a" by (simp add: data_of_def)
    have r4: "gbm_setStandardMetadata E h t ?p ?m4 = Inr (0, ?m4\<lparr>gbm := (gbm ?m4)\<lparr>bo_data :=
      (bo_data (gbm ?m4))(data_of (plat E) (gbm m) a \<mapsto> ?bd)\<rparr>\<rparr>)"
      using gbm_set_run [OF s4 f(3), of ?p dd] unfolding data by simp
    let ?m5 = "?m4\<lparr>gbm := (gbm ?m4)\<lparr>bo_data := (bo_data (gbm ?m4))(data_of (plat E) (gbm m) a \<mapsto> ?bd)\<rparr>\<rparr>"
    have r5: "mapper_setMetadata E h (standard t) inp m = Inr (AIMAPPER_ERROR_NONE (errs E), ?m5)"
      unfolding run f(1) using r4 by simp
    have "mapper_ok E live ?m5" by (rule library.good_set [OF r5 d(1)])
    then have "gbm_served E live ?m5 h g a ?bd" by (rule served_cong [OF s]) (use d f(2) in simp_all)
    then show ?thesis using r5 by (intro exI [of _ ?m5] exI [of _ ?bd]) simp
  qed
  have ok3: "mapper_ok E live ?m3" using ok2 by simp
  have s3: "gbm_served E live ?m3 h g a bd" by (rule served_cong [OF s ok3]) (use d in simp_all)
  have refused: "mapper_setMetadata E h (standard t) inp m = Inr (e, ?m3)"
    if "fill_metadata E t inp zero_metadata ?m3 = Inr (Inl e, ?m3)" for e
    unfolding run that by simp
  have ignored: "mapper_setMetadata E h (standard t) inp m = Inr (AIMAPPER_ERROR_NONE (errs E), ?m3\<lparr>metas := (metas ?m3)(?p \<mapsto> zero_metadata)\<rparr>)
      \<and> gbm_served E live (?m3\<lparr>metas := (metas ?m3)(?p \<mapsto> zero_metadata)\<rparr>) h g a bd"
    if "fill_metadata E t inp zero_metadata ?m3 = Inr (Inr zero_metadata, ?m3)"
      "t \<notin> {DATASPACE, BLEND_MODE, SMPTE2086, CTA861_3, SMPTE2094_50}"
  proof -
    let ?m4 = "?m3\<lparr>metas := (metas ?m3)(?p \<mapsto> zero_metadata)\<rparr>"
    have "mapper_ok E live ?m4" using ok3 by simp
    then have "gbm_served E live ?m4 h g a bd" by (rule served_cong [OF s]) (use d in simp_all)
    with gbm_set_ignored [OF this that(2)] show ?thesis unfolding run that(1) by simp
  qed
  have small: "n < 2 ^ 36" if "\<not> GRALLOC_GENERIC_SMPTE2094_50_MAX_SIZE < n" for n
    using that by (simp add: GRALLOC_GENERIC_SMPTE2094_50_MAX_SIZE_def)
  consider (const) "t \<in> {BUFFER_ID, NAME, WIDTH, HEIGHT, LAYER_COUNT, PIXEL_FORMAT_REQUESTED, PIXEL_FORMAT_FOURCC,
             PIXEL_FORMAT_MODIFIER, USAGE, STRIDE}"
    | (other) "t \<in> {ALLOCATION_SIZE, PROTECTED_CONTENT, COMPRESSION, INTERLACED, CHROMA_SITING, PLANE_LAYOUTS, CROP,
             SMPTE2094_40, SMPTE2094_10, OTHER_METADATA}"
    | (ds) "t = DATASPACE" | (bm) "t = BLEND_MODE" | (smpte) "t = SMPTE2086" | (cta) "t = CTA861_3"
    | (big) "t = SMPTE2094_50" "GRALLOC_GENERIC_SMPTE2094_50_MAX_SIZE < length (in_bytes inp)"
    | (blob) "t = SMPTE2094_50" "\<not> GRALLOC_GENERIC_SMPTE2094_50_MAX_SIZE < length (in_bytes inp)"
    by (cases t) auto
  then show ?thesis
  proof cases
    case const
    then have f: "fill_metadata E t inp zero_metadata ?m3 = Inr (Inl (AIMAPPER_ERROR_BAD_VALUE (errs E)), ?m3)"
      by (simp add: fill_metadata_def Let_def)
    have c: "set_code E t inp = AIMAPPER_ERROR_BAD_VALUE (errs E)" using const by (simp add: set_code_def)
    have "written t inp w (metadata bd) (metadata bd)" for w :: "'a world" using const by (auto simp: written_def)
    then show ?thesis using refused [OF f] s3 c by (intro exI [of _ ?m3] exI [of _ bd]) simp
  next
    case other
    then have f: "fill_metadata E t inp zero_metadata ?m3 = Inr (Inr zero_metadata, ?m3)"
      by (auto simp: fill_metadata_def Let_def)
    have c: "set_code E t inp = AIMAPPER_ERROR_NONE (errs E)" using other by (auto simp: set_code_def)
    have "written t inp w (metadata bd) (metadata bd)" for w :: "'a world" using other by (auto simp: written_def)
    moreover have "t \<notin> {DATASPACE, BLEND_MODE, SMPTE2086, CTA861_3, SMPTE2094_50}" using other by auto
    ultimately show ?thesis using ignored [OF f] c
      by (intro exI [of _ "?m3\<lparr>metas := (metas ?m3)(?p \<mapsto> zero_metadata)\<rparr>"] exI [of _ bd]) simp
  next
    case big
    then have f: "fill_metadata E t inp zero_metadata ?m3 = Inr (Inl (AIMAPPER_ERROR_BAD_VALUE (errs E)), ?m3)"
      by (simp add: fill_metadata_def Let_def)
    have c: "set_code E t inp = AIMAPPER_ERROR_BAD_VALUE (errs E)" using big by (simp add: set_code_def)
    have "written t inp w (metadata bd) (metadata bd)" for w :: "'a world" using big by (auto simp: written_def)
    then show ?thesis using refused [OF f] s3 c by (intro exI [of _ ?m3] exI [of _ bd]) simp
  next
    case ds
    have "fill_metadata E t inp zero_metadata ?m3 = Inr (Inr (zero_metadata\<lparr>dataspace := in_dataspace inp\<rparr>), ?m3\<lparr>gbm := (gbm m)\<lparr>brk := ?p,
        smpte_heap := smpte_heap (gbm m), cta_heap := cta_heap (gbm m), blob_heap := blob_heap (gbm m)\<rparr>\<rparr>)"
      by (simp add: ds fill_metadata_def Let_def)
    from set1 [OF this] ds show ?thesis by (fastforce simp: set_code_def written_def merge_metadata_def)
  next
    case bm
    have "fill_metadata E t inp zero_metadata ?m3 = Inr (Inr (zero_metadata\<lparr>blend_mode := in_blend_mode inp\<rparr>), ?m3\<lparr>gbm := (gbm m)\<lparr>brk := ?p,
        smpte_heap := smpte_heap (gbm m), cta_heap := cta_heap (gbm m), blob_heap := blob_heap (gbm m)\<rparr>\<rparr>)"
      by (simp add: bm fill_metadata_def Let_def)
    from set1 [OF this] bm show ?thesis by (fastforce simp: set_code_def written_def merge_metadata_def)
  next
    case smpte
    have "fill_metadata E t inp zero_metadata ?m3 = Inr (Inr (zero_metadata\<lparr>smpte2086 := Suc ?p\<rparr>), ?m3\<lparr>gbm := (gbm m)\<lparr>brk := Suc ?p,
        smpte_heap := (smpte_heap (gbm m))(Suc ?p \<mapsto> in_smpte2086 inp), cta_heap := cta_heap (gbm m), blob_heap := blob_heap (gbm m)\<rparr>\<rparr>)"
      by (simp add: smpte fill_metadata_def Let_def alloc sizeof_smpte2086_def)
    from set1 [OF this] smpte show ?thesis by (fastforce simp: set_code_def written_def merge_metadata_def res_simps)
  next
    case cta
    have "fill_metadata E t inp zero_metadata ?m3 = Inr (Inr (zero_metadata\<lparr>cta861_3 := Suc ?p\<rparr>), ?m3\<lparr>gbm := (gbm m)\<lparr>brk := Suc ?p,
        smpte_heap := smpte_heap (gbm m), cta_heap := (cta_heap (gbm m))(Suc ?p \<mapsto> in_cta861_3 inp), blob_heap := blob_heap (gbm m)\<rparr>\<rparr>)"
      by (simp add: cta fill_metadata_def Let_def alloc sizeof_cta861_3_def)
    from set1 [OF this] cta show ?thesis by (fastforce simp: set_code_def written_def merge_metadata_def res_simps)
  next
    case blob
    have "fill_metadata E t inp zero_metadata ?m3 = Inr (Inr (zero_metadata\<lparr>smpte2094_50 := Suc ?p, smpte2094_50_size := of_nat (length (in_bytes inp))\<rparr>),
        ?m3\<lparr>gbm := (gbm m)\<lparr>brk := Suc ?p,
        smpte_heap := smpte_heap (gbm m), cta_heap := cta_heap (gbm m), blob_heap := (blob_heap (gbm m))(Suc ?p \<mapsto> in_bytes inp)\<rparr>\<rparr>)"
      using blob by (simp add: fill_metadata_def Let_def alloc [OF small])
    from set1 [OF this] blob show ?thesis by (fastforce simp: set_code_def written_def merge_metadata_def res_simps)
  qed
qed

section \<open>Getting metadata\<close>

lemma gbm_get_run:
  assumes s: "gbm_served E live m h g a bd" and t: "t \<noteq> OTHER_METADATA"
  shows "\<exists>e. let m' = m\<lparr>mBackend := Some MAPPER_GRALLOC_GBM, gbm := (gbm m)\<lparr>ext := e\<rparr>\<rparr> in
    mapper_getMetadata E h (standard t) n m =
      and_then (gbm_metadata_answer E (gbm m') (buffer_info (plat E) (gbm m) g a) t) (\<lambda>x.
        case x of Code c \<Rightarrow> Inr (if sint c < 0 then AIMAPPER_ERROR_NO_RESOURCES (errs E) else c, None, m')
        | Value v \<Rightarrow> Inr (if sint (provide E t v n) < 0 then AIMAPPER_ERROR_NO_RESOURCES (errs E) else provide E t v n, Some v, m'))"
proof -
  note d = servedD [OF s]
  obtain xs where w: "gbm_laws (api (plat E)) live" "world_ok (plat E) live (gbm m) xs"
    using s by (rule served_world)
  obtain e where q: "gralloc_gbm_android_buffer_query (plat E) h (gbm m) =
      Inr (0, Some (buffer_info (plat E) (gbm m) g a), (gbm m)\<lparr>ext := e\<rparr>)"
    using query_ok [OF w d(6) d(4,3,7,8)] by blast
  show ?thesis unfolding Let_def using d(3) q t
    by (intro exI [of _ e]) (simp add: served_select(1) [OF s] mapper_getMetadata_def mapper_getStandardMetadata_def standard_def
        is_standard_metadata_def gbm_getStandardMetadata_def provideStandardMetadata_def grallocGbmQueryAndroidBufferMetadata_def
        Let_def and_then_assoc and_then_def split: sum.splits answer.splits)
qed

text \<open>The code of a successful read: what the encoder returns, or the error number that hides it.\<close>

definition get_code :: "'e mapper_env \<Rightarrow> StandardMetadataType \<Rightarrow> metadata_value \<Rightarrow> nat \<Rightarrow> i32" where
  "get_code E t v n = (if sint (provide E t v n) < 0 then AIMAPPER_ERROR_NO_RESOURCES (errs E) else provide E t v n)"

lemma served_info:
  "gbm_served E live m h g a bd \<Longrightarrow> info_metadata (buffer_info (plat E) (gbm m) g a) = metadata bd"
  using servedD(9) by (fastforce simp: buffer_info_def Let_def split: prod.splits)

lemma served_get:
  assumes s: "gbm_served E live m h g a bd" and t: "t \<noteq> OTHER_METADATA"
    and x: "\<And>e. gbm_metadata_answer E ((gbm m)\<lparr>ext := e\<rparr>) (buffer_info (plat E) (gbm m) g a) t = x"
  shows "\<exists>m'. mapper_getMetadata E h (standard t) n m =
    (case x of Inl f \<Rightarrow> Inl f
     | Inr (Code c) \<Rightarrow> Inr (if sint c < 0 then AIMAPPER_ERROR_NO_RESOURCES (errs E) else c, None, m')
     | Inr (Value v) \<Rightarrow> Inr (get_code E t v n, Some v, m'))"
  using gbm_get_run [OF s t, of n]
  by (auto simp: Let_def x and_then_def get_code_def split: sum.splits answer.splits)

end
