(* ===== verification/Mapper_Outcomes.thy ===== *)
theory Mapper_Outcomes
  imports Gbm_Holds Mapper_Metadata
begin

text \<open>
  What an import and a release of the mapper do to the two tables of buffers: the GBM library's
  (as the multiset of its descriptors) and the DMA-BUF back end's.
\<close>

declare neq0_conv [iff del]

text \<open>The GBM buffers of a mapper, by descriptor.\<close>

definition gbm_buffers :: "'e mapper_env \<Rightarrow> ('e \<Rightarrow> addr set) \<Rightarrow> 'e mapper \<Rightarrow> i32 multiset \<Rightarrow> bool" where
  "gbm_buffers E live m M \<longleftrightarrow> mapper_ok E live m \<and> holds (plat E) live (gbm m) M"

lemma gbm_buffersE:
  assumes "mapper_ok E live m"
  obtains M where "gbm_buffers E live m M"
  using assms by (auto simp: gbm_buffers_def holds_def elim!: mapper_okE)

lemma gbm_buffersD:
  assumes "gbm_buffers E live m M"
  shows "mapper_ok E live m" "holds (plat E) live (gbm m) M" "env_ok E live" "platform_ok (plat E) live"
    "dom (handles (gbm m)) \<subseteq> {1..brk (gbm m)}" "dma_ok E m"
proof -
  show h: "mapper_ok E live m" "holds (plat E) live (gbm m) M" using assms by (simp_all add: gbm_buffers_def)
  show "env_ok E live" "dma_ok E m" using h(1) by (simp_all add: mapper_ok_def)
  then show "platform_ok (plat E) live" using env_okD(1) by blast
  show "dom (handles (gbm m)) \<subseteq> {1..brk (gbm m)}" by (rule holds_handles [OF h(2)])
qed

section \<open>Bringing up a back end\<close>

text \<open>
  The back end of a handle after the first two steps of a call, and what they leave alone. A GBM back
  end that does not come up has no buffers.
\<close>

lemma select_check:
  assumes m: "gbm_buffers E live m M" and g: "handles (gbm m) h = Some g" "h \<noteq> NULL"
    and run: "with_backend E h fail run m = Inr x"
  obtains (up) m1 where "run (selectBackendByType E (if blob_handle E g then MAPPER_GRALLOC_DMABUF else MAPPER_GRALLOC_GBM)) m1 = Inr x"
      "gbm_buffers E live m1 M" "handles (gbm m1) = handles (gbm m)" "natives m1 = natives m" "brk (gbm m) \<le> brk (gbm m1)"
      "importedBufferTable m1 = importedBufferTable m" "dma_infos m1 = dma_infos m" "\<not> blob_handle E g \<Longrightarrow> ready_in (plat E) (gbm m1)"
  | (down) m1 where "fail m1 = Inr x" "gbm_buffers E live m1 M" "handles (gbm m1) = handles (gbm m)" "natives m1 = natives m"
      "importedBufferTable m1 = importedBufferTable m" "dma_infos m1 = dma_infos m" "M = {#}" "\<not> blob_handle E g"
proof -
  let ?t = "if blob_handle E g then MAPPER_GRALLOC_DMABUF else MAPPER_GRALLOC_GBM"
  let ?m0 = "m\<lparr>mBackend := Some ?t\<rparr>"
  have sel: "selectBackend E h m = Inr (0, ?m0)" using g by (simp add: selectBackend_def blob_handle_def)
  have m0: "gbm_buffers E live ?m0 M" using m by (simp add: gbm_buffers_def)
  obtain b m1 where ck: "CHECK_BACKEND E ?m0 = Inr (b, m1)"
    and go: "(case b of None \<Rightarrow> fail m1 | Some B \<Rightarrow> run B m1) = Inr x"
    using run sel by (auto simp: with_backend_def res_simps)
  show ?thesis
  proof (cases "blob_handle E g")
    case True
    have "b = Some (MapperBackendDmaBuf E) \<and> (m1 = ?m0 \<or> m1 = ?m0\<lparr>dma_allocators := Suc (dma_allocators m)\<rparr>)"
      using ck True by (auto simp: CHECK_BACKEND_def selectBackendByType_def MapperBackendDmaBuf_def dma_isReady_def dma_init_def Let_def
          split: if_splits)
    then show ?thesis using go True m m0 by (intro up [of m1]) (auto simp: selectBackendByType_def gbm_buffers_def)
  next
    case False
    obtain r where r: "is_gralloc_gbm_ready (plat E) (gbm m) = Inr r"
      using ck False by (auto simp: CHECK_BACKEND_def selectBackendByType_def MapperBackendGrallocGbm_def gbm_isReady_def res_simps Let_def)
    show ?thesis
    proof (cases r)
      case True
      obtain xs where xs: "gbm_ok (plat E) live (gbm m) xs" using gbm_buffersD(2) [OF m] by (auto simp: holds_def)
      have rdy: "ready_in (plat E) (gbm m)"
        using r True by simp
      have "b = Some (MapperBackendGrallocGbm E)" "m1 = ?m0"
        using ck r True \<open>\<not> blob_handle E g\<close>
        by (simp_all add: CHECK_BACKEND_def selectBackendByType_def MapperBackendGrallocGbm_def gbm_isReady_def Let_def)
      then show ?thesis using go \<open>\<not> blob_handle E g\<close> m0 rdy by (intro up [of m1]) (simp_all add: selectBackendByType_def)
    next
      case nr: False
      then obtain ret w where w: "gralloc_gbm_init (plat E) (gbm m) = Inr (ret, w)"
        "m1 = ?m0\<lparr>gbm := w\<rparr>" "b = (if ret \<noteq> 0 then None else Some (MapperBackendGrallocGbm E))"
        using ck r False by (auto simp: CHECK_BACKEND_def selectBackendByType_def MapperBackendGrallocGbm_def gbm_isReady_def
            gbm_init_def on_gbm_def res_simps Let_def split: if_splits)
      note k = init_holds [OF gbm_buffersD(2) [OF m] w(1)]
      obtain xs where "gbm_ok (plat E) live w xs" using k(1) by (auto simp: holds_def)
      then have "mapper_ok E live (m\<lparr>gbm := w\<rparr>)" by (rule mapper_ok_world(1) [OF gbm_buffersD(1) [OF m] _ k(3)])
      moreover have "m1 = m\<lparr>gbm := w\<rparr>\<lparr>mBackend := Some ?t\<rparr>" by (simp add: w(2))
      ultimately have m1: "gbm_buffers E live m1 M" using k(1) by (simp add: gbm_buffers_def)
      show ?thesis
      proof (cases "ret = 0")
        case True
        then show ?thesis using go False w k m1 by (intro up [of m1]) (simp_all add: selectBackendByType_def)
      next
        case bad: False
        then show ?thesis using go False w k m1 by (intro down [of m1]) simp_all
      qed
    qed
  qed
qed

section \<open>Import\<close>

lemma dma_import_run:
  assumes m: "mapper_ok E live m" and g: "handles (gbm m) h = Some g" "h \<noteq> NULL"
    and run: "dma_importBuffer E h m = Inr (r, m')"
  shows "r = 0" "gbm m' = (gbm m)\<lparr>brk := Suc (brk (gbm m))\<rparr>" "natives m' = natives m"
    "dom (importedBufferTable m') = insert (prime_fd g) (dom (importedBufferTable m))"
proof -
  obtain bi m1 where b: "buffer_info_create E h g m = Inr (bi, m1)"
    using run g by (auto simp: dma_importBuffer_def res_simps)
  obtain sz where m1: "bi = Suc (brk (gbm m))" "m1 = m\<lparr>gbm := (gbm m)\<lparr>brk := bi\<rparr>, dma_infos := (dma_infos m)(bi \<mapsto> new_info E h g sz)\<rparr>"
    using info_created [OF m b] by metis
  have "r = 0 \<and> m' = (if importedBufferTable m (prime_fd g) = None
               then m1\<lparr>importedBufferTable := (importedBufferTable m)(prime_fd g \<mapsto> bi)\<rparr> else m1)"
    using run g b m1 by (auto simp: dma_importBuffer_def res_simps new_info_def split: if_splits)
  then show "r = 0" "gbm m' = (gbm m)\<lparr>brk := Suc (brk (gbm m))\<rparr>" "natives m' = natives m"
    "dom (importedBufferTable m') = insert (prime_fd g) (dom (importedBufferTable m))"
    using m1 by (auto simp: domIff)
qed

text \<open>The copy of a handle.\<close>

lemma clone_run:
  assumes m: "gbm_buffers E live m M" and run: "clone_handle E h m = Inr (c, m')"
  shows "gbm_buffers E live m' M" "importedBufferTable m' = importedBufferTable m"
    "c = NULL \<Longrightarrow> handles (gbm m') = handles (gbm m)"
    "c \<noteq> NULL \<Longrightarrow> \<exists>g g' n. handles (gbm m) h = Some g \<and> natives m h = Some n \<and> c = Suc (brk (gbm m))
      \<and> fst (native_handle_clone E g (ext (gbm m))) = Some g' \<and> handles (gbm m') = (handles (gbm m))(c \<mapsto> g')
      \<and> natives m' = (natives m)(c \<mapsto> n) \<and> brk (gbm m') = c"
proof -
  obtain g n where g: "handles (gbm m) h = Some g" "natives m h = Some n"
    using run by (auto simp: clone_handle_def res_simps)
  obtain x e where x: "native_handle_clone E g (ext (gbm m)) = (x, e)" by force
  have m': "m' = (case x of None \<Rightarrow> on_ext (\<lambda>_. e) m
     | Some g' \<Rightarrow> m\<lparr>gbm := (gbm m)\<lparr>brk := Suc (brk (gbm m)), handles := (handles (gbm m))(Suc (brk (gbm m)) \<mapsto> g'), ext := e\<rparr>,
                  natives := (natives m)(Suc (brk (gbm m)) \<mapsto> n)\<rparr>)"
    and c: "c = (case x of None \<Rightarrow> NULL | Some _ \<Rightarrow> Suc (brk (gbm m)))"
    using run g x by (auto simp: clone_handle_def res_simps Let_def split: option.splits)
  obtain xs where xs: "gbm_ok (plat E) live (gbm m) xs" "keys (plat E) (gbm m) xs = M"
    using gbm_buffersD(2) [OF m] by (auto simp: holds_def)
  show "importedBufferTable m' = importedBufferTable m" by (simp add: m' on_ext_def split: option.splits)
  show "c = NULL \<Longrightarrow> handles (gbm m') = handles (gbm m)" using c by (simp add: m' on_ext_def split: option.splits)
  show "c \<noteq> NULL \<Longrightarrow> \<exists>g g' n. handles (gbm m) h = Some g \<and> natives m h = Some n \<and> c = Suc (brk (gbm m))
      \<and> fst (native_handle_clone E g (ext (gbm m))) = Some g' \<and> handles (gbm m') = (handles (gbm m))(c \<mapsto> g')
      \<and> natives m' = (natives m)(c \<mapsto> n) \<and> brk (gbm m') = c"
    using g x c m' by (cases x) auto
  have same: "same_objects (api (plat E)) live (ext (gbm m)) e"
    using env_okD(3) [OF gbm_buffersD(3) [OF m], of "ext (gbm m)" g] x by simp
  have "holds (plat E) live (gbm m') M"
  proof (cases x)
    case None
    then show ?thesis using holds_ext [OF gbm_buffersD(2) [OF m] same] by (simp add: m' on_ext_def)
  next
    case (Some g')
    let ?w = "(gbm m)\<lparr>ext := e\<rparr>\<lparr>brk := Suc (brk (gbm m))\<rparr>"
    have "gbm_ok (plat E) live ?w xs" using gbm_ok_brk [OF gbm_ok_ext [OF xs(1) same]] by simp
    then have "gbm_ok (plat E) live (?w\<lparr>handles := (handles (gbm m))(Suc (brk (gbm m)) \<mapsto> g')\<rparr>) xs"
      by (rule gbm_ok_handles) (use gbm_buffersD(5) [OF m] in auto)
    moreover have "gbm m' = ?w\<lparr>handles := (handles (gbm m))(Suc (brk (gbm m)) \<mapsto> g')\<rparr>" by (simp add: m' Some)
    ultimately show ?thesis using xs(2) by (auto simp: holds_def keys_nodes)
  qed
  then show "gbm_buffers E live m' M"
    using clone_keeps [OF gbm_buffersD(1) [OF m] run] by (simp add: gbm_buffers_def)
qed

lemma close_run:
  assumes m: "gbm_buffers E live m M" and run: "close_and_delete_handle E h m = Inr m'"
  shows "gbm_buffers E live m' M" "importedBufferTable m' = importedBufferTable m" "handles (gbm m') = (handles (gbm m))(h := None)"
proof -
  obtain g where g: "m' = m\<lparr>gbm := (gbm m)\<lparr>handles := (handles (gbm m))(h := None), ext := native_handle_close E g (ext (gbm m))\<rparr>,
            natives := (natives m)(h := None)\<rparr>"
    using run by (auto simp: close_and_delete_handle_def res_simps)
  have "holds (plat E) live (gbm m') M"
    using holds_ext [OF holds_drop [OF gbm_buffersD(2) [OF m], of h]] env_okD(4) [OF gbm_buffersD(3) [OF m]] by (simp add: g)
  then show "gbm_buffers E live m' M" using close_keeps [OF gbm_buffersD(1) [OF m] run] by (simp add: gbm_buffers_def)
  show "importedBufferTable m' = importedBufferTable m" "handles (gbm m') = (handles (gbm m))(h := None)" by (simp_all add: g)
qed

text \<open>The import of a handle by the selected back end.\<close>

lemma import_run:
  assumes m: "gbm_buffers E live m M" and g: "handles (gbm m) c = Some g" "c \<noteq> NULL"
    and run: "importBuffer (selectBackendByType E (if b then MAPPER_GRALLOC_DMABUF else MAPPER_GRALLOC_GBM)) c m = Inr (r, m')"
  shows "handles (gbm m') = handles (gbm m)" "natives m' = natives m"
    "if r \<noteq> 0 then gbm_buffers E live m' M \<and> importedBufferTable m' = importedBufferTable m
     else if b then gbm_buffers E live m' M \<and> dom (importedBufferTable m') = insert (prime_fd g) (dom (importedBufferTable m))
     else ready_in (plat E) (gbm m') \<and> gbm_buffers E live m' (add_mset (prime_fd g) M) \<and> importedBufferTable m' = importedBufferTable m"
proof -
  have "handles (gbm m') = handles (gbm m) \<and> natives m' = natives m \<and>
    (if r \<noteq> 0 then gbm_buffers E live m' M \<and> importedBufferTable m' = importedBufferTable m
     else if b then gbm_buffers E live m' M \<and> dom (importedBufferTable m') = insert (prime_fd g) (dom (importedBufferTable m))
     else ready_in (plat E) (gbm m') \<and> gbm_buffers E live m' (add_mset (prime_fd g) M) \<and> importedBufferTable m' = importedBufferTable m)"
  proof (cases b)
    case True
    then have run: "dma_importBuffer E c m = Inr (r, m')" using run by (simp add: selectBackendByType_def MapperBackendDmaBuf_def)
    note i = dma_import_run [OF gbm_buffersD(1) [OF m] g run]
    show ?thesis using i True holds_brk [OF gbm_buffersD(2) [OF m]] dma_import_keeps [OF gbm_buffersD(1) [OF m] run]
      by (simp add: gbm_buffers_def)
  next
    case False
    then have run: "gbm_importBuffer E c m = Inr (r, m')" using run by (simp add: selectBackendByType_def MapperBackendGrallocGbm_def)
    then obtain w where w: "gralloc_gbm_android_buffer_import (plat E) c (gbm m) = Inr (r, w)" "m' = m\<lparr>gbm := w\<rparr>"
      by (auto simp: gbm_importBuffer_def on_gbm_def res_simps)
    note i = import_adds [OF gbm_buffersD(4,2) [OF m] g w(1)]
    show ?thesis using i False w(2) gbm_import_keeps [OF gbm_buffersD(1) [OF m] run]
      by (auto simp: gbm_buffers_def)
  qed
  then show "handles (gbm m') = handles (gbm m)" "natives m' = natives m"
    "if r \<noteq> 0 then gbm_buffers E live m' M \<and> importedBufferTable m' = importedBufferTable m
     else if b then gbm_buffers E live m' M \<and> dom (importedBufferTable m') = insert (prime_fd g) (dom (importedBufferTable m))
     else ready_in (plat E) (gbm m') \<and> gbm_buffers E live m' (add_mset (prime_fd g) M) \<and> importedBufferTable m' = importedBufferTable m" by blast+
qed

text \<open>
  A successful import: \<open>c\<close> is a new handle, a copy of \<open>h\<close>, and the back end of \<open>h\<close> holds one buffer more,
  the other back end the buffers it held.
\<close>

definition import_done ::
  "'e mapper_env \<Rightarrow> ('e \<Rightarrow> addr set) \<Rightarrow> 'e mapper \<Rightarrow> i32 multiset \<Rightarrow> addr \<Rightarrow> addr \<Rightarrow> 'e mapper \<Rightarrow> bool" where
  "import_done E live m M h c m' \<longleftrightarrow> (\<exists>g g' n e. handles (gbm m) h = Some g \<and> natives m h = Some n \<and> numFds n \<noteq> 0
     \<and> fst (native_handle_clone E g e) = Some g' \<and> brk (gbm m) < c
     \<and> handles (gbm m') = (handles (gbm m))(c \<mapsto> g') \<and> natives m' = (natives m)(c \<mapsto> n)
     \<and> (if blob_handle E g
        then gbm_buffers E live m' M \<and> dom (importedBufferTable m') = insert (prime_fd g') (dom (importedBufferTable m))
        else ready_in (plat E) (gbm m') \<and> gbm_buffers E live m' (add_mset (prime_fd g') M) \<and> importedBufferTable m' = importedBufferTable m))"

text \<open>A failed one.\<close>

definition import_undone :: "'e mapper_env \<Rightarrow> ('e \<Rightarrow> addr set) \<Rightarrow> 'e mapper \<Rightarrow> i32 multiset \<Rightarrow> 'e mapper \<Rightarrow> bool" where
  "import_undone E live m M m' \<longleftrightarrow> gbm_buffers E live m' M \<and> handles (gbm m') = handles (gbm m)
     \<and> importedBufferTable m' = importedBufferTable m"

lemma import_outcome:
  assumes m: "gbm_buffers E live m M" and run: "mapper_importBuffer E h out m = Inr (r, out', m')"
  shows "(r = AIMAPPER_ERROR_BAD_BUFFER (errs E) \<and> out' = out \<and> m' = m)
    \<or> (r = AIMAPPER_ERROR_NO_RESOURCES (errs E) \<and> out' = out \<and> import_undone E live m M m')
    \<or> (r = AIMAPPER_ERROR_NONE (errs E) \<and> import_done E live m M h out' m')"
proof -
  let ?body = "\<lambda>B m1. and_then (clone_handle E h m1) (\<lambda>(c, m2).
       if c = NULL then Inr (AIMAPPER_ERROR_NO_RESOURCES (errs E), out, m2)
       else and_then (importBuffer B c m2) (\<lambda>(ret, m3).
       if ret \<noteq> 0 then and_then (close_and_delete_handle E c m3) (\<lambda>m4. Inr (AIMAPPER_ERROR_NO_RESOURCES (errs E), out, m4))
       else Inr (AIMAPPER_ERROR_NONE (errs E), c, m3)))"
  show ?thesis
  proof (cases "h \<noteq> NULL \<and> (\<exists>n. natives m h = Some n \<and> numFds n \<noteq> 0)")
    case False
    then show ?thesis using run by (auto simp: mapper_importBuffer_def is_native_handle_valid_def res_simps Let_def split: if_splits)
  next
    case True
    then obtain n where n: "h \<noteq> NULL" "natives m h = Some n" "numFds n \<noteq> 0" by blast
    have go: "with_backend E h (\<lambda>m1. Inr (AIMAPPER_ERROR_NO_RESOURCES (errs E), out, m1)) ?body m = Inr (r, out', m')"
      using run n by (simp add: mapper_importBuffer_def is_native_handle_valid_def Let_def)
    obtain g where g: "handles (gbm m) h = Some g"
      using go by (auto simp: with_backend_def selectBackend_def res_simps n(1))
    let ?B = "selectBackendByType E (if blob_handle E g then MAPPER_GRALLOC_DMABUF else MAPPER_GRALLOC_GBM)"
    show ?thesis using m g n(1) go
    proof (cases rule: select_check)
      case (up m1)
      obtain c m2 where 2: "clone_handle E h m1 = Inr (c, m2)" using up(1) by (auto simp: res_simps)
      note k = clone_run [OF up(2) 2]
      show ?thesis
      proof (cases "c = NULL")
        case True
        then show ?thesis using up 2 k by (simp add: import_undone_def)
      next
        case False
        then obtain g' e where c: "c = Suc (brk (gbm m1))" "fst (native_handle_clone E g e) = Some g'"
          "handles (gbm m2) = (handles (gbm m1))(c \<mapsto> g')" "natives m2 = (natives m1)(c \<mapsto> n)"
          using k(4) g n(2) up(3,4) by auto
        obtain ret m3 where 3: "importBuffer ?B c m2 = Inr (ret, m3)" using up(1) 2 False by (auto simp: res_simps)
        have g2: "handles (gbm m2) c = Some g'" using c(3) by simp
        note i = import_run [OF k(1) g2 False 3]
        show ?thesis
        proof (cases "ret = 0")
          case True
          then have "r = AIMAPPER_ERROR_NONE (errs E)" "out' = c" "m' = m3" using up(1) 2 3 False by simp_all
          moreover have "import_done E live m M h c m3"
            unfolding import_done_def using True g n(2,3) c i k(2) up by (fastforce split: if_splits)
          ultimately show ?thesis by simp
        next
          case bad: False
          obtain m4 where 4: "close_and_delete_handle E c m3 = Inr m4" using up(1) 2 3 False bad by (auto simp: res_simps)
          have m3: "gbm_buffers E live m3 M" "importedBufferTable m3 = importedBufferTable m2" using i(3) bad by simp_all
          note d = close_run [OF m3(1) 4]
          have "c \<notin> dom (handles (gbm m1))" using gbm_buffersD(5) [OF up(2)] c(1) by auto
          then have "handles (gbm m4) = handles (gbm m1)" using d(3) i(1) c(3) by (simp add: fun_upd_idem domIff)
          then show ?thesis using up 2 3 4 False bad d k(2) m3(2) by (simp add: import_undone_def)
        qed
      qed
    next
      case (down m1)
      then show ?thesis by (simp add: import_undone_def)
    qed
  qed
qed

section \<open>Release\<close>

text \<open>
  A release by the DMA-BUF back end. The table entry leads to live buffer information, which is freed; the
  entry erased is that of the key \<open>bi_prime_fd j\<close> that the freed block reads back.
\<close>

definition dma_released :: "'e mapper_env \<Rightarrow> 'e mapper \<Rightarrow> gralloc_handle_t \<Rightarrow> 'e mapper \<Rightarrow> bool" where
  "dma_released E m g m' \<longleftrightarrow> (\<exists>p i j. importedBufferTable m (prime_fd g) = Some p
     \<and> dma_infos m p = Some i \<and> bi_prime_fd i = prime_fd g \<and> stale_info E i = Some j
     \<and> dma_infos m' = (dma_infos m)(p := None)
     \<and> importedBufferTable m' = (importedBufferTable m)(bi_prime_fd j := None))"

lemma dma_free_run:
  assumes m: "mapper_ok E live m" and g: "handles (gbm m) h = Some g" "h \<noteq> NULL"
    and run: "dma_freeBuffer E h m = Inr (r, m')"
  shows "gbm m' = gbm m" "natives m' = natives m"
    "if prime_fd g \<in> dom (importedBufferTable m) then r = 0 \<and> dma_released E m g m' else r \<noteq> 0 \<and> m' = m"
proof -
  have e: "dma_ok E m" using m by (simp add: mapper_ok_def)
  have "gbm m' = gbm m \<and> natives m' = natives m
    \<and> (if prime_fd g \<in> dom (importedBufferTable m) then r = 0 \<and> dma_released E m g m' else r \<noteq> 0 \<and> m' = m)"
  proof (cases "importedBufferTable m (prime_fd g)")
    case None
    then show ?thesis using run g by (auto simp: dma_freeBuffer_def dma_find_def errno_defs)
  next
    case (Some p)
    have "p \<noteq> NULL" using dma_okD(2) [OF e Some] by simp
    then obtain i j where j: "dma_infos m p = Some i" "stale_info E i = Some j" "r = 0"
      "m' = m\<lparr>dma_infos := (dma_infos m)(p := None), importedBufferTable := (importedBufferTable m)(bi_prime_fd j := None)\<rparr>"
      using run g Some by (auto simp: dma_freeBuffer_def dma_find_def Let_def split: option.splits)
    moreover have "bi_prime_fd i = prime_fd g" by (rule dma_okD(3) [OF e Some j(1)])
    ultimately show ?thesis using Some by (auto simp: dma_released_def)
  qed
  then show "gbm m' = gbm m" "natives m' = natives m"
    "if prime_fd g \<in> dom (importedBufferTable m) then r = 0 \<and> dma_released E m g m' else r \<noteq> 0 \<and> m' = m" by blast+
qed

text \<open>When the block reads back its own key, exactly the entry of the handle is gone.\<close>

lemma dma_released_erases:
  assumes "dma_released E m g m'" "reads_back E"
  shows "importedBufferTable m' = (importedBufferTable m)(prime_fd g := None)"
  using assms(1) reads_backD [OF assms(2)] by (auto simp: dma_released_def)

text \<open>When it reads back another, the entry of the handle stays and dangles: the next release frees twice.\<close>

lemma dma_released_dangles:
  assumes "importedBufferTable m (prime_fd g) = Some p" "dma_infos m p = Some i" "stale_info E i = Some j"
    and "bi_prime_fd j \<noteq> prime_fd g" "p \<noteq> NULL" and h: "handles (gbm m) h = Some g" "h \<noteq> NULL"
  obtains m' where "dma_freeBuffer E h m = Inr (0, m')" "importedBufferTable m' (prime_fd g) = Some p"
    "dma_freeBuffer E h m' = Inl DoubleFree"
proof -
  let ?m' = "m\<lparr>dma_infos := (dma_infos m)(p := None), importedBufferTable := (importedBufferTable m)(bi_prime_fd j := None)\<rparr>"
  have "dma_freeBuffer E h m = Inr (0, ?m')" "importedBufferTable ?m' (prime_fd g) = Some p"
    using assms by (simp_all add: dma_freeBuffer_def dma_find_def Let_def)
  moreover from this have "dma_freeBuffer E h ?m' = Inl DoubleFree"
    using assms by (simp add: dma_freeBuffer_def dma_find_def Let_def)
  ultimately show ?thesis by (rule that)
qed

text \<open>The result of a release by a back end, as the mapper reports it.\<close>

definition released_by ::
  "'e mapper_env \<Rightarrow> ('e \<Rightarrow> addr set) \<Rightarrow> 'e mapper \<Rightarrow> i32 multiset \<Rightarrow> gralloc_handle_t \<Rightarrow> i32 \<Rightarrow> 'e mapper \<Rightarrow> bool" where
  "released_by E live m M g r m' \<longleftrightarrow> handles (gbm m') = handles (gbm m) \<and> natives m' = natives m \<and>
    (if blob_handle E g
     then gbm_buffers E live m' M
       \<and> (if prime_fd g \<in> dom (importedBufferTable m)
          then r = AIMAPPER_ERROR_NONE (errs E) \<and> dma_released E m g m'
          else r = AIMAPPER_ERROR_NO_RESOURCES (errs E) \<and> importedBufferTable m' = importedBufferTable m
            \<and> dma_infos m' = dma_infos m)
     else gbm_buffers E live m' (M - {#prime_fd g#}) \<and> importedBufferTable m' = importedBufferTable m
       \<and> (r = AIMAPPER_ERROR_NONE (errs E) \<or> r = AIMAPPER_ERROR_NO_RESOURCES (errs E) \<and> M = {#}))"

lemma free_outcome:
  assumes m: "gbm_buffers E live m M" and g: "handles (gbm m) h = Some g" "h \<noteq> NULL"
    and run: "mapper_freeBuffer E h m = Inr (r, m')"
  shows "released_by E live m M g r m'"
proof -
  let ?B = "selectBackendByType E (if blob_handle E g then MAPPER_GRALLOC_DMABUF else MAPPER_GRALLOC_GBM)"
  have go: "forward E freeBuffer h m = Inr (r, m')" using run g(2) by (simp add: mapper_freeBuffer_def)
  show ?thesis using m g go [unfolded forward_def]
  proof (cases rule: select_check)
    case (up m1)
    obtain ret m2 where 2: "freeBuffer ?B h m1 = Inr (ret, m2)" "m' = m2"
      "r = (if ret \<noteq> 0 then AIMAPPER_ERROR_NO_RESOURCES (errs E) else AIMAPPER_ERROR_NONE (errs E))"
      using up(1) by (auto simp: res_simps)
    have g1: "handles (gbm m1) h = Some g" using g(1) up(3) by simp
    show ?thesis
    proof (cases "blob_handle E g")
      case True
      then have f: "dma_freeBuffer E h m1 = Inr (ret, m2)" using 2(1) by (simp add: selectBackendByType_def MapperBackendDmaBuf_def)
      note k = dma_free_run [OF gbm_buffersD(1) [OF up(2)] g1 g(2) f] dma_free_keeps [OF gbm_buffersD(1) [OF up(2)] f]
      have "dma_released E m g m2" if "dma_released E m1 g m2"
        using that up(6,7) by (simp add: dma_released_def)
      then show ?thesis using k True up(2-7) 2(2,3) by (auto simp: released_by_def gbm_buffers_def split: if_splits)
    next
      case False
      then have f: "gbm_freeBuffer E h m1 = Inr (ret, m2)" using 2(1) by (simp add: selectBackendByType_def MapperBackendGrallocGbm_def)
      then obtain w where w: "gralloc_gbm_android_buffer_free (plat E) h (gbm m1) = Inr (ret, w)" "m2 = m1\<lparr>gbm := w\<rparr>"
        by (auto simp: gbm_freeBuffer_def on_gbm_def res_simps)
      note k = free_removes [OF gbm_buffersD(4,2) [OF up(2)] g1 g(2) w(1)] gbm_free_keeps [OF gbm_buffersD(1) [OF up(2)] f]
      have "ret = 0" using k(4) up(8) False by blast
      then show ?thesis using k False up(3-6) 2(2,3) w(2) by (simp add: released_by_def gbm_buffers_def)
    qed
  next
    case (down m1)
    then show ?thesis using g(1) by (auto simp: released_by_def)
  qed
qed

end
