(* ===== verification/Mapper_Props.thy ===== *)
theory Mapper_Props
  imports Mapper_Outcomes Gbm_Sample
begin

text \<open>
  The properties of the mapper, and the environment their witnesses run on: the sample platform of the
  GBM library, with the error numbers of AOSP.
\<close>

declare neq0_conv [iff del]

section \<open>A concrete environment\<close>

definition sample_env :: "addr option list mapper_env" where
  "sample_env = \<lparr>plat = sample_platform,
     errs = \<lparr>AIMAPPER_ERROR_NONE = 0, AIMAPPER_ERROR_BAD_BUFFER = 2, AIMAPPER_ERROR_BAD_VALUE = 3,
       AIMAPPER_ERROR_NO_RESOURCES = 5, AIMAPPER_ERROR_UNSUPPORTED = 7\<rparr>,
     native_handle_clone = \<lambda>g e. (Some (g\<lparr>prime_fd := 9\<rparr>), e), native_handle_close = \<lambda>_ e. e,
     dmabuf_heap_list_empty = \<lambda>_. False, mmap = \<lambda>_ _ e. (Inr 8192, e),
     CpuSyncStart = \<lambda>_ _ e. e, CpuSyncEnd = \<lambda>_ _ e. e, provide = \<lambda>_ _ _. 4, no_such_type = - 7,
     stale_info = Some, checked_optional = True\<rparr>"

lemma sample_env_fields [simp]:
  "plat sample_env = sample_platform" "native_handle_clone sample_env = (\<lambda>g e. (Some (g\<lparr>prime_fd := 9\<rparr>), e))"
  "native_handle_close sample_env = (\<lambda>_ e. e)" "mmap sample_env = (\<lambda>_ _ e. (Inr 8192, e))"
  "CpuSyncStart sample_env = (\<lambda>_ _ e. e)" "CpuSyncEnd sample_env = (\<lambda>_ _ e. e)" "stale_info sample_env = Some"
  "provide sample_env = (\<lambda>_ _ _. 4)" "checked_optional sample_env" "dmabuf_heap_list_empty sample_env = (\<lambda>_. False)"
  "AIMAPPER_ERROR_NONE (errs sample_env) = 0" "AIMAPPER_ERROR_BAD_BUFFER (errs sample_env) = 2"
  "AIMAPPER_ERROR_BAD_VALUE (errs sample_env) = 3" "AIMAPPER_ERROR_NO_RESOURCES (errs sample_env) = 5"
  "AIMAPPER_ERROR_UNSUPPORTED (errs sample_env) = 7" "no_such_type sample_env = - 7"
  by (simp_all add: sample_env_def)

lemma sample_env_ok: "env_ok sample_env sample_live"
  by (simp add: env_ok_def sample_platform_ok)

definition sample_native :: native_handle_t where
  "sample_native = \<lparr>numFds = 1, numInts = 10\<rparr>"

definition sample_mapper :: "addr option list mapper" where
  "sample_mapper = \<lparr>gbm = sample_world, natives = [3 \<mapsto> sample_native], metas = Map.empty, dma_infos = Map.empty,
     importedBufferTable = Map.empty, dma_allocators = 1, mBackend = None\<rparr>"

lemma sample_mapper_fields [simp]:
  "gbm sample_mapper = sample_world" "natives sample_mapper = [3 \<mapsto> sample_native]" "dma_infos sample_mapper = Map.empty"
  "importedBufferTable sample_mapper = Map.empty" "dma_allocators sample_mapper = 1"
  by (simp_all add: sample_mapper_def)

lemma sample_gbm_ok: "gbm_ok sample_platform sample_live sample_world [1]"
  by (rule gbm_ok_ready [OF sample_world_ok sample_ready])

lemma sample_mapper_ok: "mapper_ok sample_env sample_live sample_mapper"
  using sample_gbm_ok sample_env_ok by (auto simp: mapper_ok_def dma_ok_def)

lemma sample_buffers: "gbm_buffers sample_env sample_live sample_mapper {#5#}"
  using sample_mapper_ok sample_gbm_ok sample_abs by (auto simp: gbm_buffers_def holds_def keys_def)

definition sample_bd :: gbm_bo_data_t where
  "sample_bd = zero_bo_data\<lparr>metadata := (metadata zero_bo_data)\<lparr>smpte2086 := 4, cta861_3 := 5\<rparr>\<rparr>"

lemma sample_served: "gbm_served sample_env sample_live sample_mapper 3 sample_handle 1 sample_bd"
proof -
  have "bo_data sample_world 2 = Some sample_bd" by (simp add: sample_world_def sample_bd_def)
  moreover have "stride_defined sample_platform (gh_format sample_handle)"
    unfolding stride_defined_def sample_world_values by (simp add: aosp_hal_def) code_simp
  moreover have "\<not> blob_handle sample_env sample_handle"
    by (simp add: blob_handle_def sample_handle_def)
  ultimately show ?thesis unfolding gbm_served_def
    using sample_mapper_ok sample_ready sample_find sample_world_values by simp
qed

text \<open>A handle of a blob, which the DMA-BUF back end serves, beside the buffer of the GBM back end.\<close>

definition sample_blob :: gralloc_handle_t where
  "sample_blob = sample_handle\<lparr>gh_width := 4096, gh_height := 1, gh_format := 0x21\<rparr>"

definition sample_blob_mapper :: "addr option list mapper" where
  "sample_blob_mapper = sample_mapper\<lparr>gbm := sample_world\<lparr>handles := [3 \<mapsto> sample_blob]\<rparr>\<rparr>"

lemma sample_blob_handle [simp]: "blob_handle sample_env sample_blob"
  by (simp add: blob_handle_def sample_blob_def aosp_hal_def)

lemma sample_blob_buffers: "gbm_buffers sample_env sample_live sample_blob_mapper {#5#}"
proof -
  have ok: "gbm_ok sample_platform sample_live (sample_world\<lparr>handles := [3 \<mapsto> sample_blob]\<rparr>) [1]"
    by (rule gbm_ok_handles [OF sample_gbm_ok]) (simp add: sample_world_def)
  moreover have "keys sample_platform (sample_world\<lparr>handles := [3 \<mapsto> sample_blob]\<rparr>) [1] = {#5#}"
    using sample_abs by (simp add: keys_nodes) (simp add: sample_world_def sample_node_def fld_def)
  ultimately show ?thesis using sample_env_ok
    by (auto simp: gbm_buffers_def holds_def mapper_ok_def dma_ok_def sample_blob_mapper_def)
qed

lemma sample_import: "\<exists>m'. mapper_importBuffer sample_env 3 0 sample_blob_mapper = Inr (0, 7, m')"
proof -
  have "selectBackend sample_env 3 sample_blob_mapper = Inr (0, sample_blob_mapper\<lparr>mBackend := Some MAPPER_GRALLOC_DMABUF\<rparr>)"
    using sample_blob_handle unfolding blob_handle_def by (simp add: selectBackend_def sample_blob_mapper_def)
  moreover have "int_result (sint (gh_width sample_blob) * sint (gh_height sample_blob)) = Inr 4096"
    by (simp add: sample_blob_def int_result_def)
  moreover have "brk sample_world = 6" by (rule sample_world_values)
  ultimately show ?thesis
    by (simp add: mapper_importBuffer_def is_native_handle_valid_def sample_blob_mapper_def with_backend_def CHECK_BACKEND_def
        selectBackendByType_def MapperBackendDmaBuf_def dma_isReady_def clone_handle_def dma_importBuffer_def buffer_info_create_def
        m_malloc_def malloc_def sample_oom_def sizeof_buffer_info_def sample_native_def Let_def)
qed

lemma sample_mapper_free: "\<exists>m'. mapper_freeBuffer sample_env 3 sample_mapper = Inr (0, m')"
proof -
  note d = servedD [OF sample_served]
  have "gbm_laws (api sample_platform) sample_live" using sample_laws by simp
  from free_ok [OF this sample_world_ok ready_world_is_ready [OF sample_ready] sample_world_values(1) _ sample_find [folded sample_world_values(2)]]
  obtain v where "gralloc_gbm_android_buffer_free sample_platform 3 sample_world = Inr (0, v)" by auto
  then show ?thesis using d(3)
    by (simp add: mapper_freeBuffer_def forward_def served_select(1) [OF sample_served] gbm_freeBuffer_def on_gbm_def
        MapperBackendGrallocGbm_def)
qed

lemma sint_of_nat_small: "k < 2 ^ 31 \<Longrightarrow> sint (of_nat k :: i32) = int k"
  by (simp add: signed_of_nat signed_take_bit_int_eq_self)

section \<open>The properties\<close>

text \<open>C4: whatever calls a client makes that return, with whatever arguments, and whatever handles it
  receives from other processes, the mapper's state obeys its invariant: the GBM library's world is well
  formed, and every live entry of the DMA-BUF table leads to buffer information with the entry's
  descriptor. An entry can dangle, since the key to erase is read from the block just freed
  (MapperDmaBuf.cpp:123-125); it does only where a freed block has read back another key, so on a platform
  where freed blocks keep their key every entry of the table is live.\<close>

theorem mapper_invariant:
  assumes "mapper_reachable E m" and "env_ok E live"
  shows "mapper_ok E live m
    \<and> (reads_back E \<longrightarrow> (\<forall>fd p. importedBufferTable m fd = Some p \<longrightarrow> (\<exists>i. dma_infos m p = Some i \<and> bi_prime_fd i = fd)))"
proof -
  have ok: "mapper_ok E live m" by (rule reachable_mapper_ok [OF assms])
  then have "dma_ok E m" by (simp add: mapper_ok_def)
  then show ?thesis using ok dma_okD(3,4) by blast
qed

theorem mapper_invariant_witness:
  "mapper_ok sample_env sample_live (receive sample_handle sample_native (blank_mapper []))"
  using mapper_invariant [OF mapper_reachable.receive [OF mapper_reachable.start] sample_env_ok] by blast

text \<open>C12: the outcomes of an import. A handle that is null or has no descriptors is refused with
  \<open>BAD_BUFFER\<close> and changes nothing; every other failure is \<open>NO_RESOURCES\<close>, and the clone is gone again:
  the handles and both buffer tables are as before. A success returns a new handle, a clone of the
  argument, and adds its descriptor to the table of the one back end that serves it.\<close>

theorem mapper_import_outcomes:
  assumes "gbm_buffers E live m M" and "mapper_importBuffer E h out m = Inr (r, out', m')"
  shows "(r = AIMAPPER_ERROR_BAD_BUFFER (errs E) \<and> out' = out \<and> m' = m)
    \<or> (r = AIMAPPER_ERROR_NO_RESOURCES (errs E) \<and> out' = out \<and> import_undone E live m M m')
    \<or> (r = AIMAPPER_ERROR_NONE (errs E) \<and> import_done E live m M h out' m')"
  by (rule import_outcome [OF assms])

theorem mapper_import_outcomes_witness:
  "\<exists>m'. mapper_importBuffer sample_env 3 0 sample_blob_mapper = Inr (0, 7, m')
    \<and> import_done sample_env sample_live sample_blob_mapper {#5#} 3 7 m'"
proof -
  obtain m' where "mapper_importBuffer sample_env 3 0 sample_blob_mapper = Inr (0, 7, m')" using sample_import by blast
  with mapper_import_outcomes [OF sample_blob_buffers this] show ?thesis by auto
qed

text \<open>C13: what a release that returns has done. For a handle of the GBM back end, the buffer of its
  descriptor is gone from the library's table and the release is a success even when there was none. For
  a blob whose descriptor is not in the DMA-BUF table the release is \<open>NO_RESOURCES\<close> and changes nothing
  there. For one that is in the table the release succeeds, its buffer information is freed, and the
  entry erased is that of the key \<open>bi_prime_fd j\<close> which the block reads back after it was freed
  (MapperDmaBuf.cpp:123-125): the entry of the handle when the block still has its key, which is not
  assumed. The other back end's table is untouched, and the handle itself stays allocated.\<close>

theorem mapper_free_spec:
  assumes "gbm_buffers E live m M" and "handles (gbm m) h = Some g" and "h \<noteq> NULL"
    and "mapper_freeBuffer E h m = Inr (r, m')"
  shows "released_by E live m M g r m'"
  by (rule free_outcome [OF assms])

theorem mapper_free_spec_witness:
  "\<exists>m'. mapper_freeBuffer sample_env 3 sample_mapper = Inr (0, m')
    \<and> gbm_buffers sample_env sample_live m' {#} \<and> handles (gbm m') 3 = Some sample_handle"
proof -
  obtain m' where m': "mapper_freeBuffer sample_env 3 sample_mapper = Inr (0, m')" using sample_mapper_free by blast
  have h: "handles (gbm sample_mapper) 3 = Some sample_handle" by (simp add: sample_world_values)
  from mapper_free_spec [OF sample_buffers h _ m'] m' show ?thesis
    by (simp add: released_by_def blob_handle_def sample_world_values) (simp add: sample_handle_def)
qed

text \<open>C14: setting a metadatum, for every type and every input, while no request for memory fails. The call
  returns: \<open>BAD_VALUE\<close> for the types a buffer is born with and for a payload over the maximum, \<open>NONE\<close> for every other type. It writes
  the field of its type, by value or as a copy of the input on the heap, and no other; types that are
  neither refused nor settable are accepted and ignored.\<close>

theorem mapper_set_spec:
  assumes "gbm_served E live m h g a bd" and "\<not> starved (mem_oom (plat E)) (gbm m)"
  shows "\<exists>m' bd'. mapper_setMetadata E h (standard t) inp m = Inr (set_code E t inp, m')
    \<and> gbm_served E live m' h g a bd' \<and> written t inp (gbm m') (metadata bd) (metadata bd') \<and> locked_for bd' = locked_for bd"
  by (rule set_served [OF assms])

lemma sample_mapper_memory: "\<not> starved (mem_oom (plat sample_env)) (gbm sample_mapper)"
  by (simp add: sample_not_starved)

definition sample_input :: metadata_input where
  "sample_input = \<lparr>in_dataspace = 142671872, in_blend_mode = 2, in_smpte2086 = zero_smpte2086, in_cta861_3 = zero_cta861_3,
     in_bytes = [1, 2, 3]\<rparr>"

theorem mapper_set_spec_witness:
  "\<exists>m' bd'. mapper_setMetadata sample_env 3 (standard DATASPACE) sample_input sample_mapper = Inr (0, m')
    \<and> gbm_served sample_env sample_live m' 3 sample_handle 1 bd' \<and> dataspace (metadata bd') = 142671872"
  using mapper_set_spec [OF sample_served sample_mapper_memory, of DATASPACE sample_input]
  by (fastforce simp: set_code_def written_def sample_input_def)

text \<open>C15: the dataspace and the SMPTE 2094-50 payload can be read back: after a set, a get hands exactly
  the value set to the encoder (an empty payload as none).\<close>

theorem metadata_roundtrip:
  assumes s: "gbm_served E live m h g a bd" and mem: "\<not> starved (mem_oom (plat E)) (gbm m)"
    and n: "length (in_bytes inp) \<le> GRALLOC_GENERIC_SMPTE2094_50_MAX_SIZE"
    and t: "t = DATASPACE \<and> v = V_dataspace (in_dataspace inp)
      \<or> t = SMPTE2094_50 \<and> v = V_bytes (if in_bytes inp = [] then None else Some (in_bytes inp))"
  shows "\<exists>m1 m2. mapper_setMetadata E h (standard t) inp m = Inr (AIMAPPER_ERROR_NONE (errs E), m1)
    \<and> mapper_getMetadata E h (standard t) len m1 =
      Inr (get_code E t v len, Some v, m2)"
proof -
  obtain m1 bd' where 1: "mapper_setMetadata E h (standard t) inp m = Inr (set_code E t inp, m1)"
    "gbm_served E live m1 h g a bd'" "written t inp (gbm m1) (metadata bd) (metadata bd')"
    using set_served [OF s mem] by blast
  have c: "set_code E t inp = AIMAPPER_ERROR_NONE (errs E)" using n t by (auto simp: set_code_def)
  note meta = served_info [OF 1(2)]
  have small: "sint (of_nat (length (in_bytes inp)) :: i32) = int (length (in_bytes inp))"
    using n by (intro sint_of_nat_small) (simp add: GRALLOC_GENERIC_SMPTE2094_50_MAX_SIZE_def)
  have "gbm_metadata_answer E ((gbm m1)\<lparr>ext := e\<rparr>) (buffer_info (plat E) (gbm m1) g a) t = Inr (Value v)" for e
    using t
  proof (elim disjE conjE)
    assume "t = DATASPACE" "v = V_dataspace (in_dataspace inp)"
    then show ?thesis using 1(3) by (simp add: gbm_metadata_answer_def meta written_def)
  next
    assume *: "t = SMPTE2094_50" "v = V_bytes (if in_bytes inp = [] then None else Some (in_bytes inp))"
    then have eq: "metadata bd' = (metadata bd)\<lparr>smpte2094_50 := smpte2094_50 (metadata bd'),
        smpte2094_50_size := of_nat (length (in_bytes inp))\<rparr>"
      and b: "deref (blob_heap (gbm m1)) (smpte2094_50 (metadata bd')) = Inr (in_bytes inp)"
      using 1(3) n by (auto simp: written_def)
    have "smpte2094_50_size (metadata bd') = of_nat (length (in_bytes inp))"
      using arg_cong [OF eq, of smpte2094_50_size] by simp
    with b show ?thesis using * small by (auto simp: gbm_metadata_answer_def meta)
  qed
  from served_get [OF 1(2) _ this, of len] t
  have "\<exists>m2. mapper_getMetadata E h (standard t) len m1 = Inr (get_code E t v len, Some v, m2)" by fastforce
  then show ?thesis using 1(1) c by simp
qed

theorem metadata_roundtrip_witness:
  "\<exists>m1 m2. mapper_setMetadata sample_env 3 (standard SMPTE2094_50) sample_input sample_mapper = Inr (0, m1)
    \<and> mapper_getMetadata sample_env 3 (standard SMPTE2094_50) 64 m1 = Inr (4, Some (V_bytes (Some [1, 2, 3])), m2)"
  using metadata_roundtrip [OF sample_served sample_mapper_memory, of sample_input SMPTE2094_50 "V_bytes (Some [1, 2, 3])" 64]
  by (simp add: sample_input_def GRALLOC_GENERIC_SMPTE2094_50_MAX_SIZE_def get_code_def)

text \<open>C25: the other settable types cannot. After a successful set of the blend mode a get returns the
  dataspace of the buffer; after one of the two HDR types a get writes through an empty optional: it
  aborts in a checked library and otherwise encodes that there is no value.\<close>

theorem metadata_not_read_back:
  assumes s: "gbm_served E live m h g a bd" and mem: "\<not> starved (mem_oom (plat E)) (gbm m)" and t: "t \<in> {BLEND_MODE, SMPTE2086, CTA861_3}"
  shows "\<exists>m1 m2. mapper_setMetadata E h (standard t) inp m = Inr (AIMAPPER_ERROR_NONE (errs E), m1)
    \<and> mapper_getMetadata E h (standard t) len m1 =
       (case t of
          BLEND_MODE \<Rightarrow> Inr (get_code E t (V_blend_mode (dataspace (metadata bd))) len, Some (V_blend_mode (dataspace (metadata bd))), m2)
        | SMPTE2086 \<Rightarrow> if checked_optional E then Inl EmptyOptional else Inr (get_code E t (V_smpte2086 None) len, Some (V_smpte2086 None), m2)
        | _ \<Rightarrow> if checked_optional E then Inl EmptyOptional else Inr (get_code E t (V_cta861_3 None) len, Some (V_cta861_3 None), m2))"
proof -
  obtain m1 bd' where 1: "mapper_setMetadata E h (standard t) inp m = Inr (AIMAPPER_ERROR_NONE (errs E), m1)"
    "gbm_served E live m1 h g a bd'" "written t inp (gbm m1) (metadata bd) (metadata bd')"
    using set_served [OF s mem, of t inp] t by (fastforce simp: set_code_def)
  note meta = served_info [OF 1(2)]
  let ?ans = "case t of BLEND_MODE \<Rightarrow> Inr (Value (V_blend_mode (dataspace (metadata bd))))
    | SMPTE2086 \<Rightarrow> set_through_empty E V_smpte2086 | _ \<Rightarrow> set_through_empty E V_cta861_3"
  have "gbm_metadata_answer E ((gbm m1)\<lparr>ext := e\<rparr>) (buffer_info (plat E) (gbm m1) g a) t = ?ans" for e
    using t 1(3) by (auto simp: gbm_metadata_answer_def meta written_def)
  from served_get [OF 1(2) _ this, of len] t obtain m2 where "mapper_getMetadata E h (standard t) len m1 = (case ?ans of Inl f \<Rightarrow> Inl f
     | Inr (Code c) \<Rightarrow> Inr (if sint c < 0 then AIMAPPER_ERROR_NO_RESOURCES (errs E) else c, None, m2)
     | Inr (Value v) \<Rightarrow> Inr (get_code E t v len, Some v, m2))" by blast
  then show ?thesis using t 1(1)
    by (intro exI [of _ m1] exI [of _ m2]) (auto simp: set_through_empty_def)
qed

theorem metadata_not_read_back_witness:
  "\<exists>m1. mapper_setMetadata sample_env 3 (standard SMPTE2086) sample_input sample_mapper = Inr (0, m1)
    \<and> mapper_getMetadata sample_env 3 (standard SMPTE2086) 64 m1 = Inl EmptyOptional"
  using metadata_not_read_back [OF sample_served sample_mapper_memory, of SMPTE2086 sample_input 64] by simp

text \<open>A get never returns a negative number, with the error numbers of \<open>IMapper.h\<close> not negative: an
  error is reported as a small positive one, which a client reads as a size.\<close>

theorem mapper_get_never_negative:
  assumes "mapper_getMetadata E h mt len m = Inr (r, v, m')"
    and "0 \<le> sint (AIMAPPER_ERROR_BAD_BUFFER (errs E))" and "0 \<le> sint (AIMAPPER_ERROR_NO_RESOURCES (errs E))"
    and "0 \<le> sint (AIMAPPER_ERROR_UNSUPPORTED (errs E))"
  shows "0 \<le> sint r"
proof -
  have fwd: "0 \<le> sint r" if "with_backend E h' (\<lambda>m1. Inr (AIMAPPER_ERROR_NO_RESOURCES (errs E), None, m1)) (\<lambda>B m1.
       and_then (getStandardMetadata B h' t' len m1) (\<lambda>(result, v, m2).
         Inr (if sint result < 0 then AIMAPPER_ERROR_NO_RESOURCES (errs E) else result, v, m2))) m = Inr (r, v, m')" for h' t'
    using that assms(3) by (auto simp: with_backend_def res_simps split: option.splits if_splits)
  show ?thesis using assms
    by (auto simp: mapper_getMetadata_def mapper_getStandardMetadata_def Let_def dest!: fwd split: if_splits)
qed

theorem mapper_get_never_negative_witness:
  "\<exists>r v m'. mapper_getMetadata sample_env 3 (standard BLEND_MODE) 64 sample_mapper = Inr (r, v, m') \<and> 0 \<le> sint r"
proof -
  have "gbm_metadata_answer sample_env ((gbm sample_mapper)\<lparr>ext := e\<rparr>)
      (buffer_info (plat sample_env) (gbm sample_mapper) sample_handle 1) BLEND_MODE
    = Inr (Value (V_blend_mode (dataspace (metadata sample_bd))))" for e
    using served_info [OF sample_served] by (simp add: gbm_metadata_answer_def)
  from served_get [OF sample_served _ this, of 64]
  obtain r v m' where run: "mapper_getMetadata sample_env 3 (standard BLEND_MODE) 64 sample_mapper = Inr (r, v, m')" by auto
  from mapper_get_never_negative [OF run] run show ?thesis by simp
qed

text \<open>A lock of a blob, split into the mapping and what follows it.\<close>

definition sync_for :: "'e mapper_env \<Rightarrow> u64 \<Rightarrow> SyncType" where
  "sync_for E u = (let c = gu (plat E) in
     sync_type (u AND scast (SW_READ_OFTEN c) \<noteq> 0 \<or> u AND scast (SW_READ_RARELY c) \<noteq> 0)
       (u AND scast (SW_WRITE_OFTEN c) \<noteq> 0 \<or> u AND scast (SW_WRITE_RARELY c) \<noteq> 0))"

lemma dma_lock_run:
  assumes "h \<noteq> NULL" "handles (gbm m) h = Some g" "dma_find g m \<noteq> NULL" "dma_infos m (dma_find g m) = Some info"
  shows "dma_lock E h u rect fence out m =
    (case dma_map E (dma_find g m) info m of
       (Inl err, m1) \<Rightarrow> Inr (- err, out, m1)
     | (Inr p, m1) \<Rightarrow> if u AND scast (HW_FB (gu (plat E))) \<noteq> 0 then Inr (- EINVAL, out, m1)
         else if dma_allocators m1 = 0 then Inl NullDeref
         else Inr (0, p, on_ext (CpuSyncStart E (prime_fd g) (sync_for E u)) m1))"
proof -
  obtain r e where "mmap E (bi_size info) (bi_prime_fd info) (ext (gbm m)) = (r, e)" by force
  then show ?thesis using assms by (cases r) (simp_all add: dma_lock_def dma_map_def sync_for_def Let_def)
qed

lemma dma_map_mapped:
  assumes "dma_map E bi info m = (Inr p, m1)" "dma_infos m bi = Some info"
  shows "\<exists>j. dma_infos m1 bi = Some j \<and> bi_mapped j = p" "handles (gbm m1) = handles (gbm m)"
    "importedBufferTable m1 = importedBufferTable m"
  using assms by (auto simp: dma_map_def on_ext_def Let_def split: if_splits prod.splits sum.splits)

text \<open>A blob is mapped once. After a lock that returned an address, a further lock returns the same
  address without mapping again, and changes nothing but the start of a CPU access.\<close>

theorem dma_lock_maps_once:
  assumes first: "dma_lock E h u rect fence out m = Inr (0, p, m')" and p: "p \<noteq> NULL"
    and mm: "\<And>n fd e. fst (mmap E n fd e) \<noteq> Inl 0"
    and g: "handles (gbm m) h = Some g" and u': "u' AND scast (HW_FB (gu (plat E))) = 0"
  shows "dma_lock E h u' rect' fence' out' m' = Inr (0, p, on_ext (CpuSyncStart E (prime_fd g) (sync_for E u')) m')"
proof -
  obtain info where i: "h \<noteq> NULL" "dma_find g m \<noteq> NULL" "dma_infos m (dma_find g m) = Some info"
    using first g by (auto simp: dma_lock_def Let_def res_simps errno_defs split: if_splits)
  note run = dma_lock_run [OF i(1) g i(2,3)]
  obtain x m1 where mp: "dma_map E (dma_find g m) info m = (x, m1)" by force
  have no: "x \<noteq> Inl 0"
    using mp mm [of "bi_size info" "bi_prime_fd info" "ext (gbm m)"]
    by (auto simp: dma_map_def Let_def split: if_splits prod.splits sum.splits)
  then have x: "x = Inr p" "dma_allocators m1 \<noteq> 0" "m' = on_ext (CpuSyncStart E (prime_fd g) (sync_for E u)) m1"
    using first by (auto simp: run mp errno_defs split: sum.splits if_splits)
  note k = dma_map_mapped [OF mp [unfolded x(1)] i(3)]
  obtain j where j: "dma_infos m' (dma_find g m) = Some j" "bi_mapped j = p" using k(1) by (auto simp: x(3) on_ext_def)
  have same: "handles (gbm m') h = Some g" "dma_find g m' = dma_find g m" "dma_allocators m' \<noteq> 0"
    using k(2,3) g x(2) by (simp_all add: x(3) on_ext_def dma_find_def)
  have "dma_map E (dma_find g m) j m' = (Inr p, m')" using j(2) p by (simp add: dma_map_def)
  then show ?thesis using dma_lock_run [OF i(1) same(1)] same i(2) j(1) u' by simp
qed

definition sample_imported :: "addr option list mapper" where
  "sample_imported = sample_blob_mapper\<lparr>importedBufferTable := [5 \<mapsto> 8],
     dma_infos := [8 \<mapsto> new_info sample_env 3 sample_blob 4096]\<rparr>"

lemma sample_lock: "dma_lock sample_env 3 3 rect (- 1) 0 sample_imported =
  Inr (0, 8192, sample_imported\<lparr>dma_infos := [8 \<mapsto> (new_info sample_env 3 sample_blob 4096)\<lparr>bi_mapped := 8192\<rparr>]\<rparr>)"
proof -
  have f: "dma_find sample_blob sample_imported = 8"
    by (simp add: dma_find_def sample_imported_def sample_blob_def sample_handle_def)
  have h: "handles (gbm sample_imported) 3 = Some sample_blob"
    by (simp add: sample_imported_def sample_blob_mapper_def)
  have i: "dma_infos sample_imported 8 = Some (new_info sample_env 3 sample_blob 4096)" "dma_allocators sample_imported = 1"
    by (simp_all add: sample_imported_def sample_blob_mapper_def)
  have u: "(3 :: u64) AND scast (HW_FB (gu (plat sample_env))) = 0"
    by (simp add: aosp_usage_def)
  have e: "on_ext (\<lambda>_. ext (gbm sample_imported)) sample_imported = sample_imported"
    "on_ext (\<lambda>e. e) m = m" for m :: "addr option list mapper"
    by (simp_all add: on_ext_def)
  have "dma_map sample_env 8 (new_info sample_env 3 sample_blob 4096) sample_imported =
    (Inr 8192, sample_imported\<lparr>dma_infos := [8 \<mapsto> (new_info sample_env 3 sample_blob 4096)\<lparr>bi_mapped := 8192\<rparr>]\<rparr>)"
    by (simp add: dma_map_def Let_def e) (simp add: new_info_def sample_imported_def)
  then show ?thesis using dma_lock_run [OF _ h, of "new_info sample_env 3 sample_blob 4096" sample_env 3 rect "- 1" 0] f i u
    by (simp add: e)
qed

definition sample_rect :: Rect where
  "sample_rect = \<lparr>r_left = 0, r_top = 0, r_right = 4096, r_bottom = 1\<rparr>"

theorem dma_lock_maps_once_witness:
  "\<exists>m'. dma_lock sample_env 3 3 sample_rect (- 1) 0 sample_imported = Inr (0, 8192, m')
    \<and> dma_lock sample_env 3 48 sample_rect (- 1) 0 m' = Inr (0, 8192, m')"
proof -
  have h: "handles (gbm sample_imported) 3 = Some sample_blob"
    by (simp add: sample_imported_def sample_blob_mapper_def)
  have u: "(48 :: u64) AND scast (HW_FB (gu (plat sample_env))) = 0" by (simp add: aosp_usage_def)
  have e: "on_ext (\<lambda>e. e) m = m" for m :: "addr option list mapper" by (simp add: on_ext_def)
  from dma_lock_maps_once [OF sample_lock _ _ h u] show ?thesis
    using sample_lock [of sample_rect] by (simp add: e)
qed

end
