(* ===== verification/Gbm_Drain.thy ===== *)
theory Gbm_Drain
  imports Gbm_Holds Gbm_Sample
begin

text \<open>
  Sequences of requests. A client can always give everything back: in a world whose library is up,
  releasing the handles one after the other runs through and empties the buffer table, in whatever
  order, with however many handles of a buffer. A client that repeats an allocation libgbm refuses
  loses a handle each time.
\<close>

declare neq0_conv [iff del]

fun free_all :: "'e platform \<Rightarrow> addr list \<Rightarrow> 'e world \<Rightarrow> 'e world res" where
  "free_all P [] w = Inr w"
| "free_all P (h # hs) w =
    and_then (gralloc_gbm_android_buffer_free P h w) (\<lambda>(r, w1). if r \<noteq> 0 then Inr w1 else free_all P hs w1)"

text \<open>A release runs through, whether the buffer is there or not.\<close>

lemma free_runs:
  assumes env: "platform_ok P live" and ok: "holds P live w M" and rdy: "ready_world w"
    and h: "handles w h = Some g" "h \<noteq> NULL"
  shows "\<exists>w'. gralloc_gbm_android_buffer_free P h w = Inr (0, w') \<and> ready_world w'"
proof -
  obtain xs where xs: "gbm_ok P live w xs" using ok by (auto simp: holds_def)
  note w = gbm_ok_world [OF xs]
  have law: "gbm_laws (api P) live" using env by (simp add: platform_ok_def)
  from w show ?thesis
  proof (cases rule: lookup_cases [where g = g])
    case unknown
    then show ?thesis using h rdy by (auto simp: gralloc_gbm_android_buffer_free_def)
  next
    case (found a)
    then obtain v where "gralloc_gbm_android_buffer_free P h w = Inr (0, v)" "released P live w xs a v"
      using free_ok [OF law w ready_world_is_ready [OF rdy] h found] by blast
    then show ?thesis using ready_same [OF rdy] by (auto simp: released_def)
  qed
qed

lemma free_all_holds:
  assumes env: "platform_ok P live"
  shows "holds P live w M \<Longrightarrow> ready_world w \<Longrightarrow> (\<And>h. h \<in> set hs \<Longrightarrow> h \<noteq> NULL \<and> handles w h = Some (gs h))
    \<Longrightarrow> \<exists>w'. free_all P hs w = Inr w' \<and> ready_world w' \<and> handles w' = handles w
      \<and> holds P live w' (M - mset (map (\<lambda>h. prime_fd (gs h)) hs))"
proof (induction hs arbitrary: w M)
  case (Cons h hs)
  have h: "handles w h = Some (gs h)" "h \<noteq> NULL" using Cons.prems(3) [of h] by simp_all
  obtain w1 where w1: "gralloc_gbm_android_buffer_free P h w = Inr (0, w1)" "ready_world w1"
    using free_runs [OF env Cons.prems(1,2) h] by blast
  note f = free_removes [OF env Cons.prems(1) h w1(1)]
  have "\<exists>w'. free_all P hs w1 = Inr w' \<and> ready_world w' \<and> handles w' = handles w1
      \<and> holds P live w' (M - {#prime_fd (gs h)#} - mset (map (\<lambda>h. prime_fd (gs h)) hs))"
    by (rule Cons.IH [OF f(3) w1(2)]) (use Cons.prems(3) f(1) in simp)
  then show ?case using w1(1) f(1) by (simp add: diff_diff_add_mset)
qed simp

text \<open>C18: in every world whose library is up, a client that holds a handle of every buffer (as often as
  there are buffers of the descriptor) can release them all: each release returns 0 and afterwards the
  table is empty.\<close>

theorem release_all_empties_table:
  assumes "platform_ok P live" and "holds P live w M" and "ready_world w"
    and "\<And>h. h \<in> set hs \<Longrightarrow> h \<noteq> NULL \<and> handles w h = Some (gs h)"
    and "M \<subseteq># mset (map (\<lambda>h. prime_fd (gs h)) hs)"
  shows "\<exists>w'. free_all P hs w = Inr w' \<and> gbm_ok P live w' [] \<and> handles w' = handles w"
proof -
  have "M - mset (map (\<lambda>h. prime_fd (gs h)) hs) = {#}" using assms(5) by (simp add: Diff_eq_empty_iff_mset)
  with free_all_holds [OF assms(1-3), of hs gs] assms(4) show ?thesis by (auto simp: holds_empty)
qed

theorem release_all_empties_table_witness:
  "\<exists>w'. free_all sample_platform [3] sample_world = Inr w' \<and> gbm_ok sample_platform sample_live w' []
    \<and> handles w' = handles sample_world"
proof (rule release_all_empties_table [OF sample_platform_ok, where M = "{#5#}" and gs = "\<lambda>_. sample_handle"])
  show "holds sample_platform sample_live sample_world {#5#}"
    using gbm_ok_ready [OF sample_world_ok sample_ready] sample_abs by (auto simp: holds_def keys_def)
qed (use sample_world_values sample_ready in auto)

section \<open>What a refused allocation leaves behind\<close>

text \<open>A client that tries again, with the code and the handle and stride each attempt gives it.\<close>

fun try_new ::
  "'e platform \<Rightarrow> allocator_desc_t \<Rightarrow> nat \<Rightarrow> 'e world \<Rightarrow> ((i32 \<times> (addr \<times> u32) option) list \<times> 'e world) res" where
  "try_new P ds 0 w = Inr ([], w)"
| "try_new P ds (Suc n) w = and_then (gralloc_gbm_android_buffer_new P ds w) (\<lambda>(ret, out, w1).
    and_then (try_new P ds n w1) (\<lambda>(answers, w2). Inr ((ret, out) # answers, w2)))"

lemma no_change_trans: "no_change P live w xs w' \<Longrightarrow> no_change P live w' xs w'' \<Longrightarrow> no_change P live w xs w''"
  unfolding no_change_def using later_trans by metis

lemma handles_finite: "world_ok P live w xs \<Longrightarrow> finite (dom (handles w))"
  using world_okD(2) [of P live w xs] finite_subset [of _ "{1..brk w}"] by (simp add: heaps_ok_def)

text \<open>One refusal by libgbm: the handle made for the buffer stays.\<close>

lemma refused_new:
  assumes law: "gbm_laws (api P) live" and ok: "world_ok P live w xs" and rdy: "ready_world w"
    and fl: "fl = gralloc_gbm_calculate_gbm_flags P (ucast (ad_usage ds)) (color_fmt_a2g (hal P) (ad_format ds))"
    and sz: "new_buffer_size P ds fl = Inr (wd, ht)"
    and handle: "\<And>e. fst (native_handle_create (api P) e) \<noteq> None"
    and refused: "\<And>dev e. fst (gbm_bo_create (api P) dev wd ht (color_fmt_a2g (hal P) (ad_format ds)) fl e) = NULL"
  obtains h g w' where "gralloc_gbm_android_buffer_new P ds w = Inr (- EINVAL, None, w')"
    "h \<notin> dom (handles w)" "handles w' = (handles w)(h \<mapsto> g)" "no_change P live w xs w'"
proof -
  let ?fmt = "color_fmt_a2g (hal P) (ad_format ds)"
  obtain d where d: "deref_driver P w = Inr d" using ready_driver [OF ready_world_is_ready [OF rdy]] by metis
  obtain handle w1 where hc: "gralloc_handle_create P wd ht (ad_format ds) (ucast (ad_usage ds)) w = (handle, w1)" by force
  note h = handle_create_ok [OF ok law hc]
  have h0: "handle \<noteq> NULL"
    using hc handle [of "ext w"] by (auto simp: gralloc_handle_create_def Let_def split: option.splits prod.splits)
  have d1: "deref_driver P w1 = Inr d" using d growsD(10) [OF h(1)] by (simp add: deref_driver_cong [of w1 w])
  obtain e where c: "gbm_bo_create (api P) (gbm_dev d) wd ht ?fmt fl (ext w1) = (NULL, e)"
    using refused [of "gbm_dev d" "ext w1"] by (cases "gbm_bo_create (api P) (gbm_dev d) wd ht ?fmt fl (ext w1)") simp
  have "new_object (api P) live (ext w1) NULL e" using law c by (simp add: gbm_laws_def)
  from grows_object [OF h(1) this] have "no_change P live w xs (w1\<lparr>ext := e\<rparr>)" by (rule no_change_grows [OF ok])
  moreover have "gralloc_gbm_android_buffer_new P ds w = Inr (- EINVAL, None, w1\<lparr>ext := e\<rparr>)"
    using rdy fl [symmetric] sz hc h0 d1 c a2g_not_0 by (simp add: gralloc_gbm_android_buffer_new_def Let_def)
  moreover have "handle \<notin> dom (handles w)" using h(4) [OF h0] world_okD(2) [OF ok] by (auto simp: heaps_ok_def)
  ultimately show ?thesis using that [of "w1\<lparr>ext := e\<rparr>" handle] h(3) [OF h0] by auto
qed

text \<open>C32: an allocation that libgbm refuses returns \<open>-EINVAL\<close> and no handle, and leaves the buffers as they
  were, but the native handle made for it stays: after \<open>n\<close> attempts, each answered so, there are exactly
  \<open>n\<close> handles beside the old ones, and the caller has been given none of them.\<close>

theorem refused_allocations_leak_handles:
  assumes "gbm_laws (api P) live" and "world_ok P live w xs" and "ready_world w"
    and "fl = gralloc_gbm_calculate_gbm_flags P (ucast (ad_usage ds)) (color_fmt_a2g (hal P) (ad_format ds))"
    and "new_buffer_size P ds fl = Inr (wd, ht)"
    and "\<And>e. fst (native_handle_create (api P) e) \<noteq> None"
    and "\<And>dev e. fst (gbm_bo_create (api P) dev wd ht (color_fmt_a2g (hal P) (ad_format ds)) fl e) = NULL"
  shows "\<exists>w'. try_new P ds n w = Inr (replicate n (- EINVAL, None), w') \<and> no_change P live w xs w'
    \<and> dom (handles w) \<subseteq> dom (handles w') \<and> card (dom (handles w') - dom (handles w)) = n"
  using assms(2,3)
proof (induction n arbitrary: w)
  case 0
  then show ?case using no_change_refl by auto
next
  case (Suc n)
  obtain h g w1 where 1: "gralloc_gbm_android_buffer_new P ds w = Inr (- EINVAL, None, w1)"
    "h \<notin> dom (handles w)" "handles w1 = (handles w)(h \<mapsto> g)" "no_change P live w xs w1"
    by (rule refused_new [OF assms(1) Suc.prems assms(4-7)])
  have ok: "world_ok P live w1 xs" "ready_world w1"
    using 1(4) ready_same [OF Suc.prems(2), of w1] by (simp_all add: no_change_def)
  from Suc.IH [OF this] obtain w' where w': "try_new P ds n w1 = Inr (replicate n (- EINVAL, None), w')" "no_change P live w1 xs w'"
    "dom (handles w1) \<subseteq> dom (handles w')" "card (dom (handles w') - dom (handles w1)) = n" by blast
  have ok': "world_ok P live w' xs" using w'(2) by (simp add: no_change_def)
  have h: "h \<in> dom (handles w1)" "dom (handles w) \<subseteq> dom (handles w1)" using 1(3) by auto
  have "dom (handles w') - dom (handles w) = insert h (dom (handles w') - dom (handles w1))"
    using 1(2,3) w'(3) by auto
  then have "card (dom (handles w') - dom (handles w)) = Suc n"
    using h(1) w'(4) handles_finite [OF ok'] by simp
  then show ?case using 1(1) w' h(2) no_change_trans [OF 1(4) w'(2)] by auto
qed

text \<open>A device without memory for buffers.\<close>

definition refusing_platform :: "addr option list platform" where
  "refusing_platform = sample_platform\<lparr>api := sample_api\<lparr>gbm_bo_create := \<lambda>_ _ _ _ _ e. (NULL, e)\<rparr>\<rparr>"

lemma gbm_laws_refusing:
  assumes "gbm_laws A live"
  shows "gbm_laws (A\<lparr>gbm_bo_create := \<lambda>_ _ _ _ _ e. (NULL, e)\<rparr>) live" (is "gbm_laws ?A live")
proof -
  have same: "new_object ?A = new_object A" "same_objects ?A = same_objects A"
    by (simp_all add: fun_eq_iff new_object_def same_objects_def)
  have sel: "gbm_bo_create ?A = (\<lambda>_ _ _ _ _ e. (NULL, e))" "gbm_bo_import ?A = gbm_bo_import A"
    "gbm_bo_destroy ?A = gbm_bo_destroy A" "gbm_bo_map ?A = gbm_bo_map A" "gbm_bo_unmap ?A = gbm_bo_unmap A"
    "gbm_bo_get_user_data ?A = gbm_bo_get_user_data A" "gbm_bo_set_user_data ?A = gbm_bo_set_user_data A"
    "gbm_bo_get_fd ?A = gbm_bo_get_fd A" "native_handle_create ?A = native_handle_create A" by simp_all
  have new: "new_object A live e bo e'" if "(NULL, e) = (bo, e')" for e bo e'
    using that by (simp add: new_object_def same_objects_def)
  show ?thesis using assms new unfolding gbm_laws_def same sel by (elim conjE) (intro conjI; assumption | blast)
qed

lemma refusing_laws: "gbm_laws (api refusing_platform) sample_live"
  using gbm_laws_refusing [OF sample_laws] by (simp add: refusing_platform_def)

lemma refusing_booted: "gralloc_gbm_init refusing_platform (blank_world []) = Inr (0, sample_booted)"
  by (simp add: gralloc_gbm_init_def is_gralloc_gbm_ready_def blank_world_def malloc_def sample_oom_def
      sizeof_driver_def sample_api_def Let_def sample_booted_def zero_driver_def sample_driver_def refusing_platform_def)

lemma refusing_flags: "gralloc_gbm_calculate_gbm_flags refusing_platform 0x33 f = 16"
  by (simp add: gralloc_gbm_calculate_gbm_flags_def aosp_usage_def refusing_platform_def sample_platform_def Let_def gbm_flags)

theorem refused_allocations_leak_handles_witness:
  "\<exists>w'. try_new refusing_platform sample_desc 3 sample_booted = Inr (replicate 3 (- EINVAL, None), w') \<and> card (dom (handles w')) = 3"
proof -
  note s = boot_service [OF refusing_booted, of sample_live]
  have sz: "new_buffer_size refusing_platform sample_desc (gralloc_gbm_calculate_gbm_flags refusing_platform
      (ucast (ad_usage sample_desc)) (color_fmt_a2g (hal refusing_platform) (ad_format sample_desc))) = Inr (640, 480)"
    using refusing_flags by (simp add: sample_desc_def new_buffer_size_def gbm_flags aosp_hal_def refusing_platform_def)
  have "world_ok refusing_platform sample_live sample_booted []" "ready_world sample_booted"
    using s by (simp_all add: service_ok_def)
  from refused_allocations_leak_handles [OF refusing_laws this refl sz, of 3] show ?thesis
    by (auto simp: refusing_platform_def sample_api_def sample_booted_def blank_world_def)
qed

end
