(* ===== verification/Allocator_World.thy ===== *)
theory Allocator_World
  imports Gralloc_Gbm
begin

text \<open>
  The state of the allocator service, the interface of its back ends (\<^verbatim>\<open>allocator/Allocator.h\<close>), the
  descriptor conversion they share, and the code the service calls that the repository does not
  contain: the DMA-BUF allocator library, libcutils' native handles, the duplication of a handle for
  a binder reply and the decoder of encoded descriptors. These are fields of the record \<open>alloc_env\<close>.
\<close>

section \<open>Data\<close>

text \<open>\<open>additionalOptions\<close> is represented by the names of the options.\<close>

record BufferDescriptorInfo =
  bd_name :: string
  bd_width :: i32
  bd_height :: i32
  bd_layerCount :: i32
  bd_format :: i32
  bd_usage :: i64
  bd_reservedSize :: i64
  bd_options :: "string list"

text \<open>The HIDL descriptor: the members the code reads.\<close>

record BufferDescriptorInfoV4 =
  v4_width :: u32
  v4_height :: u32
  v4_layerCount :: u32
  v4_format :: i32
  v4_usage :: u64
  v4_reservedSize :: u64

datatype AllocationError = BAD_DESCRIPTOR | NO_RESOURCES | UNSUPPORTED

text \<open>A binder status: \<open>ok()\<close> or the service specific error \<open>ToBinderStatus\<close> makes.\<close>

datatype status = Ok | ToBinderStatus AllocationError

text \<open>The duplicated handles (None for an entry that was skipped) and the stride.\<close>

record AllocationResult =
  res_buffers :: "gralloc_handle_t option list"
  res_stride :: i32

datatype AllocatorBackendType = ALLOCATOR_GRALLOC_GBM | ALLOCATOR_GRALLOC_DMABUF | ALLOCATOR_GRALLOC_UNKNOWN

section \<open>State\<close>

text \<open>
  \<open>ag\<close> holds the heaps, the GBM library's statics and the state of the libraries; \<open>allocators\<close>
  counts the \<open>BufferAllocator\<close> objects created (the static pointer to the last is NULL when there is
  none). The back ends have no state of their own, so the shared pointer \<open>mBackend\<close> is the kind of
  back end it refers to.
\<close>

record 'e allocator =
  ag :: "'e world"
  allocators :: nat
  aBackend :: "AllocatorBackendType option"

record 'e alloc_env =
  aplat :: "'e platform"
  heap_list_empty :: "'e \<Rightarrow> bool"
  AllocSystem :: "bool \<Rightarrow> u64 \<Rightarrow> 'e \<Rightarrow> i32 \<times> 'e"
  dupToAidl :: "gralloc_handle_t \<Rightarrow> 'e \<Rightarrow> gralloc_handle_t \<times> 'e"
  handle_close :: "gralloc_handle_t \<Rightarrow> 'e \<Rightarrow> 'e"
  decodeBufferDescriptorInfo :: "u8 list \<Rightarrow> i32 + BufferDescriptorInfoV4"

section \<open>The interface of a back end\<close>

text \<open>\<open>AllocatorBackendImplV2\<close>. An out parameter is a value passed in and out.\<close>

record 'e alloc_backend =
  isReady :: "'e allocator \<Rightarrow> bool res"
  init :: "'e allocator \<Rightarrow> (i32 \<times> 'e allocator) res"
  allocate2 :: "BufferDescriptorInfo \<Rightarrow> i32 \<Rightarrow> AllocationResult \<Rightarrow> 'e allocator \<Rightarrow> (status \<times> AllocationResult \<times> 'e allocator) res"
  isSupported :: "BufferDescriptorInfo \<Rightarrow> bool \<Rightarrow> 'e allocator \<Rightarrow> (status \<times> bool \<times> 'e allocator) res"

text \<open>A function of the GBM library, run on the state of the service.\<close>

definition on_ag :: "('e world \<Rightarrow> ('a \<times> 'e world) res) \<Rightarrow> 'e allocator \<Rightarrow> ('a \<times> 'e allocator) res" where
  "on_ag f s = and_then (f (ag s)) (\<lambda>(a, w). Inr (a, s\<lparr>ag := w\<rparr>))"

section \<open>The descriptor\<close>

definition zero_desc :: allocator_desc_t where
  "zero_desc = \<lparr>ad_name = None, ad_width = 0, ad_height = 0, ad_layer_count = 0, ad_format = 0, ad_usage = 0, ad_reserved_size = 0\<rparr>"

text \<open>
  \<open>generateGrallocGenericDesc\<close>, with None for a null out pointer. The 64-bit usage and size are cut
  to 32 bits; the block of the name is never freed and its allocation not checked.
\<close>

definition generateGrallocGenericDesc ::
  "'e platform \<Rightarrow> BufferDescriptorInfo \<Rightarrow> allocator_desc_t option \<Rightarrow> 'e world \<Rightarrow> (i32 \<times> allocator_desc_t option \<times> 'e world) res" where
  "generateGrallocGenericDesc P info outResult w =
    (case outResult of
       None \<Rightarrow> Inr (- EINVAL, None, w)
     | Some d \<Rightarrow>
         if bd_width info = 0 \<or> bd_height info = 0 then Inr (- EINVAL, Some d, w)
         else
           let d1 = d\<lparr>ad_width := bd_width info, ad_height := bd_height info\<rparr> in
           if 1 < sint (bd_layerCount info) then Inr (- EINVAL, Some d1, w)
           else
             let d2 = d1\<lparr>ad_format := bd_format info, ad_usage := ucast (ucast (bd_usage info) :: u32),
                         ad_reserved_size := ucast (ucast (bd_reservedSize info) :: u32),
                         ad_layer_count := bd_layerCount info\<rparr> in
             case malloc (mem_oom P) (Suc (length (bd_name info))) w of (p, w1) \<Rightarrow>
             if p = NULL then Inl NullDeref
             else Inr (0, Some (d2\<lparr>ad_name := Some (bd_name info)\<rparr>), w1))"

section \<open>Handles\<close>

text \<open>\<open>native_handle_close\<close> and \<open>native_handle_delete\<close>.\<close>

definition drop_handle :: "'e alloc_env \<Rightarrow> addr \<Rightarrow> 'e world \<Rightarrow> 'e world res" where
  "drop_handle E h w =
    and_then (deref (handles w) h) (\<lambda>g.
      Inr (w\<lparr>handles := (handles w)(h := None), ext := handle_close E g (ext w)\<rparr>))"

definition dup_handle :: "'e alloc_env \<Rightarrow> addr \<Rightarrow> 'e world \<Rightarrow> (gralloc_handle_t \<times> 'e world) res" where
  "dup_handle E h w =
    and_then (deref (handles w) h) (\<lambda>g.
      case dupToAidl E g (ext w) of (c, e) \<Rightarrow> Inr (c, w\<lparr>ext := e\<rparr>))"

end
