(* ===== verification/Allocator_Backends.thy ===== *)
theory Allocator_Backends
  imports Allocator_World
begin

text \<open>
  The two back ends of the allocator service: \<^verbatim>\<open>backend/AllocatorGrallocGbm.cpp\<close> over the GBM library and
  \<^verbatim>\<open>backend/AllocatorDmaBuf.cpp\<close> over the DMA-BUF allocator. A negative count makes \<open>resize\<close> throw.
\<close>

section \<open>The GBM back end\<close>

definition agbm_isReady :: "'e alloc_env \<Rightarrow> 'e allocator \<Rightarrow> bool res" where
  "agbm_isReady E s = is_gralloc_gbm_ready (aplat E) (ag s)"

definition agbm_init :: "'e alloc_env \<Rightarrow> 'e allocator \<Rightarrow> (i32 \<times> 'e allocator) res" where
  "agbm_init E = on_ag (gralloc_gbm_init (aplat E))"

text \<open>Both loops that give buffers back: release, close and delete; the first also duplicates.\<close>

fun release_buffers :: "'e alloc_env \<Rightarrow> addr list \<Rightarrow> 'e world \<Rightarrow> 'e world res" where
  "release_buffers E [] w = Inr w"
| "release_buffers E (h # hs) w =
    (if h = NULL then release_buffers E hs w
     else and_then (gralloc_gbm_android_buffer_free (aplat E) h w) (\<lambda>(_, w1).
       and_then (drop_handle E h w1) (\<lambda>w2. release_buffers E hs w2)))"

fun deliver_buffers :: "'e alloc_env \<Rightarrow> addr list \<Rightarrow> 'e world \<Rightarrow> (gralloc_handle_t option list \<times> 'e world) res" where
  "deliver_buffers E [] w = Inr ([], w)"
| "deliver_buffers E (h # hs) w =
    (if h = NULL then and_then (deliver_buffers E hs w) (\<lambda>(cs, w'). Inr (None # cs, w'))
     else and_then (dup_handle E h w) (\<lambda>(c, w0).
       and_then (gralloc_gbm_android_buffer_free (aplat E) h w0) (\<lambda>(_, w1).
       and_then (drop_handle E h w1) (\<lambda>w2.
       and_then (deliver_buffers E hs w2) (\<lambda>(cs, w'). Inr (Some c # cs, w'))))))"

text \<open>
  The loop that allocates, with \<open>n\<close> rounds left, the handles so far and the last stride. None
  stands for the error return, after the buffers so far were released.
\<close>

fun new_buffers ::
  "'e alloc_env \<Rightarrow> allocator_desc_t \<Rightarrow> nat \<Rightarrow> addr list \<Rightarrow> i32 \<Rightarrow> 'e world \<Rightarrow> ((addr list \<times> i32) option \<times> 'e world) res" where
  "new_buffers E ds 0 hs stride w = Inr (Some (hs, stride), w)"
| "new_buffers E ds (Suc n) hs stride w =
    and_then (gralloc_gbm_android_buffer_new (aplat E) ds w) (\<lambda>(ret, out, w1).
    case (ret = 0, out) of
      (True, Some (h, gbm_stride)) \<Rightarrow>
        if h = NULL then and_then (release_buffers E hs w1) (\<lambda>w2. Inr (None, w2))
        else and_then (gralloc_gbm_calculate_android_pixel_stride (aplat E) (ad_format ds) gbm_stride) (\<lambda>st.
          new_buffers E ds n (hs @ [h]) st w1)
    | _ \<Rightarrow> and_then (release_buffers E hs w1) (\<lambda>w2. Inr (None, w2)))"

definition grallocGbmAllocate ::
  "'e alloc_env \<Rightarrow> allocator_desc_t \<Rightarrow> i32 \<Rightarrow> AllocationResult \<Rightarrow> 'e world \<Rightarrow> (status \<times> AllocationResult \<times> 'e world) res" where
  "grallocGbmAllocate E ds cnt out w =
    and_then (gralloc_gbm_is_allocator_desc_supported (aplat E) (Some ds) w) (\<lambda>ok.
    if \<not> ok then Inr (ToBinderStatus UNSUPPORTED, out, w)
    else if sint cnt < 0 then Inl Thrown
    else and_then (new_buffers E ds (nat (sint cnt)) [] 0 w) (\<lambda>(r, w1).
      case r of None \<Rightarrow> Inr (ToBinderStatus UNSUPPORTED, out, w1)
      | Some (hs, stride) \<Rightarrow>
          and_then (deliver_buffers E hs w1) (\<lambda>(cs, w2).
            Inr (Ok, \<lparr>res_buffers = cs, res_stride = stride\<rparr>, w2))))"

definition agbm_allocate2 ::
  "'e alloc_env \<Rightarrow> BufferDescriptorInfo \<Rightarrow> i32 \<Rightarrow> AllocationResult \<Rightarrow> 'e allocator \<Rightarrow> (status \<times> AllocationResult \<times> 'e allocator) res" where
  "agbm_allocate2 E descriptor cnt out s =
    and_then (generateGrallocGenericDesc (aplat E) descriptor (Some zero_desc) (ag s)) (\<lambda>(ret, d, w).
    case (ret = 0, d) of
      (True, Some ds) \<Rightarrow> and_then (grallocGbmAllocate E ds cnt out w) (\<lambda>(st, out', w'). Inr (st, out', s\<lparr>ag := w'\<rparr>))
    | _ \<Rightarrow> Inr (ToBinderStatus UNSUPPORTED, out, s\<lparr>ag := w\<rparr>))"

definition agbm_isSupported ::
  "'e alloc_env \<Rightarrow> BufferDescriptorInfo \<Rightarrow> bool \<Rightarrow> 'e allocator \<Rightarrow> (status \<times> bool \<times> 'e allocator) res" where
  "agbm_isSupported E descriptor out s =
    (if bd_format descriptor = HAL_PIXEL_FORMAT_BLOB (hal (aplat E)) then Inr (Ok, False, s)
     else and_then (generateGrallocGenericDesc (aplat E) descriptor (Some zero_desc) (ag s)) (\<lambda>(ret, d, w).
       if ret \<noteq> 0 then Inr (ToBinderStatus UNSUPPORTED, out, s\<lparr>ag := w\<rparr>)
       else and_then (gralloc_gbm_is_allocator_desc_supported (aplat E) d w) (\<lambda>b. Inr (Ok, b, s\<lparr>ag := w\<rparr>))))"

definition AllocatorBackendGrallocGbm :: "'e alloc_env \<Rightarrow> 'e alloc_backend" where
  "AllocatorBackendGrallocGbm E = \<lparr>isReady = agbm_isReady E, init = agbm_init E,
     allocate2 = agbm_allocate2 E, isSupported = agbm_isSupported E\<rparr>"

section \<open>The DMA-BUF back end\<close>

definition admabuf_isReady :: "'e alloc_env \<Rightarrow> 'e allocator \<Rightarrow> bool res" where
  "admabuf_isReady E s =
    Inr (if allocators s = 0 then False else if heap_list_empty E (ext (ag s)) then False else True)"

definition admabuf_init :: "'e allocator \<Rightarrow> (i32 \<times> 'e allocator) res" where
  "admabuf_init s = Inr (0, s\<lparr>allocators := Suc (allocators s)\<rparr>)"

text \<open>
  One round: a handle, whose creation is not checked, and a buffer. None stands for the error
  return; the handles made so far, this one included, are then lost.
\<close>

fun dma_buffers ::
  "'e alloc_env \<Rightarrow> BufferDescriptorInfo \<Rightarrow> u64 \<Rightarrow> nat \<Rightarrow> addr list \<Rightarrow> 'e world \<Rightarrow> (addr list option \<times> 'e world) res" where
  "dma_buffers E d sz 0 hs w = Inr (Some hs, w)"
| "dma_buffers E d sz (Suc n) hs w =
    (case gralloc_handle_create (aplat E) (bd_width d) (bd_height d) (bd_format d) (ucast (bd_usage d)) w of (h, w1) \<Rightarrow>
     case AllocSystem E True sz (ext w1) of (fd, e) \<Rightarrow>
     let w2 = w1\<lparr>ext := e\<rparr> in
     if sint fd \<le> 0 then Inr (None, w2)
     else and_then (deref (handles w2) h) (\<lambda>g.
       dma_buffers E d sz n (hs @ [h])
         (w2\<lparr>handles := (handles w2)(h \<mapsto> g\<lparr>prime_fd := fd, gh_stride := sdiv32 (bd_width d) 8\<rparr>)\<rparr>)))"

fun dma_deliver :: "'e alloc_env \<Rightarrow> addr list \<Rightarrow> 'e world \<Rightarrow> (gralloc_handle_t option list \<times> 'e world) res" where
  "dma_deliver E [] w = Inr ([], w)"
| "dma_deliver E (h # hs) w =
    (if h = NULL then and_then (dma_deliver E hs w) (\<lambda>(cs, w'). Inr (None # cs, w'))
     else and_then (dup_handle E h w) (\<lambda>(c, w1).
       and_then (drop_handle E h w1) (\<lambda>w2.
       and_then (dma_deliver E hs w2) (\<lambda>(cs, w'). Inr (Some c # cs, w')))))"

definition admabuf_allocate2 ::
  "'e alloc_env \<Rightarrow> BufferDescriptorInfo \<Rightarrow> i32 \<Rightarrow> AllocationResult \<Rightarrow> 'e allocator \<Rightarrow> (status \<times> AllocationResult \<times> 'e allocator) res" where
  "admabuf_allocate2 E d cnt out s =
    and_then (int_result (sint (bd_width d) * sint (bd_height d))) (\<lambda>sz.
    if sint cnt < 0 then Inl Thrown
    else if 0 < sint cnt \<and> allocators s = 0 then Inl NullDeref
    else and_then (dma_buffers E d (scast sz) (nat (sint cnt)) [] (ag s)) (\<lambda>(r, w1).
      case r of None \<Rightarrow> Inr (ToBinderStatus NO_RESOURCES, out, s\<lparr>ag := w1\<rparr>)
      | Some hs \<Rightarrow> and_then (dma_deliver E hs w1) (\<lambda>(cs, w2).
          Inr (Ok, \<lparr>res_buffers = cs, res_stride = sdiv32 (bd_width d) 8\<rparr>, s\<lparr>ag := w2\<rparr>))))"

definition admabuf_isSupported ::
  "'e alloc_env \<Rightarrow> BufferDescriptorInfo \<Rightarrow> bool \<Rightarrow> 'e allocator \<Rightarrow> (status \<times> bool \<times> 'e allocator) res" where
  "admabuf_isSupported E d out s =
    Inr (Ok, if bd_format d = HAL_PIXEL_FORMAT_BLOB (hal (aplat E)) \<and> bd_height d = 1 then True else False, s)"

definition AllocatorBackendDmaBuf :: "'e alloc_env \<Rightarrow> 'e alloc_backend" where
  "AllocatorBackendDmaBuf E = \<lparr>isReady = admabuf_isReady E, init = admabuf_init,
     allocate2 = admabuf_allocate2 E, isSupported = admabuf_isSupported E\<rparr>"

end
