(* ===== verification/Allocator.thy ===== *)
theory Allocator
  imports Allocator_Backends
begin

text \<open>
  The allocator service, \<^verbatim>\<open>allocator/Allocator.cpp\<close>: each call selects a back end for its descriptor,
  brings it up and forwards. The result of the selection is not looked at: when no back end supports
  the descriptor, the one selected last serves it.
\<close>

definition aselectBackendByType :: "'e alloc_env \<Rightarrow> AllocatorBackendType \<Rightarrow> 'e alloc_backend" where
  "aselectBackendByType E t =
    (case t of ALLOCATOR_GRALLOC_DMABUF \<Rightarrow> AllocatorBackendDmaBuf E | _ \<Rightarrow> AllocatorBackendGrallocGbm E)"

definition aselectBackend :: "'e alloc_env \<Rightarrow> BufferDescriptorInfo \<Rightarrow> 'e allocator \<Rightarrow> (i32 \<times> 'e allocator) res" where
  "aselectBackend E d s =
    and_then (isSupported (aselectBackendByType E ALLOCATOR_GRALLOC_GBM) d False s) (\<lambda>(_, supported, s1).
    if supported then Inr (0, s1\<lparr>aBackend := Some ALLOCATOR_GRALLOC_GBM\<rparr>)
    else and_then (isSupported (aselectBackendByType E ALLOCATOR_GRALLOC_DMABUF) d supported s1) (\<lambda>(_, supported', s2).
      if supported' then Inr (0, s2\<lparr>aBackend := Some ALLOCATOR_GRALLOC_DMABUF\<rparr>)
      else Inr (- EINVAL, s2)))"

text \<open>\<open>CHECK_BACKEND\<close>: None stands for the return of \<open>NO_RESOURCES\<close>.\<close>

definition ACHECK_BACKEND :: "'e alloc_env \<Rightarrow> 'e allocator \<Rightarrow> ('e alloc_backend option \<times> 'e allocator) res" where
  "ACHECK_BACKEND E s =
    (case aBackend s of
       None \<Rightarrow> Inr (None, s)
     | Some t \<Rightarrow>
         let B = aselectBackendByType E t in
         and_then (isReady B s) (\<lambda>r.
         if r then Inr (Some B, s)
         else and_then (init B s) (\<lambda>(ret, s1).
           if ret \<noteq> 0 then Inr (None, s1) else Inr (Some B, s1))))"

definition allocator_init :: "'e alloc_env \<Rightarrow> 'e allocator \<Rightarrow> (i32 \<times> 'e allocator) res" where
  "allocator_init E s =
    and_then (init (aselectBackendByType E ALLOCATOR_GRALLOC_DMABUF) s) (\<lambda>(_, s1).
      init (aselectBackendByType E ALLOCATOR_GRALLOC_GBM) s1)"

definition allocator_allocate2 ::
  "'e alloc_env \<Rightarrow> BufferDescriptorInfo \<Rightarrow> i32 \<Rightarrow> AllocationResult \<Rightarrow> 'e allocator \<Rightarrow> (status \<times> AllocationResult \<times> 'e allocator) res" where
  "allocator_allocate2 E d cnt out s =
    and_then (aselectBackend E d s) (\<lambda>(_, s1).
    and_then (ACHECK_BACKEND E s1) (\<lambda>(b, s2).
    case b of None \<Rightarrow> Inr (ToBinderStatus NO_RESOURCES, out, s2)
    | Some B \<Rightarrow> allocate2 B d cnt out s2))"

text \<open>The descriptor of an encoded request, and its members not set are the defaults.\<close>

definition from_v4 :: "BufferDescriptorInfoV4 \<Rightarrow> BufferDescriptorInfo" where
  "from_v4 d = \<lparr>bd_name = ''auto_generated'', bd_width = v4_width d, bd_height = v4_height d,
     bd_layerCount = v4_layerCount d, bd_format = v4_format d, bd_usage = v4_usage d,
     bd_reservedSize = v4_reservedSize d, bd_options = []\<rparr>"

definition allocator_allocate ::
  "'e alloc_env \<Rightarrow> u8 list \<Rightarrow> i32 \<Rightarrow> AllocationResult \<Rightarrow> 'e allocator \<Rightarrow> (status \<times> AllocationResult \<times> 'e allocator) res" where
  "allocator_allocate E encoded cnt out s =
    (case decodeBufferDescriptorInfo E encoded of
       Inl ret \<Rightarrow> Inr (ToBinderStatus BAD_DESCRIPTOR, out, s)
     | Inr d \<Rightarrow> allocator_allocate2 E (from_v4 d) cnt out s)"

definition STANDARD_METADATA_DATASPACE :: string where
  "STANDARD_METADATA_DATASPACE = ''android.hardware.graphics.common.Dataspace''"

fun only_dataspace :: "string list \<Rightarrow> bool" where
  "only_dataspace [] = True"
| "only_dataspace (option # options) = (if option \<noteq> STANDARD_METADATA_DATASPACE then False else only_dataspace options)"

definition allocator_isSupported ::
  "'e alloc_env \<Rightarrow> BufferDescriptorInfo \<Rightarrow> bool \<Rightarrow> 'e allocator \<Rightarrow> (status \<times> bool \<times> 'e allocator) res" where
  "allocator_isSupported E d out s =
    (if \<not> only_dataspace (bd_options d) then Inr (Ok, False, s)
     else and_then (aselectBackend E d s) (\<lambda>(_, s1).
       and_then (ACHECK_BACKEND E s1) (\<lambda>(b, s2).
       case b of None \<Rightarrow> Inr (ToBinderStatus NO_RESOURCES, out, s2)
       | Some B \<Rightarrow> isSupported B d out s2)))"

definition getIMapperLibrarySuffix :: "status \<times> string" where
  "getIMapperLibrarySuffix = (Ok, ''generic'')"

end
