(* ===== verification/Allocator_Inv.thy ===== *)
theory Allocator_Inv
  imports Gbm_Holds Allocator
begin

text \<open>
  What an allocation leaves behind. Every loop of the GBM back end is followed with \<open>holds\<close>, the
  content of the buffer table: what the loop adds, the loops that release or deliver take away.
\<close>

unbundle bit_operations_syntax

declare neq0_conv [iff del]

section \<open>What the code outside the repository promises\<close>

definition aenv_ok :: "'e alloc_env \<Rightarrow> ('e \<Rightarrow> addr set) \<Rightarrow> bool" where
  "aenv_ok E live \<longleftrightarrow> platform_ok (aplat E) live
     \<and> (\<forall>b n e. same_objects (api (aplat E)) live e (snd (AllocSystem E b n e)))
     \<and> (\<forall>g e. same_objects (api (aplat E)) live e (snd (dupToAidl E g e)))
     \<and> (\<forall>g e. same_objects (api (aplat E)) live e (handle_close E g e))"

lemma aenv_okD:
  assumes "aenv_ok E live"
  shows "platform_ok (aplat E) live" "same_objects (api (aplat E)) live e (snd (AllocSystem E b n e))"
    "same_objects (api (aplat E)) live e (snd (dupToAidl E g e))" "same_objects (api (aplat E)) live e (handle_close E g e)"
    "gbm_laws (api (aplat E)) live"
  using assms by (simp_all add: aenv_ok_def platform_ok_def)

section \<open>Single steps\<close>

lemma free_holds:
  assumes "aenv_ok E live" "holds (aplat E) live w (add_mset (prime_fd g) M)" "handles w h = Some g" "h \<noteq> NULL"
    "gralloc_gbm_android_buffer_free (aplat E) h w = Inr (r, w')"
  shows "holds (aplat E) live w' M" "handles w' = handles w" "brk w \<le> brk w'"
  using free_removes [OF aenv_okD(1) [OF assms(1)] assms(2-5)] by simp_all

lemma drop_holds:
  assumes "aenv_ok E live" "holds (aplat E) live w M" "drop_handle E h w = Inr w'"
  shows "holds (aplat E) live w' M" "handles w' = (handles w)(h := None)" "brk w' = brk w"
  using assms holds_ext [OF holds_drop [OF assms(2), of h]] aenv_okD(4) [OF assms(1)]
  by (auto simp: drop_handle_def res_simps)

lemma dup_holds:
  assumes "aenv_ok E live" "holds (aplat E) live w M" "dup_handle E h w = Inr (c, w')"
  shows "holds (aplat E) live w' M" "handles w' = handles w" "brk w' = brk w"
    "\<exists>g e. handles w h = Some g \<and> c = fst (dupToAidl E g e)"
proof -
  obtain g where h: "handles w h = Some g" "h \<noteq> NULL"
    using assms(3) by (auto simp: dup_handle_def res_simps)
  obtain d e where d: "dupToAidl E g (ext w) = (d, e)" by force
  then have g: "handles w h = Some g" "dupToAidl E g (ext w) = (c, e)" "w' = w\<lparr>ext := e\<rparr>"
    using assms(3) h by (auto simp: dup_handle_def)
  have "same_objects (api (aplat E)) live (ext w) e" using aenv_okD(3) [OF assms(1), of "ext w" g] g(2) by simp
  then show "holds (aplat E) live w' M" "handles w' = handles w" "brk w' = brk w"
    "\<exists>g e. handles w h = Some g \<and> c = fst (dupToAidl E g e)"
    using holds_ext [OF assms(2)] g by (auto intro: exI [of _ "ext w"])
qed

section \<open>The loops\<close>

text \<open>The descriptors the handles \<open>hs\<close> lead to.\<close>

definition fds :: "'e world \<Rightarrow> addr list \<Rightarrow> i32 multiset" where
  "fds w hs = mset (map (\<lambda>h. prime_fd (the (handles w h))) hs)"

definition live_handles :: "'e world \<Rightarrow> addr list \<Rightarrow> bool" where
  "live_handles w hs \<longleftrightarrow> distinct hs \<and> NULL \<notin> set hs \<and> set hs \<subseteq> dom (handles w)"

lemma fds_cong: "(\<And>h. h \<in> set hs \<Longrightarrow> handles w' h = handles w h) \<Longrightarrow> fds w' hs = fds w hs"
  by (simp add: fds_def cong: map_cong)

lemma live_handles_Cons:
  "live_handles w (h # hs) \<Longrightarrow> live_handles (w'\<lparr>handles := (handles w)(h := None)\<rparr>) hs"
  "live_handles w (h # hs) \<Longrightarrow> handles w' = (handles w)(h := None) \<Longrightarrow> live_handles w' hs \<and> fds w' hs = fds w hs"
  by (auto simp: live_handles_def intro!: fds_cong)

lemma live_handlesE:
  assumes "live_handles w (h # hs)"
  obtains g where "h \<noteq> NULL" "handles w h = Some g" "fds w (h # hs) = add_mset (prime_fd g) (fds w hs)"
  using assms by (auto simp: live_handles_def fds_def)

lemma restrict_UNIV [simp]: "m |` UNIV = m"
  by (simp add: restrict_map_def)

lemma fds_Nil [simp]: "fds w [] = {#}"
  by (simp add: fds_def)

lemma restrict_Cons: "m(h := None) |` (- set hs) = m |` (- set (h # hs))"
  by (auto simp: restrict_map_def fun_eq_iff)

lemma release_holds:
  assumes env: "aenv_ok E live"
  shows "holds (aplat E) live w (M + fds w hs) \<Longrightarrow> live_handles w hs \<Longrightarrow> release_buffers E hs w = Inr w'
    \<Longrightarrow> holds (aplat E) live w' M \<and> handles w' = handles w |` (- set hs) \<and> brk w \<le> brk w'"
proof (induction hs arbitrary: w)
  case (Cons h hs)
  from Cons.prems(2) obtain g where g: "h \<noteq> NULL" "handles w h = Some g" "fds w (h # hs) = add_mset (prime_fd g) (fds w hs)"
    by (rule live_handlesE)
  obtain r w1 w2 where 1: "gralloc_gbm_android_buffer_free (aplat E) h w = Inr (r, w1)"
    and 2: "drop_handle E h w1 = Inr w2" and 3: "release_buffers E hs w2 = Inr w'"
    using Cons.prems(3) g(1) by (auto simp: res_simps)
  have "holds (aplat E) live w (add_mset (prime_fd g) (M + fds w hs))" using Cons.prems(1) g(3) by simp
  note f = free_holds [OF env this g(2,1) 1]
  note d = drop_holds [OF env f(1) 2]
  have h2: "handles w2 = (handles w)(h := None)" using d(2) f(2) by simp
  note l = live_handles_Cons(2) [OF Cons.prems(2) h2]
  have "holds (aplat E) live w' M \<and> handles w' = handles w2 |` (- set hs) \<and> brk w2 \<le> brk w'"
    by (rule Cons.IH [OF _ _ 3]) (use d(1) l in simp_all)
  then show ?case using h2 d(3) f(3) restrict_Cons [of "handles w" h hs] by simp
qed simp

lemma deliver_holds:
  assumes env: "aenv_ok E live"
  shows "holds (aplat E) live w (M + fds w hs) \<Longrightarrow> live_handles w hs \<Longrightarrow> deliver_buffers E hs w = Inr (cs, w')
    \<Longrightarrow> holds (aplat E) live w' M \<and> handles w' = handles w |` (- set hs)
      \<and> list_all2 (\<lambda>h c. \<exists>g e. handles w h = Some g \<and> c = Some (fst (dupToAidl E g e))) hs cs"
proof (induction hs arbitrary: w cs)
  case (Cons h hs)
  from Cons.prems(2) obtain g where g: "h \<noteq> NULL" "handles w h = Some g" "fds w (h # hs) = add_mset (prime_fd g) (fds w hs)"
    by (rule live_handlesE)
  obtain c w0 r w1 w2 cs' where 0: "dup_handle E h w = Inr (c, w0)"
    and 1: "gralloc_gbm_android_buffer_free (aplat E) h w0 = Inr (r, w1)"
    and 2: "drop_handle E h w1 = Inr w2" and 3: "deliver_buffers E hs w2 = Inr (cs', w')" and cs: "cs = Some c # cs'"
    using Cons.prems(3) g(1) by (auto simp: res_simps)
  note u = dup_holds [OF env Cons.prems(1) 0]
  have "holds (aplat E) live w0 (add_mset (prime_fd g) (M + fds w hs))" using u(1) g(3) by simp
  note f = free_holds [OF env this _ g(1) 1]
  note d = drop_holds [OF env f(1) 2]
  have g0: "handles w0 h = Some g" using u(2) g(2) by simp
  have h2: "handles w2 = (handles w)(h := None)" using d(2) [OF g0] f(2) [OF g0] u(2) by simp
  note l = live_handles_Cons(2) [OF Cons.prems(2) h2]
  have ih: "holds (aplat E) live w' M \<and> handles w' = handles w2 |` (- set hs)
      \<and> list_all2 (\<lambda>h c. \<exists>g e. handles w2 h = Some g \<and> c = Some (fst (dupToAidl E g e))) hs cs'"
    by (rule Cons.IH [OF _ _ 3]) (use d(1) [OF g0] l in simp_all)
  have "list_all2 (\<lambda>h c. \<exists>g e. handles w h = Some g \<and> c = Some (fst (dupToAidl E g e))) hs cs'"
    using ih by (auto simp: h2 elim!: list_all2_mono split: if_splits)
  then show ?case using ih u(4) h2 restrict_Cons [of "handles w" h hs] by (simp add: cs)
qed simp

text \<open>The handles \<open>news\<close> were added to \<open>w\<close>, and nothing else.\<close>

definition added :: "allocator_desc_t \<Rightarrow> 'e world \<Rightarrow> addr list \<Rightarrow> 'e world \<Rightarrow> bool" where
  "added ds w news w' \<longleftrightarrow> handles w' |` (- set news) = handles w
     \<and> (\<forall>h \<in> set news. \<exists>g. handles w' h = Some g \<and> gh_format g = ad_format ds \<and> gh_usage g = ucast (ad_usage ds))"

lemma added_Nil: "added ds w [] w"
  by (simp add: added_def)

lemma added_Cons:
  assumes "added ds w1 news w'" "handles w1 = (handles w)(h \<mapsto> g)" "h \<notin> dom (handles w)" "h \<notin> set news"
    "gh_format g = ad_format ds" "gh_usage g = ucast (ad_usage ds)"
  shows "added ds w (h # news) w'"
proof -
  have r: "handles w' |` (- set news) = (handles w)(h \<mapsto> g)" using assms(1,2) by (simp add: added_def)
  have "handles w' p = ((handles w)(h \<mapsto> g)) p" if "p \<notin> set news" for p
    using fun_cong [OF r, of p] that by (simp add: restrict_map_def)
  moreover have "handles w p = None" if "p \<in> set news" for p
    using fun_cong [OF r, of p] that by (simp add: restrict_map_def split: if_splits)
  ultimately have "handles w' h = Some g" "handles w' |` (- set (h # news)) = handles w"
    using assms(3,4) by (auto simp: restrict_map_def fun_eq_iff domIff split: if_splits)
  then show ?thesis using assms(1,5,6) by (simp add: added_def)
qed

lemma new_buffers_holds:
  assumes env: "aenv_ok E live"
  shows "holds (aplat E) live w (M + fds w hs) \<Longrightarrow> live_handles w hs \<Longrightarrow> new_buffers E ds n hs st w = Inr (r, w')
    \<Longrightarrow> (case r of None \<Rightarrow> holds (aplat E) live w' M \<and> (\<forall>p \<in> dom (handles w) - set hs. handles w' p = handles w p)
       | Some (hs', st') \<Rightarrow> \<exists>news. hs' = hs @ news \<and> length news = n \<and> holds (aplat E) live w' (M + fds w' hs')
           \<and> live_handles w' hs' \<and> added ds w news w')"
proof (induction n arbitrary: w hs st)
  case (Suc n)
  obtain ret out w1 where 1: "gralloc_gbm_android_buffer_new (aplat E) ds w = Inr (ret, out, w1)"
    using Suc.prems(3) by (auto simp: res_simps)
  from new_adds [OF aenv_okD(1) [OF env] Suc.prems(1) 1] show ?case
  proof (elim disjE exE conjE)
    assume fail: "ret \<noteq> 0" "out = None" and w1: "holds (aplat E) live w1 (M + fds w hs)" "later w w1"
    then obtain w2 where 2: "release_buffers E hs w1 = Inr w2" "r = None" "w' = w2"
      using Suc.prems(3) 1 by (auto simp: res_simps)
    have keep: "handles w1 p = handles w p" if "p \<in> dom (handles w)" for p using w1(2) that by (simp add: later_def)
    have sub: "set hs \<subseteq> dom (handles w)" using Suc.prems(2) by (simp add: live_handles_def)
    have l: "live_handles w1 hs" "fds w1 hs = fds w hs"
      using Suc.prems(2) keep sub fds_cong [of hs w1 w] by (auto simp: live_handles_def domIff subset_iff)
    have "holds (aplat E) live w2 M \<and> handles w2 = handles w1 |` (- set hs) \<and> brk w1 \<le> brk w2"
      by (rule release_holds [OF env _ l(1) 2(1)]) (use w1(1) l(2) in simp)
    then show ?thesis using 2(2,3) keep by (simp add: restrict_map_def)
  next
    fix h gst g assume ok: "ret = 0" "out = Some (h, gst)" "brk w < h" "later w w1" "handles w1 = (handles w)(h \<mapsto> g)"
      "holds (aplat E) live w1 (add_mset (prime_fd g) (M + fds w hs))" "gh_format g = ad_format ds" "gh_usage g = ucast (ad_usage ds)"
    have h0: "h \<noteq> NULL" using ok(3) by simp
    have hd: "h \<notin> dom (handles w)" using holds_handles [OF Suc.prems(1)] ok(3) by auto
    have sub: "set hs \<subseteq> dom (handles w)" using Suc.prems(2) by (simp add: live_handles_def)
    then have hs: "h \<notin> set hs" using hd by blast
    obtain st1 where 2: "new_buffers E ds n (hs @ [h]) st1 w1 = Inr (r, w')"
      using Suc.prems(3) 1 ok(1,2) h0 by (auto simp: res_simps)
    have "fds w1 hs = fds w hs" using hs ok(5) by (intro fds_cong) auto
    then have f: "fds w1 (hs @ [h]) = add_mset (prime_fd g) (fds w hs)" using ok(5) by (simp add: fds_def)
    have l: "live_handles w1 (hs @ [h])" using Suc.prems(2) hs h0 ok(5) by (auto simp: live_handles_def)
    have ih: "case r of None \<Rightarrow> holds (aplat E) live w' M \<and> (\<forall>p \<in> dom (handles w1) - set (hs @ [h]). handles w' p = handles w1 p)
       | Some (hs', st') \<Rightarrow> \<exists>news. hs' = (hs @ [h]) @ news \<and> length news = n \<and> holds (aplat E) live w' (M + fds w' hs')
           \<and> live_handles w' hs' \<and> added ds w1 news w'"
      by (rule Suc.IH [OF _ l 2]) (use ok(6) f in simp)
    show ?thesis
    proof (cases r)
      case None
      then show ?thesis using ih hd ok(5) by auto
    next
      case (Some q)
      then obtain hs' st' news where q: "q = (hs', st')" "hs' = hs @ h # news" "length news = n"
        "holds (aplat E) live w' (M + fds w' hs')" "live_handles w' hs'" "added ds w1 news w'"
        using ih by (cases q) auto
      have "h \<notin> set news" using q(2,5) by (auto simp: live_handles_def)
      from added_Cons [OF q(6) ok(5) hd this ok(7,8)] show ?thesis using Some q by (auto intro!: exI [of _ "h # news"])
    qed
  qed
qed (auto simp: added_Nil)

section \<open>The GBM back end\<close>

lemma gbm_allocate_holds:
  assumes env: "aenv_ok E live" and ok: "holds (aplat E) live w M"
    and run: "grallocGbmAllocate E ds cnt out w = Inr (st, out', w')"
  shows "holds (aplat E) live w' M"
    "st \<noteq> Ok \<Longrightarrow> st = ToBinderStatus UNSUPPORTED \<and> out' = out \<and> (\<forall>p \<in> dom (handles w). handles w' p = handles w p)"
    "st = Ok \<Longrightarrow> handles w' = handles w \<and> int (length (res_buffers out')) = sint cnt
       \<and> (\<forall>c \<in> set (res_buffers out'). \<exists>g e. c = Some (fst (dupToAidl E g e)) \<and> gh_format g = ad_format ds
            \<and> gh_usage g = ucast (ad_usage ds))"
proof -
  have empty: "holds (aplat E) live w (M + fds w [])" "live_handles w []" using ok by (simp_all add: fds_def live_handles_def)
  have "(st = ToBinderStatus UNSUPPORTED \<and> out' = out \<and> holds (aplat E) live w' M \<and> (\<forall>p \<in> dom (handles w). handles w' p = handles w p))
    \<or> (st = Ok \<and> holds (aplat E) live w' M \<and> handles w' = handles w \<and> int (length (res_buffers out')) = sint cnt
       \<and> (\<forall>c \<in> set (res_buffers out'). \<exists>g e. c = Some (fst (dupToAidl E g e)) \<and> gh_format g = ad_format ds
            \<and> gh_usage g = ucast (ad_usage ds)))"
  proof (cases "w' = w \<and> st = ToBinderStatus UNSUPPORTED \<and> out' = out")
    case False
    then obtain r w1 where 1: "new_buffers E ds (nat (sint cnt)) [] 0 w = Inr (r, w1)" "0 \<le> sint cnt"
      and 2: "(case r of None \<Rightarrow> Inr (ToBinderStatus UNSUPPORTED, out, w1)
      | Some (hs, stride) \<Rightarrow> and_then (deliver_buffers E hs w1) (\<lambda>(cs, w2).
            Inr (Ok, \<lparr>res_buffers = cs, res_stride = stride\<rparr>, w2))) = (Inr (st, out', w') :: _ res)"
      using run by (auto simp: grallocGbmAllocate_def and_then_eq_Inr split: if_splits)
    note n = new_buffers_holds [OF env empty 1(1)]
    show ?thesis
    proof (cases r)
      case None
      then show ?thesis using n 2 by simp
    next
      case (Some q)
      obtain hs stride where q: "r = Some (hs, stride)" using Some by (cases q) auto
      have h: "length hs = nat (sint cnt)" "holds (aplat E) live w1 (M + fds w1 hs)" "live_handles w1 hs" "added ds w hs w1"
        using n by (auto simp: q)
      obtain cs where d: "deliver_buffers E hs w1 = Inr (cs, w')" "st = Ok" "out' = \<lparr>res_buffers = cs, res_stride = stride\<rparr>"
        using 2 by (auto simp: q and_then_eq_Inr)
      note dl = deliver_holds [OF env h(2,3) d(1)]
      then have l2: "list_all2 (\<lambda>h c. \<exists>g e. handles w1 h = Some g \<and> c = Some (fst (dupToAidl E g e))) hs cs" by blast
      note len = list_all2_lengthD [OF l2, symmetric]
      have "\<exists>g e. c = Some (fst (dupToAidl E g e)) \<and> gh_format g = ad_format ds \<and> gh_usage g = ucast (ad_usage ds)"
        if c: "c \<in> set cs" for c
      proof -
        obtain i where i: "i < length cs" "c = cs ! i" using c by (auto simp: in_set_conv_nth)
        then obtain g e where "handles w1 (hs ! i) = Some g" "c = Some (fst (dupToAidl E g e))"
          using list_all2_nthD2 [OF l2] by blast
        moreover have "hs ! i \<in> set hs" using i(1) len by simp
        moreover from this h(4) obtain g' where "handles w1 (hs ! i) = Some g'" "gh_format g' = ad_format ds"
          "gh_usage g' = ucast (ad_usage ds)" by (auto simp: added_def)
        ultimately show ?thesis by auto
      qed
      moreover have "handles w' = handles w" using dl h(4) by (simp only: added_def)
      moreover have "int (length cs) = sint cnt" using len h(1) 1(2) by simp
      moreover have "holds (aplat E) live w' M" using dl by blast
      ultimately show ?thesis using d(2,3) by simp
    qed
  qed (use ok in simp)
  then show "holds (aplat E) live w' M"
    "st \<noteq> Ok \<Longrightarrow> st = ToBinderStatus UNSUPPORTED \<and> out' = out \<and> (\<forall>p \<in> dom (handles w). handles w' p = handles w p)"
    "st = Ok \<Longrightarrow> handles w' = handles w \<and> int (length (res_buffers out')) = sint cnt
       \<and> (\<forall>c \<in> set (res_buffers out'). \<exists>g e. c = Some (fst (dupToAidl E g e)) \<and> gh_format g = ad_format ds
            \<and> gh_usage g = ucast (ad_usage ds))"
    by auto
qed

end
