(* ===== verification/Allocator_Service.thy ===== *)
theory Allocator_Service
  imports Allocator_Inv
begin

text \<open>
  The contract of an allocator back end as a locale, the service proved against it, the proof that
  both back ends meet it, and the states the service reaches: in each the buffer table is empty.
\<close>

unbundle bit_operations_syntax

section \<open>The contract\<close>

text \<open>
  \<open>good\<close> is kept; a successful allocation delivers as many buffers as asked for and leaves the
  handles of the service as they were; a failed one does not touch the result.
\<close>

locale allocator_backend =
  fixes B :: "'e alloc_backend" and good :: "'e allocator \<Rightarrow> bool"
    and delivers :: "BufferDescriptorInfo \<Rightarrow> gralloc_handle_t option \<Rightarrow> bool"
  assumes init_good: "good s \<Longrightarrow> init B s = Inr (r, s') \<Longrightarrow> good s' \<and> handles (ag s') = handles (ag s)"
    and supported_good: "good s \<Longrightarrow> isSupported B d b s = Inr (st, b', s') \<Longrightarrow> good s' \<and> handles (ag s') = handles (ag s)"
    and allocate_good: "good s \<Longrightarrow> allocate2 B d n out s = Inr (st, out', s') \<Longrightarrow> good s'"
    and allocate_result: "good s \<Longrightarrow> allocate2 B d n out s = Inr (st, out', s') \<Longrightarrow>
       (if st = Ok then handles (ag s') = handles (ag s) \<and> int (length (res_buffers out')) = sint n
          \<and> (\<forall>c \<in> set (res_buffers out'). delivers d c)
        else out' = out \<and> (\<forall>p \<in> dom (handles (ag s)). handles (ag s') p = handles (ag s) p))"

text \<open>The service over back ends that meet it.\<close>

locale allocator_service =
  fixes E :: "'e alloc_env" and good :: "'e allocator \<Rightarrow> bool"
    and delivers :: "BufferDescriptorInfo \<Rightarrow> gralloc_handle_t option \<Rightarrow> bool"
  assumes backend: "allocator_backend (aselectBackendByType E t) good delivers"
    and select_good: "good s \<Longrightarrow> good (s\<lparr>aBackend := b\<rparr>)"
begin

lemma select_keeps:
  assumes "good s" "aselectBackend E d s = Inr (r, s')"
  shows "good s' \<and> handles (ag s') = handles (ag s)"
proof -
  let ?G = "aselectBackendByType E ALLOCATOR_GRALLOC_GBM" and ?D = "aselectBackendByType E ALLOCATOR_GRALLOC_DMABUF"
  obtain st b s1 where 1: "isSupported ?G d False s = Inr (st, b, s1)"
    using assms(2) by (auto simp: aselectBackend_def res_simps)
  note g1 = allocator_backend.supported_good [OF backend assms(1) 1]
  show ?thesis
  proof (cases b)
    case True
    then show ?thesis using assms(2) 1 g1 select_good by (auto simp: aselectBackend_def)
  next
    case False
    then obtain st' b' s2 where 2: "isSupported ?D d b s1 = Inr (st', b', s2)"
      using assms(2) 1 by (auto simp: aselectBackend_def res_simps)
    note g2 = allocator_backend.supported_good [OF backend _ 2]
    show ?thesis using assms(2) 1 2 False g1 g2 select_good by (auto simp: aselectBackend_def split: if_splits)
  qed
qed

lemma check_keeps:
  assumes "good s" "ACHECK_BACKEND E s = Inr (b, s')"
  shows "good s' \<and> handles (ag s') = handles (ag s)" "b = Some B \<Longrightarrow> allocator_backend B good delivers"
  using assms backend allocator_backend.init_good [OF backend]
  by (auto simp: ACHECK_BACKEND_def res_simps Let_def split: option.splits if_splits)

lemma good_start:
  assumes "allocator_init E s = Inr (r, s')" "good s"
  shows "good s'"
proof -
  obtain r1 s1 where 1: "init (aselectBackendByType E ALLOCATOR_GRALLOC_DMABUF) s = Inr (r1, s1)"
    and 2: "init (aselectBackendByType E ALLOCATOR_GRALLOC_GBM) s1 = Inr (r, s')"
    using assms(1) by (auto simp: allocator_init_def res_simps)
  show ?thesis
    using allocator_backend.init_good [OF backend conjunct1 [OF allocator_backend.init_good [OF backend assms(2) 1]] 2] by simp
qed

lemma allocate2_keeps:
  assumes "allocator_allocate2 E d n out s = Inr (st, out', s')" "good s"
  shows "good s'"
    "if st = Ok then handles (ag s') = handles (ag s) \<and> int (length (res_buffers out')) = sint n \<and> (\<forall>c \<in> set (res_buffers out'). delivers d c)
     else out' = out \<and> (\<forall>p \<in> dom (handles (ag s)). handles (ag s') p = handles (ag s) p)"
proof -
  obtain r s1 b s2 where 1: "aselectBackend E d s = Inr (r, s1)" and 2: "ACHECK_BACKEND E s1 = Inr (b, s2)"
    and 3: "(case b of None \<Rightarrow> Inr (ToBinderStatus NO_RESOURCES, out, s2) | Some B \<Rightarrow> allocate2 B d n out s2) = Inr (st, out', s')"
    using assms(1) by (auto simp: allocator_allocate2_def res_simps)
  note g1 = select_keeps [OF assms(2) 1]
  note g2 = check_keeps [OF conjunct1 [OF g1] 2]
  have h: "handles (ag s2) = handles (ag s)" using g1 g2(1) by simp
  have "good s' \<and> (if st = Ok then handles (ag s') = handles (ag s) \<and> int (length (res_buffers out')) = sint n \<and> (\<forall>c \<in> set (res_buffers out'). delivers d c)
     else out' = out \<and> (\<forall>p \<in> dom (handles (ag s)). handles (ag s') p = handles (ag s) p))"
  proof (cases b)
    case None
    then show ?thesis using 3 g2(1) h by auto
  next
    case (Some B)
    then have B: "allocator_backend B good delivers" "allocate2 B d n out s2 = Inr (st, out', s')" using g2(2) 3 by simp_all
    show ?thesis
      using allocator_backend.allocate_good [OF B(1) conjunct1 [OF g2(1)] B(2)]
        allocator_backend.allocate_result [OF B(1) conjunct1 [OF g2(1)] B(2)] h by simp
  qed
  then show "good s'" "if st = Ok then handles (ag s') = handles (ag s) \<and> int (length (res_buffers out')) = sint n \<and> (\<forall>c \<in> set (res_buffers out'). delivers d c)
     else out' = out \<and> (\<forall>p \<in> dom (handles (ag s)). handles (ag s') p = handles (ag s) p)" by blast+
qed

lemma allocate_keeps: "allocator_allocate E bs n out s = Inr (st, out', s') \<Longrightarrow> good s \<Longrightarrow> good s'"
  using allocate2_keeps(1) by (auto simp: allocator_allocate_def split: sum.splits)

lemma supported_keeps:
  assumes "allocator_isSupported E d out s = Inr (st, out', s')" "good s"
  shows "good s'"
proof (cases "only_dataspace (bd_options d)")
  case True
  then obtain r s1 b s2 where 1: "aselectBackend E d s = Inr (r, s1)" and 2: "ACHECK_BACKEND E s1 = Inr (b, s2)"
    and 3: "(case b of None \<Rightarrow> Inr (ToBinderStatus NO_RESOURCES, out, s2) | Some B \<Rightarrow> isSupported B d out s2) = Inr (st, out', s')"
    using assms(1) by (auto simp: allocator_isSupported_def res_simps)
  note g2 = check_keeps [OF conjunct1 [OF select_keeps [OF assms(2) 1]] 2]
  show ?thesis
  proof (cases b)
    case (Some B)
    then show ?thesis using 3 allocator_backend.supported_good [OF g2(2) conjunct1 [OF g2(1)]] by auto
  qed (use 3 g2 in simp)
qed (use assms in \<open>simp add: allocator_isSupported_def\<close>)

end

section \<open>The GBM back end meets it\<close>

text \<open>A duplicate of a handle with the format and the low half of the usage that \<open>d\<close> asks for.\<close>

definition delivers :: "'e alloc_env \<Rightarrow> BufferDescriptorInfo \<Rightarrow> gralloc_handle_t option \<Rightarrow> bool" where
  "delivers E d c \<longleftrightarrow> (\<exists>g e. c = Some (fst (dupToAidl E g e)) \<and> gh_format g = bd_format d \<and> gh_usage g = ucast (bd_usage d))"

definition idle :: "'e alloc_env \<Rightarrow> ('e \<Rightarrow> addr set) \<Rightarrow> 'e allocator \<Rightarrow> bool" where
  "idle E live s \<longleftrightarrow> aenv_ok E live \<and> holds (aplat E) live (ag s) {#}"

lemma idle_frame [simp]:
  "idle E live (s\<lparr>aBackend := b\<rparr>) = idle E live s" "idle E live (s\<lparr>allocators := n\<rparr>) = idle E live s"
  by (simp_all add: idle_def)

lemma generate_holds:
  assumes "holds P live w M" "generateGrallocGenericDesc P info out w = Inr (r, d, w')"
  shows "holds P live w' M" "handles w' = handles w"
proof -
  have "w' = w \<or> w' = w\<lparr>brk := Suc (brk w)\<rparr>"
    using assms(2) by (auto simp: generateGrallocGenericDesc_def malloc_def Let_def split: option.splits if_splits)
  then show "holds P live w' M" "handles w' = handles w" using assms(1) holds_brk by auto
qed

lemma generate_desc:
  assumes "generateGrallocGenericDesc P info (Some d0) w = Inr (0, Some d, w')"
  shows "ad_format d = bd_format info" "ucast (ad_usage d) = (ucast (bd_usage info) :: i32)"
proof -
  have "ucast (ucast (ucast u :: u32) :: u64) = (ucast u :: i32)" for u :: i64
    by (intro bit_word_eqI) (auto simp: bit_simps)
  then show "ad_format d = bd_format info" "ucast (ad_usage d) = (ucast (bd_usage info) :: i32)"
    using assms by (auto simp: generateGrallocGenericDesc_def Let_def errno_defs split: if_splits prod.splits)
qed

lemma agbm_ok: "allocator_backend (AllocatorBackendGrallocGbm E) (idle E live) (delivers E)"
proof (rule allocator_backend.intro)
  fix s r s' assume s: "idle E live s" and "init (AllocatorBackendGrallocGbm E) s = Inr (r, s')"
  then obtain w where w: "gralloc_gbm_init (aplat E) (ag s) = Inr (r, w)" "s' = s\<lparr>ag := w\<rparr>"
    by (auto simp: AllocatorBackendGrallocGbm_def agbm_init_def on_ag_def res_simps)
  show "idle E live s' \<and> handles (ag s') = handles (ag s)" using s init_holds(1,2) [of "aplat E" live "ag s" "{#}", OF _ w(1)] by (simp add: idle_def w(2))
next
  fix s d b st b' s' assume s: "idle E live s" and run: "isSupported (AllocatorBackendGrallocGbm E) d b s = Inr (st, b', s')"
  have "s' = s \<or> (\<exists>r ds w. generateGrallocGenericDesc (aplat E) d (Some zero_desc) (ag s) = Inr (r, ds, w) \<and> s' = s\<lparr>ag := w\<rparr>)"
    using run by (auto simp: AllocatorBackendGrallocGbm_def agbm_isSupported_def res_simps split: if_splits)
  then show "idle E live s' \<and> handles (ag s') = handles (ag s)"
    using s generate_holds [of "aplat E" live "ag s" "{#}"] by (fastforce simp: idle_def)
next
  fix s d n out st out' s'
  assume s: "idle E live s" and run: "allocate2 (AllocatorBackendGrallocGbm E) d n out s = Inr (st, out', s')"
  have env: "aenv_ok E live" "holds (aplat E) live (ag s) {#}" using s by (simp_all add: idle_def)
  obtain r ds w where 1: "generateGrallocGenericDesc (aplat E) d (Some zero_desc) (ag s) = Inr (r, ds, w)"
    using run by (auto simp: AllocatorBackendGrallocGbm_def agbm_allocate2_def res_simps)
  note g = generate_holds [OF env(2) 1]
  have "idle E live s' \<and> (if st = Ok then handles (ag s') = handles (ag s) \<and> int (length (res_buffers out')) = sint n
          \<and> (\<forall>c \<in> set (res_buffers out'). delivers E d c)
        else out' = out \<and> (\<forall>p \<in> dom (handles (ag s)). handles (ag s') p = handles (ag s) p))"
  proof (cases "r = 0 \<and> ds \<noteq> None")
    case True
    then obtain ds' w' where 2: "ds = Some ds'" "grallocGbmAllocate E ds' n out w = Inr (st, out', w')" "s' = s\<lparr>ag := w'\<rparr>"
      using run 1 by (auto simp: AllocatorBackendGrallocGbm_def agbm_allocate2_def res_simps)
    note a = gbm_allocate_holds [OF env(1) g(1) 2(2)]
    have "ad_format ds' = bd_format d" "ucast (ad_usage ds') = (ucast (bd_usage d) :: i32)"
      using generate_desc 1 2 True by auto
    then show ?thesis using a env(1) g(2) 2(3) by (auto simp: idle_def delivers_def)
  next
    case False
    then have "s' = s\<lparr>ag := w\<rparr>" "st = ToBinderStatus UNSUPPORTED" "out' = out"
      using run 1 by (auto simp: AllocatorBackendGrallocGbm_def agbm_allocate2_def split: bool.splits option.splits)
    then show ?thesis using g env(1) by (simp add: idle_def)
  qed
  then show "idle E live s'" "if st = Ok then handles (ag s') = handles (ag s) \<and> int (length (res_buffers out')) = sint n
          \<and> (\<forall>c \<in> set (res_buffers out'). delivers E d c)
        else out' = out \<and> (\<forall>p \<in> dom (handles (ag s)). handles (ag s') p = handles (ag s) p)" by blast+
qed

interpretation agbm: allocator_backend "AllocatorBackendGrallocGbm E" "idle E live" "delivers E"
  by (rule agbm_ok)

lemma list_all2_set_right: "list_all2 P xs ys \<Longrightarrow> y \<in> set ys \<Longrightarrow> \<exists>x \<in> set xs. P x y"
  by (induction rule: list_all2_induct) auto

section \<open>The DMA-BUF back end meets it\<close>

text \<open>Handles that change their contents, or go away.\<close>

lemma holds_handle_map:
  assumes "holds P live w M" "dom hs \<subseteq> {1..brk w}"
  shows "holds P live (w\<lparr>handles := hs\<rparr>) M"
proof -
  obtain xs where xs: "gbm_ok P live w xs" "keys P w xs = M" using assms(1) by (auto simp: holds_def)
  have "keys P (w\<lparr>handles := hs\<rparr>) xs = M" using xs(2) by (simp add: keys_nodes)
  then show ?thesis using gbm_ok_handles [OF xs(1) assms(2)] by (auto simp: holds_def)
qed

lemma create_holds:
  assumes env: "aenv_ok E live" and ok: "holds (aplat E) live w M"
    and run: "gralloc_handle_create (aplat E) wd ht fmt usage w = (h, w1)"
  shows "holds (aplat E) live w1 M" "later w w1"
    "h \<noteq> NULL \<Longrightarrow> brk w < h \<and> (\<exists>g. handles w1 = (handles w)(h \<mapsto> g) \<and> handle_for wd ht fmt usage g)"
proof -
  obtain xs where xs: "gbm_ok (aplat E) live w xs" "keys (aplat E) w xs = M" using ok by (auto simp: holds_def)
  note c = handle_create_ok [OF gbm_ok_world [OF xs(1)] aenv_okD(5) [OF env] run]
  have "keys (aplat E) w1 xs = M"
    using xs(2) abs_grows [OF gbm_ok_world [OF xs(1)] c(1)] by (simp add: keys_def)
  then show "holds (aplat E) live w1 M" using gbm_ok_grows [OF xs(1) c(1)] by (auto simp: holds_def)
  show "later w w1" by (rule growsD(13) [OF c(1)])
  show "h \<noteq> NULL \<Longrightarrow> brk w < h \<and> (\<exists>g. handles w1 = (handles w)(h \<mapsto> g) \<and> handle_for wd ht fmt usage g)"
    using c(3,4) by blast
qed

text \<open>A descriptor with the format and usage a DMA-BUF handle gets.\<close>

definition dma_desc :: "BufferDescriptorInfo \<Rightarrow> allocator_desc_t" where
  "dma_desc d = zero_desc\<lparr>ad_format := bd_format d, ad_usage := bd_usage d\<rparr>"

lemma dma_buffers_holds:
  assumes env: "aenv_ok E live"
  shows "holds (aplat E) live w M \<Longrightarrow> live_handles w hs \<Longrightarrow> dma_buffers E d sz n hs w = Inr (r, w')
    \<Longrightarrow> holds (aplat E) live w' M \<and> (case r of None \<Rightarrow> \<forall>p \<in> dom (handles w). handles w' p = handles w p
       | Some hs' \<Rightarrow> \<exists>news. hs' = hs @ news \<and> length news = n \<and> live_handles w' hs' \<and> added (dma_desc d) w news w')"
proof (induction n arbitrary: w hs)
  case (Suc n)
  obtain h w1 where 1: "gralloc_handle_create (aplat E) (bd_width d) (bd_height d) (bd_format d) (ucast (bd_usage d)) w = (h, w1)"
    by force
  obtain fd e where 2: "AllocSystem E True sz (ext w1) = (fd, e)" by force
  note c = create_holds [OF env Suc.prems(1) 1]
  have "same_objects (api (aplat E)) live (ext w1) e" using aenv_okD(2) [OF env, of "ext w1" True sz] 2 by simp
  note w2 = holds_ext [OF c(1) this]
  have keep: "handles w1 p = handles w p" if "p \<in> dom (handles w)" for p using c(2) that by (simp add: later_def)
  show ?case
  proof (cases "sint fd \<le> 0")
    case True
    then have "r = None" "w' = w1\<lparr>ext := e\<rparr>" using Suc.prems(3) 1 2 by (simp_all add: Let_def)
    then show ?thesis using w2 keep by simp
  next
    case False
    then obtain g where g: "h \<noteq> NULL" "handles w1 h = Some g"
      using Suc.prems(3) 1 2 by (auto simp: Let_def res_simps)
    let ?g = "g\<lparr>prime_fd := fd, gh_stride := sdiv32 (bd_width d) 8\<rparr>"
    let ?w3 = "w1\<lparr>ext := e, handles := (handles w1)(h \<mapsto> ?g)\<rparr>"
    have 3: "dma_buffers E d sz n (hs @ [h]) ?w3 = Inr (r, w')"
      using Suc.prems(3) 1 2 False g by (simp add: Let_def)
    have h: "brk w < h" "handles w1 = (handles w)(h \<mapsto> g)" "gh_format g = bd_format d" "gh_usage g = ucast (bd_usage d)"
      using c(3) [OF g(1)] g(2) by (auto simp: handle_for_def)
    have hd: "h \<notin> dom (handles w)" using holds_handles [OF Suc.prems(1)] h(1) by auto
    have w3: "holds (aplat E) live ?w3 M"
      using holds_handle_map [OF w2, of "(handles w1)(h \<mapsto> ?g)"] holds_handles [OF c(1)] g(2) by auto
    have h3: "handles ?w3 = (handles w)(h \<mapsto> ?g)" using h(2) by simp
    have l3: "live_handles ?w3 (hs @ [h])"
      using Suc.prems(2) g(1) hd by (auto simp: live_handles_def h(2))
    note ih = Suc.IH [OF w3 l3 3]
    show ?thesis
    proof (cases r)
      case None
      then show ?thesis using ih hd h(2) by auto
    next
      case (Some hs')
      then obtain news where q: "hs' = hs @ h # news" "length news = n" "live_handles w' hs'" "added (dma_desc d) ?w3 news w'"
        using ih by auto
      have "h \<notin> set news" using q(1,3) by (auto simp: live_handles_def)
      from added_Cons [OF q(4) h3 hd this] have "added (dma_desc d) w (h # news) w'"
        using h(3,4) by (simp add: dma_desc_def)
      then show ?thesis using Some q ih by (auto intro!: exI [of _ "h # news"])
    qed
  qed
qed (auto simp: added_Nil)

lemma dma_deliver_holds:
  assumes env: "aenv_ok E live"
  shows "holds (aplat E) live w M \<Longrightarrow> live_handles w hs \<Longrightarrow> dma_deliver E hs w = Inr (cs, w')
    \<Longrightarrow> holds (aplat E) live w' M \<and> handles w' = handles w |` (- set hs)
      \<and> list_all2 (\<lambda>h c. \<exists>g e. handles w h = Some g \<and> c = Some (fst (dupToAidl E g e))) hs cs"
proof (induction hs arbitrary: w cs)
  case (Cons h hs)
  from Cons.prems(2) obtain g where g: "h \<noteq> NULL" "handles w h = Some g" by (rule live_handlesE)
  obtain c w1 w2 cs' where 0: "dup_handle E h w = Inr (c, w1)" and 2: "drop_handle E h w1 = Inr w2"
    and 3: "dma_deliver E hs w2 = Inr (cs', w')" and cs: "cs = Some c # cs'"
    using Cons.prems(3) g(1) by (auto simp: res_simps)
  note u = dup_holds [OF env Cons.prems(1) 0]
  note d = drop_holds [OF env u(1) 2]
  have h2: "handles w2 = (handles w)(h := None)" using d(2) u(2) by simp
  have l: "live_handles w2 hs" using live_handles_Cons(2) [OF Cons.prems(2) h2] by simp
  note ih = Cons.IH [OF d(1) l 3]
  then have "list_all2 (\<lambda>h c. \<exists>g e. handles w h = Some g \<and> c = Some (fst (dupToAidl E g e))) hs cs'"
    by (auto simp: h2 elim!: list_all2_mono split: if_splits)
  then show ?case using ih u(4) by (auto simp: cs h2 restrict_map_def fun_eq_iff)
qed simp

lemma admabuf_ok: "allocator_backend (AllocatorBackendDmaBuf E) (idle E live) (delivers E)"
proof (rule allocator_backend.intro)
  fix s r s' assume "idle E live s" "init (AllocatorBackendDmaBuf E) s = Inr (r, s')"
  then show "idle E live s' \<and> handles (ag s') = handles (ag s)"
    by (auto simp: AllocatorBackendDmaBuf_def admabuf_init_def)
next
  fix s d b st b' s' assume "idle E live s" "isSupported (AllocatorBackendDmaBuf E) d b s = Inr (st, b', s')"
  then show "idle E live s' \<and> handles (ag s') = handles (ag s)"
    by (auto simp: AllocatorBackendDmaBuf_def admabuf_isSupported_def)
next
  fix s d n out st out' s'
  assume s: "idle E live s" and run: "allocate2 (AllocatorBackendDmaBuf E) d n out s = Inr (st, out', s')"
  have env: "aenv_ok E live" "holds (aplat E) live (ag s) {#}" using s by (simp_all add: idle_def)
  have empty: "live_handles (ag s) []" by (simp add: live_handles_def)
  obtain sz r w1 where 1: "dma_buffers E d sz (nat (sint n)) [] (ag s) = Inr (r, w1)" "0 \<le> sint n"
    and 2: "(case r of None \<Rightarrow> Inr (ToBinderStatus NO_RESOURCES, out, s\<lparr>ag := w1\<rparr>)
      | Some hs \<Rightarrow> and_then (dma_deliver E hs w1) (\<lambda>(cs, w2).
          Inr (Ok, \<lparr>res_buffers = cs, res_stride = sdiv32 (bd_width d) 8\<rparr>, s\<lparr>ag := w2\<rparr>))) = (Inr (st, out', s') :: _ res)"
    using run by (auto simp: AllocatorBackendDmaBuf_def admabuf_allocate2_def and_then_eq_Inr split: if_splits)
  note b = dma_buffers_holds [OF env(1) env(2) empty 1(1)]
  have "idle E live s' \<and> (if st = Ok then handles (ag s') = handles (ag s) \<and> int (length (res_buffers out')) = sint n
          \<and> (\<forall>c \<in> set (res_buffers out'). delivers E d c)
        else out' = out \<and> (\<forall>p \<in> dom (handles (ag s)). handles (ag s') p = handles (ag s) p))"
  proof (cases r)
    case None
    then have "st \<noteq> Ok" "out' = out" "s' = s\<lparr>ag := w1\<rparr>" using 2 by auto
    then show ?thesis using None b env(1) by (simp add: idle_def)
  next
    case (Some hs)
    then obtain cs w2 where 3: "dma_deliver E hs w1 = Inr (cs, w2)" "st = Ok" "s' = s\<lparr>ag := w2\<rparr>"
      "res_buffers out' = cs"
      using 2 by (auto simp: and_then_eq_Inr)
    have h: "length hs = nat (sint n)" "live_handles w1 hs" "added (dma_desc d) (ag s) hs w1" using b Some by auto
    note dl = dma_deliver_holds [OF env(1) conjunct1 [OF b] h(2) 3(1)]
    then have l2: "list_all2 (\<lambda>h c. \<exists>g e. handles w1 h = Some g \<and> c = Some (fst (dupToAidl E g e))) hs cs" by blast
    have "delivers E d c" if "c \<in> set cs" for c
      using list_all2_set_right [OF l2 that] h(3) by (fastforce simp: delivers_def added_def dma_desc_def)
    then show ?thesis using dl list_all2_lengthD [OF l2] 3 h 1(2) env(1) by (simp add: idle_def added_def)
  qed
  then show "idle E live s'" "if st = Ok then handles (ag s') = handles (ag s) \<and> int (length (res_buffers out')) = sint n
          \<and> (\<forall>c \<in> set (res_buffers out'). delivers E d c)
        else out' = out \<and> (\<forall>p \<in> dom (handles (ag s)). handles (ag s') p = handles (ag s) p)" by blast+
qed

interpretation admabuf: allocator_backend "AllocatorBackendDmaBuf E" "idle E live" "delivers E"
  by (rule admabuf_ok)

section \<open>The service\<close>

lemma aselected_ok: "allocator_backend (aselectBackendByType E t) (idle E live) (delivers E)"
  by (cases t) (simp_all add: aselectBackendByType_def agbm_ok admabuf_ok)

interpretation service: allocator_service E "idle E live" "delivers E"
  by (rule allocator_service.intro) (rule aselected_ok, simp)

datatype alloc_call =
    InitCall
  | AllocateCall "u8 list" i32 AllocationResult
  | Allocate2Call BufferDescriptorInfo i32 AllocationResult
  | SupportedCall BufferDescriptorInfo bool

fun acall :: "'e alloc_env \<Rightarrow> alloc_call \<Rightarrow> 'e allocator \<Rightarrow> 'e allocator res" where
  "acall E InitCall s = and_then (allocator_init E s) (\<lambda>(_, s'). Inr s')"
| "acall E (AllocateCall bs n out) s = and_then (allocator_allocate E bs n out s) (\<lambda>(_, _, s'). Inr s')"
| "acall E (Allocate2Call d n out) s = and_then (allocator_allocate2 E d n out s) (\<lambda>(_, _, s'). Inr s')"
| "acall E (SupportedCall d out) s = and_then (allocator_isSupported E d out s) (\<lambda>(_, _, s'). Inr s')"

definition blank_allocator :: "'e \<Rightarrow> 'e allocator" where
  "blank_allocator e = \<lparr>ag = blank_world e, allocators = 0, aBackend = None\<rparr>"

inductive allocator_reachable :: "'e alloc_env \<Rightarrow> 'e allocator \<Rightarrow> bool" for E :: "'e alloc_env" where
  start: "allocator_reachable E (blank_allocator e)"
| call: "allocator_reachable E s \<Longrightarrow> acall E c s = Inr s' \<Longrightarrow> allocator_reachable E s'"

lemma acall_keeps: "acall E c s = Inr s' \<Longrightarrow> idle E live s \<Longrightarrow> idle E live s'"
  by (cases c)
    (auto simp: and_then_eq_Inr dest: service.good_start service.allocate_keeps service.allocate2_keeps(1) service.supported_keeps)

lemma blank_allocator_idle: "aenv_ok E live \<Longrightarrow> idle E live (blank_allocator e)"
  by (simp add: idle_def holds_empty blank_allocator_def gbm_ok_def blank_world_def world_ok_def heaps_ok_def
      hash_inv_def heap_ok_def metas_ok_empty)

lemma reachable_idle: "allocator_reachable E s \<Longrightarrow> aenv_ok E live \<Longrightarrow> idle E live s"
  by (induction rule: allocator_reachable.induct) (auto intro: blank_allocator_idle acall_keeps)

end
