(* ===== verification/Allocator_Props.thy ===== *)
theory Allocator_Props
  imports Allocator_Service Gbm_Sample
begin

text \<open>
  The properties of the allocator service, and the environment their witnesses run on: the sample
  platform of the GBM library and a DMA-BUF heap that always has a buffer.
\<close>

declare neq0_conv [iff del]

section \<open>A concrete environment\<close>

definition sample_alloc_env :: "addr option list alloc_env" where
  "sample_alloc_env = \<lparr>aplat = sample_platform, heap_list_empty = \<lambda>_. False, AllocSystem = \<lambda>_ _ e. (11, e),
     dupToAidl = \<lambda>g e. (g\<lparr>prime_fd := 21\<rparr>, e), handle_close = \<lambda>_ e. e, decodeBufferDescriptorInfo = \<lambda>_. Inl (- 1)\<rparr>"

lemma sample_alloc_env_fields [simp]:
  "aplat sample_alloc_env = sample_platform" "heap_list_empty sample_alloc_env = (\<lambda>_. False)"
  "AllocSystem sample_alloc_env = (\<lambda>_ _ e. (11, e))" "dupToAidl sample_alloc_env = (\<lambda>g e. (g\<lparr>prime_fd := 21\<rparr>, e))"
  "handle_close sample_alloc_env = (\<lambda>_ e. e)" "decodeBufferDescriptorInfo sample_alloc_env = (\<lambda>_. Inl (- 1))"
  by (simp_all add: sample_alloc_env_def)

lemma sample_alloc_env_ok: "aenv_ok sample_alloc_env sample_live"
  by (simp add: aenv_ok_def sample_platform_ok)

definition sample_blob_desc :: BufferDescriptorInfo where
  "sample_blob_desc = \<lparr>bd_name = ''blob'', bd_width = 4096, bd_height = 1, bd_layerCount = 1, bd_format = 0x21,
     bd_usage = 0x33, bd_reservedSize = 0, bd_options = []\<rparr>"

definition sample_allocator :: "addr option list allocator" where
  "sample_allocator = (blank_allocator [])\<lparr>allocators := 1\<rparr>"

lemma sample_allocator_idle: "idle sample_alloc_env sample_live sample_allocator"
  using blank_allocator_idle [OF sample_alloc_env_ok] by (simp add: sample_allocator_def)

lemmas dma_run_simps = AllocatorBackendDmaBuf_def admabuf_isReady_def admabuf_allocate2_def admabuf_isSupported_def
  gralloc_handle_create_def sample_api_def drop_handle_def dup_handle_def blank_allocator_def blank_world_def

section \<open>The properties\<close>

text \<open>C5: between two calls the service's table of buffers is empty: in every state that any sequence of
  calls reaches, whatever their arguments and outcomes, the GBM library's hash table has no element and
  its world is well formed, so what a call adds to the table it takes out again on every path. The
  statement is about the table only: a call that fails can leave handles, descriptors or a buffer object
  behind that no table knows (see \<open>dma_failure_leaks_handle\<close>).\<close>

theorem allocator_table_empty:
  assumes "allocator_reachable E s" and "aenv_ok E live"
  shows "gbm_ok (aplat E) live (ag s) []"
  using reachable_idle [OF assms] by (simp add: idle_def holds_empty)

theorem allocator_table_empty_witness:
  "gbm_ok sample_platform sample_live (ag (blank_allocator [])) []"
  using allocator_table_empty [OF allocator_reachable.start sample_alloc_env_ok] by simp

text \<open>C11: the outcomes of an allocation, through either back end. A success delivers exactly as many
  buffers as asked for, each a duplicate of a handle with the requested format and the low half of the
  requested usage, and frees every handle it made. A failure leaves the result untouched and the handles
  there were, possibly with others beside them. Either way the GBM library's table stays empty.\<close>

theorem allocate2_outcomes:
  assumes "idle E live s" and "allocator_allocate2 E d n out s = Inr (st, out', s')"
  shows "idle E live s' \<and>
    (if st = Ok then handles (ag s') = handles (ag s) \<and> int (length (res_buffers out')) = sint n
       \<and> (\<forall>c \<in> set (res_buffers out'). delivers E d c)
     else out' = out \<and> (\<forall>p \<in> dom (handles (ag s)). handles (ag s') p = handles (ag s) p))"
  using service.allocate2_keeps [OF assms(2,1)] by blast

lemma sample_blob_allocate: "\<exists>s'. allocator_allocate2 sample_alloc_env sample_blob_desc 1 out sample_allocator =
  Inr (Ok, \<lparr>res_buffers = [Some (sample_handle\<lparr>prime_fd := 21, gh_width := 4096, gh_height := 1, gh_format := 0x21,
      gh_usage := 0x33, gh_stride := 512\<rparr>)], res_stride = 512\<rparr>, s')"
proof -
  have "aselectBackend sample_alloc_env sample_blob_desc sample_allocator =
      Inr (0, sample_allocator\<lparr>aBackend := Some ALLOCATOR_GRALLOC_DMABUF\<rparr>)"
    by (simp add: aselectBackend_def aselectBackendByType_def AllocatorBackendGrallocGbm_def agbm_isSupported_def dma_run_simps
        sample_blob_desc_def aosp_hal_def)
  moreover have "ACHECK_BACKEND sample_alloc_env (sample_allocator\<lparr>aBackend := Some ALLOCATOR_GRALLOC_DMABUF\<rparr>) =
      Inr (Some (AllocatorBackendDmaBuf sample_alloc_env), sample_allocator\<lparr>aBackend := Some ALLOCATOR_GRALLOC_DMABUF\<rparr>)"
    by (simp add: ACHECK_BACKEND_def aselectBackendByType_def dma_run_simps sample_allocator_def Let_def)
  ultimately show ?thesis
    by (simp add: allocator_allocate2_def dma_run_simps sample_allocator_def sample_blob_desc_def int_result_def
        Let_def sdiv32_def sample_handle_def)
qed

theorem allocate2_outcomes_witness:
  "\<exists>out' s'. allocator_allocate2 sample_alloc_env sample_blob_desc 1 \<lparr>res_buffers = [], res_stride = 0\<rparr> sample_allocator = Inr (Ok, out', s')
    \<and> idle sample_alloc_env sample_live s' \<and> length (res_buffers out') = 1"
proof -
  obtain out' s' where run: "allocator_allocate2 sample_alloc_env sample_blob_desc 1 \<lparr>res_buffers = [], res_stride = 0\<rparr> sample_allocator = Inr (Ok, out', s')"
    using sample_blob_allocate by blast
  from allocate2_outcomes [OF sample_allocator_idle run] run show ?thesis by simp
qed

text \<open>C26: a descriptor that neither back end supports is not refused. The result of the selection is
  not looked at, so the back end the last call selected, if it is up, serves the request.\<close>

theorem unsupported_request_served_by_last_backend:
  assumes "isSupported (AllocatorBackendGrallocGbm E) d False s = Inr (st1, False, s1)"
    and "isSupported (AllocatorBackendDmaBuf E) d False s1 = Inr (st2, False, s2)"
    and "aBackend s2 = Some t" and "isReady (aselectBackendByType E t) s2 = Inr True"
  shows "aselectBackend E d s = Inr (- EINVAL, s2)
    \<and> allocator_allocate2 E d n out s = allocate2 (aselectBackendByType E t) d n out s2"
  using assms by (simp add: aselectBackend_def allocator_allocate2_def ACHECK_BACKEND_def aselectBackendByType_def
      split: AllocatorBackendType.splits)

text \<open>A photo in a format no back end knows, after a blob: one byte per pixel from the DMA-BUF heap.\<close>

definition sample_odd_desc :: BufferDescriptorInfo where
  "sample_odd_desc = \<lparr>bd_name = ''photo'', bd_width = 640, bd_height = 480, bd_layerCount = 2, bd_format = 1,
     bd_usage = 0x33, bd_reservedSize = 0, bd_options = []\<rparr>"

theorem unsupported_request_served_by_last_backend_witness:
  "\<exists>s1 s'. isSupported (AllocatorBackendGrallocGbm sample_alloc_env) sample_odd_desc False
      (sample_allocator\<lparr>aBackend := Some ALLOCATOR_GRALLOC_DMABUF\<rparr>) = Inr (ToBinderStatus UNSUPPORTED, False, s1)
    \<and> allocator_allocate2 sample_alloc_env sample_odd_desc 1 \<lparr>res_buffers = [], res_stride = 0\<rparr>
      (sample_allocator\<lparr>aBackend := Some ALLOCATOR_GRALLOC_DMABUF\<rparr>) = Inr (Ok, \<lparr>res_buffers = [Some (sample_handle\<lparr>prime_fd := 21,
        gh_width := 640, gh_height := 480, gh_format := 1, gh_usage := 0x33, gh_stride := 80\<rparr>)], res_stride = 80\<rparr>, s')"
proof -
  let ?s = "sample_allocator\<lparr>aBackend := Some ALLOCATOR_GRALLOC_DMABUF\<rparr>"
  have 1: "isSupported (AllocatorBackendGrallocGbm sample_alloc_env) sample_odd_desc False ?s = Inr (ToBinderStatus UNSUPPORTED, False, ?s)"
    by (simp add: AllocatorBackendGrallocGbm_def agbm_isSupported_def sample_odd_desc_def aosp_hal_def generateGrallocGenericDesc_def
        Let_def errno_defs)
  have 2: "isSupported (AllocatorBackendDmaBuf sample_alloc_env) sample_odd_desc False ?s = Inr (Ok, False, ?s)"
    by (simp add: dma_run_simps sample_odd_desc_def aosp_hal_def)
  have 3: "isReady (aselectBackendByType sample_alloc_env ALLOCATOR_GRALLOC_DMABUF) ?s = Inr True"
    by (simp add: aselectBackendByType_def dma_run_simps sample_allocator_def)
  have "\<exists>s'. allocate2 (aselectBackendByType sample_alloc_env ALLOCATOR_GRALLOC_DMABUF) sample_odd_desc 1 \<lparr>res_buffers = [], res_stride = 0\<rparr> ?s
      = Inr (Ok, \<lparr>res_buffers = [Some (sample_handle\<lparr>prime_fd := 21,
        gh_width := 640, gh_height := 480, gh_format := 1, gh_usage := 0x33, gh_stride := 80\<rparr>)], res_stride = 80\<rparr>, s')"
    by (simp add: aselectBackendByType_def dma_run_simps sample_allocator_def sample_odd_desc_def int_result_def Let_def sdiv32_def sample_handle_def)
  then show ?thesis using unsupported_request_served_by_last_backend [OF 1 2 _ 3] 1 by simp
qed

lemma low_half: "ucast (ucast (u :: i64) :: u32) = (take_bit 32 u :: i64)"
  by (intro bit_word_eqI) (auto simp: bit_simps)

lemma low_half_id: "take_bit 32 u = u \<longleftrightarrow> drop_bit 32 u = 0" for u :: i64
proof -
  have "u = push_bit 32 (drop_bit 32 u) + take_bit 32 u" by (simp add: bits_ident)
  moreover have "take_bit 32 u = u \<Longrightarrow> drop_bit 32 u = 0" by (metis drop_bit_take_bit diff_self_eq_0 take_bit_0)
  ultimately show ?thesis by auto
qed

text \<open>The conversion of a descriptor succeeds only for a nonzero size and at most one layer, and
  then keeps size, layers, format and name; of the usage and the reserved size it keeps the low 32 bits,
  so a usage survives exactly when its upper half is zero. A negative width or height passes.\<close>

theorem descriptor_conversion:
  assumes "generateGrallocGenericDesc P info (Some d0) w = Inr (0, Some d, w')"
  shows "bd_width info \<noteq> 0 \<and> bd_height info \<noteq> 0 \<and> sint (bd_layerCount info) \<le> 1
    \<and> ad_width d = bd_width info \<and> ad_height d = bd_height info \<and> ad_layer_count d = bd_layerCount info
    \<and> ad_format d = bd_format info \<and> ad_name d = Some (bd_name info)
    \<and> ad_usage d = take_bit 32 (bd_usage info) \<and> ad_reserved_size d = take_bit 32 (bd_reservedSize info)
    \<and> (ad_usage d = bd_usage info \<longleftrightarrow> drop_bit 32 (bd_usage info) = 0)"
  using assms
  by (auto simp: generateGrallocGenericDesc_def Let_def low_half low_half_id errno_defs split: if_splits prod.splits)

definition sample_desc_info :: BufferDescriptorInfo where
  "sample_desc_info = \<lparr>bd_name = ''ui'', bd_width = 640, bd_height = 480, bd_layerCount = 1, bd_format = 1,
     bd_usage = 0x100000133, bd_reservedSize = 0, bd_options = []\<rparr>"

theorem descriptor_conversion_witness:
  "\<exists>d w'. generateGrallocGenericDesc sample_platform sample_desc_info (Some zero_desc) sample_world = Inr (0, Some d, w')
    \<and> ad_usage d = 0x133"
proof -
  obtain d w' where run: "generateGrallocGenericDesc sample_platform sample_desc_info (Some zero_desc) sample_world = Inr (0, Some d, w')"
    by (simp add: generateGrallocGenericDesc_def sample_desc_info_def malloc_def sample_oom_def Let_def)
  from descriptor_conversion [OF run] run show ?thesis by (simp add: sample_desc_info_def)
qed

text \<open>When the DMA-BUF heap has no buffer, the handle made for it is lost: the request fails with
  \<open>NO_RESOURCES\<close> and the handle stays allocated in the service.\<close>

theorem dma_failure_leaks_handle:
  assumes "aenv_ok E live" and "holds (aplat E) live (ag s) M"
    and "admabuf_allocate2 E d 1 out s = Inr (ToBinderStatus NO_RESOURCES, out', s')"
    and "\<And>e. fst (native_handle_create (api (aplat E)) e) \<noteq> None"
  shows "\<exists>h g. h \<notin> dom (handles (ag s)) \<and> handles (ag s') = (handles (ag s))(h \<mapsto> g)"
proof -
  obtain sz w1 where r: "dma_buffers E d sz (Suc 0) [] (ag s) = Inr (None, w1)" "s' = s\<lparr>ag := w1\<rparr>"
    using assms(3) by (auto simp: admabuf_allocate2_def and_then_eq_Inr split: if_splits option.splits)
  obtain h w2 where h: "gralloc_handle_create (aplat E) (bd_width d) (bd_height d) (bd_format d) (ucast (bd_usage d)) (ag s) = (h, w2)"
    by force
  have "h \<noteq> NULL" using h assms(4) [of "ext (ag s)"]
    by (auto simp: gralloc_handle_create_def Let_def split: option.splits prod.splits)
  then obtain g where g: "brk (ag s) < h" "handles w2 = (handles (ag s))(h \<mapsto> g)"
    using create_holds(3) [OF assms(1,2) h] by blast
  have "handles w1 = handles w2"
    using r(1) h by (auto simp: Let_def res_simps split: if_splits prod.splits)
  moreover have "h \<notin> dom (handles (ag s))" using holds_handles [OF assms(2)] g(1) by auto
  ultimately show ?thesis using r(2) g(2) by auto
qed

text \<open>A heap that is exhausted.\<close>

definition sample_empty_env :: "addr option list alloc_env" where
  "sample_empty_env = sample_alloc_env\<lparr>AllocSystem := \<lambda>_ _ e. (- 12, e)\<rparr>"

theorem dma_failure_leaks_handle_witness:
  "\<exists>s' h g. admabuf_allocate2 sample_empty_env sample_blob_desc 1 \<lparr>res_buffers = [], res_stride = 0\<rparr> sample_allocator
      = Inr (ToBinderStatus NO_RESOURCES, \<lparr>res_buffers = [], res_stride = 0\<rparr>, s')
    \<and> handles (ag s') = (handles (ag sample_allocator))(h \<mapsto> g)"
proof -
  have env: "aenv_ok sample_empty_env sample_live"
    using sample_alloc_env_ok by (simp add: aenv_ok_def sample_empty_env_def sample_alloc_env_def)
  have h: "holds (aplat sample_empty_env) sample_live (ag sample_allocator) {#}"
    using sample_allocator_idle by (simp add: idle_def sample_empty_env_def)
  obtain s' where run: "admabuf_allocate2 sample_empty_env sample_blob_desc 1 \<lparr>res_buffers = [], res_stride = 0\<rparr> sample_allocator
      = Inr (ToBinderStatus NO_RESOURCES, \<lparr>res_buffers = [], res_stride = 0\<rparr>, s')"
    by (simp add: dma_run_simps sample_allocator_def sample_empty_env_def sample_blob_desc_def int_result_def Let_def)
  from dma_failure_leaks_handle [OF env h run] run show ?thesis
    by (auto simp: sample_empty_env_def sample_api_def)
qed

end
