(* ===== verification/Allocator_Threads.thy ===== *)
theory Allocator_Threads
  imports Allocator_Props
begin

text \<open>
  The allocator service under its binder threads. \<^verbatim>\<open>Main.cpp\<close> starts a pool of four, and each request
  runs in one of them, with no lock: \<open>selectBackend\<close> asks the back ends and stores its choice in the member
  \<open>mBackend\<close>, \<open>CHECK_BACKEND\<close> reads the member up to three times, and the call reads it again. Another
  thread may run between any two of these. A thread is cut into steps that each do at most one access of the
  member and at most one call of a back end. A call of a back end is one step: two calls that overlap inside
  the library (its driver pointer, its hash table) race on plain memory, for which C says nothing, and are
  not modelled.
\<close>

section \<open>Threads\<close>

datatype binder_request =
    Allocate2 BufferDescriptorInfo i32 AllocationResult
  | IsSupported BufferDescriptorInfo bool

datatype binder_answer = Allocated AllocationResult | Supported bool

text \<open>Where a thread is in its request; \<open>Storing\<close> holds the local variable \<open>backend\<close> of \<open>selectBackend\<close>.\<close>

datatype binder_thread =
    Waiting
  | Querying binder_request
  | QueryingHeap binder_request
  | Storing binder_request AllocatorBackendType
  | Checking binder_request
  | Probing binder_request
  | Starting binder_request
  | Serving binder_request
  | Answered binder_request status binder_answer

fun request_desc :: "binder_request \<Rightarrow> BufferDescriptorInfo" where
  "request_desc (Allocate2 d n out) = d"
| "request_desc (IsSupported d out) = d"

text \<open>A query with an option other than the dataspace is answered at once.\<close>

fun denied :: "binder_request \<Rightarrow> bool" where
  "denied (Allocate2 d n out) = False"
| "denied (IsSupported d out) = (\<not> only_dataspace (bd_options d))"

text \<open>The answer of a request that \<open>CHECK_BACKEND\<close> refuses.\<close>

fun no_backend :: "binder_request \<Rightarrow> binder_thread" where
  "no_backend (Allocate2 d n out) = Answered (Allocate2 d n out) (ToBinderStatus NO_RESOURCES) (Allocated out)"
| "no_backend (IsSupported d out) = Answered (IsSupported d out) (ToBinderStatus NO_RESOURCES) (Supported out)"

text \<open>\<open>mBackend->\<close>: the member as it is now.\<close>

definition member_backend :: "'e alloc_env \<Rightarrow> 'e allocator \<Rightarrow> 'e alloc_backend res" where
  "member_backend E s = (case aBackend s of None \<Rightarrow> Inl NullDeref | Some t \<Rightarrow> Inr (aselectBackendByType E t))"

fun thread_step :: "'e alloc_env \<Rightarrow> binder_thread \<Rightarrow> 'e allocator \<Rightarrow> (binder_thread \<times> 'e allocator) res" where
  "thread_step E (Querying r) s =
    (if denied r then Inr (Answered r Ok (Supported False), s)
     else and_then (isSupported (aselectBackendByType E ALLOCATOR_GRALLOC_GBM) (request_desc r) False s)
       (\<lambda>(_, supported, s1). Inr (if supported then Storing r ALLOCATOR_GRALLOC_GBM else QueryingHeap r, s1)))"
| "thread_step E (QueryingHeap r) s =
    and_then (isSupported (aselectBackendByType E ALLOCATOR_GRALLOC_DMABUF) (request_desc r) False s)
      (\<lambda>(_, supported, s1). Inr (if supported then Storing r ALLOCATOR_GRALLOC_DMABUF else Checking r, s1))"
| "thread_step E (Storing r t) s = Inr (Checking r, s\<lparr>aBackend := Some t\<rparr>)"
| "thread_step E (Checking r) s = Inr (if aBackend s = None then no_backend r else Probing r, s)"
| "thread_step E (Probing r) s =
    and_then (member_backend E s) (\<lambda>B. and_then (isReady B s) (\<lambda>b. Inr (if b then Serving r else Starting r, s)))"
| "thread_step E (Starting r) s =
    and_then (member_backend E s) (\<lambda>B. and_then (init B s) (\<lambda>(ret, s1). Inr (if ret \<noteq> 0 then no_backend r else Serving r, s1)))"
| "thread_step E (Serving r) s =
    and_then (member_backend E s) (\<lambda>B.
      case r of
        Allocate2 d n out \<Rightarrow> and_then (allocate2 B d n out s) (\<lambda>(st, out', s1). Inr (Answered r st (Allocated out'), s1))
      | IsSupported d out \<Rightarrow> and_then (isSupported B d out s) (\<lambda>(st, out', s1). Inr (Answered r st (Supported out'), s1)))"
| "thread_step E Waiting s = Inr (Waiting, s)"
| "thread_step E (Answered r st a) s = Inr (Answered r st a, s)"

text \<open>The states of the pool: a thread takes a request, takes a step, or has its answer fetched.\<close>

inductive pool :: "'e alloc_env \<Rightarrow> (nat \<Rightarrow> binder_thread) \<Rightarrow> 'e allocator \<Rightarrow> bool" for E :: "'e alloc_env" where
  start: "allocator_reachable E s \<Longrightarrow> pool E (\<lambda>_. Waiting) s"
| accept: "pool E ts s \<Longrightarrow> ts i = Waiting \<Longrightarrow> i < 4 \<Longrightarrow> pool E (ts(i := Querying r)) s"
| run: "pool E ts s \<Longrightarrow> thread_step E (ts i) s = Inr (t, s') \<Longrightarrow> pool E (ts(i := t)) s'"
| fetch: "pool E ts s \<Longrightarrow> ts i = Answered r st a \<Longrightarrow> pool E (ts(i := Waiting)) s"

section \<open>A thread that is not interrupted\<close>

text \<open>Several steps of one thread in a row.\<close>

fun thread_run :: "nat \<Rightarrow> 'e alloc_env \<Rightarrow> binder_thread \<Rightarrow> 'e allocator \<Rightarrow> (binder_thread \<times> 'e allocator) res" where
  "thread_run 0 E t s = Inr (t, s)"
| "thread_run (Suc n) E t s = and_then (thread_step E t s) (\<lambda>(t', s'). thread_run n E t' s')"

lemma thread_run_answered [simp]: "thread_run n E (Answered r st a) s = Inr (Answered r st a, s)"
  by (induction n) simp_all

lemma pool_thread_run: "pool E ts s \<Longrightarrow> thread_run n E (ts i) s = Inr (t, s') \<Longrightarrow> pool E (ts(i := t)) s'"
proof (induction n arbitrary: ts s)
  case (Suc n)
  then obtain t1 s1 where 1: "thread_step E (ts i) s = Inr (t1, s1)" "thread_run n E t1 s1 = Inr (t, s')"
    by (auto simp: and_then_eq_Inr)
  have "thread_run n E ((ts(i := t1)) i) s1 = Inr (t, s')" using 1(2) by simp
  from Suc.IH [OF pool.run [OF Suc.prems(1) 1(1)] this] show ?case by (simp only: fun_upd_upd)
next
  case 0
  then have "ts(i := t) = ts" "s' = s" by auto
  then show ?case using 0(1) by simp
qed

text \<open>No back end stores to the member.\<close>

lemma backends_keep_member:
  "isSupported (aselectBackendByType E t) d b s = Inr (st, b', s') \<Longrightarrow> aBackend s' = aBackend s"
  "init (aselectBackendByType E t) s = Inr (r, s') \<Longrightarrow> aBackend s' = aBackend s"
  "allocate2 (aselectBackendByType E t) d n out s = Inr (st, out', s') \<Longrightarrow> aBackend s' = aBackend s"
  by (cases t; auto simp: aselectBackendByType_def AllocatorBackendGrallocGbm_def AllocatorBackendDmaBuf_def
      agbm_isSupported_def admabuf_isSupported_def agbm_init_def admabuf_init_def on_ag_def agbm_allocate2_def
      admabuf_allocate2_def and_then_eq_Inr split: if_splits option.splits bool.splits)+

text \<open>Seven steps are enough for a request, and without interruption they are the call of the service.\<close>

lemma check_and_serve:
  "thread_run 4 E (Checking (Allocate2 d n out)) s
    = and_then (ACHECK_BACKEND E s) (\<lambda>(b, s2).
        and_then (case b of None \<Rightarrow> Inr (ToBinderStatus NO_RESOURCES, out, s2) | Some B \<Rightarrow> allocate2 B d n out s2)
          (\<lambda>(st, out', s'). Inr (Answered (Allocate2 d n out) st (Allocated out'), s')))"
proof (cases "aBackend s")
  case None
  then show ?thesis by (simp add: ACHECK_BACKEND_def eval_nat_numeral)
next
  case (Some t)
  let ?B = "aselectBackendByType E t"
  consider (fault) e where "isReady ?B s = Inl e" | (ready) "isReady ?B s = Inr True"
    | (bad) e where "isReady ?B s = Inr False" "init ?B s = Inl e"
    | (up) r s1 where "isReady ?B s = Inr False" "init ?B s = Inr (r, s1)"
    by (metis (full_types) obj_sumE surj_pair)
  then show ?thesis
  proof cases
    case up
    then have "aBackend s1 = Some t" using backends_keep_member(2) [OF up(2)] Some by simp
    then show ?thesis using up Some
      by (cases "r = 0") (auto simp: ACHECK_BACKEND_def member_backend_def eval_nat_numeral and_then_def split: sum.splits)
  qed (use Some in \<open>auto simp: ACHECK_BACKEND_def member_backend_def eval_nat_numeral and_then_def split: sum.splits\<close>)
qed

lemma thread_run_plus:
  "thread_run (m + n) E t s = and_then (thread_run m E t s) (\<lambda>(t', s'). thread_run n E t' s')"
  by (induction m arbitrary: t s) (auto simp: and_then_def split: sum.splits)

lemma check_and_serve_more:
  "thread_run (4 + k) E (Checking (Allocate2 d n out)) s = thread_run 4 E (Checking (Allocate2 d n out)) s"
  unfolding thread_run_plus check_and_serve
  by (auto simp: and_then_def split: sum.splits)

lemma uninterrupted_allocate2:
  "thread_run 7 E (Querying (Allocate2 d n out)) s
    = and_then (allocator_allocate2 E d n out s) (\<lambda>(st, out', s'). Inr (Answered (Allocate2 d n out) st (Allocated out'), s'))"
proof -
  let ?r = "Allocate2 d n out"
  have one: "thread_run (1 + k) E t u = and_then (thread_step E t u) (\<lambda>(t', s'). thread_run k E t' s')" for k t and u :: "'a allocator"
    by simp
  have 5: "thread_run 5 E (Storing ?r t) u = thread_run 4 E (Checking ?r) (u\<lparr>aBackend := Some t\<rparr>)"
    "thread_run 5 E (Checking ?r) u = thread_run 4 E (Checking ?r) u" for t u
    using one [of 4 "Storing ?r t" u] check_and_serve_more [of 1 E d n out u] by simp_all
  have 6: "thread_run 6 E (Storing ?r t) u = thread_run 4 E (Checking ?r) (u\<lparr>aBackend := Some t\<rparr>)" for t u
    using one [of 5 "Storing ?r t" u] check_and_serve_more [of 1 E d n out "u\<lparr>aBackend := Some t\<rparr>"] by simp
  have "thread_run 7 E (Querying ?r) s = and_then (aselectBackend E d s) (\<lambda>(_, s1). thread_run 4 E (Checking ?r) s1)"
    using one [of 6 "Querying ?r" s] one [of 5 "QueryingHeap ?r"]
    by (auto simp: aselectBackend_def and_then_def 5 6 split: sum.splits)
  then show ?thesis
    unfolding check_and_serve by (auto simp: allocator_allocate2_def and_then_def split: sum.splits option.splits)
qed

section \<open>What an answer promises\<close>

fun answer_ok :: "'e alloc_env \<Rightarrow> binder_request \<Rightarrow> status \<Rightarrow> binder_answer \<Rightarrow> bool" where
  "answer_ok E (Allocate2 d n out) st (Allocated out') =
    (if st = Ok then int (length (res_buffers out')) = sint n \<and> (\<forall>c \<in> set (res_buffers out'). delivers E d c)
     else out' = out)"
| "answer_ok E (IsSupported d out) st (Supported b) = (only_dataspace (bd_options d) \<or> st = Ok \<and> \<not> b)"
| "answer_ok E _ st _ = False"

text \<open>A thread past its checks loads a member that is set; one past the options has none to deny.\<close>

fun thread_ok :: "'e alloc_env \<Rightarrow> 'e allocator \<Rightarrow> binder_thread \<Rightarrow> bool" where
  "thread_ok E s (Answered r st a) = answer_ok E r st a"
| "thread_ok E s Waiting = True"
| "thread_ok E s (Querying r) = True"
| "thread_ok E s (QueryingHeap r) = (\<not> denied r)"
| "thread_ok E s (Storing r t) = (\<not> denied r)"
| "thread_ok E s (Checking r) = (\<not> denied r)"
| "thread_ok E s (Probing r) = (\<not> denied r \<and> aBackend s \<noteq> None)"
| "thread_ok E s (Starting r) = (\<not> denied r \<and> aBackend s \<noteq> None)"
| "thread_ok E s (Serving r) = (\<not> denied r \<and> aBackend s \<noteq> None)"

lemma no_backend_ok: "\<not> denied r \<Longrightarrow> thread_ok E s (no_backend r)"
  by (cases r) auto

lemma thread_ok_mono: "thread_ok E s t \<Longrightarrow> aBackend s \<noteq> None \<longrightarrow> aBackend s' \<noteq> None \<Longrightarrow> thread_ok E s' t"
  by (cases t) auto

text \<open>A step keeps what the states of the threads promise, and never resets the member.\<close>

lemma thread_step_ok:
  assumes s: "idle E live s" and t: "thread_ok E s t" and run: "thread_step E t s = Inr (t', s')"
  shows "idle E live s' \<and> thread_ok E s' t' \<and> (aBackend s \<noteq> None \<longrightarrow> aBackend s' \<noteq> None)"
proof -
  note good = allocator_backend.supported_good [OF aselected_ok s] allocator_backend.init_good [OF aselected_ok s]
    allocator_backend.allocate_good [OF aselected_ok s] allocator_backend.allocate_result [OF aselected_ok s]
  show ?thesis
  proof (cases t)
    case (Querying r)
    then show ?thesis using run s good(1) backends_keep_member(1)
      by (cases r) (fastforce simp: and_then_eq_Inr split: if_splits)+
  next
    case (QueryingHeap r)
    then show ?thesis using run t good(1) backends_keep_member(1) by (fastforce simp: and_then_eq_Inr split: if_splits)
  next
    case (Checking r)
    then show ?thesis using run s t no_backend_ok by (auto split: if_splits)
  next
    case (Probing r)
    then show ?thesis using run s t by (auto simp: and_then_eq_Inr split: if_splits)
  next
    case (Starting r)
    then obtain b ret where b: "aBackend s = Some b" "init (aselectBackendByType E b) s = Inr (ret, s')"
      "t' = (if ret \<noteq> 0 then no_backend r else Serving r)"
      using run t by (auto simp: and_then_eq_Inr member_backend_def)
    then show ?thesis using Starting t good(2) [OF b(2)] backends_keep_member(2) [OF b(2)] no_backend_ok by auto
  next
    case (Serving r)
    then obtain b where b: "aBackend s = Some b" using t by auto
    show ?thesis
    proof (cases r)
      case (Allocate2 d n out)
      then obtain st out' where a: "allocate2 (aselectBackendByType E b) d n out s = Inr (st, out', s')"
        "t' = Answered r st (Allocated out')"
        using run Serving b by (auto simp: and_then_eq_Inr member_backend_def)
      show ?thesis using good(3,4) [OF a(1)] backends_keep_member(3) [OF a(1)] b by (auto simp: a(2) Allocate2 split: if_splits)
    next
      case (IsSupported d out)
      then obtain st b' where a: "isSupported (aselectBackendByType E b) d out s = Inr (st, b', s')"
        "t' = Answered r st (Supported b')"
        using run Serving b by (auto simp: and_then_eq_Inr member_backend_def)
      show ?thesis using good(1) [OF a(1)] backends_keep_member(1) [OF a(1)] b t Serving by (auto simp: a(2) IsSupported)
    qed
  qed (use assms in auto)
qed

lemma pool_ok: "pool E ts s \<Longrightarrow> aenv_ok E live \<Longrightarrow> idle E live s \<and> (\<forall>i. thread_ok E s (ts i))"
proof (induction rule: pool.induct)
  case (run ts s i t s')
  then have k: "idle E live s' \<and> thread_ok E s' t \<and> (aBackend s \<noteq> None \<longrightarrow> aBackend s' \<noteq> None)"
    using thread_step_ok by blast
  then have "thread_ok E s' (ts j)" for j using run thread_ok_mono by blast
  then show ?case using k by simp
qed (auto intro: reachable_idle)

section \<open>The properties\<close>

text \<open>C6: the threads of the pool, interleaved at every access of \<open>mBackend\<close> and every call of a back end.
  Whatever the order, each answer keeps the contract of its own request: an allocation answered \<open>ok()\<close>
  delivers as many buffers as that request asked for, of its format and its usage, whichever back end
  serves it after another thread has changed the member; a refused one leaves its result; and a request
  with an option other than the dataspace is answered with false. A thread past the NULL test of
  \<open>CHECK_BACKEND\<close> never finds the member NULL. Between two steps the GBM library's table is empty. Calls of
  back ends that overlap in time are outside the statement: the library takes no lock.\<close>

theorem interleaved_requests_keep_contract:
  assumes "pool E ts s" and "aenv_ok E live"
  shows "gbm_ok (aplat E) live (ag s) [] \<and> (\<forall>i r st a. ts i = Answered r st a \<longrightarrow> answer_ok E r st a)
    \<and> (\<forall>i r. ts i \<in> {Probing r, Starting r, Serving r} \<longrightarrow> aBackend s \<noteq> None)"
proof -
  note ok = pool_ok [OF assms]
  have "answer_ok E r st a" if "ts i = Answered r st a" for i r st a
    using ok that thread_ok.simps(1) by metis
  moreover have "aBackend s \<noteq> None" if "ts i \<in> {Probing r, Starting r, Serving r}" for i r
    using spec [OF conjunct2 [OF ok], of i] that by auto
  ultimately show ?thesis using ok by (auto simp: idle_def holds_empty)
qed

text \<open>A blob is allocated by one thread while another has taken a request.\<close>

lemma sample_blob_steps:
  "thread_run 3 sample_alloc_env (Querying (Allocate2 sample_blob_desc 1 out)) (blank_allocator [])
    = Inr (Checking (Allocate2 sample_blob_desc 1 out), (blank_allocator [])\<lparr>aBackend := Some ALLOCATOR_GRALLOC_DMABUF\<rparr>)"
  "\<exists>out' s'. thread_run 4 sample_alloc_env (Checking (Allocate2 sample_blob_desc 1 out))
      ((blank_allocator [])\<lparr>aBackend := Some ALLOCATOR_GRALLOC_DMABUF\<rparr>)
    = Inr (Answered (Allocate2 sample_blob_desc 1 out) Ok (Allocated out'), s')"
  by (simp_all add: eval_nat_numeral member_backend_def aselectBackendByType_def AllocatorBackendGrallocGbm_def
      agbm_isSupported_def dma_run_simps admabuf_init_def sample_blob_desc_def aosp_hal_def int_result_def Let_def)

theorem interleaved_requests_keep_contract_witness:
  "\<exists>s' out'. pool sample_alloc_env (\<lambda>i. if i = 0 then Answered (Allocate2 sample_blob_desc 1 \<lparr>res_buffers = [], res_stride = 0\<rparr>) Ok (Allocated out')
        else if i = 1 then Querying (IsSupported sample_odd_desc True) else Waiting) s'
    \<and> length (res_buffers out') = 1 \<and> gbm_ok sample_platform sample_live (ag s') []"
proof -
  let ?r = "Allocate2 sample_blob_desc 1 \<lparr>res_buffers = [], res_stride = 0\<rparr>"
  let ?q = "Querying (IsSupported sample_odd_desc True)"
  obtain out' s' where 2: "thread_run 4 sample_alloc_env (Checking ?r) ((blank_allocator [])\<lparr>aBackend := Some ALLOCATOR_GRALLOC_DMABUF\<rparr>)
      = Inr (Answered ?r Ok (Allocated out'), s')"
    using sample_blob_steps(2) by blast
  note p0 = pool.accept [OF pool.start [OF allocator_reachable.start, of sample_alloc_env "[]"], of 0 ?r]
  have p1: "pool sample_alloc_env ((\<lambda>_. Waiting)(0 := Checking ?r)) ((blank_allocator [])\<lparr>aBackend := Some ALLOCATOR_GRALLOC_DMABUF\<rparr>)"
    using pool_thread_run [OF p0, of 3 0] sample_blob_steps(1) by simp
  have p2: "pool sample_alloc_env ((\<lambda>_. Waiting)(0 := Checking ?r, 1 := ?q)) ((blank_allocator [])\<lparr>aBackend := Some ALLOCATOR_GRALLOC_DMABUF\<rparr>)"
    using pool.accept [OF p1, of 1 "IsSupported sample_odd_desc True"] by simp
  have p3: "pool sample_alloc_env ((\<lambda>_. Waiting)(0 := Answered ?r Ok (Allocated out'), 1 := ?q)) s'"
    using pool_thread_run [OF p2, of 4 0] 2 by (simp add: fun_upd_twist)
  have ts: "(\<lambda>_. Waiting)(0 := Answered ?r Ok (Allocated out'), 1 := ?q)
      = (\<lambda>i :: nat. if i = 0 then Answered ?r Ok (Allocated out') else if i = 1 then ?q else Waiting)"
    by (rule ext) simp
  note all = interleaved_requests_keep_contract [OF p3 sample_alloc_env_ok]
  have "length (res_buffers out') = 1" using spec [OF conjunct1 [OF conjunct2 [OF all]], of 0] by simp
  then show ?thesis using all p3 [unfolded ts] by auto
qed

text \<open>C27: the race on the back end. A thread selects the DMA-BUF heap for a blob and stores its choice, a
  second thread then selects the GBM back end for a request of its own and stores that; the first goes on
  to check and call the member and is served by the GBM back end, whereas the call that is not interrupted
  is served by the heap.\<close>

theorem selection_race:
  assumes "bd_format d = HAL_PIXEL_FORMAT_BLOB (hal (aplat E))" and "bd_height d = 1"
    and "allocators s \<noteq> 0" and "\<not> heap_list_empty E (ext (ag s))"
    and "isSupported (AllocatorBackendGrallocGbm E) d' False (s\<lparr>aBackend := Some ALLOCATOR_GRALLOC_DMABUF\<rparr>) = Inr (st, True, s1)"
    and "agbm_isReady E s1 = Inr True"
  shows "thread_run 3 E (Querying (Allocate2 d n out)) s
      = Inr (Checking (Allocate2 d n out), s\<lparr>aBackend := Some ALLOCATOR_GRALLOC_DMABUF\<rparr>)
    \<and> thread_run 2 E (Querying (Allocate2 d' n' out')) (s\<lparr>aBackend := Some ALLOCATOR_GRALLOC_DMABUF\<rparr>)
      = Inr (Checking (Allocate2 d' n' out'), s1\<lparr>aBackend := Some ALLOCATOR_GRALLOC_GBM\<rparr>)
    \<and> thread_run 3 E (Checking (Allocate2 d n out)) (s1\<lparr>aBackend := Some ALLOCATOR_GRALLOC_GBM\<rparr>)
      = and_then (agbm_allocate2 E d n out (s1\<lparr>aBackend := Some ALLOCATOR_GRALLOC_GBM\<rparr>))
          (\<lambda>(st, out1, s2). Inr (Answered (Allocate2 d n out) st (Allocated out1), s2))
    \<and> allocator_allocate2 E d n out s = admabuf_allocate2 E d n out (s\<lparr>aBackend := Some ALLOCATOR_GRALLOC_DMABUF\<rparr>)"
proof (intro conjI)
  have sel: "aselectBackend E d s = Inr (0, s\<lparr>aBackend := Some ALLOCATOR_GRALLOC_DMABUF\<rparr>)"
    using assms(1,2) by (simp add: aselectBackend_def aselectBackendByType_def AllocatorBackendGrallocGbm_def
        AllocatorBackendDmaBuf_def agbm_isSupported_def admabuf_isSupported_def)
  show "thread_run 3 E (Querying (Allocate2 d n out)) s
      = Inr (Checking (Allocate2 d n out), s\<lparr>aBackend := Some ALLOCATOR_GRALLOC_DMABUF\<rparr>)"
    using assms(1,2) by (simp add: eval_nat_numeral aselectBackendByType_def AllocatorBackendGrallocGbm_def
        AllocatorBackendDmaBuf_def agbm_isSupported_def admabuf_isSupported_def)
  show "thread_run 2 E (Querying (Allocate2 d' n' out')) (s\<lparr>aBackend := Some ALLOCATOR_GRALLOC_DMABUF\<rparr>)
      = Inr (Checking (Allocate2 d' n' out'), s1\<lparr>aBackend := Some ALLOCATOR_GRALLOC_GBM\<rparr>)"
    using assms(5) by (simp add: eval_nat_numeral aselectBackendByType_def)
  have "agbm_isReady E (s1\<lparr>aBackend := Some ALLOCATOR_GRALLOC_GBM\<rparr>) = Inr True"
    using assms(6) by (simp add: agbm_isReady_def)
  then show "thread_run 3 E (Checking (Allocate2 d n out)) (s1\<lparr>aBackend := Some ALLOCATOR_GRALLOC_GBM\<rparr>)
      = and_then (agbm_allocate2 E d n out (s1\<lparr>aBackend := Some ALLOCATOR_GRALLOC_GBM\<rparr>))
          (\<lambda>(st, out1, s2). Inr (Answered (Allocate2 d n out) st (Allocated out1), s2))"
    by (auto simp: eval_nat_numeral member_backend_def aselectBackendByType_def AllocatorBackendGrallocGbm_def and_then_def split: sum.splits)
  show "allocator_allocate2 E d n out s = admabuf_allocate2 E d n out (s\<lparr>aBackend := Some ALLOCATOR_GRALLOC_DMABUF\<rparr>)"
    using assms(3,4) by (simp add: sel allocator_allocate2_def ACHECK_BACKEND_def aselectBackendByType_def
        AllocatorBackendDmaBuf_def admabuf_isReady_def Let_def)
qed

text \<open>A device that knows one format only: the blob is refused, and would not be if it ran alone.\<close>

definition sample_picky_env :: "addr option list alloc_env" where
  "sample_picky_env = sample_alloc_env\<lparr>aplat := sample_platform\<lparr>api := sample_api\<lparr>gbm_device_is_format_supported :=
     \<lambda>_ f _ _. f = GBM_FORMAT_ABGR8888\<rparr>\<rparr>\<rparr>"

definition sample_ready_allocator :: "addr option list allocator" where
  "sample_ready_allocator = \<lparr>ag = (blank_world [])\<lparr>g_driver := Some (Live sample_driver)\<rparr>, allocators = 1, aBackend = None\<rparr>"

definition sample_ui_desc :: BufferDescriptorInfo where
  "sample_ui_desc = \<lparr>bd_name = ''ui'', bd_width = 640, bd_height = 480, bd_layerCount = 1, bd_format = 1,
     bd_usage = 0x33, bd_reservedSize = 0, bd_options = []\<rparr>"

lemma sample_ready_run:
  "is_gralloc_gbm_ready P (ag sample_ready_allocator) = Inr True"
  "is_gralloc_gbm_ready P (ag (sample_ready_allocator\<lparr>aBackend := b\<rparr>)) = Inr True"
  by (simp_all add: sample_ready_allocator_def is_gralloc_gbm_ready_def sample_driver_def)

lemma sample_picky_env_fields [simp]:
  "hal (aplat sample_picky_env) = aosp_hal" "mem_oom (aplat sample_picky_env) = sample_oom"
  by (simp_all add: sample_picky_env_def)

lemma picky_formats: "color_fmt_a2g aosp_hal 1 = GBM_FORMAT_ABGR8888" "color_fmt_a2g aosp_hal 0x21 \<noteq> GBM_FORMAT_ABGR8888"
  by code_simp+

lemma picky_flags: "gralloc_gbm_calculate_gbm_flags (aplat sample_picky_env) 0x33 f = 16"
  by (simp add: gralloc_gbm_calculate_gbm_flags_def aosp_usage_def sample_picky_env_def sample_platform_def Let_def gbm_flags)

lemma picky_supported:
  assumes "g_driver w = Some (Live sample_driver)" "sint (ad_width d) \<le> 16384" "sint (ad_height d) \<le> 16384" "ad_usage d = 0x33"
  shows "gralloc_gbm_is_allocator_desc_supported (aplat sample_picky_env) (Some d) w
    = Inr (color_fmt_a2g aosp_hal (ad_format d) = GBM_FORMAT_ABGR8888)"
proof -
  have "(color_fmt_a2g aosp_hal (ad_format d) \<le> 0) = False" using a2g_not_0 by simp
  then show ?thesis
    using assms by (simp add: gralloc_gbm_is_allocator_desc_supported_def is_gralloc_gbm_ready_def deref_driver_def
        sample_driver_def picky_flags gbm_flags GRALLOC_GBM_WIDTH_MAX_def GRALLOC_GBM_HEIGHT_MAX_def Let_def)
      (simp add: sample_picky_env_def)
qed

lemma picky_generate:
  assumes "d = sample_ui_desc \<or> d = sample_blob_desc"
  shows "\<exists>ds. generateGrallocGenericDesc (aplat sample_picky_env) d (Some zero_desc) w = Inr (0, Some ds, w\<lparr>brk := Suc (brk w)\<rparr>)
    \<and> sint (ad_width ds) \<le> 16384 \<and> sint (ad_height ds) \<le> 16384 \<and> ad_usage ds = 0x33 \<and> ad_format ds = ucast (bd_format d)"
  using assms
  by (auto simp: generateGrallocGenericDesc_def malloc_def sample_oom_def sample_ui_desc_def sample_blob_desc_def Let_def)

definition no_buffers :: AllocationResult where
  "no_buffers = \<lparr>res_buffers = [], res_stride = 0\<rparr>"

theorem selection_race_witness:
  "\<exists>s1 s2 s3 s4 out1.
      thread_run 3 sample_picky_env (Querying (Allocate2 sample_blob_desc 1 no_buffers)) sample_ready_allocator
        = Inr (Checking (Allocate2 sample_blob_desc 1 no_buffers), s1)
    \<and> thread_run 2 sample_picky_env (Querying (Allocate2 sample_ui_desc 1 no_buffers)) s1 = Inr (Checking (Allocate2 sample_ui_desc 1 no_buffers), s2)
    \<and> thread_run 3 sample_picky_env (Checking (Allocate2 sample_blob_desc 1 no_buffers)) s2
        = Inr (Answered (Allocate2 sample_blob_desc 1 no_buffers) (ToBinderStatus UNSUPPORTED) (Allocated no_buffers), s3)
    \<and> allocator_allocate2 sample_picky_env sample_blob_desc 1 no_buffers sample_ready_allocator = Inr (Ok, out1, s4)"
proof -
  let ?E = sample_picky_env
  let ?s = "sample_ready_allocator\<lparr>aBackend := Some ALLOCATOR_GRALLOC_DMABUF\<rparr>"
  have 1: "bd_format sample_blob_desc = HAL_PIXEL_FORMAT_BLOB (hal (aplat ?E))" "bd_height sample_blob_desc = 1"
    "allocators sample_ready_allocator \<noteq> 0" "\<not> heap_list_empty ?E (ext (ag sample_ready_allocator))"
    by (simp_all add: sample_blob_desc_def sample_picky_env_def sample_ready_allocator_def aosp_hal_def)
  obtain ds where g: "generateGrallocGenericDesc (aplat ?E) sample_ui_desc (Some zero_desc) (ag ?s)
      = Inr (0, Some ds, (ag ?s)\<lparr>brk := Suc (brk (ag ?s))\<rparr>)" "sint (ad_width ds) \<le> 16384" "sint (ad_height ds) \<le> 16384"
      "ad_usage ds = 0x33" "ad_format ds = 1"
    using picky_generate [of sample_ui_desc "ag ?s"] by (auto simp: sample_ui_desc_def)
  obtain s1 where 2: "isSupported (AllocatorBackendGrallocGbm ?E) sample_ui_desc False ?s = Inr (Ok, True, s1)"
      "g_driver (ag s1) = Some (Live sample_driver)"
  proof -
    have f: "bd_format sample_ui_desc \<noteq> HAL_PIXEL_FORMAT_BLOB aosp_hal" by (simp add: sample_ui_desc_def aosp_hal_def)
    have d: "g_driver (ag ?s) = Some (Live sample_driver)" by (simp add: sample_ready_allocator_def)
    show ?thesis
      using that g f d picky_supported [of "(ag ?s)\<lparr>brk := Suc (brk (ag ?s))\<rparr>" ds]
      by (simp add: AllocatorBackendGrallocGbm_def agbm_isSupported_def picky_formats)
  qed
  have 3: "agbm_isReady ?E s1 = Inr True"
    using 2(2) by (simp add: agbm_isReady_def is_gralloc_gbm_ready_def sample_driver_def)
  obtain s3 where 4: "agbm_allocate2 ?E sample_blob_desc 1 no_buffers (s1\<lparr>aBackend := Some ALLOCATOR_GRALLOC_GBM\<rparr>)
      = Inr (ToBinderStatus UNSUPPORTED, no_buffers, s3)"
  proof -
    obtain db where b: "generateGrallocGenericDesc (aplat ?E) sample_blob_desc (Some zero_desc) (ag s1)
        = Inr (0, Some db, (ag s1)\<lparr>brk := Suc (brk (ag s1))\<rparr>)" "sint (ad_width db) \<le> 16384" "sint (ad_height db) \<le> 16384"
        "ad_usage db = 0x33" "ad_format db = 0x21"
      using picky_generate [of sample_blob_desc "ag s1"] by (auto simp: sample_blob_desc_def)
    then show ?thesis
      using that 2(2) picky_supported [of "(ag s1)\<lparr>brk := Suc (brk (ag s1))\<rparr>" db]
      by (simp add: agbm_allocate2_def grallocGbmAllocate_def picky_formats)
  qed
  have 5: "\<exists>out1 s4. admabuf_allocate2 ?E sample_blob_desc 1 no_buffers ?s = Inr (Ok, out1, s4)"
    by (simp add: dma_run_simps sample_ready_allocator_def sample_picky_env_def sample_blob_desc_def int_result_def Let_def)
  from selection_race [OF 1 2(1) 3] 4 5 show ?thesis by auto
qed

end
