(* ===== verification/Pipeline.thy ===== *)
theory Pipeline
  imports Mapper_Props Allocator_Threads
begin

text \<open>
  The allocator and the mapper together: a buffer made by the service, sent to a client and imported
  there. The handle is duplicated on its way out and cloned on its way in; both copies have a new
  descriptor and the same integers.
\<close>

declare neq0_conv [iff del]

definition copies :: "gralloc_handle_t \<Rightarrow> gralloc_handle_t \<Rightarrow> bool" where
  "copies g g' \<longleftrightarrow> g' = g\<lparr>prime_fd := prime_fd g'\<rparr>"

lemma copiesD:
  assumes "copies g g'"
  shows "gh_format g' = gh_format g" "gh_usage g' = gh_usage g" "gh_height g' = gh_height g"
  using arg_cong [OF assms [unfolded copies_def], of gh_format] arg_cong [OF assms [unfolded copies_def], of gh_usage]
    arg_cong [OF assms [unfolded copies_def], of gh_height] by simp_all

text \<open>The two libraries that copy handles keep their integers.\<close>

definition handles_kept :: "'f alloc_env \<Rightarrow> 'e mapper_env \<Rightarrow> bool" where
  "handles_kept A E \<longleftrightarrow> (\<forall>g e. copies g (fst (dupToAidl A g e)))
     \<and> (\<forall>g e g'. fst (native_handle_clone E g e) = Some g' \<longrightarrow> copies g g')"

text \<open>The codes of the client's library tell success from failure.\<close>

definition codes_differ :: "'e mapper_env \<Rightarrow> bool" where
  "codes_differ E \<longleftrightarrow> AIMAPPER_ERROR_NONE (errs E) \<noteq> AIMAPPER_ERROR_BAD_BUFFER (errs E)
     \<and> AIMAPPER_ERROR_NONE (errs E) \<noteq> AIMAPPER_ERROR_NO_RESOURCES (errs E)"

lemma receive_buffers:
  assumes "gbm_buffers E live m M"
  shows "gbm_buffers E live (receive g n m) M"
proof -
  obtain xs where xs: "gbm_ok (plat E) live (gbm m) xs" "keys (plat E) (gbm m) xs = M"
    using gbm_buffersD(2) [OF assms] by (auto simp: holds_def)
  let ?w = "(gbm m)\<lparr>brk := Suc (brk (gbm m))\<rparr>"
  have "gbm_ok (plat E) live (?w\<lparr>handles := (handles (gbm m))(Suc (brk (gbm m)) \<mapsto> g)\<rparr>) xs"
    by (rule gbm_ok_handles [OF gbm_ok_brk [OF xs(1)]]) (use gbm_buffersD(5) [OF assms] in auto)
  then have "gbm_ok (plat E) live (receive_handle g (gbm m)) xs" by (simp add: receive_handle_def)
  moreover have "keys (plat E) (receive_handle g (gbm m)) xs = M" using xs(2) by (simp add: keys_nodes receive_handle_def)
  moreover have "mapper_ok E live (receive g n m)" using receive_keeps [OF gbm_buffersD(1) [OF assms]] .
  ultimately show ?thesis by (auto simp: gbm_buffers_def holds_def receive_def)
qed

text \<open>A buffer imported by the GBM back end can be queried.\<close>

lemma imported_served:
  assumes m: "gbm_buffers E live m' (add_mset (prime_fd g) M)" and rdy: "ready_in (plat E) (gbm m')"
    and g: "handles (gbm m') c = Some g" "c \<noteq> NULL" "\<not> blob_handle E g" "stride_defined (plat E) (gh_format g)"
  obtains a bd where "gbm_served E live m' c g a bd"
proof -
  obtain a where a: "find_buffer_k (prime_fd g) (gbm m') = Inr a" "a \<noteq> NULL"
    using holds_find [OF gbm_buffersD(2) [OF m], of "prime_fd g"] by auto
  obtain xs where xs: "gbm_ok (plat E) live (gbm m') xs" using gbm_buffersD(2) [OF m] by (auto simp: holds_def)
  have law: "gbm_laws (api (plat E)) live" using gbm_buffersD(4) [OF m] by (simp add: platform_ok_def)
  obtain bd where "bo_data (gbm m') (data_of (plat E) (gbm m') a) = Some bd"
    by (rule managed_owner [OF law gbm_ok_world [OF xs] g(1,2) a])
  then show ?thesis using that [of a bd] gbm_buffersD(1) [OF m] rdy g a by (simp add: gbm_served_def)
qed

lemma import_received:
  assumes m: "gbm_buffers E live m M" and codes: "codes_differ E"
    and run: "mapper_importBuffer E (Suc (brk (gbm m))) out (receive g n m) = Inr (AIMAPPER_ERROR_NONE (errs E), c, m')"
    and g: "\<not> blob_handle E g"
  obtains g' e where "fst (native_handle_clone E g e) = Some g'" "c \<noteq> NULL" "handles (gbm m') c = Some g'"
    "ready_in (plat E) (gbm m')" "gbm_buffers E live m' (add_mset (prime_fd g') M)"
proof -
  let ?m = "receive g n m"
  have h: "handles (gbm ?m) (Suc (brk (gbm m))) = Some g" by (simp add: receive_def receive_handle_def)
  have "import_done E live ?m M (Suc (brk (gbm m))) c m'"
    using import_outcome [OF receive_buffers [OF m] run] codes by (auto simp: codes_differ_def)
  then show ?thesis using that g h unfolding import_done_def by (auto split: if_splits)
qed

text \<open>C7: the life of a buffer across the two processes. A buffer that the service made for a descriptor
  and that a client imports through the GBM back end reports the format the descriptor asked for, and as its usage
  the low half of the usage, extended by its sign: a usage with bit 31 or more comes back changed. When
  the client frees the buffer, its table holds what it held before the import.\<close>

theorem buffer_life_cycle:
  assumes "idle A alive s" and "allocator_allocate2 A d n out s = Inr (Ok, out', s')" and "Some g \<in> set (res_buffers out')"
    and "handles_kept A E" and "codes_differ E" and "gbm_buffers E live m M"
    and "mapper_importBuffer E (Suc (brk (gbm m))) p (receive g nt m) = Inr (AIMAPPER_ERROR_NONE (errs E), c, m')"
    and "bd_format d \<noteq> HAL_PIXEL_FORMAT_BLOB (hal (plat E))" and "stride_defined (plat E) (bd_format d)"
  shows "(\<exists>m1. mapper_getMetadata E c (standard PIXEL_FORMAT_REQUESTED) len m' =
        Inr (get_code E PIXEL_FORMAT_REQUESTED (V_format (bd_format d)) len, Some (V_format (bd_format d)), m1))
    \<and> (\<exists>m1. mapper_getMetadata E c (standard USAGE) len m' =
        (let u = V_usage (scast (ucast (bd_usage d) :: i32)) in Inr (get_code E USAGE u len, Some u, m1)))
    \<and> (\<forall>r m1. mapper_freeBuffer E c m' = Inr (r, m1) \<longrightarrow> gbm_buffers E live m1 M)"
proof -
  have "delivers A d (Some g)" using service.allocate2_keeps [OF assms(2,1)] assms(3) by auto
  then obtain g0 e where "g = fst (dupToAidl A g0 e)" "gh_format g0 = bd_format d" "gh_usage g0 = ucast (bd_usage d)"
    by (auto simp: delivers_def)
  then have g: "gh_format g = bd_format d" "gh_usage g = ucast (bd_usage d)"
    using assms(4) copiesD [of g0 g] by (auto simp: handles_kept_def)
  then have "\<not> blob_handle E g" using assms(8) by (simp add: blob_handle_def)
  from assms(6,5,7) this obtain g' e' where i: "fst (native_handle_clone E g e') = Some g'" "c \<noteq> NULL" "handles (gbm m') c = Some g'"
    "ready_in (plat E) (gbm m')" "gbm_buffers E live m' (add_mset (prime_fd g') M)"
    by (rule import_received)
  then have g': "gh_format g' = bd_format d" "gh_usage g' = ucast (bd_usage d)" "\<not> blob_handle E g'"
    using assms(4,8) copiesD [of g g'] g by (auto simp: handles_kept_def blob_handle_def)
  obtain a bd where s: "gbm_served E live m' c g' a bd"
    by (rule imported_served [OF i(5,4,3,2) g'(3)]) (use assms(9) g'(1) in simp_all)
  have info: "info_android_format (buffer_info (plat E) (gbm m') g' a) = bd_format d"
    "info_usage (buffer_info (plat E) (gbm m') g' a) = ucast (bd_usage d)"
    using g' by (simp_all add: buffer_info_def Let_def split: prod.splits)
  have "\<exists>m1. mapper_getMetadata E c (standard PIXEL_FORMAT_REQUESTED) len m' =
        Inr (get_code E PIXEL_FORMAT_REQUESTED (V_format (bd_format d)) len, Some (V_format (bd_format d)), m1)"
    using served_get [OF s, of PIXEL_FORMAT_REQUESTED "Inr (Value (V_format (bd_format d)))" len]
    by (simp add: gbm_metadata_answer_def info)
  moreover have "\<exists>m1. mapper_getMetadata E c (standard USAGE) len m' =
        (let u = V_usage (scast (ucast (bd_usage d) :: i32)) in Inr (get_code E USAGE u len, Some u, m1))"
    using served_get [OF s, of USAGE "Inr (Value (V_usage (scast (ucast (bd_usage d) :: i32))))" len]
    by (simp add: gbm_metadata_answer_def info Let_def)
  moreover have "gbm_buffers E live m1 M" if "mapper_freeBuffer E c m' = Inr (r, m1)" for r m1
    using free_outcome [OF i(5,3,2) that] g'(3) by (simp add: released_by_def)
  ultimately show ?thesis by blast
qed

section \<open>A photo on its way\<close>

definition sample_photo :: gralloc_handle_t where
  "sample_photo = sample_handle\<lparr>prime_fd := 21, gh_width := 640, gh_height := 480, gh_format := 1, gh_usage := 0x33, gh_stride := 80\<rparr>"

lemma sample_defined_stride: "stride_defined sample_platform 1"
  unfolding stride_defined_def sample_world_values by (simp add: aosp_hal_def) code_simp

lemma sample_codes: "codes_differ sample_env"
  by (simp add: codes_differ_def)

lemma sample_handles_kept: "handles_kept sample_alloc_env sample_env"
  by (auto simp: handles_kept_def copies_def)

text \<open>An import is not refused when libgbm takes the buffer and memory is there.\<close>

lemma sample_import_runs:
  assumes ok: "world_ok sample_platform sample_live w xs" and rdy: "ready_world w" and full: "\<not> table_full w"
    and h: "handles w h = Some g" "h \<noteq> NULL"
  shows "\<exists>w'. gralloc_gbm_android_buffer_import sample_platform h w = Inr (0, w')"
proof -
  have law: "no_huge_malloc (mem_oom sample_platform)" "gbm_laws (api sample_platform) sample_live"
    using sample_platform_ok by (simp_all add: platform_ok_def)
  have ex: "\<not> exhausted (mem_oom sample_platform) w r" for r :: "(i32 \<times> addr option list world) res"
    using full by (simp add: exhausted_def oom_after_def sample_not_starved)
  have no: "gralloc_gbm_android_buffer_import sample_platform h w \<noteq> Inr (- EINVAL, w')" for w'
    using rdy h a2g_not_0
    by (auto simp: gralloc_gbm_android_buffer_import_def res_simps Let_def sample_api_def malloc_def sample_oom_def sizeof_import_data_def
        errno_defs split: if_splits prod.splits)
  from import_ok [OF law ok ready_world_is_ready [OF rdy] h] ex no show ?thesis by (auto simp: refusal_def sample_not_starved)
qed

lemma sample_photo_import:
  "\<exists>c m'. mapper_importBuffer sample_env (Suc (brk (gbm sample_mapper))) 0 (receive sample_photo sample_native sample_mapper) = Inr (0, c, m')"
proof -
  let ?m = "receive sample_photo sample_native sample_mapper"
  let ?w = "(receive_handle sample_photo sample_world)\<lparr>brk := 8,
    handles := (handles (receive_handle sample_photo sample_world))(8 \<mapsto> sample_photo\<lparr>prime_fd := 9\<rparr>)\<rparr>"
  have b: "brk sample_world = 6" by (rule sample_world_values)
  have eq: "?w = receive_handle (sample_photo\<lparr>prime_fd := 9\<rparr>) (receive_handle sample_photo sample_world)"
    by (simp add: receive_handle_def b)
  have "service_ok sample_platform sample_live ?w [1]"
    unfolding eq by (intro receive_service(1) sample_service)
  then have w: "world_ok sample_platform sample_live ?w [1]" "ready_world ?w" by (simp_all add: service_ok_def)
  have "\<not> table_full ?w" using sample_not_full(2) by (simp add: table_full_def receive_handle_def)
  from sample_import_runs [OF w this, of 8] obtain v where v: "gralloc_gbm_android_buffer_import sample_platform 8 ?w = Inr (0, v)" by auto
  have sel: "selectBackend sample_env 7 ?m = Inr (0, ?m\<lparr>mBackend := Some MAPPER_GRALLOC_GBM\<rparr>)"
    by (simp add: selectBackend_def receive_def receive_handle_def b sample_photo_def aosp_hal_def)
  have "is_gralloc_gbm_ready sample_platform (receive_handle sample_photo sample_world) = Inr True"
    using w(2) by (auto simp: ready_world_def is_gralloc_gbm_ready_def receive_handle_def)
  then have ck: "CHECK_BACKEND sample_env (?m\<lparr>mBackend := Some MAPPER_GRALLOC_GBM\<rparr>) =
      Inr (Some (MapperBackendGrallocGbm sample_env), ?m\<lparr>mBackend := Some MAPPER_GRALLOC_GBM\<rparr>)"
    by (simp add: CHECK_BACKEND_def selectBackendByType_def MapperBackendGrallocGbm_def gbm_isReady_def receive_def Let_def)
  have cl: "clone_handle sample_env 7 (?m\<lparr>mBackend := Some MAPPER_GRALLOC_GBM\<rparr>) =
      Inr (8, ?m\<lparr>mBackend := Some MAPPER_GRALLOC_GBM, gbm := ?w, natives := (natives ?m)(8 \<mapsto> sample_native)\<rparr>)"
    by (simp add: clone_handle_def receive_def receive_handle_def b)
  have im: "\<exists>m'. importBuffer (MapperBackendGrallocGbm sample_env) 8
      (?m\<lparr>mBackend := Some MAPPER_GRALLOC_GBM, gbm := ?w, natives := (natives ?m)(8 \<mapsto> sample_native)\<rparr>) = Inr (0, m')"
    using v by (simp add: MapperBackendGrallocGbm_def gbm_importBuffer_def on_gbm_def)
  have n: "natives ?m 7 = Some sample_native" "numFds sample_native = 1"
    by (simp_all add: receive_def b) (simp add: sample_native_def)
  show ?thesis
    using sel ck cl im by (auto simp: mapper_importBuffer_def is_native_handle_valid_def with_backend_def b n Let_def)
qed

lemma sample_odd_allocate:
  "\<exists>s'. allocator_allocate2 sample_alloc_env sample_odd_desc 1 \<lparr>res_buffers = [], res_stride = 0\<rparr>
      (sample_allocator\<lparr>aBackend := Some ALLOCATOR_GRALLOC_DMABUF\<rparr>) = Inr (Ok, \<lparr>res_buffers = [Some sample_photo], res_stride = 80\<rparr>, s')"
proof -
  let ?s = "sample_allocator\<lparr>aBackend := Some ALLOCATOR_GRALLOC_DMABUF\<rparr>"
  have "aselectBackend sample_alloc_env sample_odd_desc ?s = Inr (- EINVAL, ?s)"
    by (simp add: aselectBackend_def aselectBackendByType_def AllocatorBackendGrallocGbm_def agbm_isSupported_def dma_run_simps
        sample_odd_desc_def aosp_hal_def generateGrallocGenericDesc_def Let_def errno_defs)
  moreover have "ACHECK_BACKEND sample_alloc_env ?s = Inr (Some (AllocatorBackendDmaBuf sample_alloc_env), ?s)"
    by (simp add: ACHECK_BACKEND_def aselectBackendByType_def dma_run_simps sample_allocator_def Let_def)
  ultimately show ?thesis
    by (simp add: allocator_allocate2_def dma_run_simps sample_allocator_def sample_odd_desc_def int_result_def
        Let_def sdiv32_def sample_photo_def sample_handle_def)
qed

theorem buffer_life_cycle_witness:
  "\<exists>c m' m1 m2. mapper_importBuffer sample_env 7 0 (receive sample_photo sample_native sample_mapper) = Inr (0, c, m')
    \<and> mapper_getMetadata sample_env c (standard PIXEL_FORMAT_REQUESTED) 64 m' = Inr (4, Some (V_format 1), m1)
    \<and> mapper_getMetadata sample_env c (standard USAGE) 64 m' = Inr (4, Some (V_usage 0x33), m2)"
proof -
  let ?s = "sample_allocator\<lparr>aBackend := Some ALLOCATOR_GRALLOC_DMABUF\<rparr>"
  have s: "idle sample_alloc_env sample_live ?s" using sample_allocator_idle by simp
  obtain s' where a: "allocator_allocate2 sample_alloc_env sample_odd_desc 1 \<lparr>res_buffers = [], res_stride = 0\<rparr> ?s =
      Inr (Ok, \<lparr>res_buffers = [Some sample_photo], res_stride = 80\<rparr>, s')" using sample_odd_allocate by blast
  obtain c m' where i: "mapper_importBuffer sample_env (Suc (brk (gbm sample_mapper))) 0 (receive sample_photo sample_native sample_mapper)
      = Inr (AIMAPPER_ERROR_NONE (errs sample_env), c, m')" using sample_photo_import by auto
  have "brk sample_world = 6" by (rule sample_world_values)
  with buffer_life_cycle [OF s a _ sample_handles_kept sample_codes sample_buffers i, of 64] i show ?thesis
    using sample_defined_stride by (auto simp: sample_odd_desc_def aosp_hal_def get_code_def Let_def)
qed

end
