(* ===== verification/Utstring.thy ===== *)
theory Utstring
  imports Uthash
begin

text \<open>
  The strings of \<^verbatim>\<open>include/uthash/utstring.h\<close>: a growing buffer of bytes and the search for a substring,
  from the left and from the right, by the method of Knuth, Morris and Pratt.

  A block of memory is a list of cells; a cell is \<open>None\<close> until it is written, and reading such a cell
  or one outside the block is a fault. A \<open>size_t\<close> is a natural number below \<open>2 ^ 64\<close> with the
  wrap-around written out, a \<open>long\<close> an integer; the conversions between the types are
  \<open>to_size\<close>, \<open>to_long\<close> and \<open>to_int\<close>.
\<close>

section \<open>Cells and conversions\<close>

definition to_size :: "int \<Rightarrow> nat" where
  "to_size x = nat (take_bit 64 x)"

definition to_long :: "int \<Rightarrow> int" where
  "to_long x = signed_take_bit 63 x"

definition to_int :: "int \<Rightarrow> int" where
  "to_int x = signed_take_bit 31 x"

lemma to_size_id: "0 \<le> x \<Longrightarrow> x < 2 ^ 64 \<Longrightarrow> to_size x = nat x"
  by (simp add: to_size_def take_bit_int_eq_self)

lemma to_size_nat [simp]: "n < 2 ^ 64 \<Longrightarrow> to_size (int n) = n"
  by (simp add: to_size_id)

lemma to_long_id: "- (2 ^ 63) \<le> x \<Longrightarrow> x < 2 ^ 63 \<Longrightarrow> to_long x = x"
  by (simp add: to_long_def signed_take_bit_int_eq_self)

lemma to_int_id: "- (2 ^ 31) \<le> x \<Longrightarrow> x < 2 ^ 31 \<Longrightarrow> to_int x = x"
  by (simp add: to_int_def signed_take_bit_int_eq_self)

definition rd :: "'a option list \<Rightarrow> int \<Rightarrow> 'a res" where
  "rd cells k = (if k < 0 \<or> int (length cells) \<le> k then Inl BadDeref
     else case cells ! nat k of None \<Rightarrow> Inl BadDeref | Some x \<Rightarrow> Inr x)"

definition wr :: "'a option list \<Rightarrow> int \<Rightarrow> 'a \<Rightarrow> 'a option list res" where
  "wr cells k x = (if k < 0 \<or> int (length cells) \<le> k then Inl BadDeref else Inr (cells[nat k := Some x]))"

lemma rd_map_Some [simp]: "0 \<le> k \<Longrightarrow> k < int (length xs) \<Longrightarrow> rd (map Some xs) k = Inr (xs ! nat k)"
  by (simp add: rd_def)

lemma rd_Some: "k < length cells \<Longrightarrow> cells ! k = Some x \<Longrightarrow> rd cells (int k) = Inr x"
  by (simp add: rd_def)

lemma wr_Some: "k < length cells \<Longrightarrow> wr cells (int k) x = Inr (cells[k := Some x])"
  by (simp add: wr_def)

section \<open>The tables\<close>

text \<open>The inner loop, from the left: fall back in the table until the byte fits. The byte it is compared
  with is read anew in each round.\<close>

fun kmp_back :: "nat \<Rightarrow> u8 option list \<Rightarrow> int option list \<Rightarrow> int \<Rightarrow> u8 res \<Rightarrow> int res" where
  "kmp_back 0 needle T j byte = Inl LoopBound"
| "kmp_back (Suc fuel) needle T j byte =
    (if - 1 < j
     then and_then (rd needle j) (\<lambda>p. and_then byte (\<lambda>b.
       if b \<noteq> p then and_then (rd T j) (\<lambda>j'. kmp_back fuel needle T j' byte) else Inr j))
     else Inr j)"

function BuildTable_loop :: "u8 option list \<Rightarrow> int \<Rightarrow> int option list \<Rightarrow> int \<Rightarrow> int \<Rightarrow> int option list res" where
  "BuildTable_loop needle NL T i j =
    (if i < NL
     then and_then (kmp_back (Suc (Suc (nat NL))) needle T j (rd needle i)) (\<lambda>j.
       let i' = i + 1; j' = j + 1 in
       and_then (if i' < NL
         then and_then (rd needle i') (\<lambda>a. and_then (rd needle j') (\<lambda>b.
           if a = b then and_then (rd T j') (wr T i') else wr T i' j'))
         else wr T i' j') (\<lambda>T'.
       BuildTable_loop needle NL T' i' j'))
     else Inr T)"
  by pat_completeness auto

termination
  by (relation "measure (\<lambda>(needle, NL, T, i, j). nat (NL - i))") auto

declare BuildTable_loop.simps [simp del]

definition utstring_BuildTable :: "u8 option list \<Rightarrow> int \<Rightarrow> int option list \<Rightarrow> int option list res" where
  "utstring_BuildTable needle NL T = and_then (wr T 0 (- 1)) (\<lambda>T. BuildTable_loop needle NL T 0 (- 1))"

text \<open>The same from the right.\<close>

fun kmp_backR :: "nat \<Rightarrow> u8 option list \<Rightarrow> int \<Rightarrow> int option list \<Rightarrow> int \<Rightarrow> u8 res \<Rightarrow> int res" where
  "kmp_backR 0 needle NL T j byte = Inl LoopBound"
| "kmp_backR (Suc fuel) needle NL T j byte =
    (if j < NL
     then and_then (rd needle j) (\<lambda>p. and_then byte (\<lambda>b.
       if b \<noteq> p then and_then (rd T (j + 1)) (\<lambda>j'. kmp_backR fuel needle NL T j' byte) else Inr j))
     else Inr j)"

function BuildTableR_loop :: "u8 option list \<Rightarrow> int \<Rightarrow> int option list \<Rightarrow> int \<Rightarrow> int \<Rightarrow> int option list res" where
  "BuildTableR_loop needle NL T i j =
    (if 0 \<le> i
     then and_then (kmp_backR (Suc (Suc (nat NL))) needle NL T j (rd needle i)) (\<lambda>j.
       let i' = i - 1; j' = j - 1 in
       and_then (if 0 \<le> i'
         then and_then (rd needle i') (\<lambda>a. and_then (rd needle j') (\<lambda>b.
           if a = b then and_then (rd T (j' + 1)) (wr T (i' + 1)) else wr T (i' + 1) j'))
         else wr T (i' + 1) j') (\<lambda>T'.
       BuildTableR_loop needle NL T' i' j'))
     else Inr T)"
  by pat_completeness auto

termination
  by (relation "measure (\<lambda>(needle, NL, T, i, j). nat (i + 1))") auto

declare BuildTableR_loop.simps [simp del]

definition utstring_BuildTableR :: "u8 option list \<Rightarrow> int \<Rightarrow> int option list \<Rightarrow> int option list res" where
  "utstring_BuildTableR needle NL T =
    (let i = NL - 1; j = i + 1 in and_then (wr T (i + 1) j) (\<lambda>T. BuildTableR_loop needle NL T i j))"

section \<open>The searches\<close>

text \<open>The haystack is the block from the offset \<open>off\<close> on.\<close>

function find_loop :: "u8 option list \<Rightarrow> int \<Rightarrow> int \<Rightarrow> u8 option list \<Rightarrow> int \<Rightarrow> int option list \<Rightarrow> int \<Rightarrow> int \<Rightarrow> int res" where
  "find_loop hay off HL needle NL T i j =
    (if j < to_int HL \<and> to_size NL \<le> to_size (HL - j + i)
     then and_then (kmp_back (Suc (Suc (nat NL))) needle T i (rd hay (off + j))) (\<lambda>i.
       let i' = i + 1; j' = j + 1 in
       if to_int NL \<le> i' then Inr (j' - i') else find_loop hay off HL needle NL T i' j')
     else Inr (- 1))"
  by pat_completeness auto

termination
  by (relation "measure (\<lambda>(hay, off, HL, needle, NL, T, i, j). nat (to_int HL - j))") auto

declare find_loop.simps [simp del]

definition utstring_find_table :: "u8 option list \<Rightarrow> int \<Rightarrow> int \<Rightarrow> u8 option list \<Rightarrow> int \<Rightarrow> int option list \<Rightarrow> int res" where
  "utstring_find_table hay off HL needle NL T = find_loop hay off HL needle NL T 0 0"

function findR_loop :: "u8 option list \<Rightarrow> u8 option list \<Rightarrow> int \<Rightarrow> int option list \<Rightarrow> int \<Rightarrow> int \<Rightarrow> int res" where
  "findR_loop hay needle NL T i j =
    (if 0 \<le> j \<and> i \<le> j
     then and_then (kmp_backR (Suc (Suc (nat NL))) needle (to_int NL) T i (rd hay j)) (\<lambda>i.
       let i' = i - 1; j' = j - 1 in
       if i' < 0 then Inr (j' + 1) else findR_loop hay needle NL T i' j')
     else Inr (- 1))"
  by pat_completeness auto

termination
  by (relation "measure (\<lambda>(hay, needle, NL, T, i, j). nat (j + 1))") auto

declare findR_loop.simps [simp del]

definition utstring_findR_table :: "u8 option list \<Rightarrow> int \<Rightarrow> u8 option list \<Rightarrow> int \<Rightarrow> int option list \<Rightarrow> int res" where
  "utstring_findR_table hay HL needle NL T = findR_loop hay needle NL T (to_long (NL - 1)) (to_long (HL - 1))"

section \<open>The string\<close>

record UT_string =
  str_d :: "u8 option list cell option" \<comment> \<open>the block, None for NULL\<close>
  str_n :: nat
  str_i :: nat

definition str_block :: "UT_string \<Rightarrow> u8 option list res" where
  "str_block s = (case str_d s of None \<Rightarrow> Inl NullDeref | Some c \<Rightarrow> read_cell (\<lambda>_. None) c)"

text \<open>\<open>realloc\<close> keeps the contents and leaves the rest of the new block uninitialised; \<open>memcpy\<close> stays inside
  both blocks or faults.\<close>

definition resized :: "nat \<Rightarrow> 'a option list \<Rightarrow> 'a option list" where
  "resized sz cells = take sz cells @ replicate (sz - length cells) None"

definition memcpy :: "'a option list \<Rightarrow> nat \<Rightarrow> 'a option list \<Rightarrow> nat \<Rightarrow> 'a option list res" where
  "memcpy dst off src len = (if length dst < off + len \<or> length src < len then Inl BadDeref
     else Inr (take off dst @ take len src @ drop (off + len) dst))"

definition utstring_reserve :: "oom \<Rightarrow> nat \<Rightarrow> UT_string \<Rightarrow> heap \<Rightarrow> (UT_string \<times> heap) res" where
  "utstring_reserve oom amt s h =
    (if to_size (int (str_n s) - int (str_i s)) < amt
     then let sz = to_size (int (str_n s) + int amt) in
       and_then (case str_d s of None \<Rightarrow> Inr [] | Some c \<Rightarrow> read_cell (\<lambda>_. None) c) (\<lambda>cells.
       case malloc oom sz h of (p, h1) \<Rightarrow>
       if p = NULL then Inl OutOfMemory
       else Inr (s\<lparr>str_d := Some (Live (resized sz cells)), str_n := sz\<rparr>, h1))
     else Inr (s, h))"

definition utstring_put :: "int \<Rightarrow> u8 \<Rightarrow> UT_string \<Rightarrow> UT_string res" where
  "utstring_put k b s = and_then (str_block s) (\<lambda>cells. and_then (wr cells k b) (\<lambda>cells. Inr (s\<lparr>str_d := Some (Live cells)\<rparr>)))"

definition utstring_init :: "oom \<Rightarrow> UT_string \<Rightarrow> heap \<Rightarrow> (UT_string \<times> heap) res" where
  "utstring_init oom s h =
    and_then (utstring_reserve oom 100 (s\<lparr>str_n := 0, str_i := 0, str_d := None\<rparr>) h) (\<lambda>(s, h).
    and_then (utstring_put 0 0 s) (\<lambda>s. Inr (s, h)))"

definition utstring_done :: "UT_string \<Rightarrow> UT_string res" where
  "utstring_done s = and_then
    (case str_d s of None \<Rightarrow> Inr None | Some (Live c) \<Rightarrow> Inr (Some (Freed c)) | Some (Freed c) \<Rightarrow> Inl DoubleFree)
    (\<lambda>d. Inr (s\<lparr>str_d := d, str_n := 0\<rparr>))"

definition sizeof_UT_string :: nat where "sizeof_UT_string = 24"

text \<open>A fresh struct holds whatever its block held before; \<open>init\<close> sets every field.\<close>

definition utstring_new :: "oom \<Rightarrow> UT_string \<Rightarrow> heap \<Rightarrow> (UT_string \<times> heap) res" where
  "utstring_new oom junk h = (case malloc oom sizeof_UT_string h of (p, h1) \<Rightarrow>
     if p = NULL then Inl OutOfMemory else utstring_init oom junk h1)"

text \<open>After \<open>free\<close> there is no string any more.\<close>

definition utstring_free :: "UT_string \<Rightarrow> unit res" where
  "utstring_free s = and_then (utstring_done s) (\<lambda>_. Inr ())"

definition utstring_len :: "UT_string \<Rightarrow> nat" where
  "utstring_len s = str_i s"

definition utstring_clear :: "UT_string \<Rightarrow> UT_string res" where
  "utstring_clear s = utstring_put 0 0 (s\<lparr>str_i := 0\<rparr>)"

definition utstring_renew :: "oom \<Rightarrow> UT_string option \<Rightarrow> UT_string \<Rightarrow> heap \<Rightarrow> (UT_string \<times> heap) res" where
  "utstring_renew oom s junk h = (case s of None \<Rightarrow> utstring_new oom junk h
     | Some s \<Rightarrow> and_then (utstring_clear s) (\<lambda>s. Inr (s, h)))"

definition utstring_bincpy :: "oom \<Rightarrow> u8 option list \<Rightarrow> nat \<Rightarrow> UT_string \<Rightarrow> heap \<Rightarrow> (UT_string \<times> heap) res" where
  "utstring_bincpy oom b l s h =
    and_then (utstring_reserve oom (to_size (int l + 1)) s h) (\<lambda>(s, h).
    and_then (if l \<noteq> 0 then and_then (str_block s) (\<lambda>cells. and_then (memcpy cells (str_i s) b l) (\<lambda>cells.
        Inr (s\<lparr>str_d := Some (Live cells)\<rparr>))) else Inr s) (\<lambda>s.
    let s = s\<lparr>str_i := to_size (int (str_i s) + int l)\<rparr> in
    and_then (utstring_put (int (str_i s)) 0 s) (\<lambda>s. Inr (s, h))))"

text \<open>The two strings are different ones.\<close>

definition utstring_concat :: "oom \<Rightarrow> UT_string \<Rightarrow> UT_string \<Rightarrow> heap \<Rightarrow> (UT_string \<times> heap) res" where
  "utstring_concat oom src dst h =
    and_then (utstring_reserve oom (to_size (int (str_i src) + 1)) dst h) (\<lambda>(dst, h).
    and_then (if str_i src \<noteq> 0 then and_then (str_block dst) (\<lambda>cells. and_then (str_block src) (\<lambda>b.
        and_then (memcpy cells (str_i dst) b (str_i src)) (\<lambda>cells.
        Inr (dst\<lparr>str_d := Some (Live cells)\<rparr>)))) else Inr dst) (\<lambda>dst.
    let dst = dst\<lparr>str_i := to_size (int (str_i dst) + int (str_i src))\<rparr> in
    and_then (utstring_put (int (str_i dst)) 0 dst) (\<lambda>dst. Inr (dst, h))))"

text \<open>\<open>vsnprintf\<close> for the output \<open>out\<close> of the format (None for an encoding error): it writes what fits and a
  zero, and returns the length of the whole output, or -1 for an error or more than \<open>INT_MAX\<close> bytes,
  when the block holds anything.\<close>

definition vsnprintf :: "u8 list option \<Rightarrow> u8 option list \<Rightarrow> nat \<Rightarrow> nat \<Rightarrow> (int \<times> u8 option list) res" where
  "vsnprintf out cells off room =
    (if length cells < off + room then Inl BadDeref
     else case out of
       None \<Rightarrow> Inr (- 1, take off cells @ replicate (length cells - off) None)
     | Some bs \<Rightarrow>
         if 2 ^ 31 \<le> length bs then Inr (- 1, take off cells @ replicate (length cells - off) None)
         else Inr (int (length bs), if room = 0 then cells
           else let w = map Some (take (room - 1) bs) @ [Some 0] in take off cells @ w @ drop (off + length w) cells))"

fun utstring_printf :: "nat \<Rightarrow> oom \<Rightarrow> u8 list option \<Rightarrow> UT_string \<Rightarrow> heap \<Rightarrow> (UT_string \<times> heap) res" where
  "utstring_printf 0 oom out s h = Inl LoopBound"
| "utstring_printf (Suc fuel) oom out s h =
    and_then (str_block s) (\<lambda>cells.
    let room = to_size (int (str_n s) - int (str_i s)) in
    and_then (vsnprintf out cells (str_i s) room) (\<lambda>(n, cells).
    let s = s\<lparr>str_d := Some (Live cells)\<rparr> in
    if - 1 < n \<and> nat n < room then Inr (s\<lparr>str_i := to_size (int (str_i s) + n)\<rparr>, h)
    else if n = 2 ^ 31 - 1 then Inl SignedOverflow
    else and_then (utstring_reserve oom (if - 1 < n then nat (n + 1) else to_size (int (str_n s) * 2)) s h) (\<lambda>(s, h).
      utstring_printf fuel oom out s h)))"

section \<open>One-time searches\<close>

definition start_position :: "UT_string \<Rightarrow> int \<Rightarrow> int" where
  "start_position s pos = (if pos < 0 then to_long (int (str_i s) + pos) else pos)"

definition utstring_find :: "oom \<Rightarrow> UT_string \<Rightarrow> int \<Rightarrow> u8 option list \<Rightarrow> nat \<Rightarrow> heap \<Rightarrow> (int \<times> heap) res" where
  "utstring_find oom s pos needle NL h =
    (let start = start_position s pos; HL = to_long (int (str_i s) - start) in
     if to_long (int NL) \<le> HL \<and> 0 < NL
     then case malloc oom (8 * (NL + 1)) h of (p, h1) \<Rightarrow>
       if p = NULL then Inr (- 1, h1)
       else
         and_then (utstring_BuildTable needle (int NL) (replicate (NL + 1) None)) (\<lambda>T.
         and_then (str_block s) (\<lambda>cells.
         and_then (utstring_find_table cells start HL needle (int NL) T) (\<lambda>r.
         Inr (if 0 \<le> r then r + start else r, h1))))
     else Inr (- 1, h))"

definition utstring_findR :: "oom \<Rightarrow> UT_string \<Rightarrow> int \<Rightarrow> u8 option list \<Rightarrow> nat \<Rightarrow> heap \<Rightarrow> (int \<times> heap) res" where
  "utstring_findR oom s pos needle NL h =
    (let start = start_position s pos; HL = to_long (start + 1) in
     if to_long (int NL) \<le> HL \<and> 0 < NL
     then case malloc oom (8 * (NL + 1)) h of (p, h1) \<Rightarrow>
       if p = NULL then Inr (- 1, h1)
       else
         and_then (utstring_BuildTableR needle (int NL) (replicate (NL + 1) None)) (\<lambda>T.
         and_then (str_block s) (\<lambda>cells.
         and_then (utstring_findR_table cells HL needle (int NL) T) (\<lambda>r.
         Inr (r, h1))))
     else Inr (- 1, h))"

section \<open>Well-formed strings\<close>

text \<open>\<open>str_prefix s xs\<close>: the used bytes are \<open>xs\<close> and there is room for the terminating zero; \<open>holds_string s xs\<close>:
  the zero is there.\<close>

definition str_prefix :: "UT_string \<Rightarrow> u8 list \<Rightarrow> bool" where
  "str_prefix s xs \<longleftrightarrow> (\<exists>cells. str_d s = Some (Live cells) \<and> length cells = str_n s \<and> str_n s < 2 ^ 62
     \<and> str_i s = length xs \<and> length xs < str_n s \<and> take (length xs) cells = map Some xs)"

definition holds_string :: "UT_string \<Rightarrow> u8 list \<Rightarrow> bool" where
  "holds_string s xs \<longleftrightarrow> (\<exists>cells. str_d s = Some (Live cells) \<and> length cells = str_n s \<and> str_n s < 2 ^ 62
     \<and> str_i s = length xs \<and> length xs < str_n s \<and> take (length xs) cells = map Some xs \<and> cells ! length xs = Some 0)"

lemma holds_string_prefix: "holds_string s xs \<Longrightarrow> str_prefix s xs"
  by (auto simp: holds_string_def str_prefix_def)

lemma to_size_less: "to_size x < 2 ^ 64"
  unfolding to_size_def using take_bit_int_less_exp [of 64 x] by (simp add: nat_less_iff)

text \<open>Making room: the string stays and there is room for \<open>amt\<close> bytes more.\<close>

lemma reserve_ok:
  assumes huge: "no_huge_malloc oom" and s: "str_prefix s xs" and amt: "amt < 2 ^ 62"
  shows "utstring_reserve oom amt s h = Inl OutOfMemory \<or>
    (\<exists>s' h'. utstring_reserve oom amt s h = Inr (s', h') \<and> str_prefix s' xs \<and> length xs + amt \<le> str_n s')"
proof -
  obtain cells where c: "str_d s = Some (Live cells)" "length cells = str_n s" "str_n s < 2 ^ 62"
    "str_i s = length xs" "length xs < str_n s" "take (length xs) cells = map Some xs"
    using s by (auto simp: str_prefix_def)
  have room: "to_size (int (str_n s) - int (str_i s)) = str_n s - length xs"
    using c(3-5) by (simp add: to_size_id)
  have sz: "to_size (int (str_n s) + int amt) = str_n s + amt" using c(3) amt by (simp add: to_size_id)
  show ?thesis
  proof (cases "str_n s - length xs < amt")
    case False
    then show ?thesis using s c(4,5) room by (auto simp: utstring_reserve_def)
  next
    case True
    obtain p h1 where m: "malloc oom (str_n s + amt) h = (p, h1)" by force
    show ?thesis
    proof (cases "p = NULL")
      case True
      then show ?thesis using \<open>str_n s - length xs < amt\<close> c m room sz by (simp add: utstring_reserve_def Let_def)
    next
      case False
      then have "\<not> oom (Suc (brk h)) (str_n s + amt)" using m by (auto simp: malloc_def split: if_splits)
      then have "str_n s + amt < 2 ^ 36" using huge by (metis no_huge_malloc_def not_le)
      moreover have "length (resized (str_n s + amt) cells) = str_n s + amt"
        "take (length xs) (resized (str_n s + amt) cells) = map Some xs"
        using c by (simp_all add: resized_def nth_append)
      ultimately show ?thesis using True False c m room sz
        by (auto simp: utstring_reserve_def Let_def str_prefix_def)
    qed
  qed
qed

text \<open>Writing \<open>ys\<close> and a zero behind the string.\<close>

lemma append_ok:
  assumes s: "str_prefix s xs" and room: "length xs + length ys < str_n s"
    and b: "take (length ys) b = map Some ys"
  shows "\<exists>s'. and_then (if length ys \<noteq> 0 then and_then (str_block s) (\<lambda>cells. and_then (memcpy cells (str_i s) b (length ys)) (\<lambda>cells.
        Inr (s\<lparr>str_d := Some (Live cells)\<rparr>))) else Inr s) (\<lambda>s.
      utstring_put (int (to_size (int (str_i s) + int (length ys)))) 0 (s\<lparr>str_i := to_size (int (str_i s) + int (length ys))\<rparr>)) = Inr s'
    \<and> holds_string s' (xs @ ys)"
proof -
  obtain cells where c: "str_d s = Some (Live cells)" "length cells = str_n s" "str_n s < 2 ^ 62"
    "str_i s = length xs" "length xs < str_n s" "take (length xs) cells = map Some xs"
    using s by (auto simp: str_prefix_def)
  have b': "length ys \<le> length b" using arg_cong [OF b, of length] by simp
  have i: "to_size (int (length xs) + int (length ys)) = length xs + length ys"
    using c(3) room by (simp add: to_size_id)
  define cells' where "cells' = take (length xs) cells @ take (length ys) b @ drop (length xs + length ys) cells"
  have c': "length cells' = str_n s" "take (length xs + length ys) cells' = map Some (xs @ ys)"
    using c room b b' by (simp_all add: cells'_def)
  have same: "ys = [] \<Longrightarrow> s\<lparr>str_d := Some (Live cells')\<rparr> = s" using c(1) by (cases s) (simp add: cells'_def)
  have "(if length ys \<noteq> 0 then and_then (str_block s) (\<lambda>cells. and_then (memcpy cells (str_i s) b (length ys)) (\<lambda>cells.
        Inr (s\<lparr>str_d := Some (Live cells)\<rparr>))) else Inr s) = Inr (s\<lparr>str_d := Some (Live cells')\<rparr>)"
    using c b' room same by (cases "ys = []") (auto simp: str_block_def memcpy_def cells'_def)
  moreover have "wr cells' (int (length xs + length ys)) 0 = Inr (cells'[length xs + length ys := Some 0])"
    using c' room by (intro wr_Some) simp
  ultimately show ?thesis using c c' room i
    by (auto simp: utstring_put_def str_block_def holds_string_def)
qed

lemma bincpy_ok:
  assumes huge: "no_huge_malloc oom" and s: "str_prefix s xs" and b: "take (length ys) b = map Some ys" "length ys < 2 ^ 61"
  shows "utstring_bincpy oom b (length ys) s h = Inl OutOfMemory \<or>
    (\<exists>s' h'. utstring_bincpy oom b (length ys) s h = Inr (s', h') \<and> holds_string s' (xs @ ys))"
proof -
  have "to_size (int (length ys) + 1) = length ys + 1" using b(2) by (simp add: to_size_id nat_add_distrib)
  moreover have "utstring_reserve oom (length ys + 1) s h = Inl OutOfMemory \<or>
    (\<exists>s' h'. utstring_reserve oom (length ys + 1) s h = Inr (s', h') \<and> str_prefix s' xs \<and> length xs + (length ys + 1) \<le> str_n s')"
    using b(2) by (intro reserve_ok [OF huge s]) simp
  ultimately show ?thesis
  proof (elim disjE exE conjE)
    fix s' h' assume r: "utstring_reserve oom (length ys + 1) s h = Inr (s', h')" "str_prefix s' xs" "length xs + (length ys + 1) \<le> str_n s'"
    from append_ok [OF r(2) _ b(1)] r(3) show ?thesis
      using r(1) \<open>to_size _ = _\<close> by (auto simp: utstring_bincpy_def Let_def res_simps)
  qed (simp add: utstring_bincpy_def)
qed

text \<open>Concatenation is the copy of the whole of the other string.\<close>

lemma concat_bincpy:
  assumes "str_block src = Inr cells"
  shows "utstring_concat oom src dst h = utstring_bincpy oom cells (str_i src) dst h"
  unfolding utstring_concat_def utstring_bincpy_def assms and_then_Inr ..

lemma holds_string_block:
  "holds_string s xs \<Longrightarrow> \<exists>cells. str_block s = Inr cells \<and> take (length xs) cells = map Some xs \<and> str_i s = length xs \<and> length xs < 2 ^ 62"
  by (auto simp: holds_string_def str_block_def)

lemma init_ok:
  assumes "no_huge_malloc oom"
  shows "utstring_init oom s h = Inl OutOfMemory \<or> (\<exists>s' h'. utstring_init oom s h = Inr (s', h') \<and> holds_string s' [])"
proof -
  obtain p h1 where m: "malloc oom 100 h = (p, h1)" by force
  have "replicate 100 None = None # replicate 99 None" by (simp only: replicate_Suc [symmetric]) simp
  then show ?thesis using m
    by (cases "p = NULL") (simp_all add: utstring_init_def utstring_reserve_def utstring_put_def str_block_def resized_def
        wr_def holds_string_def to_size_id Let_def)
qed

lemma clear_ok: "str_prefix s xs \<Longrightarrow> \<exists>s'. utstring_clear s = Inr s' \<and> holds_string s' [] \<and> str_n s' = str_n s"
  by (auto simp: utstring_clear_def utstring_put_def str_block_def str_prefix_def holds_string_def wr_def)

section \<open>Formatted output\<close>

declare utstring_printf.simps(2) [simp del]

lemma vsnprintf_fits:
  assumes "str_prefix s xs" "length xs + length bs < str_n s" "length bs < 2 ^ 31"
  shows "\<exists>s' . utstring_printf (Suc fuel) oom (Some bs) s h = Inr (s', h) \<and> holds_string s' (xs @ bs)"
proof -
  obtain cells where c: "str_d s = Some (Live cells)" "length cells = str_n s" "str_n s < 2 ^ 62"
    "str_i s = length xs" "take (length xs) cells = map Some xs"
    using assms(1) by (auto simp: str_prefix_def)
  have n: "to_size (int (str_n s) - int (str_i s)) = str_n s - length xs"
    "to_size (int (str_i s) + int (length bs)) = length xs + length bs"
    using c(3,4) assms(2) by (simp_all add: to_size_id)
  have "take (str_n s - length xs - 1) bs = bs" using assms(2) by simp
  moreover have "length bs < str_n s - length xs" using assms(2) by linarith
  ultimately show ?thesis using c n assms(2,3)
    by (simp add: utstring_printf.simps(2) str_block_def vsnprintf_def Let_def holds_string_def nth_append)
qed

lemma printf_ok:
  assumes huge: "no_huge_malloc oom" and s: "str_prefix s xs" and len: "length bs < 2 ^ 31 - 1"
  shows "utstring_printf (Suc (Suc fuel)) oom (Some bs) s h = Inl OutOfMemory \<or>
    (\<exists>s' h'. utstring_printf (Suc (Suc fuel)) oom (Some bs) s h = Inr (s', h') \<and> holds_string s' (xs @ bs))"
proof (cases "length xs + length bs < str_n s")
  case True
  then show ?thesis using vsnprintf_fits [OF s True, of "Suc fuel" oom h] len by auto
next
  case False
  obtain cells where c: "str_d s = Some (Live cells)" "length cells = str_n s" "str_n s < 2 ^ 62"
    "str_i s = length xs" "take (length xs) cells = map Some xs" "length xs < str_n s"
    using s by (auto simp: str_prefix_def)
  define room where "room = str_n s - length xs"
  define w where "w = map Some (take (room - 1) bs) @ [Some 0]"
  define s1 where "s1 = s\<lparr>str_d := Some (Live (take (length xs) cells @ w @ drop (length xs + length w) cells))\<rparr>"
  have n: "to_size (int (str_n s) - int (str_i s)) = room" "nat (int (length bs) + 1) = length bs + 1" "0 < room"
    using c(3,4,6) by (simp_all add: to_size_id room_def)
  have nofit: "\<not> length bs < room" using False by (simp add: room_def)
  have w: "length xs + length w \<le> str_n s" using c(6) by (auto simp: w_def room_def)
  have s1: "str_prefix s1 xs" using c w by (simp add: str_prefix_def s1_def)
  have "utstring_printf (Suc (Suc fuel)) oom (Some bs) s h =
    and_then (utstring_reserve oom (length bs + 1) s1 h) (\<lambda>(s, h). utstring_printf (Suc fuel) oom (Some bs) s h)"
    using nofit c n len w by (subst utstring_printf.simps(2)) (simp add: str_block_def vsnprintf_def Let_def s1_def w_def)
  moreover have "utstring_reserve oom (length bs + 1) s1 h = Inl OutOfMemory \<or>
    (\<exists>s' h'. utstring_reserve oom (length bs + 1) s1 h = Inr (s', h') \<and> str_prefix s' xs \<and> length xs + (length bs + 1) \<le> str_n s')"
    using len by (intro reserve_ok [OF huge s1]) simp
  ultimately show ?thesis
  proof (elim disjE exE conjE)
    fix s' h' assume r: "utstring_reserve oom (length bs + 1) s1 h = Inr (s', h')" "str_prefix s' xs" "length xs + (length bs + 1) \<le> str_n s'"
      "utstring_printf (Suc (Suc fuel)) oom (Some bs) s h =
        and_then (utstring_reserve oom (length bs + 1) s1 h) (\<lambda>(s, h). utstring_printf (Suc fuel) oom (Some bs) s h)"
    then show ?thesis using vsnprintf_fits [OF r(2), of bs fuel oom h'] len by auto
  qed simp
qed

text \<open>An output that cannot be encoded never returns: each round asks for more memory.\<close>

lemma printf_error_never_returns: "utstring_printf fuel oom None s h \<noteq> Inr r"
proof (induction fuel arbitrary: s h)
  case (Suc fuel)
  then show ?case
    by (auto simp: utstring_printf.simps(2) vsnprintf_def Let_def res_simps split: if_splits)
qed simp

text \<open>Each round triples the block, so the process is out of memory after 24 rounds.\<close>

lemma printf_error_exits:
  assumes huge: "no_huge_malloc oom" and s: "str_prefix s xs" and n: "2 ^ 36 \<le> str_n s * 3 ^ fuel" "str_n s < 2 ^ 36"
  shows "utstring_printf (Suc fuel) oom None s h = Inl OutOfMemory"
  using s n
proof (induction fuel arbitrary: s h)
  case (Suc fuel)
  obtain cells where c: "str_d s = Some (Live cells)" "length cells = str_n s" "str_i s = length xs"
    "take (length xs) cells = map Some xs" "length xs < str_n s"
    using Suc.prems(1) by (auto simp: str_prefix_def)
  define s1 where "s1 = s\<lparr>str_d := Some (Live (take (length xs) cells @ replicate (length cells - length xs) None))\<rparr>"
  have sz: "to_size (int (str_n s) - int (str_i s)) = str_n s - length xs" "to_size (int (str_n s) * 2) = 2 * str_n s"
    "to_size (int (str_n s) + int (2 * str_n s)) = 3 * str_n s"
    using c(3,5) Suc.prems(3) by (simp_all add: to_size_id nat_mult_distrib)
  have run: "utstring_printf (Suc (Suc fuel)) oom None s h =
    and_then (utstring_reserve oom (2 * str_n s) s1 h) (\<lambda>(s, h). utstring_printf (Suc fuel) oom None s h)"
    using c sz by (subst utstring_printf.simps(2)) (simp add: str_block_def vsnprintf_def Let_def s1_def)
  obtain p h1 where m: "malloc oom (3 * str_n s) h = (p, h1)" by force
  define s2 where "s2 = s1\<lparr>str_d := Some (Live (resized (3 * str_n s) (take (length xs) cells @ replicate (length cells - length xs) None))),
    str_n := 3 * str_n s\<rparr>"
  have res: "utstring_reserve oom (2 * str_n s) s1 h = (if p = NULL then Inl OutOfMemory else Inr (s2, h1))"
  proof -
    have "str_n s - length xs < 2 * str_n s" using c(5) by linarith
    then show ?thesis using c sz m by (simp add: utstring_reserve_def Let_def s1_def s2_def)
  qed
  show ?case
  proof (cases "p = NULL")
    case False
    then have "\<not> oom (Suc (brk h)) (3 * str_n s)" using m by (auto simp: malloc_def split: if_splits)
    then have n3: "3 * str_n s < 2 ^ 36" using huge by (metis no_huge_malloc_def not_le)
    have "str_prefix s2 xs" using c n3 by (simp add: str_prefix_def s2_def s1_def resized_def)
    moreover have "str_n s2 = 3 * str_n s" by (simp add: s2_def)
    ultimately have "utstring_printf (Suc fuel) oom None s2 h1 = Inl OutOfMemory"
      using n3 Suc.prems(2) by (intro Suc.IH) simp_all
    then show ?thesis using run res False by simp
  qed (use run res in simp)
qed simp

end
