(* ===== verification/Utstring_Search.thy ===== *)
theory Utstring_Search
  imports Utstring
begin

text \<open>
  The searches of \<^verbatim>\<open>utstring.h\<close> find what a naive scan finds. A failure table is valid when entry \<open>i\<close> is the
  greatest border of the first \<open>i\<close> bytes that is not followed by byte \<open>i\<close>, or -1. The search from the right
  is the mirror image of the search from the left.
\<close>

section \<open>Borders\<close>

text \<open>The last \<open>b\<close> bytes before position \<open>p\<close> of \<open>xs\<close> are the first \<open>b\<close> of \<open>P\<close>.\<close>

definition ends_with :: "'a list \<Rightarrow> 'a list \<Rightarrow> nat \<Rightarrow> nat \<Rightarrow> bool" where
  "ends_with P xs p b \<longleftrightarrow> b \<le> p \<and> (\<forall>k<b. P ! k = xs ! (p - b + k))"

definition border :: "'a list \<Rightarrow> nat \<Rightarrow> nat \<Rightarrow> bool" where
  "border P i b \<longleftrightarrow> b < i \<and> ends_with P P i b"

lemma ends_with_0 [simp]: "ends_with P xs p 0"
  by (simp add: ends_with_def)

lemma ends_with_Suc: "ends_with P xs (Suc p) (Suc b) \<longleftrightarrow> ends_with P xs p b \<and> P ! b = xs ! p"
  by (auto simp: ends_with_def less_Suc_eq)

lemma ends_with_border:
  assumes "ends_with P xs p c" "border P c b"
  shows "ends_with P xs p b"
proof -
  have "P ! k = xs ! (p - b + k)" if "k < b" for k
  proof -
    have "P ! k = P ! (c - b + k)" and "b < c" and "c \<le> p" using assms that by (auto simp: border_def ends_with_def)
    moreover have "P ! (c - b + k) = xs ! (p - c + (c - b + k))" using assms that by (auto simp: border_def ends_with_def)
    ultimately show ?thesis by simp
  qed
  then show ?thesis using assms by (auto simp: border_def ends_with_def)
qed

lemma border_of_two:
  assumes "ends_with P xs p c" "ends_with P xs p b" "b < c"
  shows "border P c b"
proof -
  have "P ! k = P ! (c - b + k)" if "k < b" for k
  proof -
    have "P ! (c - b + k) = xs ! (p - c + (c - b + k))" using assms that by (auto simp: ends_with_def)
    moreover have "p - c + (c - b + k) = p - b + k" using assms by (auto simp: ends_with_def)
    ultimately show ?thesis using assms that by (simp add: ends_with_def)
  qed
  then show ?thesis using assms(3) by (simp add: border_def ends_with_def)
qed

lemma border_trans: "border P i c \<Longrightarrow> border P c b \<Longrightarrow> border P i b"
  using ends_with_border [of P P i c b] by (auto simp: border_def)

section \<open>Valid tables\<close>

definition entry :: "'a list \<Rightarrow> nat \<Rightarrow> int \<Rightarrow> bool" where
  "entry P i t \<longleftrightarrow> (t = - 1 \<or> (\<exists>b. t = int b \<and> border P i b \<and> P ! b \<noteq> P ! i))
     \<and> (\<forall>b. border P i b \<longrightarrow> P ! b \<noteq> P ! i \<longrightarrow> int b \<le> t)"

definition entries :: "'a list \<Rightarrow> int option list \<Rightarrow> nat \<Rightarrow> bool" where
  "entries P T n \<longleftrightarrow> length T = Suc (length P) \<and> (\<forall>i<n. \<exists>t. T ! i = Some t \<and> entry P i t)"

lemma entries_write:
  assumes "entries P T n" "entry P n t" "n \<le> length P"
  shows "entries P (T[n := Some t]) (Suc n)"
proof -
  have "T[n := Some t] ! n = Some t" using assms by (simp add: entries_def)
  then show ?thesis using assms(1,2) by (auto simp: entries_def less_Suc_eq)
qed

lemma entries_keep: "entries P T n \<Longrightarrow> n \<le> m \<Longrightarrow> entries P (T[m := x]) n"
  by (auto simp: entries_def nth_list_update)

text \<open>Falling back in a valid table misses no candidate.\<close>

lemma kmp_back_finds:
  assumes "entries P T (Suc (nat c))" "- 1 \<le> c" "c < int (length P)" "0 \<le> c \<longrightarrow> ends_with P xs p (nat c)" "nat (c + 2) \<le> fuel"
  shows "\<exists>r. kmp_back fuel (map Some P) T c (Inr x) = Inr r \<and> - 1 \<le> r \<and> r \<le> c
    \<and> (0 \<le> r \<longrightarrow> ends_with P xs p (nat r) \<and> P ! nat r = x)
    \<and> (\<forall>b. r < int b \<longrightarrow> int b \<le> c \<longrightarrow> ends_with P xs p b \<longrightarrow> P ! b \<noteq> x)"
  using assms
proof (induction fuel arbitrary: c)
  case (Suc fuel)
  show ?case
  proof (cases "c = - 1")
    case True
    then show ?thesis by (intro exI [of _ c]) simp
  next
    case False
    then have c: "0 \<le> c" "ends_with P xs p (nat c)" using Suc.prems by auto
    show ?thesis
    proof (cases "P ! nat c = x")
      case True
      then show ?thesis using c Suc.prems(3) by (intro exI [of _ c]) auto
    next
      case neq: False
      obtain t where t: "T ! nat c = Some t" "entry P (nat c) t" using Suc.prems(1) by (auto simp: entries_def)
      have len: "c < int (length T)" using Suc.prems(1,3) by (simp add: entries_def)
      have lt: "- 1 \<le> t" "t < c" "0 \<le> t \<longrightarrow> border P (nat c) (nat t)"
        using t(2) c(1) by (auto simp: entry_def border_def)
      have "\<exists>r. kmp_back fuel (map Some P) T t (Inr x) = Inr r \<and> - 1 \<le> r \<and> r \<le> t
        \<and> (0 \<le> r \<longrightarrow> ends_with P xs p (nat r) \<and> P ! nat r = x)
        \<and> (\<forall>b. r < int b \<longrightarrow> int b \<le> t \<longrightarrow> ends_with P xs p b \<longrightarrow> P ! b \<noteq> x)"
      proof (rule Suc.IH)
        show "entries P T (Suc (nat t))" using Suc.prems(1) lt by (auto simp: entries_def)
        show "0 \<le> t \<longrightarrow> ends_with P xs p (nat t)" using lt(3) ends_with_border [OF c(2)] by blast
      qed (use lt Suc.prems in auto)
      then obtain r where r: "kmp_back fuel (map Some P) T t (Inr x) = Inr r" "- 1 \<le> r" "r \<le> t"
        "0 \<le> r \<longrightarrow> ends_with P xs p (nat r) \<and> P ! nat r = x"
        "\<And>b. r < int b \<Longrightarrow> int b \<le> t \<Longrightarrow> ends_with P xs p b \<Longrightarrow> P ! b \<noteq> x" by blast
      have "kmp_back (Suc fuel) (map Some P) T c (Inr x) = Inr r"
        using c(1) Suc.prems(3) neq t(1) len r(1) by (simp add: rd_def)
      moreover have "P ! b \<noteq> x" if b: "r < int b" "int b \<le> c" "ends_with P xs p b" for b
      proof (cases "int b \<le> t")
        case False
        show ?thesis
        proof (cases "int b = c")
          case True
          then show ?thesis using neq by auto
        next
          case less: False
          then have "border P (nat c) b" using b by (intro border_of_two [OF c(2)]) auto
          then show ?thesis using t(2) False neq by (auto simp: entry_def)
        qed
      qed (use r(5) b in blast)
      ultimately show ?thesis using r lt by (intro exI [of _ r]) auto
    qed
  qed
qed simp

declare kmp_back.simps [simp del]

lemma kmp_back_bounds:
  assumes "entries P T (Suc i)" "i < length P" "i + 2 \<le> fuel"
  shows "\<exists>r. kmp_back fuel (map Some P) T (int i) (Inr x) = Inr r \<and> - 1 \<le> r \<and> r \<le> int i"
proof -
  have "ends_with P P i i" by (simp add: ends_with_def)
  then have "\<exists>r. kmp_back fuel (map Some P) T (int i) (Inr x) = Inr r \<and> - 1 \<le> r \<and> r \<le> int i
    \<and> (0 \<le> r \<longrightarrow> ends_with P P i (nat r) \<and> P ! nat r = x)
    \<and> (\<forall>b. r < int b \<longrightarrow> int b \<le> int i \<longrightarrow> ends_with P P i b \<longrightarrow> P ! b \<noteq> x)"
    using assms by (intro kmp_back_finds) auto
  then show ?thesis by blast
qed

text \<open>The longest border of the first \<open>i\<close> bytes; -1 when there are none.\<close>

definition longest :: "'a list \<Rightarrow> nat \<Rightarrow> int \<Rightarrow> bool" where
  "longest P i j \<longleftrightarrow> (if i = 0 then j = - 1 else 0 \<le> j \<and> border P i (nat j) \<and> (\<forall>b. border P i b \<longrightarrow> int b \<le> j))"

lemma longest_Suc:
  assumes "longest P i j" "- 1 \<le> r" "r \<le> j" "0 \<le> r \<longrightarrow> ends_with P P i (nat r) \<and> P ! nat r = P ! i"
    "\<And>b. r < int b \<Longrightarrow> int b \<le> j \<Longrightarrow> ends_with P P i b \<Longrightarrow> P ! b \<noteq> P ! i"
  shows "longest P (Suc i) (r + 1)"
proof -
  have j: "j < int i" using assms(1) by (auto simp: longest_def border_def split: if_splits)
  have "border P (Suc i) (nat (r + 1))"
  proof (cases "r = - 1")
    case False
    then have "nat (r + 1) = Suc (nat r)" using assms(2) by auto
    then show ?thesis using assms(2,3,4) j False by (auto simp: border_def ends_with_Suc)
  qed (simp add: border_def)
  moreover have "int b \<le> r + 1" if b: "border P (Suc i) b" for b
  proof (cases b)
    case (Suc b')
    then have b': "ends_with P P i b'" "P ! b' = P ! i" "b' < i" using b by (auto simp: border_def ends_with_Suc)
    then have "int b' \<le> j" using assms(1) by (auto simp: longest_def border_def)
    then show ?thesis using assms(5) [of b'] b' Suc by force
  qed (use assms(2) in simp)
  ultimately show ?thesis using assms(2) by (auto simp: longest_def)
qed

lemma longest_entry:
  assumes l: "longest P i (int j)" "0 < i"
    and t: "if P ! i = P ! j then entry P j t else t = int j"
  shows "entry P i t"
proof -
  have b: "border P i j" "\<And>b. border P i b \<Longrightarrow> b \<le> j" using l by (auto simp: longest_def)
  have two: "border P j b" if "border P i b" "b < j" for b
    using border_of_two [of P P i j b] that b(1) by (auto simp: border_def)
  show ?thesis
  proof (cases "P ! i = P ! j")
    case True
    then have e: "entry P j t" using t by simp
    have "t = - 1 \<or> (\<exists>b. t = int b \<and> border P i b \<and> P ! b \<noteq> P ! i)"
      using e border_trans [OF b(1)] True by (auto simp: entry_def)
    moreover have "int b' \<le> t" if "border P i b'" "P ! b' \<noteq> P ! i" for b'
    proof -
      have "b' < j" using b(2) [OF that(1)] that(2) True le_eq_less_or_eq by auto
      then show ?thesis using e two [OF that(1)] that(2) True by (auto simp: entry_def)
    qed
    ultimately show ?thesis by (simp add: entry_def)
  next
    case False
    then show ?thesis using t b by (auto simp: entry_def)
  qed
qed

section \<open>Building the table\<close>

lemma BuildTable_loop_ok:
  assumes "P \<noteq> []" "i \<le> length P" "longest P i j" "entries P T (min (Suc i) (length P))"
  shows "\<exists>T'. BuildTable_loop (map Some P) (int (length P)) T (int i) j = Inr T' \<and> entries P T' (length P)"
  using assms
proof (induction "length P - i" arbitrary: i j T)
  case 0
  then show ?case by (simp add: BuildTable_loop.simps)
next
  case (Suc n)
  then have i: "i < length P" by simp
  let ?m = "int (length P)"
  have j: "- 1 \<le> j" "j < int i" "0 \<le> j \<longrightarrow> ends_with P P i (nat j)"
    using Suc.prems(3) by (auto simp: longest_def border_def split: if_splits)
  have "entries P T (Suc (nat j))" using Suc.prems(4) i j by (auto simp: entries_def)
  have "\<exists>r. kmp_back (Suc (Suc (nat ?m))) (map Some P) T j (Inr (P ! i)) = Inr r \<and> - 1 \<le> r \<and> r \<le> j
    \<and> (0 \<le> r \<longrightarrow> ends_with P P i (nat r) \<and> P ! nat r = P ! i)
    \<and> (\<forall>b. r < int b \<longrightarrow> int b \<le> j \<longrightarrow> ends_with P P i b \<longrightarrow> P ! b \<noteq> P ! i)"
    by (rule kmp_back_finds [OF \<open>entries P T (Suc (nat j))\<close> j(1) _ j(3)]) (use i j in simp_all)
  then obtain r where r: "kmp_back (Suc (Suc (nat ?m))) (map Some P) T j (Inr (P ! i)) = Inr r" "- 1 \<le> r" "r \<le> j"
    "0 \<le> r \<longrightarrow> ends_with P P i (nat r) \<and> P ! nat r = P ! i"
    "\<And>b. r < int b \<Longrightarrow> int b \<le> j \<Longrightarrow> ends_with P P i b \<Longrightarrow> P ! b \<noteq> P ! i"
    by blast
  define j' where "j' = nat (r + 1)"
  have j': "int j' = r + 1" "j' \<le> i" using r(2,3) j(2) by (auto simp: j'_def)
  have l: "longest P (Suc i) (int j')" using longest_Suc [OF Suc.prems(3) r(2-5)] j'(1) by simp
  have len: "length T = Suc (length P)" using Suc.prems(4) by (simp add: entries_def)
  define W where "W = (if int (Suc i) < ?m
         then and_then (rd (map Some P) (int (Suc i))) (\<lambda>a. and_then (rd (map Some P) (int j')) (\<lambda>b.
           if a = b then and_then (rd T (int j')) (wr T (int (Suc i))) else wr T (int (Suc i)) (int j')))
         else wr T (int (Suc i)) (int j'))"
  have "\<exists>T'. W = Inr T' \<and> entries P T' (min (Suc (Suc i)) (length P))"
  proof (cases "Suc i < length P")
    case True
    have e: "entries P T (Suc i)" using Suc.prems(4) True by simp
    then obtain t where t: "T ! j' = Some t" "entry P j' t" using j'(2) unfolding entries_def by (meson le_imp_less_Suc)
    define u where "u = (if P ! Suc i = P ! j' then t else int j')"
    have "entry P (Suc i) u" using l by (rule longest_entry) (simp_all add: u_def t(2))
    then have "entries P (T[Suc i := Some u]) (Suc (Suc i))" using entries_write [OF e] True by simp
    moreover have "rd T (int j') = Inr t" using rd_Some [of j' T t] t(1) len j'(2) True by simp
    then have "W = Inr (T[Suc i := Some u])"
      using True len j'(2) wr_Some [of "Suc i" T] i unfolding W_def u_def by (simp del: of_nat_Suc)
    ultimately show ?thesis using True by (simp add: min_absorb1)
  next
    case False
    then have "W = Inr (T[Suc i := Some (int j')])" using len i wr_Some [of "Suc i" T] by (simp add: W_def del: of_nat_Suc)
    moreover have "entries P (T[Suc i := Some (int j')]) (length P)"
    proof (rule entries_keep)
      show "entries P T (length P)" using Suc.prems(4) False i by (metis Suc_leI le_antisym linorder_not_less min.idem)
    qed (use i False in simp)
    ultimately show ?thesis using False by (simp add: min_absorb2)
  qed
  then obtain T' where T': "W = Inr T'" "entries P T' (min (Suc (Suc i)) (length P))" by blast
  have "\<exists>T''. BuildTable_loop (map Some P) ?m T' (int (Suc i)) (int j') = Inr T'' \<and> entries P T'' (length P)"
    using Suc.hyps(2) i Suc.prems(1) l T'(2) by (intro Suc.hyps(1)) auto
  moreover have "BuildTable_loop (map Some P) ?m T (int i) j = BuildTable_loop (map Some P) ?m T' (int (Suc i)) (int j')"
  proof -
    have eq: "int i + 1 = int (Suc i)" "r + 1 = int j'" "rd (map Some P) (int i) = Inr (P ! i)" using i j'(1) by simp_all
    show ?thesis
      using i unfolding BuildTable_loop.simps [of _ _ T "int i"] eq r(1) and_then_Inr Let_def W_def [symmetric] T'(1) by simp
  qed
  ultimately show ?case by simp
qed

lemma BuildTable_ok:
  assumes "P \<noteq> []" "length T = Suc (length P)"
  shows "\<exists>T'. utstring_BuildTable (map Some P) (int (length P)) T = Inr T' \<and> entries P T' (length P)"
proof -
  have e: "entry P 0 (- 1)" by (simp add: entry_def border_def)
  then have "entries P (T[0 := Some (- 1)]) (Suc 0)" using entries_write [of P T 0 "- 1"] assms by (simp add: entries_def)
  moreover have "min (Suc 0) (length P) = Suc 0" using assms(1) by (cases P) auto
  ultimately have "\<exists>T'. BuildTable_loop (map Some P) (int (length P)) (T[0 := Some (- 1)]) (int 0) (- 1) = Inr T' \<and> entries P T' (length P)"
    by (intro BuildTable_loop_ok) (simp_all add: assms longest_def)
  then show ?thesis using wr_Some [of 0 T "- 1"] assms(2) by (simp add: utstring_BuildTable_def)
qed

section \<open>Searching\<close>

definition match_at :: "'a list \<Rightarrow> 'a list \<Rightarrow> nat \<Rightarrow> bool" where
  "match_at P H s \<longleftrightarrow> take (length P) (drop s H) = P"

lemma match_at_iff: "match_at P H s \<longleftrightarrow> s + length P \<le> length H \<and> (\<forall>k<length P. P ! k = H ! (s + k)) \<or> P = []"
proof (cases "P = [] \<or> length H < s + length P")
  case True
  then show ?thesis by (auto simp: match_at_def dest: arg_cong [of _ _ length])
next
  case False
  then have "length P \<le> length H - s" by auto
  then have "length (take (length P) (drop s H)) = length P" by simp
  then have "match_at P H s \<longleftrightarrow> (\<forall>k<length P. P ! k = H ! (s + k))"
    using False unfolding match_at_def list_eq_iff_nth_eq [of "take (length P) (drop s H)" P] by auto
  then show ?thesis using False by auto
qed

text \<open>The naive scan.\<close>

fun naive_find :: "'a list \<Rightarrow> 'a list \<Rightarrow> nat option" where
  "naive_find P [] = (if P = [] then Some 0 else None)"
| "naive_find P (x # H) = (if take (length P) (x # H) = P then Some 0 else map_option Suc (naive_find P H))"

lemma naive_find_Some: "naive_find P H = Some s \<Longrightarrow> match_at P H s \<and> (\<forall>s' < s. \<not> match_at P H s')"
proof (induction H arbitrary: s)
  case (Cons x H)
  show ?case
  proof (cases "take (length P) (x # H) = P")
    case True
    then show ?thesis using Cons.prems by (auto simp: match_at_def)
  next
    case False
    then obtain s0 where "s = Suc s0" "naive_find P H = Some s0" using Cons.prems by auto
    then show ?thesis using Cons.IH [of s0] False by (auto simp: match_at_def less_Suc_eq_0_disj)
  qed
qed (auto simp: match_at_def split: if_splits)

lemma naive_find_None: "naive_find P H = None \<Longrightarrow> \<not> match_at P H s"
proof (induction H arbitrary: s)
  case (Cons x H)
  then show ?case by (cases s) (auto simp: match_at_def split: if_splits)
qed (auto simp: match_at_def split: if_splits)

lemma naive_find_eq:
  "match_at P H s \<Longrightarrow> (\<And>s'. s' < s \<Longrightarrow> \<not> match_at P H s') \<Longrightarrow> naive_find P H = Some s"
  using naive_find_Some [of P H] naive_find_None [of P H s] by (cases "naive_find P H") (auto, metis linorder_neqE_nat)

lemma naive_find_none: "(\<And>s. \<not> match_at P H s) \<Longrightarrow> naive_find P H = None"
  using naive_find_Some [of P H] by (cases "naive_find P H") auto

definition found :: "nat option \<Rightarrow> int" where
  "found r = (case r of None \<Rightarrow> - 1 | Some s \<Rightarrow> int s)"

lemma find_loop_ok:
  assumes "entries P T (length P)" "P \<noteq> []" "length P < 2 ^ 31" "length H < 2 ^ 31"
    and "\<And>k. k < length H \<Longrightarrow> rd hay (off + int k) = Inr (H ! k)"
    and "i < length P" "j \<le> length H" "ends_with P H j i" "\<And>s. s < j - i \<Longrightarrow> \<not> match_at P H s"
  shows "find_loop hay off (int (length H)) (map Some P) (int (length P)) T (int i) (int j) = Inr (found (naive_find P H))"
  using assms(6-9)
proof (induction "length H - j" arbitrary: i j rule: less_induct)
  case less
  let ?n = "length H" and ?m = "length P"
  have int: "to_int (int ?n) = int ?n" "to_int (int ?m) = int ?m" using assms(3,4) by (simp_all add: to_int_id)
  have "int ?n - int j + int i = int (?n - j + i)" "?n - j + i < 2 ^ 64" "?m < 2 ^ 64"
    using assms(3,4) less.prems(1,2) by simp_all
  then have size: "to_size (int ?m) = ?m" "to_size (int ?n - int j + int i) = ?n - j + i"
    by (simp_all only: to_size_nat)
  have ij: "i \<le> j" using less.prems(3) by (simp add: ends_with_def)
  show ?case
  proof (cases "j < ?n \<and> ?m \<le> ?n - j + i")
    case False
    have "\<not> match_at P H s" for s
    proof (cases "s < j - i")
      case s: False
      then show ?thesis using False less.prems(1,2) assms(2) by (auto simp: match_at_iff)
    qed (use less.prems(4) in blast)
    then have "naive_find P H = None" by (rule naive_find_none)
    then show ?thesis using False int size by (subst find_loop.simps) (auto simp: found_def)
  next
    case True
    have bk: "\<exists>r. kmp_back (Suc (Suc (nat (int ?m)))) (map Some P) T (int i) (Inr (H ! j)) = Inr r \<and> - 1 \<le> r \<and> r \<le> int i
      \<and> (0 \<le> r \<longrightarrow> ends_with P H j (nat r) \<and> P ! nat r = H ! j)
      \<and> (\<forall>b. r < int b \<longrightarrow> int b \<le> int i \<longrightarrow> ends_with P H j b \<longrightarrow> P ! b \<noteq> H ! j)"
      using less.prems(1,3) assms(1) by (intro kmp_back_finds) (auto simp: entries_def)
    then obtain r where r: "kmp_back (Suc (Suc (nat (int ?m)))) (map Some P) T (int i) (Inr (H ! j)) = Inr r" "- 1 \<le> r" "r \<le> int i"
      "0 \<le> r \<longrightarrow> ends_with P H j (nat r) \<and> P ! nat r = H ! j"
      "\<And>b. r < int b \<Longrightarrow> int b \<le> int i \<Longrightarrow> ends_with P H j b \<Longrightarrow> P ! b \<noteq> H ! j" by blast
    define i' where "i' = nat (r + 1)"
    have i': "int i' = r + 1" "i' \<le> Suc i" using r(2,3) by (auto simp: i'_def)
    have e: "ends_with P H (Suc j) i'"
    proof (cases "r = - 1")
      case False
      then have "i' = Suc (nat r)" using r(2) by (simp add: i'_def)
      then show ?thesis using r(4) False r(2) by (simp add: ends_with_Suc)
    qed (simp add: i'_def)
    have none: "\<not> match_at P H s" if "s < Suc j - i'" for s
    proof (cases "s < j - i")
      case s: False
      show ?thesis
      proof
        assume m: "match_at P H s"
        have sj: "s \<le> j" using that i' by simp
        have "ends_with P H j (j - s)" "P ! (j - s) = H ! j"
          using m s ij less.prems(1) assms(2) sj by (auto simp: match_at_iff ends_with_def)
        moreover have "r < int (j - s)" "int (j - s) \<le> int i" using that s i' sj by linarith+
        ultimately show False using r(5) by blast
      qed
    qed (use less.prems(4) in blast)
    have cond: "int j < to_int (int ?n) \<and> to_size (int ?m) \<le> to_size (int ?n - int j + int i)"
      unfolding int size using True by linarith
    have run: "find_loop hay off (int ?n) (map Some P) (int ?m) T (int i) (int j) =
      (if ?m \<le> i' then Inr (int (Suc j) - int i') else find_loop hay off (int ?n) (map Some P) (int ?m) T (int i') (int (Suc j)))"
      using True assms(5) [of j] r(1) i'(1) int
      by (subst find_loop.simps, subst if_P [OF cond]) (simp add: Let_def add.commute)
    show ?thesis
    proof (cases "?m \<le> i'")
      case full: True
      then have "i' = ?m" using i'(2) less.prems(1) by simp
      moreover have "match_at P H (Suc j - ?m)"
        using e True calculation by (auto simp: match_at_iff ends_with_def)
      ultimately have "naive_find P H = Some (Suc j - ?m)" using none by (intro naive_find_eq) auto
      moreover have "?m \<le> Suc j" using e \<open>i' = ?m\<close> by (simp add: ends_with_def)
      ultimately show ?thesis using run full \<open>i' = ?m\<close> by (simp add: found_def of_nat_diff)
    next
      case more: False
      have "find_loop hay off (int ?n) (map Some P) (int ?m) T (int i') (int (Suc j)) = Inr (found (naive_find P H))"
        using True more e none by (intro less.hyps) auto
      then show ?thesis using run more by simp
    qed
  qed
qed

section \<open>The mirror image\<close>

abbreviation mirrored :: "int \<Rightarrow> int res \<Rightarrow> int res" where
  "mirrored m \<equiv> map_sum id (\<lambda>r. m - 1 - r)"

definition mirror_table :: "int \<Rightarrow> int option list \<Rightarrow> int option list" where
  "mirror_table m T = rev (map (map_option (\<lambda>t. m - 1 - t)) T)"

lemma mirror_length [simp]: "length (mirror_table m T) = length T"
  by (simp add: mirror_table_def)

lemma rd_rev:
  assumes "n = length cells"
  shows "rd (rev cells) (int n - 1 - k) = rd cells k"
proof (cases "k < 0 \<or> int n \<le> k")
  case False
  then obtain i where i: "k = int i" "i < n" using nonneg_int_cases [of k] by auto
  then have "nat (int n - 1 - k) = n - Suc i" by auto
  then show ?thesis using i assms by (simp add: rd_def rev_nth)
qed (use assms in \<open>auto simp: rd_def\<close>)

lemma rd_map: "rd (map (map_option f) cells) k = map_sum id f (rd cells k)"
proof (cases "k < 0 \<or> int (length cells) \<le> k")
  case False
  then obtain i where "k = int i" "i < length cells" using nonneg_int_cases [of k] by auto
  then show ?thesis by (simp add: rd_def split: option.split)
qed (auto simp: rd_def)

lemma rd_needle: "rd (map Some P) (int (length P) - 1 - k) = rd (map Some (rev P)) k"
  using rd_rev [of "length P" "map Some (rev P)" k] by (simp add: rev_map)

lemma rd_mirror: "length T = Suc n \<Longrightarrow> rd (mirror_table (int n) T) (int n - k) = mirrored (int n) (rd T k)"
  using rd_rev [of "Suc n" "map (map_option (\<lambda>t. int n - 1 - t)) T" k]
  by (simp add: mirror_table_def rd_map)

lemma wr_mirror:
  assumes "length T = Suc n"
  shows "wr (mirror_table (int n) T) (int n - k) (int n - 1 - x) = map_sum id (mirror_table (int n)) (wr T k x)"
proof (cases "k < 0 \<or> int n < k")
  case True
  then show ?thesis using assms by (auto simp: wr_def)
next
  case False
  then obtain i where i: "k = int i" "i \<le> n" using nonneg_int_cases [of k] by auto
  have "(mirror_table (int n) T)[n - i := Some (int n - 1 - x)] = mirror_table (int n) (T[i := Some x])"
    unfolding mirror_table_def using assms i(2) by (simp add: map_update rev_update)
  moreover have "nat (int n - k) = n - i" using i by (simp add: nat_diff_distrib)
  ultimately show ?thesis using assms i by (simp add: wr_def)
qed

lemma kmp_backR_mirror:
  assumes "length T = Suc (length P)"
  shows "kmp_backR fuel (map Some P) (int (length P)) (mirror_table (int (length P)) T) (int (length P) - 1 - c) byte
    = mirrored (int (length P)) (kmp_back fuel (map Some (rev P)) T c byte)"
proof (induction fuel arbitrary: c)
  case (Suc fuel)
  have "rd (mirror_table (int (length P)) T) (int (length P) - 1 - c + 1) = mirrored (int (length P)) (rd T c)"
    using rd_mirror [OF assms, of c] by (simp add: algebra_simps)
  then show ?case
    using Suc.IH rd_needle [of P c]
    by (cases "rd (map Some (rev P)) c"; cases byte; cases "rd T c") (auto simp: kmp_back.simps)
qed (simp add: kmp_back.simps)

lemma wr_length: "wr T k x = Inr T' \<Longrightarrow> length T' = length T"
  by (auto simp: wr_def split: if_splits)

lemma and_then_map: "and_then (map_sum id f r) g = and_then r (\<lambda>x. g (f x))"
  by (cases r) simp_all

lemma map_and_then: "map_sum id f (and_then r g) = and_then r (\<lambda>x. map_sum id f (g x))"
  by (cases r) simp_all

lemma BuildTableR_loop_mirror:
  assumes "length T = Suc (length P)"
  shows "BuildTableR_loop (map Some P) (int (length P)) (mirror_table (int (length P)) T) (int (length P) - 1 - i) (int (length P) - 1 - j)
    = map_sum id (mirror_table (int (length P))) (BuildTable_loop (map Some (rev P)) (int (length P)) T i j)"
  using assms
proof (induction "nat (int (length P) - i)" arbitrary: T i j rule: less_induct)
  case less
  let ?m = "int (length P)" and ?M = "mirror_table (int (length P))"
  show ?case
  proof (cases "i < ?m")
    case True
    define step where "step T j = (let i' = i + 1; j' = j + 1 in if i' < ?m
         then and_then (rd (map Some (rev P)) i') (\<lambda>a. and_then (rd (map Some (rev P)) j') (\<lambda>b.
           if a = b then and_then (rd T j') (wr T i') else wr T i' j'))
         else wr T i' j')" for T :: "int option list" and j
    define stepR where "stepR T j = (let i' = ?m - 1 - i - 1; j' = j - 1 in if 0 \<le> i'
         then and_then (rd (map Some P) i') (\<lambda>a. and_then (rd (map Some P) j') (\<lambda>b.
           if a = b then and_then (rd T (j' + 1)) (wr T (i' + 1)) else wr T (i' + 1) j'))
         else wr T (i' + 1) j')" for T :: "int option list" and j
    have sm: "stepR (?M T) (?m - 1 - r) = map_sum id ?M (step T r)" for r
    proof -
      have i': "?m - 1 - i - 1 = ?m - 1 - (i + 1)" "?m - 1 - r - 1 = ?m - 1 - (r + 1)" "?m - 1 - (i + 1) + 1 = ?m - (i + 1)"
        "?m - 1 - (r + 1) + 1 = ?m - (r + 1)" by simp_all
      show ?thesis
        unfolding stepR_def step_def Let_def i' rd_needle rd_mirror [OF less.prems] wr_mirror [OF less.prems]
        by (simp add: and_then_map map_and_then wr_mirror [OF less.prems] if_distrib cong: if_cong)
    qed
    have len: "length T' = Suc (length P)" if "step T r = Inr T'" for r T'
      using that less.prems by (auto simp: step_def Let_def res_simps wr_length split: if_splits)
    have "BuildTableR_loop (map Some P) ?m (?M T) (?m - 1 - i) (?m - 1 - j) =
      and_then (kmp_backR (Suc (Suc (nat ?m))) (map Some P) ?m (?M T) (?m - 1 - j) (rd (map Some P) (?m - 1 - i))) (\<lambda>r.
        and_then (stepR (?M T) r) (\<lambda>T'. BuildTableR_loop (map Some P) ?m T' (?m - 1 - i - 1) (r - 1)))"
      using True by (subst BuildTableR_loop.simps) (simp add: stepR_def Let_def)
    also have "\<dots> = and_then (kmp_back (Suc (Suc (nat ?m))) (map Some (rev P)) T j (rd (map Some (rev P)) i)) (\<lambda>r.
        and_then (step T r) (\<lambda>T'. BuildTableR_loop (map Some P) ?m (?M T') (?m - 1 - (i + 1)) (?m - 1 - (r + 1))))"
      unfolding kmp_backR_mirror [OF less.prems] rd_needle and_then_map sm by (simp add: algebra_simps)
    also have "\<dots> = and_then (kmp_back (Suc (Suc (nat ?m))) (map Some (rev P)) T j (rd (map Some (rev P)) i)) (\<lambda>r.
        and_then (step T r) (\<lambda>T'. map_sum id ?M (BuildTable_loop (map Some (rev P)) ?m T' (i + 1) (r + 1))))"
      using True by (intro and_then_cong refl less.hyps len) auto
    also have "\<dots> = map_sum id ?M (BuildTable_loop (map Some (rev P)) ?m T i j)"
      using True by (subst BuildTable_loop.simps) (simp add: step_def Let_def map_and_then)
    finally show ?thesis .
  qed (simp add: BuildTable_loop.simps BuildTableR_loop.simps)
qed

lemma BuildTableR_mirror:
  assumes "length T = Suc (length P)"
  shows "utstring_BuildTableR (map Some P) (int (length P)) (mirror_table (int (length P)) T)
    = map_sum id (mirror_table (int (length P))) (utstring_BuildTable (map Some (rev P)) (int (length P)) T)"
proof -
  let ?m = "int (length P)"
  have w: "wr T 0 (- 1) = Inr (T[0 := Some (- 1)])" using wr_Some [of 0 T "- 1"] assms by simp
  have "wr (mirror_table ?m T) ?m ?m = map_sum id (mirror_table ?m) (wr T 0 (- 1))"
    using wr_mirror [OF assms, of 0 "- 1"] by simp
  then show ?thesis
    using BuildTableR_loop_mirror [of "T[0 := Some (- 1)]" P 0 "- 1"] assms
    by (simp add: utstring_BuildTable_def utstring_BuildTableR_def Let_def w)
qed

text \<open>The search from the right finds the last occurrence: the first one of the mirror image.\<close>

lemma findR_loop_mirror:
  assumes T: "entries (rev P) T (length P)" and len: "length P < 2 ^ 31" "n < 2 ^ 31"
    and hay: "\<And>k. k < n \<Longrightarrow> rd hay (int n - 1 - int k) = rd hay' (int k)"
    and ij: "i < length P" "i \<le> j" "j \<le> n"
  shows "findR_loop hay (map Some P) (int (length P)) (mirror_table (int (length P)) T) (int (length P) - 1 - int i) (int n - 1 - int j)
    = map_sum id (\<lambda>r. if r = - 1 then - 1 else int n - int (length P) - r)
        (find_loop hay' 0 (int n) (map Some (rev P)) (int (length P)) T (int i) (int j))"
  using ij
proof (induction "n - j" arbitrary: i j rule: less_induct)
  case less
  let ?m = "int (length P)"
  have int: "to_int (int n) = int n" "to_int ?m = ?m" using len by (simp_all add: to_int_id)
  have "int n - int j + int i = int (n - j + i)" "n - j + i < 2 ^ 64" "length P < 2 ^ 64"
    using len less.prems by simp_all
  then have size: "to_size ?m = length P" "to_size (int n - int j + int i) = n - j + i"
    by (simp_all only: to_size_nat)
  have T': "length T = Suc (length P)" using T by (simp add: entries_def)
  show ?case
  proof (cases "j < n \<and> length P \<le> n - j + i")
    case False
    then show ?thesis using less.prems int size
      by (subst findR_loop.simps, subst find_loop.simps) auto
  next
    case True
    have "\<exists>r. kmp_back (Suc (Suc (nat ?m))) (map Some (rev P)) T (int i) (Inr b) = Inr r \<and> - 1 \<le> r \<and> r \<le> int i" for b
      by (rule kmp_back_bounds) (use T less.prems in \<open>auto simp: entries_def\<close>)
    moreover have "kmp_back (Suc (Suc (nat ?m))) (map Some (rev P)) T (int i) (Inl e) = Inl e" for e
      using less.prems by (simp add: kmp_back.simps)
    ultimately consider (fault) e where "kmp_back (Suc (Suc (nat ?m))) (map Some (rev P)) T (int i) (rd hay' (int j)) = Inl e"
      | (step) r where "kmp_back (Suc (Suc (nat ?m))) (map Some (rev P)) T (int i) (rd hay' (int j)) = Inr r" "- 1 \<le> r" "r \<le> int i"
      by (cases "rd hay' (int j)") (auto, metis)
    note cs = this
    have conds: "0 \<le> int n - 1 - int j \<and> ?m - 1 - int i \<le> int n - 1 - int j"
      "int j < to_int (int n) \<and> to_size ?m \<le> to_size (int n - int j + int i)"
      unfolding int size using True by linarith+
    have runs: "findR_loop hay (map Some P) ?m (mirror_table ?m T) (?m - 1 - int i) (int n - 1 - int j) =
       and_then (kmp_backR (Suc (Suc (nat ?m))) (map Some P) ?m (mirror_table ?m T) (?m - 1 - int i) (rd hay (int n - 1 - int j))) (\<lambda>i.
       let i' = i - 1; j' = int n - 1 - int j - 1 in
       if i' < 0 then Inr (j' + 1) else findR_loop hay (map Some P) ?m (mirror_table ?m T) i' j')"
      "find_loop hay' 0 (int n) (map Some (rev P)) ?m T (int i) (int j) =
       and_then (kmp_back (Suc (Suc (nat ?m))) (map Some (rev P)) T (int i) (rd hay' (int j))) (\<lambda>i.
       let i' = i + 1; j' = int j + 1 in
       if ?m \<le> i' then Inr (j' - i') else find_loop hay' 0 (int n) (map Some (rev P)) ?m T i' j')"
      using conds int by (subst findR_loop.simps, simp, subst find_loop.simps, simp)
    from cs show ?thesis
    proof cases
      case fault
      then show ?thesis unfolding runs kmp_backR_mirror [OF T'] using hay [of j] True by simp
    next
      case (step r)
      define i' where "i' = nat (r + 1)"
      have i': "int i' = r + 1" "i' \<le> Suc j" using step less.prems by (auto simp: i'_def)
      show ?thesis
      proof (cases "length P \<le> i'")
        case full: True
        then have "r + 1 = ?m" using i'(1) step(3) less.prems(1) by linarith
        then show ?thesis unfolding runs kmp_backR_mirror [OF T'] using hay [of j] True step less.prems(1,2)
          by (simp add: Let_def)
      next
        case more: False
        have "findR_loop hay (map Some P) ?m (mirror_table ?m T) (?m - 1 - int i') (int n - 1 - int (Suc j))
          = map_sum id (\<lambda>r. if r = - 1 then - 1 else int n - ?m - r)
              (find_loop hay' 0 (int n) (map Some (rev P)) ?m T (int i') (int (Suc j)))"
          using True more i'(2) by (intro less.hyps) auto
        moreover have "?m - 1 - int i' = ?m - 1 - r - 1" "int n - 1 - int (Suc j) = int n - 1 - int j - 1" using i'(1) by simp_all
        moreover have "\<not> ?m \<le> r + 1" "\<not> ?m - 1 - r - 1 < 0" using more i'(1) by linarith+
        ultimately show ?thesis unfolding runs kmp_backR_mirror [OF T'] using hay [of j] True step i'(1)
          by (simp add: Let_def add.commute)
      qed
    qed
  qed
qed

end
