(* ===== verification/Utstring_Find.thy ===== *)
theory Utstring_Find
  imports Utstring_Search
begin

text \<open>The searches of a whole string, and writing to one.\<close>

definition naive_findR :: "'a list \<Rightarrow> 'a list \<Rightarrow> nat option" where
  "naive_findR P H = map_option (\<lambda>r. length H - length P - r) (naive_find (rev P) (rev H))"

lemma match_at_rev:
  assumes "P \<noteq> []" "r + length P \<le> length H"
  shows "match_at (rev P) (rev H) r \<longleftrightarrow> match_at P H (length H - length P - r)"
proof -
  let ?s = "length H - length P - r"
  have "length H - r = ?s + length P" using assms(2) by simp
  then have "drop r (rev H) = rev (take (?s + length P) H)" by (simp only: drop_rev)
  moreover have "take (length P) (rev (take (?s + length P) H)) = rev (drop ?s (take (?s + length P) H))"
    using assms(2) by (simp add: take_rev add.commute)
  moreover have "drop ?s (take (?s + length P) H) = take (length P) (drop ?s H)" by (simp add: drop_take)
  ultimately show ?thesis by (simp add: match_at_def add.commute)
qed

lemma naive_findR_Some:
  assumes "P \<noteq> []" "naive_findR P H = Some s"
  shows "match_at P H s \<and> (\<forall>s' > s. \<not> match_at P H s')"
proof -
  obtain r where r: "naive_find (rev P) (rev H) = Some r" "s = length H - length P - r"
    using assms(2) by (auto simp: naive_findR_def)
  have m: "match_at (rev P) (rev H) r" "\<And>r'. r' < r \<Longrightarrow> \<not> match_at (rev P) (rev H) r'"
    using naive_find_Some [OF r(1)] by auto
  have len: "r + length P \<le> length H" using m(1) assms(1) by (simp add: match_at_iff)
  have "\<not> match_at P H s'" if "s < s'" for s'
  proof
    assume a: "match_at P H s'"
    then have l: "s' + length P \<le> length H" using assms(1) by (simp add: match_at_iff)
    have "match_at (rev P) (rev H) (length H - length P - s')"
      using match_at_rev [OF assms(1), of "length H - length P - s'" H] l a by simp
    moreover have "length H - length P - s' < r" using that l len r(2) by linarith
    ultimately show False using m(2) by blast
  qed
  then show ?thesis using match_at_rev [OF assms(1) len] m(1) r(2) by simp
qed

lemma naive_findR_None:
  assumes "P \<noteq> []" "naive_findR P H = None"
  shows "\<not> match_at P H s"
proof
  assume a: "match_at P H s"
  then have l: "s + length P \<le> length H" using assms(1) by (simp add: match_at_iff)
  have "match_at (rev P) (rev H) (length H - length P - s)"
    using match_at_rev [OF assms(1), of "length H - length P - s" H] l a by simp
  then show False using naive_find_None [of "rev P" "rev H"] assms(2) by (simp add: naive_findR_def)
qed

lemma naive_find_short: "P \<noteq> [] \<Longrightarrow> length H < length P \<Longrightarrow> naive_find P H = None"
  by (rule naive_find_none) (auto simp: match_at_iff)

lemma naive_findR_short: "P \<noteq> [] \<Longrightarrow> length H < length P \<Longrightarrow> naive_findR P H = None"
  by (simp add: naive_findR_def naive_find_short)

text \<open>The bytes of a string, read from its block.\<close>

lemma holds_string_rd:
  assumes "holds_string s xs"
  shows "\<exists>cells. str_block s = Inr cells \<and> (\<forall>k<length xs. rd cells (int k) = Inr (xs ! k))"
proof -
  obtain cells where c: "str_d s = Some (Live cells)" "length cells = str_n s" "length xs < str_n s"
    "take (length xs) cells = map Some xs" using assms by (auto simp: holds_string_def)
  have "rd cells (int k) = Inr (xs ! k)" if "k < length xs" for k
  proof (rule rd_Some)
    show "cells ! k = Some (xs ! k)" using that nth_take [of k "length xs" cells] c(4) by simp
  qed (use that c in simp)
  then show ?thesis using c(1) by (auto simp: str_block_def)
qed

definition position :: "'a list \<Rightarrow> int \<Rightarrow> nat" where
  "position xs pos = nat (if pos < 0 then int (length xs) + pos else pos)"

lemma start_position_eq:
  assumes "holds_string s xs" "length xs < 2 ^ 31" "- int (length xs) \<le> pos" "pos < 2 ^ 63"
  shows "start_position s pos = int (position xs pos)"
  using assms by (auto simp: start_position_def position_def holds_string_def to_long_id)

definition sample_bytes :: "u8 list" where
  "sample_bytes = [97, 98, 97, 98, 97, 98, 97, 97]"

definition sample_needle :: "u8 list" where
  "sample_needle = [98, 97, 98]"

definition sample_string :: UT_string where
  "sample_string = \<lparr>str_d = Some (Live (map Some sample_bytes @ [Some 0, None])), str_n = 10, str_i = 8\<rparr>"

lemma holds_sample: "holds_string sample_string sample_bytes"
  by (simp add: holds_string_def sample_string_def sample_bytes_def)

text \<open>A start position inside the string (a negative one counts from the end) or behind it.\<close>

lemma utstring_find_inside:
  assumes "holds_string s xs" "length xs < 2 ^ 31" "P \<noteq> []" "length P < 2 ^ 31"
    and "- int (length xs) \<le> pos" "pos < 2 ^ 63"
  shows "\<exists>h'. utstring_find oom s pos (map Some P) (length P) h =
    Inr (if fst (malloc oom (8 * (length P + 1)) h) = NULL then - 1
         else case naive_find P (drop (position xs pos) xs) of None \<Rightarrow> - 1 | Some k \<Rightarrow> int (position xs pos + k), h')"
proof -
  define k where "k = position xs pos"
  let ?H = "drop k xs" and ?m = "int (length P)"
  have st: "start_position s pos = int k" using start_position_eq [OF assms(1,2,5,6)] by (simp add: k_def)
  have k: "int k < 2 ^ 63" using assms(2,6) by (auto simp: k_def position_def)
  have i: "str_i s = length xs" using assms(1) by (auto simp: holds_string_def)
  have HL: "to_long (int (str_i s) - int k) = int (length xs) - int k" "to_long ?m = ?m"
    using k i assms(2,4) by (simp_all add: to_long_id)
  show ?thesis
  proof (cases "?m \<le> int (length xs) - int k")
    case False
    then have "length ?H < length P" using assms(3) by (cases "k \<le> length xs") auto
    then show ?thesis using False assms(3) unfolding k_def [symmetric]
      by (simp add: utstring_find_def st HL Let_def naive_find_short)
  next
    case True
    obtain p h1 where m: "malloc oom (8 * (length P + 1)) h = (p, h1)" by force
    obtain T where T: "utstring_BuildTable (map Some P) ?m (replicate (length P + 1) None) = Inr T" "entries P T (length P)"
      using BuildTable_ok [OF assms(3), of "replicate (length P + 1) None"] by auto
    obtain cells where c: "str_block s = Inr cells" "\<And>k. k < length xs \<Longrightarrow> rd cells (int k) = Inr (xs ! k)"
      using holds_string_rd [OF assms(1)] by auto
    have len: "int (length xs) - int k = int (length ?H)" using True assms(3) by (cases P) auto
    have "find_loop cells (int k) (int (length ?H)) (map Some P) ?m T (int 0) (int 0) = Inr (found (naive_find P ?H))"
    proof (rule find_loop_ok [OF T(2) assms(3,4)])
      show "rd cells (int k + int j) = Inr (?H ! j)" if "j < length ?H" for j
        using c(2) [of "k + j"] that by simp
    qed (use assms(2,3) in auto)
    then have "utstring_find_table cells (int k) (int (length xs) - int k) (map Some P) ?m T = Inr (found (naive_find P ?H))"
      by (simp add: utstring_find_table_def len)
    then show ?thesis using True assms(3) m T(1) c(1) unfolding k_def [symmetric]
      by (cases "naive_find P ?H") (simp_all add: utstring_find_def st HL Let_def found_def)
  qed
qed

text \<open>A start in front of the string: the first round of the loop, if there is one, reads in front of the block.\<close>

lemma utstring_find_before:
  assumes "holds_string s xs" "P \<noteq> []" "length P < 2 ^ 31" "- (2 ^ 63) < pos" "pos < - int (length xs)"
  shows "\<exists>h'. utstring_find oom s pos (map Some P) (length P) h =
    (if fst (malloc oom (8 * (length P + 1)) h) = NULL then Inr (- 1, h')
     else if int (length P) \<le> - pos \<and> 0 < to_int (- pos) then Inl BadDeref else Inr (- 1, h'))"
proof -
  let ?m = "int (length P)"
  have i: "str_i s = length xs" using assms(1) by (auto simp: holds_string_def)
  have st: "start_position s pos = int (length xs) + pos" using assms(4,5) i by (simp add: start_position_def to_long_id)
  have HL: "to_long (int (str_i s) - start_position s pos) = - pos" "to_long ?m = ?m"
    using assms(3-5) i st by (simp_all add: to_long_id)
  show ?thesis
  proof (cases "?m \<le> - pos")
    case False
    then have "utstring_find oom s pos (map Some P) (length P) h = Inr (- 1, h)" by (simp add: utstring_find_def HL Let_def)
    then show ?thesis using False by auto
  next
    case True
    obtain p h1 where m: "malloc oom (8 * (length P + 1)) h = (p, h1)" by force
    obtain T where T: "utstring_BuildTable (map Some P) ?m (replicate (length P + 1) None) = Inr T"
      using BuildTable_ok [OF assms(2), of "replicate (length P + 1) None"] by auto
    obtain cells where c: "str_block s = Inr cells" using holds_string_rd [OF assms(1)] by auto
    have sz: "to_size ?m = length P" "to_size (- pos) = nat (- pos)" using assms(3,4,5) by (simp_all add: to_size_id)
    have fault: "kmp_back (Suc n) (map Some P) T 0 (Inl BadDeref) = Inl BadDeref" for n
      using assms(2) by (simp add: kmp_back.simps(2))
    have "length P \<le> nat (- pos)" using True by linarith
    then have "utstring_find_table cells (start_position s pos) (- pos) (map Some P) ?m T
      = (if 0 < to_int (- pos) then Inl BadDeref else Inr (- 1))"
      using sz st assms(5) fault
      by (simp add: utstring_find_table_def find_loop.simps [of _ _ _ _ _ _ 0 0] rd_def)
    then show ?thesis using True assms(2) m T c
      by (auto simp: utstring_find_def HL Let_def)
  qed
qed

text \<open>C33: the search from the left against the naive scan, for every string and needle of less than 2 GiB and every
  start position (but \<open>LONG_MIN\<close>). A start inside the string (a negative one counts from the end) or behind it: the search
  returns the position of the first occurrence at or behind the start, or -1 when there is none; it reads nothing
  outside the string. A start in front of the string, more than its length back from the end, is not
  refused: the search takes the distance from there for the length of the string and, unless the needle is
  longer than that or the distance is not positive as an \<open>int\<close>, reads in front of the block
  (utstring.h:331-337). In every case the loops end, and the answer is -1 when there is no memory for the table.\<close>

theorem utstring_find_naive:
  assumes "holds_string s xs" "length xs < 2 ^ 31" "P \<noteq> []" "length P < 2 ^ 31" "- (2 ^ 63) < pos" "pos < 2 ^ 63"
  shows "\<exists>h'. utstring_find oom s pos (map Some P) (length P) h =
    (if fst (malloc oom (8 * (length P + 1)) h) = NULL then Inr (- 1, h')
     else if - int (length xs) \<le> pos
     then Inr (case naive_find P (drop (position xs pos) xs) of None \<Rightarrow> - 1 | Some k \<Rightarrow> int (position xs pos + k), h')
     else if int (length P) \<le> - pos \<and> 0 < to_int (- pos) then Inl BadDeref
     else Inr (- 1, h'))"
proof (cases "- int (length xs) \<le> pos")
  case True
  from utstring_find_inside [OF assms(1-4) True assms(6), of oom h] True show ?thesis by auto
next
  case False
  then have "pos < - int (length xs)" by simp
  from utstring_find_before [OF assms(1,3-5) this, of oom h] False show ?thesis by auto
qed

lemma utstring_find_naive_witness:
  "(\<exists>h'. utstring_find (\<lambda>_ _. False) sample_string (- 6) (map Some sample_needle) 3 \<lparr>brk = 0\<rparr> = Inr (3, h'))
    \<and> utstring_find (\<lambda>_ _. False) sample_string (- 9) (map Some sample_needle) 3 \<lparr>brk = 0\<rparr> = Inl BadDeref"
proof -
  have "position sample_bytes (- 6) = 2" "length sample_bytes = 8" "length sample_needle = 3" "sample_needle \<noteq> []" "0 < to_int 9" by code_simp+
  moreover have "naive_find sample_needle (drop 2 sample_bytes) = Some 1" by code_simp
  ultimately show ?thesis
    using utstring_find_naive [OF holds_sample, of sample_needle "- 6" "\<lambda>_ _. False" "\<lparr>brk = 0\<rparr>"]
      utstring_find_naive [OF holds_sample, of sample_needle "- 9" "\<lambda>_ _. False" "\<lparr>brk = 0\<rparr>"] by (simp add: malloc_def)
qed

text \<open>A position behind the block is not refused either: the search from the right starts to read there.\<close>

lemma utstring_findR_beyond:
  assumes "holds_string s xs" "P \<noteq> []" "length P < 2 ^ 31" "int (str_n s) \<le> pos" "pos < 2 ^ 63 - 1" "length P \<le> str_n s"
    and "fst (malloc oom (8 * (length P + 1)) h) \<noteq> NULL"
  shows "utstring_findR oom s pos (map Some P) (length P) h = Inl BadDeref"
proof -
  let ?m = "int (length P)"
  have st: "start_position s pos = pos" using assms(4) by (simp add: start_position_def)
  have L: "to_long (pos + 1) = pos + 1" "to_long ?m = ?m" "to_long (?m - 1) = ?m - 1" "to_long pos = pos" "to_int ?m = ?m"
    using assms(3,4,5) by (simp_all add: to_long_id to_int_id)
  obtain p h1 where m: "malloc oom (8 * (length P + 1)) h = (p, h1)" by force
  obtain T where T: "utstring_BuildTableR (map Some P) ?m (replicate (length P + 1) None) = Inr T"
  proof -
    have "mirror_table ?m (replicate (length P + 1) None) = replicate (length P + 1) None" by (simp add: mirror_table_def replicate_append_same)
    then show ?thesis
      using that BuildTableR_mirror [of "replicate (length P + 1) None" P] BuildTable_ok [of "rev P" "replicate (length P + 1) None"] assms(2)
      by auto
  qed
  obtain cells where c: "str_block s = Inr cells" "length cells = str_n s"
    using assms(1) by (auto simp: holds_string_def str_block_def)
  have "rd cells pos = Inl BadDeref" using c(2) assms(4) by (simp add: rd_def)
  moreover have "kmp_backR (Suc n) (map Some P) ?m T (?m - 1) (Inl BadDeref) = Inl BadDeref" for n
    using assms(2) rd_map_Some [of "?m - 1" P] by (cases "P = []") (simp_all add: kmp_backR.simps(2) Suc_le_eq)
  ultimately have "utstring_findR_table cells (pos + 1) (map Some P) ?m T = Inl BadDeref"
    using assms(4,6) by (simp add: utstring_findR_table_def L findR_loop.simps)
  then show ?thesis using assms(2,4,6,7) m T c(1) by (auto simp: utstring_findR_def st L Let_def)
qed

text \<open>C34: for a position inside the string (\<open>-len .. len - 1\<close>, a negative one counts from the end), and a
  string and a needle of less than 2 GiB, the search from the right finds the last occurrence that ends at or
  before the position, or returns -1 when there is none (or no memory for the table). Its table and its
  loop are the mirror image of the ones from the left. A position behind the string is not refused by the
  code and reads what is there; the statement does not cover it.\<close>

theorem utstring_findR_naive:
  assumes "holds_string s xs" "length xs < 2 ^ 31" "P \<noteq> []" "length P < 2 ^ 31"
    and "- int (length xs) \<le> pos" "pos < int (length xs)"
  shows "\<exists>h'. utstring_findR oom s pos (map Some P) (length P) h =
    Inr (if fst (malloc oom (8 * (length P + 1)) h) = NULL then - 1
         else case naive_findR P (take (Suc (position xs pos)) xs) of None \<Rightarrow> - 1 | Some k \<Rightarrow> int k, h')"
proof -
  define n where "n = Suc (position xs pos)"
  let ?H = "take n xs" and ?m = "int (length P)"
  have st: "start_position s pos + 1 = int n" using start_position_eq [OF assms(1,2,5)] assms(2,6) by (simp add: n_def)
  have n: "n \<le> length xs" using assms(5,6) by (auto simp: n_def position_def)
  have L: "to_long (int n) = int n" "to_long (int n - 1) = int n - 1" "to_long ?m = ?m" "to_long (?m - 1) = ?m - 1" "to_int ?m = ?m"
    using n assms(2,4) by (simp_all add: to_long_id to_int_id)
  show ?thesis
  proof (cases "?m \<le> int n")
    case False
    then have "length ?H < length P" using n by auto
    then show ?thesis using False assms(3) unfolding n_def [symmetric]
      by (simp add: utstring_findR_def st L Let_def naive_findR_short)
  next
    case True
    obtain p h1 where m: "malloc oom (8 * (length P + 1)) h = (p, h1)" by force
    obtain T where T: "utstring_BuildTable (map Some (rev P)) ?m (replicate (length P + 1) None) = Inr T" "entries (rev P) T (length P)"
      using BuildTable_ok [of "rev P" "replicate (length P + 1) None"] assms(3) by auto
    have "mirror_table ?m (replicate (length P + 1) None) = replicate (length P + 1) None" by (simp add: mirror_table_def replicate_append_same)
    then have R: "utstring_BuildTableR (map Some P) ?m (replicate (length P + 1) None) = Inr (mirror_table ?m T)"
      using BuildTableR_mirror [of "replicate (length P + 1) None" P] T(1) by simp
    obtain cells where c: "str_block s = Inr cells" "\<And>k. k < length xs \<Longrightarrow> rd cells (int k) = Inr (xs ! k)"
      using holds_string_rd [OF assms(1)] by auto
    let ?R = "map Some (rev ?H)"
    have rds: "rd cells (int n - 1 - int k) = rd ?R (int k)" if "k < n" for k
    proof -
      have "int n - 1 - int k = int (n - Suc k)" using that by simp
      moreover have "rd cells (int (n - Suc k)) = Inr (xs ! (n - Suc k))" using that n by (intro c(2)) simp
      ultimately show ?thesis using that n by (simp add: rev_nth min_absorb2 del: of_nat_diff)
    qed
    have "findR_loop cells (map Some P) ?m (mirror_table ?m T) (?m - 1 - int 0) (int n - 1 - int 0)
      = map_sum id (\<lambda>r. if r = - 1 then - 1 else int n - ?m - r) (find_loop ?R 0 (int n) (map Some (rev P)) ?m T (int 0) (int 0))"
      by (rule findR_loop_mirror [OF T(2) assms(4) _ rds]) (use n assms(2,3) in auto)
    moreover have "find_loop ?R 0 (int (length (rev ?H))) (map Some (rev P)) (int (length (rev P))) T (int 0) (int 0)
      = Inr (found (naive_find (rev P) (rev ?H)))"
      by (rule find_loop_ok) (use T(2) assms(2,3,4) in auto)
    moreover have "r + length P \<le> n" if "naive_find (rev P) (rev ?H) = Some r" for r
      using naive_find_Some [OF that] assms(3) n by (simp add: match_at_iff)
    ultimately have "utstring_findR_table cells (int n) (map Some P) ?m (mirror_table ?m T)
      = Inr (case naive_findR P ?H of None \<Rightarrow> - 1 | Some k \<Rightarrow> int k)"
      using n by (cases "naive_find (rev P) (rev ?H)")
        (simp_all add: utstring_findR_table_def L min_absorb2 found_def naive_findR_def of_nat_diff)
    then show ?thesis using True assms(3) m R c(1) unfolding n_def [symmetric]
      by (simp add: utstring_findR_def st L Let_def)
  qed
qed

lemma utstring_findR_naive_witness:
  "\<exists>h'. utstring_findR (\<lambda>_ _. False) sample_string (- 3) (map Some sample_needle) 3 \<lparr>brk = 0\<rparr> = Inr (3, h')"
proof -
  have "position sample_bytes (- 3) = 5" "length sample_bytes = 8" "length sample_needle = 3" "sample_needle \<noteq> []" by code_simp+
  moreover have "naive_findR sample_needle (take (Suc 5) sample_bytes) = Some 3" by code_simp
  ultimately show ?thesis
    using utstring_findR_naive [OF holds_sample, of sample_needle "- 3" "\<lambda>_ _. False" "\<lparr>brk = 0\<rparr>"] by (simp add: malloc_def)
qed

text \<open>C35: formatted output is appended: with any output of less than \<open>INT_MAX\<close> bytes, two rounds are enough, and the string then
  holds what it held and the output, with its terminating zero; or the process exits for want of memory.\<close>

theorem utstring_printf_appends:
  assumes "no_huge_malloc oom" "holds_string s xs" "length bs < 2 ^ 31 - 1" "2 \<le> fuel"
  shows "utstring_printf fuel oom (Some bs) s h = Inl OutOfMemory \<or>
    (\<exists>s' h'. utstring_printf fuel oom (Some bs) s h = Inr (s', h') \<and> holds_string s' (xs @ bs))"
proof -
  obtain n where "fuel = Suc (Suc n)" using assms(4) by (auto simp: le_iff_add)
  then show ?thesis using printf_ok [OF assms(1) holds_string_prefix [OF assms(2)] assms(3)] by simp
qed

lemma utstring_printf_appends_witness:
  "\<exists>s' h'. utstring_printf (Suc (Suc 0)) (\<lambda>t sz. 2 ^ 36 \<le> sz) (Some [49, 50, 51]) sample_string \<lparr>brk = 0\<rparr> = Inr (s', h')
    \<and> holds_string s' (sample_bytes @ [49, 50, 51])"
proof -
  let ?run = "utstring_printf (Suc (Suc 0)) (\<lambda>t sz. 2 ^ 36 \<le> sz) (Some [49, 50, 51]) sample_string \<lparr>brk = 0\<rparr>"
  have "?run \<noteq> Inl OutOfMemory"
    by (simp add: utstring_printf.simps(2) sample_string_def sample_bytes_def str_block_def vsnprintf_def
        utstring_reserve_def resized_def malloc_def to_size_id Let_def)
  then show ?thesis
    using utstring_printf_appends [of "\<lambda>t sz. 2 ^ 36 \<le> sz" sample_string sample_bytes "[49, 50, 51]" "Suc (Suc 0)" "\<lparr>brk = 0\<rparr>"]
    by (simp add: no_huge_malloc_def holds_sample)
qed

text \<open>An output that \<open>vsnprintf\<close> cannot encode is retried with a larger block until the memory is gone: the
  call never returns, and the process exits after at most 24 rounds.\<close>

theorem utstring_printf_exhausts:
  assumes "no_huge_malloc oom" "holds_string s xs" "str_n s < 2 ^ 36" "24 \<le> fuel"
  shows "utstring_printf fuel oom None s h = Inl OutOfMemory"
proof -
  obtain k where f: "fuel = Suc (23 + k)" using assms(4) by (auto simp: le_iff_add)
  have "2 ^ 36 \<le> (3 :: nat) ^ 23" by simp
  also have "\<dots> \<le> 3 ^ (23 + k)" by (rule power_increasing) simp_all
  also have "\<dots> \<le> str_n s * 3 ^ (23 + k)" using assms(2) by (auto simp: holds_string_def)
  finally show ?thesis unfolding f using assms by (intro printf_error_exits) (auto intro: holds_string_prefix)
qed

lemma utstring_printf_exhausts_witness:
  "utstring_printf 24 (\<lambda>t sz. 2 ^ 36 \<le> sz) None sample_string \<lparr>brk = 0\<rparr> = Inl OutOfMemory"
  using utstring_printf_exhausts [of "\<lambda>t sz. 2 ^ 36 \<le> sz" sample_string sample_bytes 24] holds_sample
  by (simp add: no_huge_malloc_def) (simp add: sample_string_def)

end
