(* ===== verification/Utlist.thy ===== *)
theory Utlist
  imports Prelude
begin

text \<open>
  The linked lists of \<^verbatim>\<open>include/uthash/utlist.h\<close>: singly linked (\<open>LL\<close>), doubly linked (\<open>DL\<close>, where the first
  element's \<open>prev\<close> is the last one) and circular (\<open>CDL\<close>), one definition per macro, with the
  \<open>__typeof\<close> variant of each. A macro assigns to its argument \<open>head\<close>: a definition returns the new head with the
  new links. A comparison is a function of two addresses, since it reads the elements and not their links.
  A walk has fuel: one that visits more elements than that is a \<open>LoopBound\<close>, which a circular list would give.
\<close>

section \<open>Links\<close>

text \<open>The links of all elements, field by field; \<open>elt_at\<close> says where there is an element.\<close>

record links =
  elt_at :: "addr \<Rightarrow> bool"
  nxt :: "addr \<Rightarrow> addr"
  prv :: "addr \<Rightarrow> addr"

definition at_elt :: "links \<Rightarrow> addr \<Rightarrow> 'a \<Rightarrow> 'a res" where
  "at_elt m a x = (if a = NULL then Inl NullDeref else if elt_at m a then Inr x else Inl BadDeref)"

definition get_next :: "links \<Rightarrow> addr \<Rightarrow> addr res" where
  "get_next m a = at_elt m a (nxt m a)"

definition get_prev :: "links \<Rightarrow> addr \<Rightarrow> addr res" where
  "get_prev m a = at_elt m a (prv m a)"

definition set_next :: "addr \<Rightarrow> addr \<Rightarrow> links \<Rightarrow> links res" where
  "set_next a v m = at_elt m a (m\<lparr>nxt := (nxt m)(a := v)\<rparr>)"

definition set_prev :: "addr \<Rightarrow> addr \<Rightarrow> links \<Rightarrow> links res" where
  "set_prev a v m = at_elt m a (m\<lparr>prv := (prv m)(a := v)\<rparr>)"

definition assert :: "bool \<Rightarrow> 'a res \<Rightarrow> 'a res" where
  "assert b k = (if b then k else Inl AssertFail)"

named_theorems link_defs \<open>reads and writes of links\<close>

lemmas [link_defs] = at_elt_def get_next_def get_prev_def set_next_def set_prev_def assert_def

section \<open>Singly linked lists\<close>

text \<open>The loops: to the last element, and to the one in front of \<open>el\<close>.\<close>

fun LL_last :: "nat \<Rightarrow> links \<Rightarrow> addr \<Rightarrow> addr res" where
  "LL_last 0 m t = Inl LoopBound"
| "LL_last (Suc fuel) m t = and_then (get_next m t) (\<lambda>n. if n \<noteq> NULL then LL_last fuel m n else Inr t)"

fun LL_before :: "nat \<Rightarrow> links \<Rightarrow> addr \<Rightarrow> addr \<Rightarrow> addr res" where
  "LL_before 0 m el t = Inl LoopBound"
| "LL_before (Suc fuel) m el t = and_then (get_next m t) (\<lambda>n. if n \<noteq> NULL \<and> n \<noteq> el then LL_before fuel m el n else Inr t)"

definition LL_PREPEND :: "addr \<Rightarrow> addr \<Rightarrow> links \<Rightarrow> (addr \<times> links) res" where
  "LL_PREPEND head add m = and_then (set_next add head m) (\<lambda>m. Inr (add, m))"

definition LL_CONCAT :: "nat \<Rightarrow> addr \<Rightarrow> addr \<Rightarrow> links \<Rightarrow> (addr \<times> links) res" where
  "LL_CONCAT fuel head1 head2 m =
    (if head1 \<noteq> NULL then and_then (LL_last fuel m head1) (\<lambda>t. and_then (set_next t head2 m) (\<lambda>m. Inr (head1, m)))
     else Inr (head2, m))"

definition LL_APPEND :: "nat \<Rightarrow> addr \<Rightarrow> addr \<Rightarrow> links \<Rightarrow> (addr \<times> links) res" where
  "LL_APPEND fuel head add m = and_then (set_next add NULL m) (\<lambda>m.
    if head \<noteq> NULL then and_then (LL_last fuel m head) (\<lambda>t. and_then (set_next t add m) (\<lambda>m. Inr (head, m)))
    else Inr (add, m))"

text \<open>The loop of the lower bound, which stops at \<open>stop\<close>: \<open>NULL\<close>, or the head of a circular list.\<close>

fun bound_loop :: "nat \<Rightarrow> (addr \<Rightarrow> addr \<Rightarrow> int) \<Rightarrow> addr \<Rightarrow> addr \<Rightarrow> links \<Rightarrow> addr \<Rightarrow> addr res" where
  "bound_loop 0 cmp stop like m elt = Inl LoopBound"
| "bound_loop (Suc fuel) cmp stop like m elt = and_then (get_next m elt) (\<lambda>n.
    if n \<noteq> stop then if 0 \<le> cmp n like then Inr elt else bound_loop fuel cmp stop like m n else Inr elt)"

definition LL_LOWER_BOUND :: "nat \<Rightarrow> (addr \<Rightarrow> addr \<Rightarrow> int) \<Rightarrow> addr \<Rightarrow> addr \<Rightarrow> links \<Rightarrow> addr res" where
  "LL_LOWER_BOUND fuel cmp head like m =
    (if head = NULL \<or> 0 \<le> cmp head like then Inr NULL else bound_loop fuel cmp NULL like m head)"

definition LL_APPEND_ELEM :: "addr \<Rightarrow> addr \<Rightarrow> addr \<Rightarrow> links \<Rightarrow> (addr \<times> links) res" where
  "LL_APPEND_ELEM head el add m =
    (if el \<noteq> NULL
     then assert (head \<noteq> NULL) (assert (add \<noteq> NULL) (and_then (get_next m el) (\<lambda>n.
       and_then (set_next add n m) (\<lambda>m. and_then (set_next el add m) (\<lambda>m. Inr (head, m))))))
     else LL_PREPEND head add m)"

definition LL_INSERT_INORDER :: "nat \<Rightarrow> (addr \<Rightarrow> addr \<Rightarrow> int) \<Rightarrow> addr \<Rightarrow> addr \<Rightarrow> links \<Rightarrow> (addr \<times> links) res" where
  "LL_INSERT_INORDER fuel cmp head add m =
    (if head \<noteq> NULL
     then and_then (LL_LOWER_BOUND fuel cmp head add m) (\<lambda>t. LL_APPEND_ELEM head t add m)
     else and_then (set_next add NULL m) (\<lambda>m. Inr (add, m)))"

definition LL_DELETE :: "nat \<Rightarrow> addr \<Rightarrow> addr \<Rightarrow> links \<Rightarrow> (addr \<times> links) res" where
  "LL_DELETE fuel head del m =
    (if head = del then and_then (get_next m head) (\<lambda>n. Inr (n, m))
     else and_then (LL_before fuel m del head) (\<lambda>t. and_then (get_next m t) (\<lambda>n.
       if n \<noteq> NULL then and_then (get_next m del) (\<lambda>d. and_then (set_next t d m) (\<lambda>m. Inr (head, m)))
       else Inr (head, m))))"

text \<open>The elements \<open>LL_FOREACH\<close> visits. \<open>LL_FOREACH_SAFE\<close> reads the next element before the body, which may change or free
  the current one.\<close>

fun LL_FOREACH :: "nat \<Rightarrow> links \<Rightarrow> addr \<Rightarrow> addr list res" where
  "LL_FOREACH 0 m el = Inl LoopBound"
| "LL_FOREACH (Suc fuel) m el = (if el \<noteq> NULL then and_then (get_next m el) (\<lambda>n. and_then (LL_FOREACH fuel m n) (\<lambda>xs. Inr (el # xs)))
    else Inr [])"

fun LL_FOREACH_SAFE :: "nat \<Rightarrow> (addr \<Rightarrow> links \<Rightarrow> links res) \<Rightarrow> addr \<Rightarrow> links \<Rightarrow> links res" where
  "LL_FOREACH_SAFE 0 body el m = Inl LoopBound"
| "LL_FOREACH_SAFE (Suc fuel) body el m = (if el \<noteq> NULL then and_then (get_next m el) (\<lambda>tmp. and_then (body el m) (\<lambda>m.
    LL_FOREACH_SAFE fuel body tmp m)) else Inr m)"

fun LL_COUNT :: "nat \<Rightarrow> links \<Rightarrow> addr \<Rightarrow> nat \<Rightarrow> nat res" where
  "LL_COUNT 0 m el counter = Inl LoopBound"
| "LL_COUNT (Suc fuel) m el counter = (if el \<noteq> NULL then and_then (get_next m el) (\<lambda>n. LL_COUNT fuel m n (counter + 1))
    else Inr counter)"

text \<open>The result is \<open>NULL\<close> when nothing was found.\<close>

fun LL_SEARCH_SCALAR :: "nat \<Rightarrow> (addr \<Rightarrow> 'v) \<Rightarrow> 'v \<Rightarrow> links \<Rightarrow> addr \<Rightarrow> addr res" where
  "LL_SEARCH_SCALAR 0 field val m out = Inl LoopBound"
| "LL_SEARCH_SCALAR (Suc fuel) field val m out = (if out \<noteq> NULL
    then and_then (get_next m out) (\<lambda>n. if field out = val then Inr out else LL_SEARCH_SCALAR fuel field val m n)
    else Inr out)"

fun LL_SEARCH :: "nat \<Rightarrow> (addr \<Rightarrow> addr \<Rightarrow> int) \<Rightarrow> addr \<Rightarrow> links \<Rightarrow> addr \<Rightarrow> addr res" where
  "LL_SEARCH 0 cmp elt m out = Inl LoopBound"
| "LL_SEARCH (Suc fuel) cmp elt m out = (if out \<noteq> NULL
    then and_then (get_next m out) (\<lambda>n. if cmp out elt = 0 then Inr out else LL_SEARCH fuel cmp elt m n)
    else Inr out)"

definition LL_REPLACE_ELEM :: "nat \<Rightarrow> addr \<Rightarrow> addr \<Rightarrow> addr \<Rightarrow> links \<Rightarrow> (addr \<times> links) res" where
  "LL_REPLACE_ELEM fuel head el add m =
    assert (head \<noteq> NULL) (assert (el \<noteq> NULL) (assert (add \<noteq> NULL)
      (and_then (get_next m el) (\<lambda>n. and_then (set_next add n m) (\<lambda>m.
       if head = el then Inr (add, m)
       else and_then (LL_before fuel m el head) (\<lambda>t. and_then (get_next m t) (\<lambda>n.
         if n \<noteq> NULL then and_then (set_next t add m) (\<lambda>m. Inr (head, m)) else Inr (head, m))))))))"

fun LL_REVERSE_loop :: "nat \<Rightarrow> addr \<Rightarrow> addr \<Rightarrow> links \<Rightarrow> (addr \<times> links) res" where
  "LL_REVERSE_loop 0 cur prev m = Inl LoopBound"
| "LL_REVERSE_loop (Suc fuel) cur prev m = (if cur \<noteq> NULL
    then and_then (get_next m cur) (\<lambda>n. and_then (set_next cur prev m) (\<lambda>m. LL_REVERSE_loop fuel n cur m))
    else Inr (prev, m))"

definition LL_REVERSE :: "nat \<Rightarrow> addr \<Rightarrow> links \<Rightarrow> (addr \<times> links) res" where
  "LL_REVERSE fuel head m = LL_REVERSE_loop fuel head NULL m"

definition LL_PREPEND_ELEM :: "nat \<Rightarrow> addr \<Rightarrow> addr \<Rightarrow> addr \<Rightarrow> links \<Rightarrow> (addr \<times> links) res" where
  "LL_PREPEND_ELEM fuel head el add m =
    (if el \<noteq> NULL
     then assert (head \<noteq> NULL) (assert (add \<noteq> NULL) (and_then (set_next add el m) (\<lambda>m.
       if head = el then Inr (add, m)
       else and_then (LL_before fuel m el head) (\<lambda>t. and_then (get_next m t) (\<lambda>n.
         if n \<noteq> NULL then and_then (set_next t add m) (\<lambda>m. Inr (head, m)) else Inr (head, m))))))
     else LL_APPEND fuel head add m)"

section \<open>Doubly linked lists\<close>

definition DL_PREPEND :: "addr \<Rightarrow> addr \<Rightarrow> links \<Rightarrow> (addr \<times> links) res" where
  "DL_PREPEND head add m = and_then (set_next add head m) (\<lambda>m. and_then
    (if head \<noteq> NULL then and_then (get_prev m head) (\<lambda>p. and_then (set_prev add p m) (\<lambda>m. set_prev head add m))
     else set_prev add add m) (\<lambda>m. Inr (add, m)))"

definition DL_APPEND :: "addr \<Rightarrow> addr \<Rightarrow> links \<Rightarrow> (addr \<times> links) res" where
  "DL_APPEND head add m =
    (if head \<noteq> NULL
     then and_then (get_prev m head) (\<lambda>p. and_then (set_prev add p m) (\<lambda>m. and_then (get_prev m head) (\<lambda>p.
       and_then (set_next p add m) (\<lambda>m. and_then (set_prev head add m) (\<lambda>m. and_then (set_next add NULL m) (\<lambda>m. Inr (head, m)))))))
     else and_then (set_prev add add m) (\<lambda>m. and_then (set_next add NULL m) (\<lambda>m. Inr (add, m))))"

definition DL_LOWER_BOUND :: "nat \<Rightarrow> (addr \<Rightarrow> addr \<Rightarrow> int) \<Rightarrow> addr \<Rightarrow> addr \<Rightarrow> links \<Rightarrow> addr res" where
  "DL_LOWER_BOUND fuel cmp head like m =
    (if head = NULL \<or> 0 \<le> cmp head like then Inr NULL else bound_loop fuel cmp NULL like m head)"

definition DL_APPEND_ELEM :: "addr \<Rightarrow> addr \<Rightarrow> addr \<Rightarrow> links \<Rightarrow> (addr \<times> links) res" where
  "DL_APPEND_ELEM head el add m =
    (if el \<noteq> NULL
     then assert (head \<noteq> NULL) (assert (add \<noteq> NULL) (and_then (get_next m el) (\<lambda>n.
       and_then (set_next add n m) (\<lambda>m. and_then (set_prev add el m) (\<lambda>m. and_then (set_next el add m) (\<lambda>m.
       and_then (get_next m add) (\<lambda>n. and_then (if n \<noteq> NULL then set_prev n add m else set_prev head add m) (\<lambda>m.
       Inr (head, m)))))))))
     else DL_PREPEND head add m)"

definition DL_INSERT_INORDER :: "nat \<Rightarrow> (addr \<Rightarrow> addr \<Rightarrow> int) \<Rightarrow> addr \<Rightarrow> addr \<Rightarrow> links \<Rightarrow> (addr \<times> links) res" where
  "DL_INSERT_INORDER fuel cmp head add m =
    (if head \<noteq> NULL
     then and_then (DL_LOWER_BOUND fuel cmp head add m) (\<lambda>t. DL_APPEND_ELEM head t add m)
     else and_then (set_prev add add m) (\<lambda>m. and_then (set_next add NULL m) (\<lambda>m. Inr (add, m))))"

definition DL_CONCAT :: "addr \<Rightarrow> addr \<Rightarrow> links \<Rightarrow> (addr \<times> links) res" where
  "DL_CONCAT head1 head2 m =
    (if head2 \<noteq> NULL
     then if head1 \<noteq> NULL
       then and_then (get_prev m head2) (\<lambda>tmp. and_then (get_prev m head1) (\<lambda>p. and_then (set_prev head2 p m) (\<lambda>m.
         and_then (get_prev m head1) (\<lambda>p. and_then (set_next p head2 m) (\<lambda>m. and_then (set_prev head1 tmp m) (\<lambda>m.
         Inr (head1, m)))))))
       else Inr (head2, m)
     else Inr (head1, m))"

definition DL_DELETE :: "addr \<Rightarrow> addr \<Rightarrow> links \<Rightarrow> (addr \<times> links) res" where
  "DL_DELETE head del m =
    assert (head \<noteq> NULL) (and_then (get_prev m del) (\<lambda>p. assert (p \<noteq> NULL)
      (if p = del then Inr (NULL, m)
       else if del = head
       then and_then (get_next m del) (\<lambda>n. assert (n \<noteq> NULL) (and_then (set_prev n p m) (\<lambda>m.
         and_then (get_next m del) (\<lambda>n. Inr (n, m)))))
       else and_then (get_next m del) (\<lambda>n. and_then (set_next p n m) (\<lambda>m. and_then (get_next m del) (\<lambda>n.
         and_then (get_prev m del) (\<lambda>p.
         and_then (if n \<noteq> NULL then set_prev n p m else set_prev head p m) (\<lambda>m. Inr (head, m)))))))))"

definition DL_COUNT :: "nat \<Rightarrow> links \<Rightarrow> addr \<Rightarrow> nat \<Rightarrow> nat res" where
  "DL_COUNT = LL_COUNT"

definition DL_FOREACH :: "nat \<Rightarrow> links \<Rightarrow> addr \<Rightarrow> addr list res" where
  "DL_FOREACH = LL_FOREACH"

definition DL_FOREACH_SAFE :: "nat \<Rightarrow> (addr \<Rightarrow> links \<Rightarrow> links res) \<Rightarrow> addr \<Rightarrow> links \<Rightarrow> links res" where
  "DL_FOREACH_SAFE = LL_FOREACH_SAFE"

definition DL_SEARCH_SCALAR :: "nat \<Rightarrow> (addr \<Rightarrow> 'v) \<Rightarrow> 'v \<Rightarrow> links \<Rightarrow> addr \<Rightarrow> addr res" where
  "DL_SEARCH_SCALAR = LL_SEARCH_SCALAR"

definition DL_SEARCH :: "nat \<Rightarrow> (addr \<Rightarrow> addr \<Rightarrow> int) \<Rightarrow> addr \<Rightarrow> links \<Rightarrow> addr \<Rightarrow> addr res" where
  "DL_SEARCH = LL_SEARCH"

definition DL_REPLACE_ELEM :: "addr \<Rightarrow> addr \<Rightarrow> addr \<Rightarrow> links \<Rightarrow> (addr \<times> links) res" where
  "DL_REPLACE_ELEM head el add m =
    assert (head \<noteq> NULL) (assert (el \<noteq> NULL) (assert (add \<noteq> NULL)
      (if head = el
       then and_then (get_next m el) (\<lambda>n. and_then (set_next add n m) (\<lambda>m. and_then (get_next m el) (\<lambda>n.
         if n = NULL then and_then (set_prev add add m) (\<lambda>m. Inr (add, m))
         else and_then (get_prev m el) (\<lambda>p. and_then (set_prev add p m) (\<lambda>m. and_then (get_next m add) (\<lambda>n.
           and_then (set_prev n add m) (\<lambda>m. Inr (add, m))))))))
       else and_then (get_next m el) (\<lambda>n. and_then (set_next add n m) (\<lambda>m. and_then (get_prev m el) (\<lambda>p.
         and_then (set_prev add p m) (\<lambda>m. and_then (get_prev m add) (\<lambda>p. and_then (set_next p add m) (\<lambda>m.
         and_then (get_next m el) (\<lambda>n.
         if n = NULL then and_then (set_prev head add m) (\<lambda>m. Inr (head, m))
         else and_then (get_next m add) (\<lambda>n. and_then (set_prev n add m) (\<lambda>m. Inr (head, m)))))))))))))"

text \<open>The loop swaps the two links of each element; it returns the links and the last value of \<open>_prev\<close>.\<close>

fun DL_REVERSE_loop :: "nat \<Rightarrow> addr \<Rightarrow> addr \<Rightarrow> links \<Rightarrow> (addr \<times> links) res" where
  "DL_REVERSE_loop 0 cur prev m = Inl LoopBound"
| "DL_REVERSE_loop (Suc fuel) cur prev m = (if cur \<noteq> NULL
    then and_then (get_prev m cur) (\<lambda>p. and_then (get_next m cur) (\<lambda>n. and_then (set_prev cur n m) (\<lambda>m.
      and_then (set_next cur p m) (\<lambda>m. and_then (get_prev m cur) (\<lambda>c. DL_REVERSE_loop fuel c p m)))))
    else Inr (prev, m))"

definition DL_REVERSE :: "nat \<Rightarrow> addr \<Rightarrow> links \<Rightarrow> (addr \<times> links) res" where
  "DL_REVERSE fuel head m =
    and_then (if head \<noteq> NULL then and_then (get_next m head) (\<lambda>n. Inr (n \<noteq> NULL)) else Inr False) (\<lambda>more.
    if more
    then let tail = head in and_then (DL_REVERSE_loop fuel head NULL m) (\<lambda>(p, m). and_then (get_prev m p) (\<lambda>head.
      and_then (set_next tail NULL m) (\<lambda>m. and_then (set_prev head tail m) (\<lambda>m. Inr (head, m)))))
    else Inr (head, m))"

definition DL_PREPEND_ELEM :: "addr \<Rightarrow> addr \<Rightarrow> addr \<Rightarrow> links \<Rightarrow> (addr \<times> links) res" where
  "DL_PREPEND_ELEM head el add m =
    (if el \<noteq> NULL
     then assert (head \<noteq> NULL) (assert (add \<noteq> NULL) (and_then (set_next add el m) (\<lambda>m. and_then (get_prev m el) (\<lambda>p.
       and_then (set_prev add p m) (\<lambda>m. and_then (set_prev el add m) (\<lambda>m.
       if head = el then Inr (add, m)
       else and_then (get_prev m add) (\<lambda>p. and_then (set_next p add m) (\<lambda>m. Inr (head, m)))))))))
     else DL_APPEND head add m)"

section \<open>Circular lists\<close>

definition CDL_APPEND :: "addr \<Rightarrow> addr \<Rightarrow> links \<Rightarrow> (addr \<times> links) res" where
  "CDL_APPEND head add m =
    (if head \<noteq> NULL
     then and_then (get_prev m head) (\<lambda>p. and_then (set_prev add p m) (\<lambda>m. and_then (set_next add head m) (\<lambda>m.
       and_then (set_prev head add m) (\<lambda>m. and_then (get_prev m add) (\<lambda>p. and_then (set_next p add m) (\<lambda>m. Inr (head, m)))))))
     else and_then (set_prev add add m) (\<lambda>m. and_then (set_next add add m) (\<lambda>m. Inr (add, m))))"

definition CDL_PREPEND :: "addr \<Rightarrow> addr \<Rightarrow> links \<Rightarrow> (addr \<times> links) res" where
  "CDL_PREPEND head add m = and_then
    (if head \<noteq> NULL
     then and_then (get_prev m head) (\<lambda>p. and_then (set_prev add p m) (\<lambda>m. and_then (set_next add head m) (\<lambda>m.
       and_then (set_prev head add m) (\<lambda>m. and_then (get_prev m add) (\<lambda>p. set_next p add m)))))
     else and_then (set_prev add add m) (\<lambda>m. set_next add add m)) (\<lambda>m. Inr (add, m))"

definition CDL_LOWER_BOUND :: "nat \<Rightarrow> (addr \<Rightarrow> addr \<Rightarrow> int) \<Rightarrow> addr \<Rightarrow> addr \<Rightarrow> links \<Rightarrow> addr res" where
  "CDL_LOWER_BOUND fuel cmp head like m =
    (if head = NULL \<or> 0 \<le> cmp head like then Inr NULL else bound_loop fuel cmp head like m head)"

definition CDL_APPEND_ELEM :: "addr \<Rightarrow> addr \<Rightarrow> addr \<Rightarrow> links \<Rightarrow> (addr \<times> links) res" where
  "CDL_APPEND_ELEM head el add m =
    (if el \<noteq> NULL
     then assert (head \<noteq> NULL) (assert (add \<noteq> NULL) (and_then (get_next m el) (\<lambda>n.
       and_then (set_next add n m) (\<lambda>m. and_then (set_prev add el m) (\<lambda>m. and_then (set_next el add m) (\<lambda>m.
       and_then (get_next m add) (\<lambda>n. and_then (set_prev n add m) (\<lambda>m. Inr (head, m)))))))))
     else CDL_PREPEND head add m)"

definition CDL_INSERT_INORDER :: "nat \<Rightarrow> (addr \<Rightarrow> addr \<Rightarrow> int) \<Rightarrow> addr \<Rightarrow> addr \<Rightarrow> links \<Rightarrow> (addr \<times> links) res" where
  "CDL_INSERT_INORDER fuel cmp head add m =
    (if head \<noteq> NULL
     then and_then (CDL_LOWER_BOUND fuel cmp head add m) (\<lambda>t. CDL_APPEND_ELEM head t add m)
     else and_then (set_next add add m) (\<lambda>m. and_then (set_prev add add m) (\<lambda>m. Inr (add, m))))"

definition CDL_CONCAT :: "addr \<Rightarrow> addr \<Rightarrow> links \<Rightarrow> (addr \<times> links) res" where
  "CDL_CONCAT head1 head2 m =
    (if head1 \<noteq> NULL
     then if head2 \<noteq> NULL
       then and_then (get_prev m head1) (\<lambda>tmp. and_then (get_prev m head2) (\<lambda>p. and_then (set_prev head1 p m) (\<lambda>m.
         and_then (get_prev m head1) (\<lambda>p. and_then (set_next p head1 m) (\<lambda>m. and_then (set_prev head2 tmp m) (\<lambda>m.
         and_then (get_prev m head2) (\<lambda>p. and_then (set_next p head2 m) (\<lambda>m. Inr (head1, m)))))))))
       else Inr (head1, m)
     else Inr (head2, m))"

definition CDL_DELETE :: "addr \<Rightarrow> addr \<Rightarrow> links \<Rightarrow> (addr \<times> links) res" where
  "CDL_DELETE head del m =
    and_then (if head = del then and_then (get_next m head) (\<lambda>n. Inr (n = head)) else Inr False) (\<lambda>only.
    if only then Inr (NULL, m)
    else and_then (get_next m del) (\<lambda>n. and_then (get_prev m del) (\<lambda>p. and_then (set_prev n p m) (\<lambda>m.
      and_then (get_prev m del) (\<lambda>p. and_then (get_next m del) (\<lambda>n. and_then (set_next p n m) (\<lambda>m.
      if del = head then and_then (get_next m del) (\<lambda>n. Inr (n, m)) else Inr (head, m))))))))"

fun CDL_COUNT :: "nat \<Rightarrow> links \<Rightarrow> addr \<Rightarrow> addr \<Rightarrow> nat \<Rightarrow> nat res" where
  "CDL_COUNT 0 m head el counter = Inl LoopBound"
| "CDL_COUNT (Suc fuel) m head el counter = (if el \<noteq> NULL
    then and_then (get_next m el) (\<lambda>n. CDL_COUNT fuel m head (if n = head then NULL else n) (counter + 1))
    else Inr counter)"

fun CDL_FOREACH :: "nat \<Rightarrow> links \<Rightarrow> addr \<Rightarrow> addr \<Rightarrow> addr list res" where
  "CDL_FOREACH 0 m head el = Inl LoopBound"
| "CDL_FOREACH (Suc fuel) m head el = (if el \<noteq> NULL
    then and_then (get_next m el) (\<lambda>n. and_then (CDL_FOREACH fuel m head (if n = head then NULL else n)) (\<lambda>xs. Inr (el # xs)))
    else Inr [])"

fun CDL_FOREACH_SAFE_loop :: "nat \<Rightarrow> (addr \<Rightarrow> links \<Rightarrow> links res) \<Rightarrow> addr \<Rightarrow> addr \<Rightarrow> links \<Rightarrow> links res" where
  "CDL_FOREACH_SAFE_loop 0 body tmp1 el m = Inl LoopBound"
| "CDL_FOREACH_SAFE_loop (Suc fuel) body tmp1 el m = (if el \<noteq> NULL
    then and_then (get_next m el) (\<lambda>tmp2. and_then (body el m) (\<lambda>m.
      CDL_FOREACH_SAFE_loop fuel body tmp1 (if el = tmp1 then NULL else tmp2) m))
    else Inr m)"

definition CDL_FOREACH_SAFE :: "nat \<Rightarrow> (addr \<Rightarrow> links \<Rightarrow> links res) \<Rightarrow> addr \<Rightarrow> links \<Rightarrow> links res" where
  "CDL_FOREACH_SAFE fuel body head m =
    and_then (if head \<noteq> NULL then get_prev m head else Inr NULL) (\<lambda>tmp1. CDL_FOREACH_SAFE_loop fuel body tmp1 head m)"

fun CDL_SEARCH_SCALAR :: "nat \<Rightarrow> (addr \<Rightarrow> 'v) \<Rightarrow> 'v \<Rightarrow> links \<Rightarrow> addr \<Rightarrow> addr \<Rightarrow> addr res" where
  "CDL_SEARCH_SCALAR 0 field val m head out = Inl LoopBound"
| "CDL_SEARCH_SCALAR (Suc fuel) field val m head out = (if out \<noteq> NULL
    then and_then (get_next m out) (\<lambda>n. if field out = val then Inr out
      else CDL_SEARCH_SCALAR fuel field val m head (if n = head then NULL else n))
    else Inr out)"

fun CDL_SEARCH :: "nat \<Rightarrow> (addr \<Rightarrow> addr \<Rightarrow> int) \<Rightarrow> addr \<Rightarrow> links \<Rightarrow> addr \<Rightarrow> addr \<Rightarrow> addr res" where
  "CDL_SEARCH 0 cmp elt m head out = Inl LoopBound"
| "CDL_SEARCH (Suc fuel) cmp elt m head out = (if out \<noteq> NULL
    then and_then (get_next m out) (\<lambda>n. if cmp out elt = 0 then Inr out
      else CDL_SEARCH fuel cmp elt m head (if n = head then NULL else n))
    else Inr out)"

definition CDL_REPLACE_ELEM :: "addr \<Rightarrow> addr \<Rightarrow> addr \<Rightarrow> links \<Rightarrow> (addr \<times> links) res" where
  "CDL_REPLACE_ELEM head el add m =
    assert (head \<noteq> NULL) (assert (el \<noteq> NULL) (assert (add \<noteq> NULL) (and_then (get_next m el) (\<lambda>n.
      if n = el
      then and_then (set_next add add m) (\<lambda>m. and_then (set_prev add add m) (\<lambda>m. Inr (add, m)))
      else and_then (set_next add n m) (\<lambda>m. and_then (get_prev m el) (\<lambda>p. and_then (set_prev add p m) (\<lambda>m.
        and_then (get_next m add) (\<lambda>n. and_then (set_prev n add m) (\<lambda>m. and_then (get_prev m add) (\<lambda>p.
        and_then (set_next p add m) (\<lambda>m. Inr (if head = el then add else head, m))))))))))))"

fun CDL_REVERSE_loop :: "nat \<Rightarrow> addr \<Rightarrow> addr \<Rightarrow> links \<Rightarrow> links res" where
  "CDL_REVERSE_loop 0 head cur m = Inl LoopBound"
| "CDL_REVERSE_loop (Suc fuel) head cur m = and_then (get_prev m cur) (\<lambda>p. and_then (get_next m cur) (\<lambda>n.
    and_then (set_prev cur n m) (\<lambda>m. and_then (set_next cur p m) (\<lambda>m. and_then (get_prev m cur) (\<lambda>c.
    if c \<noteq> head then CDL_REVERSE_loop fuel head c m else Inr m)))))"

definition CDL_REVERSE :: "nat \<Rightarrow> addr \<Rightarrow> links \<Rightarrow> (addr \<times> links) res" where
  "CDL_REVERSE fuel head m =
    and_then (if head \<noteq> NULL then and_then (get_next m head) (\<lambda>n. Inr (n \<noteq> NULL)) else Inr False) (\<lambda>more.
    if more then and_then (CDL_REVERSE_loop fuel head head m) (\<lambda>m. and_then (get_next m head) (\<lambda>n. Inr (n, m)))
    else Inr (head, m))"

definition CDL_PREPEND_ELEM :: "addr \<Rightarrow> addr \<Rightarrow> addr \<Rightarrow> links \<Rightarrow> (addr \<times> links) res" where
  "CDL_PREPEND_ELEM head el add m =
    (if el \<noteq> NULL
     then assert (head \<noteq> NULL) (assert (add \<noteq> NULL) (and_then (set_next add el m) (\<lambda>m. and_then (get_prev m el) (\<lambda>p.
       and_then (set_prev add p m) (\<lambda>m. and_then (set_prev el add m) (\<lambda>m. and_then (get_prev m add) (\<lambda>p.
       and_then (set_next p add m) (\<lambda>m. Inr (if head = el then add else head, m)))))))))
     else CDL_APPEND head add m)"

end
