(* ===== verification/Utlist_Sort.thy ===== *)
theory Utlist_Sort
  imports Utlist "HOL-Library.Multiset"
begin

text \<open>
  Segments of a list, the three kinds of list, and \<open>LL_SORT\<close>, \<open>DL_SORT\<close> and \<open>CDL_SORT\<close>. The three macros are
  one merge sort from the bottom up: they differ in how they read a next element, in whether they write \<open>prev\<close>, and in
  how they close the list after a pass. \<open>list_kind\<close> is that difference.
\<close>

section \<open>Segments\<close>

text \<open>\<open>seg d N P p x xs y\<close>: from \<open>x\<close>, the next links \<open>N\<close> lead through \<open>xs\<close> to \<open>y\<close>; when \<open>d\<close>, the links \<open>P\<close> lead back, to
  \<open>p\<close> from the first one.\<close>

primrec seg :: "bool \<Rightarrow> (addr \<Rightarrow> addr) \<Rightarrow> (addr \<Rightarrow> addr) \<Rightarrow> addr \<Rightarrow> addr \<Rightarrow> addr list \<Rightarrow> addr \<Rightarrow> bool" where
  "seg d N P p x [] y \<longleftrightarrow> x = y"
| "seg d N P p x (a # xs) y \<longleftrightarrow> x = a \<and> a \<noteq> NULL \<and> (d \<longrightarrow> P a = p) \<and> seg d N P a (N a) xs y"

lemma seg_cong:
  "(\<And>a. a \<in> set xs \<Longrightarrow> N a = N' a) \<Longrightarrow> (\<And>a. a \<in> set xs \<Longrightarrow> d \<Longrightarrow> P a = P' a) \<Longrightarrow> seg d N P p x xs y = seg d N' P' p x xs y"
  by (induction xs arbitrary: p x) auto

lemma seg_outside [simp]:
  "a \<notin> set xs \<Longrightarrow> seg d (N(a := v)) P p x xs y = seg d N P p x xs y"
  "a \<notin> set xs \<Longrightarrow> seg d N (P(a := v)) p x xs y = seg d N P p x xs y"
  by (rule seg_cong; auto)+

lemma seg_no_prev: "seg False N P p x xs y = seg False N P' p' x xs y"
  by (induction xs arbitrary: p p' x) auto

lemma seg_forget: "seg d N P p x xs y \<Longrightarrow> seg False N P' p' x xs y"
  by (induction xs arbitrary: p p' x) auto

lemma seg_nonnull: "seg d N P p x xs y \<Longrightarrow> a \<in> set xs \<Longrightarrow> a \<noteq> NULL"
  by (induction xs arbitrary: p x) auto

lemma seg_start: "seg d N P p x xs y \<Longrightarrow> x = (if xs = [] then y else hd xs)"
  by (cases xs) auto

lemma seg_append:
  "seg d N P p x (xs @ ys) y \<longleftrightarrow> (\<exists>z. seg d N P p x xs z \<and> seg d N P (if xs = [] then p else last xs) z ys y)"
  by (induction xs arbitrary: p x) auto

lemma seg_last_next: "seg d N P p x xs y \<Longrightarrow> xs \<noteq> [] \<Longrightarrow> N (last xs) = y"
  by (induction xs arbitrary: p x) auto

text \<open>Redirecting the end, and the way back from the start.\<close>

lemma seg_set_end:
  assumes "seg d N P p x xs y" "distinct xs" "xs \<noteq> []" "t = last xs"
  shows "seg d (N(t := v)) P p x xs v"
  using assms
proof (induction xs arbitrary: p x)
  case (Cons a xs)
  show ?case
  proof (cases "xs = []")
    case False
    then have "a \<noteq> last xs" using Cons.prems(2) by auto
    then show ?thesis using Cons False by auto
  qed (use Cons.prems in simp)
qed simp

lemma seg_set_start:
  assumes "seg d N P p x xs y" "distinct xs" "xs \<noteq> []" "a = hd xs"
  shows "seg d N (P(a := v)) v x xs y"
  using assms by (cases xs) auto

text \<open>The links of one element in the middle.\<close>

lemma seg_middle:
  assumes "seg d N P p x (ys @ a # zs) y"
  shows "a \<noteq> NULL" "d \<Longrightarrow> P a = (if ys = [] then p else last ys)" "N a = (if zs = [] then y else hd zs)"
    "seg d N P p x ys a" "seg d N P a (N a) zs y" "x = (if ys = [] then a else hd ys)"
proof -
  obtain z where z: "seg d N P p x ys z" "z = a" "a \<noteq> NULL" "d \<longrightarrow> P a = (if ys = [] then p else last ys)" "seg d N P a (N a) zs y"
    using assms by (auto simp: seg_append)
  then show "a \<noteq> NULL" "d \<Longrightarrow> P a = (if ys = [] then p else last ys)" "N a = (if zs = [] then y else hd zs)"
    "seg d N P p x ys a" "seg d N P a (N a) zs y" "x = (if ys = [] then a else hd ys)"
    using seg_start [OF z(5)] seg_start [OF z(1)] by auto
qed

section \<open>The three kinds of list\<close>

datatype list_kind = LL | DL | CDL

definition list_end :: "list_kind \<Rightarrow> addr list \<Rightarrow> addr" where
  "list_end k xs = (if k = CDL \<and> xs \<noteq> [] then hd xs else NULL)"

text \<open>\<open>rep k m head xs\<close>: the list at \<open>head\<close> has exactly the elements \<open>xs\<close>.\<close>

definition rep :: "list_kind \<Rightarrow> links \<Rightarrow> addr \<Rightarrow> addr list \<Rightarrow> bool" where
  "rep k m head xs \<longleftrightarrow> distinct xs \<and> (\<forall>a\<in>set xs. elt_at m a) \<and>
     (if xs = [] then head = NULL else seg (k \<noteq> LL) (nxt m) (prv m) (last xs) head xs (list_end k xs))"

lemma rep_NULL: "rep k m head xs \<Longrightarrow> head = NULL \<longleftrightarrow> xs = []"
  by (cases xs) (auto simp: rep_def)

lemma rep_head: "rep k m head xs \<Longrightarrow> xs \<noteq> [] \<Longrightarrow> head = hd xs"
  by (auto simp: rep_def dest: seg_start)

lemma rep_nonnull: "rep k m head xs \<Longrightarrow> a \<in> set xs \<Longrightarrow> a \<noteq> NULL"
  by (auto simp: rep_def split: if_splits dest: seg_nonnull)

section \<open>The macros\<close>

text \<open>A step to the next element. A circular list has ended when it is back at the old head.\<close>

definition step_next :: "list_kind \<Rightarrow> addr \<Rightarrow> links \<Rightarrow> addr \<Rightarrow> addr res" where
  "step_next k oldhead m a = and_then (get_next m a) (\<lambda>n. Inr (if k = CDL \<and> n = oldhead then NULL else n))"

text \<open>\<open>for (i = 0; i < insize; i++)\<close>: step over one run, counting its elements.\<close>

fun skip_run :: "list_kind \<Rightarrow> addr \<Rightarrow> links \<Rightarrow> nat \<Rightarrow> addr \<Rightarrow> nat \<Rightarrow> (addr \<times> nat) res" where
  "skip_run k oldhead m 0 q psize = Inr (q, psize)"
| "skip_run k oldhead m (Suc i) q psize = and_then (step_next k oldhead m q) (\<lambda>q.
    if q = NULL then Inr (q, psize + 1) else skip_run k oldhead m i q (psize + 1))"

text \<open>The loop of a merge of two runs: take one element \<open>e\<close>, link it behind \<open>tail\<close>, and go on.\<close>

definition link_behind :: "list_kind \<Rightarrow> addr \<Rightarrow> addr \<Rightarrow> addr \<Rightarrow> links \<Rightarrow> (addr \<times> links) res" where
  "link_behind k list tail e m =
    and_then (if tail \<noteq> NULL then and_then (set_next tail e m) (\<lambda>m. Inr (list, m)) else Inr (e, m)) (\<lambda>(list, m).
    and_then (if k = LL then Inr m else set_prev e tail m) (\<lambda>m. Inr (list, m)))"

function merge_loop :: "list_kind \<Rightarrow> addr \<Rightarrow> (addr \<Rightarrow> addr \<Rightarrow> int) \<Rightarrow> addr \<Rightarrow> nat \<Rightarrow> addr \<Rightarrow> nat \<Rightarrow> addr \<Rightarrow> addr \<Rightarrow> links \<Rightarrow>
    (addr \<times> addr \<times> addr \<times> links) res" where
  "merge_loop k oldhead cmp p psize q qsize list tail m =
    (if 0 < psize \<or> (0 < qsize \<and> q \<noteq> NULL)
     then if psize = 0
       then and_then (step_next k oldhead m q) (\<lambda>q'. and_then (link_behind k list tail q m) (\<lambda>(list, m).
         merge_loop k oldhead cmp p psize q' (qsize - 1) list q m))
       else if qsize = 0 \<or> q = NULL
       then and_then (step_next k oldhead m p) (\<lambda>p'. and_then (link_behind k list tail p m) (\<lambda>(list, m).
         merge_loop k oldhead cmp p' (psize - 1) q qsize list p m))
       else if cmp p q \<le> 0
       then and_then (step_next k oldhead m p) (\<lambda>p'. and_then (link_behind k list tail p m) (\<lambda>(list, m).
         merge_loop k oldhead cmp p' (psize - 1) q qsize list p m))
       else and_then (step_next k oldhead m q) (\<lambda>q'. and_then (link_behind k list tail q m) (\<lambda>(list, m).
         merge_loop k oldhead cmp p psize q' (qsize - 1) list q m))
     else Inr (list, tail, q, m))"
  by pat_completeness auto

termination
  by (relation "measure (\<lambda>(k, oldhead, cmp, p, psize, q, qsize, list, tail, m). psize + qsize)") auto

declare merge_loop.simps [simp del]

text \<open>\<open>while (p)\<close>: one pass over the list merges its runs of \<open>insize\<close> elements in pairs.\<close>

fun sort_pass :: "nat \<Rightarrow> list_kind \<Rightarrow> addr \<Rightarrow> (addr \<Rightarrow> addr \<Rightarrow> int) \<Rightarrow> nat \<Rightarrow> addr \<Rightarrow> addr \<Rightarrow> addr \<Rightarrow> nat \<Rightarrow> links \<Rightarrow>
    (addr \<times> addr \<times> nat \<times> links) res" where
  "sort_pass 0 k oldhead cmp insize p list tail nmerges m = Inl LoopBound"
| "sort_pass (Suc fuel) k oldhead cmp insize p list tail nmerges m =
    (if p \<noteq> NULL
     then if nmerges = 2 ^ 31 - 1 then Inl SignedOverflow
     else and_then (skip_run k oldhead m insize p 0) (\<lambda>(q, psize).
       and_then (merge_loop k oldhead cmp p psize q insize list tail m) (\<lambda>(list, tail, q, m).
       sort_pass fuel k oldhead cmp insize q list tail (nmerges + 1) m))
     else Inr (list, tail, nmerges, m))"

definition close_list :: "list_kind \<Rightarrow> addr \<Rightarrow> addr \<Rightarrow> links \<Rightarrow> links res" where
  "close_list k list tail m = (case k of
      LL \<Rightarrow> if tail \<noteq> NULL then set_next tail NULL m else Inr m
    | DL \<Rightarrow> and_then (set_prev list tail m) (\<lambda>m. set_next tail NULL m)
    | CDL \<Rightarrow> and_then (set_prev list tail m) (\<lambda>m. set_next tail list m))"

fun sort_loop :: "nat \<Rightarrow> list_kind \<Rightarrow> (addr \<Rightarrow> addr \<Rightarrow> int) \<Rightarrow> nat \<Rightarrow> addr \<Rightarrow> links \<Rightarrow> (addr \<times> links) res" where
  "sort_loop 0 k cmp insize list m = Inl LoopBound"
| "sort_loop (Suc fuel) k cmp insize list m =
    and_then (sort_pass (Suc fuel) k list cmp insize list NULL NULL 0 m) (\<lambda>(list, tail, nmerges, m).
    and_then (close_list k list tail m) (\<lambda>m.
    if 2 ^ 31 \<le> 2 * insize then Inl SignedOverflow
    else if nmerges \<le> 1 then Inr (list, m)
    else sort_loop fuel k cmp (2 * insize) list m))"

definition list_sort :: "list_kind \<Rightarrow> nat \<Rightarrow> (addr \<Rightarrow> addr \<Rightarrow> int) \<Rightarrow> addr \<Rightarrow> links \<Rightarrow> (addr \<times> links) res" where
  "list_sort k fuel cmp list m = (if list \<noteq> NULL then sort_loop fuel k cmp 1 list m else Inr (list, m))"

definition LL_SORT :: "nat \<Rightarrow> (addr \<Rightarrow> addr \<Rightarrow> int) \<Rightarrow> addr \<Rightarrow> links \<Rightarrow> (addr \<times> links) res" where
  "LL_SORT = list_sort LL"

definition DL_SORT :: "nat \<Rightarrow> (addr \<Rightarrow> addr \<Rightarrow> int) \<Rightarrow> addr \<Rightarrow> links \<Rightarrow> (addr \<times> links) res" where
  "DL_SORT = list_sort DL"

definition CDL_SORT :: "nat \<Rightarrow> (addr \<Rightarrow> addr \<Rightarrow> int) \<Rightarrow> addr \<Rightarrow> links \<Rightarrow> (addr \<times> links) res" where
  "CDL_SORT = list_sort CDL"

section \<open>The same on lists\<close>

fun amerge :: "('a \<Rightarrow> 'a \<Rightarrow> int) \<Rightarrow> 'a list \<Rightarrow> 'a list \<Rightarrow> 'a list" where
  "amerge cmp [] Q = Q"
| "amerge cmp P [] = P"
| "amerge cmp (p # P) (q # Q) = (if cmp p q \<le> 0 then p # amerge cmp P (q # Q) else q # amerge cmp (p # P) Q)"

lemma amerge_nil [simp]: "amerge cmp P [] = P"
  by (cases P) auto

lemma set_amerge [simp]: "set (amerge cmp P Q) = set P \<union> set Q"
  by (induction cmp P Q rule: amerge.induct) auto

lemma length_amerge [simp]: "length (amerge cmp P Q) = length P + length Q"
  by (induction cmp P Q rule: amerge.induct) auto

lemma distinct_amerge: "distinct (P @ Q) \<Longrightarrow> distinct (amerge cmp P Q)"
  by (induction cmp P Q rule: amerge.induct) auto

section \<open>A merge on links\<close>

text \<open>The part that is done, the rest of the first run, and the rest of the list from the second run on.\<close>

definition done_part :: "list_kind \<Rightarrow> links \<Rightarrow> addr list \<Rightarrow> addr \<Rightarrow> addr \<Rightarrow> bool" where
  "done_part k m Z list tail \<longleftrightarrow> (\<forall>a\<in>set Z. elt_at m a) \<and> (if Z = [] then list = NULL \<and> tail = NULL
     else tail = last Z \<and> (\<exists>y. seg (k \<noteq> LL) (nxt m) (prv m) NULL list Z y))"

definition run_part :: "addr \<Rightarrow> links \<Rightarrow> addr list \<Rightarrow> addr \<Rightarrow> bool" where
  "run_part oldhead m P p \<longleftrightarrow> oldhead \<notin> set (tl P) \<and> (\<forall>a\<in>set P. elt_at m a) \<and> (P \<noteq> [] \<longrightarrow> (\<exists>y. seg False (nxt m) (prv m) NULL p P y))"

definition todo_part :: "list_kind \<Rightarrow> addr \<Rightarrow> links \<Rightarrow> addr list \<Rightarrow> addr \<Rightarrow> bool" where
  "todo_part k oldhead m W q \<longleftrightarrow> (\<forall>a\<in>set W. elt_at m a) \<and> (if W = [] then q = NULL
     else seg False (nxt m) (prv m) NULL q W (if k = CDL then oldhead else NULL))"

lemma step_next_run:
  assumes "run_part oldhead m (a # P) p"
  shows "p = a \<and> (\<exists>p'. step_next k oldhead m a = Inr p' \<and> run_part oldhead m P p')"
proof -
  obtain y where y: "p = a" "a \<noteq> NULL" "elt_at m a" "seg False (nxt m) (prv m) a (nxt m a) P y" "oldhead \<notin> set P"
    "\<forall>a\<in>set P. elt_at m a"
    using assms by (auto simp: run_part_def)
  then have "P \<noteq> [] \<Longrightarrow> nxt m a = hd P" "P \<noteq> [] \<Longrightarrow> hd P \<noteq> oldhead" using seg_start [OF y(4)] by auto
  then show ?thesis using y seg_no_prev [of "nxt m" "prv m" a "nxt m a" P y "prv m" NULL]
    by (cases P) (auto simp: step_next_def link_defs run_part_def)
qed

lemma step_next_todo:
  assumes "todo_part k oldhead m (a # W) q" "oldhead \<notin> set W"
  shows "q = a \<and> (\<exists>q'. step_next k oldhead m a = Inr q' \<and> todo_part k oldhead m W q')"
proof -
  have y: "q = a" "a \<noteq> NULL" "elt_at m a" "seg False (nxt m) (prv m) a (nxt m a) W (if k = CDL then oldhead else NULL)"
    "\<forall>a\<in>set W. elt_at m a"
    using assms by (auto simp: todo_part_def)
  then have "nxt m a = (if W = [] then if k = CDL then oldhead else NULL else hd W)" using seg_start [OF y(4)] by auto
  moreover have "W \<noteq> [] \<Longrightarrow> hd W \<noteq> oldhead" using assms(2) by auto
  ultimately show ?thesis using y seg_no_prev [of "nxt m" "prv m" a "nxt m a" W "if k = CDL then oldhead else NULL" "prv m" NULL]
    by (auto simp: step_next_def link_defs todo_part_def)
qed

lemma link_done:
  assumes "done_part k m Z list tail" "distinct (Z @ [e])" "elt_at m e" "e \<noteq> NULL"
  shows "\<exists>list' m'. link_behind k list tail e m = Inr (list', m') \<and> done_part k m' (Z @ [e]) list' e
    \<and> elt_at m' = elt_at m \<and> (\<forall>a. a \<notin> set Z \<longrightarrow> nxt m' a = nxt m a)"
proof (cases "Z = []")
  case True
  then show ?thesis using assms by (auto simp: link_behind_def link_defs done_part_def)
next
  case False
  then obtain y where y: "tail = last Z" "seg (k \<noteq> LL) (nxt m) (prv m) NULL list Z y" "tail \<in> set Z" "tail \<noteq> NULL" "tail \<noteq> e"
  proof -
    obtain y where "tail = last Z" "seg (k \<noteq> LL) (nxt m) (prv m) NULL list Z y" using assms(1) False by (auto simp: done_part_def)
    moreover have "last Z \<in> set Z" "last Z \<noteq> e" using False assms(2) by auto
    ultimately show thesis using that seg_nonnull by blast
  qed
  then have "seg (k \<noteq> LL) ((nxt m)(tail := e)) (prv m) NULL list Z e"
    using False assms(2) by (intro seg_set_end) auto
  then have "seg (k \<noteq> LL) ((nxt m)(tail := e)) (if k = LL then prv m else (prv m)(e := tail)) NULL list (Z @ [e]) (((nxt m)(tail := e)) e)"
    using assms(2,4) False y by (auto simp: seg_append)
  then show ?thesis using False y assms
    by (cases "k = LL") (auto simp: link_behind_def link_defs done_part_def)
qed

lemma run_part_keep:
  assumes "elt_at m' = elt_at m" "\<And>a. a \<in> set P \<Longrightarrow> nxt m' a = nxt m a"
  shows "run_part oldhead m' P p = run_part oldhead m P p"
proof -
  have "seg False (nxt m') (prv m') NULL p P y = seg False (nxt m) (prv m) NULL p P y" for y
    using assms(2) by (intro seg_cong) auto
  then show ?thesis using assms(1) by (simp add: run_part_def)
qed

lemma todo_part_keep:
  assumes "elt_at m' = elt_at m" "\<And>a. a \<in> set W \<Longrightarrow> nxt m' a = nxt m a"
  shows "todo_part k oldhead m' W q = todo_part k oldhead m W q"
proof -
  have "seg False (nxt m') (prv m') NULL q W y = seg False (nxt m) (prv m) NULL q W y" for y
    using assms(2) by (intro seg_cong) auto
  then show ?thesis using assms(1) by (simp add: todo_part_def)
qed

definition merged :: "list_kind \<Rightarrow> addr \<Rightarrow> links \<Rightarrow> (addr \<times> addr \<times> addr \<times> links) res \<Rightarrow> addr list \<Rightarrow> addr list \<Rightarrow> bool" where
  "merged k oldhead m r Z R \<longleftrightarrow> (\<exists>list tail q m'. r = Inr (list, tail, q, m') \<and> done_part k m' Z list tail
     \<and> todo_part k oldhead m' R q \<and> elt_at m' = elt_at m)"

lemma merge_loop_ok:
  assumes "done_part k m Z list tail" "run_part oldhead m P p" "todo_part k oldhead m W q"
    and "distinct (Z @ P @ W)" "oldhead \<notin> set W"
  shows "merged k oldhead m (merge_loop k oldhead cmp p (length P) q qsize list tail m)
    (Z @ amerge cmp P (take qsize W)) (drop qsize W)"
  using assms
proof (induction "length P + qsize" arbitrary: Z P W p q qsize list tail m rule: less_induct)
  case less
  have q: "q = NULL \<longleftrightarrow> W = []" using less.prems(3) by (cases W) (auto simp: todo_part_def)
  have take_p: ?case
    if P: "P = a # P'" and go: "merge_loop k oldhead cmp p (length P) q qsize list tail m =
        and_then (step_next k oldhead m p) (\<lambda>p'. and_then (link_behind k list tail p m) (\<lambda>(list, m).
         merge_loop k oldhead cmp p' (length P - 1) q qsize list p m))"
      and am: "amerge cmp P (take qsize W) = a # amerge cmp P' (take qsize W)" for a P'
  proof -
    obtain p' where p': "p = a" "step_next k oldhead m a = Inr p'" "run_part oldhead m P' p'"
      using step_next_run [of oldhead m a P' p k] less.prems(2) P by auto
    have a: "a \<noteq> NULL" "elt_at m a" using less.prems(2) P by (auto simp: run_part_def)
    obtain list' m' where l: "link_behind k list tail a m = Inr (list', m')" "done_part k m' (Z @ [a]) list' a"
      "elt_at m' = elt_at m" "\<And>b. b \<notin> set Z \<Longrightarrow> nxt m' b = nxt m b"
      using link_done [OF less.prems(1) _ a(2,1)] less.prems(4) P by auto
    have "merged k oldhead m' (merge_loop k oldhead cmp p' (length P') q qsize list' a m')
      ((Z @ [a]) @ amerge cmp P' (take qsize W)) (drop qsize W)"
    proof (rule less.hyps)
      show "run_part oldhead m' P' p'" using p'(3) l(3,4) less.prems(4) P by (subst run_part_keep) auto
      show "todo_part k oldhead m' W q" using less.prems(3) l(3,4) less.prems(4) P by (subst todo_part_keep) auto
    qed (use P l(2) less.prems(4,5) in auto)
    then show ?thesis using go p'(1,2) l(1,3) P am by (simp add: merged_def)
  qed
  have take_q: ?case
    if W: "W = b # W'" and qs: "0 < qsize" and go: "merge_loop k oldhead cmp p (length P) q qsize list tail m =
        and_then (step_next k oldhead m q) (\<lambda>q'. and_then (link_behind k list tail q m) (\<lambda>(list, m).
         merge_loop k oldhead cmp p (length P) q' (qsize - 1) list q m))"
      and am: "amerge cmp P (take qsize W) = b # amerge cmp P (take (qsize - 1) W')" for b W'
  proof -
    obtain q' where q': "q = b" "step_next k oldhead m b = Inr q'" "todo_part k oldhead m W' q'"
      using step_next_todo [of k oldhead m b W' q] less.prems(3,5) W by auto
    have b: "b \<noteq> NULL" "elt_at m b" using less.prems(3) W by (auto simp: todo_part_def split: if_splits)
    obtain list' m' where l: "link_behind k list tail b m = Inr (list', m')" "done_part k m' (Z @ [b]) list' b"
      "elt_at m' = elt_at m" "\<And>b. b \<notin> set Z \<Longrightarrow> nxt m' b = nxt m b"
      using link_done [OF less.prems(1) _ b(2,1)] less.prems(4) W by auto
    have "merged k oldhead m' (merge_loop k oldhead cmp p (length P) q' (qsize - 1) list' b m')
      ((Z @ [b]) @ amerge cmp P (take (qsize - 1) W')) (drop (qsize - 1) W')"
    proof (rule less.hyps)
      show "run_part oldhead m' P p" using less.prems(2) l(3,4) less.prems(4) W by (subst run_part_keep) auto
      show "todo_part k oldhead m' W' q'" using q'(3) l(3,4) less.prems(4) W by (subst todo_part_keep) auto
    qed (use W qs l(2) less.prems(4,5) in auto)
    then show ?thesis using go q'(1,2) l(1,3) W am qs by (simp add: merged_def drop_Cons')
  qed
  show ?case
  proof (cases P)
    case Nil
    show ?thesis
    proof (cases "qsize = 0 \<or> W = []")
      case True
      then show ?thesis using Nil q less.prems(1,3) by (subst merge_loop.simps) (auto simp: merged_def)
    next
      case False
      then obtain b W' where W: "W = b # W'" by (cases W) auto
      then show ?thesis using Nil q False by (intro take_q [OF W]) (simp, subst merge_loop.simps, simp, simp add: take_Cons')
    qed
  next
    case (Cons a P')
    note P = this
    have pa: "p = a" using less.prems(2) P by (auto simp: run_part_def)
    show ?thesis
    proof (cases "qsize = 0 \<or> W = []")
      case True
      then show ?thesis using P q by (intro take_p [OF P]) (subst merge_loop.simps, simp, auto)
    next
      case False
      then obtain b W' where W: "W = b # W'" by (cases W) auto
      have qb: "q = b" using less.prems(3) W by (auto simp: todo_part_def split: if_splits)
      show ?thesis
      proof (cases "cmp a b \<le> 0")
        case True
        then show ?thesis using P W q False pa qb by (intro take_p [OF P]) (subst merge_loop.simps, simp, simp add: take_Cons')
      next
        case more: False
        then show ?thesis using P W q False pa qb by (intro take_q [OF W]) (simp, subst merge_loop.simps, simp, simp add: take_Cons')
      qed
    qed
  qed
qed

section \<open>A pass and the whole sort on links\<close>

function apass :: "('a \<Rightarrow> 'a \<Rightarrow> int) \<Rightarrow> nat \<Rightarrow> 'a list \<Rightarrow> 'a list" where
  "apass cmp n W = (if W = [] \<or> n = 0 then []
     else amerge cmp (take n W) (take n (drop n W)) @ apass cmp n (drop n (drop n W)))"
  by pat_completeness auto

termination
  by (relation "measure (\<lambda>(cmp, n, W). length W)") auto

declare apass.simps [simp del]

function pairs :: "nat \<Rightarrow> nat \<Rightarrow> nat" where
  "pairs n L = (if L = 0 \<or> n = 0 then 0 else Suc (pairs n (L - n - n)))"
  by pat_completeness auto

termination
  by (relation "measure (\<lambda>(n, L). L)") auto

declare pairs.simps [simp del]

lemma pairs_le: "pairs n L \<le> L"
proof (induction n L rule: pairs.induct)
  case (1 n L)
  show ?case
  proof (cases "L = 0 \<or> n = 0")
    case False
    then have "pairs n (L - n - n) \<le> L - n - n" using 1 by blast
    then have "Suc (pairs n (L - n - n)) \<le> L" using False by linarith
    then show ?thesis using False by (subst pairs.simps) simp
  qed (subst pairs.simps, simp)
qed

lemma pairs_le_1: "0 < n \<Longrightarrow> pairs n L \<le> 1 \<longleftrightarrow> L \<le> 2 * n"
  by (subst pairs.simps, subst pairs.simps) auto

function asort :: "('a \<Rightarrow> 'a \<Rightarrow> int) \<Rightarrow> nat \<Rightarrow> 'a list \<Rightarrow> 'a list" where
  "asort cmp n xs = (if length xs \<le> 2 * n \<or> n = 0 then apass cmp n xs else asort cmp (2 * n) (apass cmp n xs))"
  by pat_completeness auto

lemma length_apass: "0 < n \<Longrightarrow> length (apass cmp n W) = length W"
proof (induction cmp n W rule: apass.induct)
  case (1 cmp n W)
  then show ?case by (subst apass.simps) auto
qed

lemma set_apass: "0 < n \<Longrightarrow> set (apass cmp n W) = set W"
proof (induction cmp n W rule: apass.induct)
  case (1 cmp n W)
  have "set W = set (take n W) \<union> set (take n (drop n W)) \<union> set (drop n (drop n W))"
    by (metis append_take_drop_id set_append sup_assoc)
  then show ?case using 1 by (subst apass.simps) auto
qed

lemma distinct_apass: "0 < n \<Longrightarrow> distinct W \<Longrightarrow> distinct (apass cmp n W)"
  by (metis length_apass set_apass card_distinct distinct_card)

termination asort
  by (relation "measure (\<lambda>(cmp, n, xs). length xs - n)") (auto simp: length_apass)

declare asort.simps [simp del]

lemma skip_run_ok:
  assumes "todo_part k oldhead m W p" "oldhead \<notin> set (tl W)" "W \<noteq> []" "0 < n"
  shows "\<exists>q. skip_run k oldhead m n p c = Inr (q, c + length (take n W)) \<and> todo_part k oldhead m (drop n W) q"
  using assms
proof (induction n arbitrary: W p c)
  case (Suc n)
  then obtain a W' where W: "W = a # W'" by (cases W) auto
  obtain q where q: "p = a" "step_next k oldhead m a = Inr q" "todo_part k oldhead m W' q"
    using step_next_todo [of k oldhead m a W' p] Suc.prems(1,2) W by auto
  show ?case
  proof (cases "W' = []")
    case True
    then show ?thesis using q W by (auto simp: todo_part_def)
  next
    case False
    then have "q \<noteq> NULL" using q(3) by (cases W') (auto simp: todo_part_def)
    show ?thesis
    proof (cases n)
      case 0
      then show ?thesis using q W \<open>q \<noteq> NULL\<close> by simp
    next
      case (Suc i)
      have "oldhead \<notin> set (tl W')" using Suc.prems(2) W False by (cases W') auto
      then have "\<exists>r. skip_run k oldhead m n q (c + 1) = Inr (r, (c + 1) + length (take n W')) \<and> todo_part k oldhead m (drop n W') r"
        using Suc False q(3) by (intro Suc.IH) auto
      then show ?thesis using q W \<open>q \<noteq> NULL\<close> by auto
    qed
  qed
qed simp

lemma todo_run:
  assumes "todo_part k oldhead m W p" "oldhead \<notin> set (tl W)"
  shows "run_part oldhead m (take n W) p"
proof -
  have "seg False (nxt m) (prv m) NULL p (take n W @ drop n W) (if k = CDL then oldhead else NULL)" if "W \<noteq> []"
    using assms(1) that by (simp add: todo_part_def)
  moreover have "set (tl (take n W)) \<subseteq> set (tl W)" by (cases W; cases n) (auto dest: in_set_takeD)
  ultimately show ?thesis using assms unfolding run_part_def todo_part_def seg_append
    by (auto dest: in_set_takeD)
qed

lemma sort_pass_ok:
  assumes "done_part k m Z list tail" "todo_part k oldhead m W p" "distinct (Z @ W)" "oldhead \<notin> set (tl W)" "0 < n"
    and "length W < fuel" "nm + length W < 2 ^ 31"
  shows "\<exists>list' tail' m'. sort_pass fuel k oldhead cmp n p list tail nm m = Inr (list', tail', nm + pairs n (length W), m')
    \<and> done_part k m' (Z @ apass cmp n W) list' tail' \<and> elt_at m' = elt_at m"
  using assms
proof (induction fuel arbitrary: Z W p list tail nm m)
  case (Suc fuel)
  show ?case
  proof (cases "W = []")
    case True
    then show ?thesis using Suc.prems(1,2) by (simp add: todo_part_def apass.simps pairs.simps)
  next
    case False
    then have p: "p \<noteq> NULL" using Suc.prems(2) by (cases W) (auto simp: todo_part_def)
    let ?P = "take n W" and ?W = "drop n W"
    obtain q where q: "skip_run k oldhead m n p 0 = Inr (q, length ?P)" "todo_part k oldhead m ?W q"
      using skip_run_ok [OF Suc.prems(2,4) False Suc.prems(5), of 0] by auto
    have out: "oldhead \<notin> set ?W" using Suc.prems(4,5) False by (cases W; cases n) (auto dest: in_set_dropD)
    have "merged k oldhead m (merge_loop k oldhead cmp p (length ?P) q n list tail m)
      (Z @ amerge cmp ?P (take n ?W)) (drop n ?W)"
    proof (rule merge_loop_ok [OF Suc.prems(1) todo_run [OF Suc.prems(2,4)] q(2)])
      show "distinct (Z @ ?P @ ?W)" using Suc.prems(3) by simp
    qed (rule out)
    then obtain list1 tail1 q1 m1 where m: "merge_loop k oldhead cmp p (length ?P) q n list tail m = Inr (list1, tail1, q1, m1)"
      "done_part k m1 (Z @ amerge cmp ?P (take n ?W)) list1 tail1" "todo_part k oldhead m1 (drop n ?W) q1" "elt_at m1 = elt_at m"
      by (auto simp: merged_def)
    have pr: "pairs n (length W) = Suc (pairs n (length (drop n ?W)))" using False Suc.prems(5) by (subst pairs.simps) simp
    have ap: "apass cmp n W = amerge cmp ?P (take n ?W) @ apass cmp n (drop n ?W)" using False Suc.prems(5) by (subst apass.simps) simp
    have "\<exists>list' tail' m'. sort_pass fuel k oldhead cmp n q1 list1 tail1 (Suc nm) m1 =
        Inr (list', tail', Suc nm + pairs n (length (drop n ?W)), m')
      \<and> done_part k m' ((Z @ amerge cmp ?P (take n ?W)) @ apass cmp n (drop n ?W)) list' tail' \<and> elt_at m' = elt_at m1"
    proof (rule Suc.IH [OF m(2,3)])
      have W: "W = ?P @ take n ?W @ drop n ?W" by (simp only: append_take_drop_id)
      then have "distinct (Z @ ?P @ take n ?W @ drop n ?W)" using Suc.prems(3) by metis
      then have "distinct (Z @ amerge cmp ?P (take n ?W)) \<and> set (Z @ amerge cmp ?P (take n ?W)) \<inter> set (drop n ?W) = {}"
        using distinct_amerge [of ?P "take n ?W" cmp] by auto
      then show "distinct ((Z @ amerge cmp ?P (take n ?W)) @ drop n ?W)" using Suc.prems(3) by (auto simp: distinct_drop)
      show "oldhead \<notin> set (tl (drop n ?W))" using out by (metis in_set_dropD list.sel(2) list.set_sel(2))
      have "length (drop n ?W) < length W" using Suc.prems(5) False by (cases W) auto
      then show "length (drop n ?W) < fuel" "Suc nm + length (drop n ?W) < 2 ^ 31" using Suc.prems(6,7) by linarith+
    qed (rule Suc.prems(5))
    moreover have "nm \<noteq> 2 ^ 31 - 1" using Suc.prems(7) False by (cases W) auto
    ultimately show ?thesis using p q(1) m(1,4) pr ap by simp
  qed
qed simp

lemma close_list_ok:
  assumes "done_part k m Z list tail" "distinct Z" "Z \<noteq> []"
  shows "\<exists>m'. close_list k list tail m = Inr m' \<and> rep k m' list Z \<and> elt_at m' = elt_at m"
proof -
  obtain y where y: "tail = last Z" "seg (k \<noteq> LL) (nxt m) (prv m) NULL list Z y" "\<forall>a\<in>set Z. elt_at m a"
    using assms by (auto simp: done_part_def)
  have l: "list = hd Z" using seg_start [OF y(2)] assms(3) by simp
  have in_Z: "list \<in> set Z" "tail \<in> set Z" using l y(1) assms(3) by auto
  then have nz: "list \<noteq> NULL" "tail \<noteq> NULL" "elt_at m list" "elt_at m tail" using seg_nonnull [OF y(2)] y(3) by auto
  have n: "seg (k \<noteq> LL) ((nxt m)(tail := v)) (prv m) NULL list Z v" for v
    by (rule seg_set_end [OF y(2) assms(2,3) y(1)])
  then have np: "seg (k \<noteq> LL) ((nxt m)(tail := v)) ((prv m)(list := tail)) tail list Z v" for v
    by (rule seg_set_start [OF _ assms(2,3) l])
  show ?thesis
    using n [of NULL] np [of "list_end k Z"] assms(2,3) y(1,3) nz l
    by (cases k) (auto simp: close_list_def link_defs rep_def list_end_def intro: seg_no_prev [THEN iffD1])
qed

lemma sort_loop_ok:
  assumes "rep k m list xs" "xs \<noteq> []" "0 < n" "n = 1 \<or> n < length xs" "length xs \<le> 2 ^ 30" "length xs + 1 + (length xs - n) < fuel"
  shows "\<exists>list' m'. sort_loop fuel k cmp n list m = Inr (list', m') \<and> rep k m' list' (asort cmp n xs) \<and> elt_at m' = elt_at m"
  using assms
proof (induction fuel arbitrary: n xs list m)
  case (Suc fuel)
  have l: "list = hd xs" "distinct xs" "\<forall>a\<in>set xs. elt_at m a" "seg (k \<noteq> LL) (nxt m) (prv m) (last xs) list xs (list_end k xs)"
    using Suc.prems(1,2) rep_head by (auto simp: rep_def)
  have t: "todo_part k list m xs list"
    using Suc.prems(2) l(1,3) seg_forget [OF l(4)] by (auto simp: todo_part_def list_end_def)
  have "list \<notin> set (tl xs)" using l(1,2) Suc.prems(2) by (cases xs) auto
  then have "\<exists>list' tail' m'. sort_pass (Suc fuel) k list cmp n list NULL NULL 0 m = Inr (list', tail', 0 + pairs n (length xs), m')
    \<and> done_part k m' ([] @ apass cmp n xs) list' tail' \<and> elt_at m' = elt_at m"
    using t l(2) Suc.prems(3,5,6) by (intro sort_pass_ok) (auto simp: done_part_def)
  then obtain list1 tail1 m1 where p: "sort_pass (Suc fuel) k list cmp n list NULL NULL 0 m = Inr (list1, tail1, pairs n (length xs), m1)"
    "done_part k m1 (apass cmp n xs) list1 tail1" "elt_at m1 = elt_at m" by auto
  have ne: "apass cmp n xs \<noteq> []" using length_apass [OF Suc.prems(3), of cmp xs] Suc.prems(2) by auto
  obtain m2 where c: "close_list k list1 tail1 m1 = Inr m2" "rep k m2 list1 (apass cmp n xs)" "elt_at m2 = elt_at m1"
    using close_list_ok [OF p(2) distinct_apass [OF Suc.prems(3) l(2)] ne] by auto
  have over: "\<not> 2 ^ 31 \<le> 2 * n" using Suc.prems(2,4,5) by (cases xs) auto
  note runs = pairs_le_1 [OF Suc.prems(3), of "length xs"]
  show ?case
  proof (cases "length xs \<le> 2 * n")
    case True
    then have "asort cmp n xs = apass cmp n xs" by (subst asort.simps) simp
    moreover have "pairs n (length xs) \<le> 1" using True runs by blast
    ultimately show ?thesis using p(1,3) c over by (auto simp del: One_nat_def)
  next
    case False
    then have "asort cmp n xs = asort cmp (2 * n) (apass cmp n xs)" using Suc.prems(3) by (subst asort.simps) simp
    moreover have "\<not> pairs n (length xs) \<le> 1" using False runs by blast
    moreover have "\<exists>list' m'. sort_loop fuel k cmp (2 * n) list1 m2 = Inr (list', m')
      \<and> rep k m' list' (asort cmp (2 * n) (apass cmp n xs)) \<and> elt_at m' = elt_at m2"
    proof (rule Suc.IH [OF c(2) ne])
      show "2 * n = 1 \<or> 2 * n < length (apass cmp n xs)" using False Suc.prems(3) by (simp add: length_apass)
      show "length (apass cmp n xs) + 1 + (length (apass cmp n xs) - 2 * n) < fuel"
        using Suc.prems(3,6) False by (simp add: length_apass)
    qed (use Suc.prems(3,5) in \<open>simp_all add: length_apass\<close>)
    ultimately show ?thesis using p(1,3) c over by (simp del: One_nat_def)
  qed
qed simp

section \<open>The sort on lists is the stable sort\<close>

lemma amerge_sorted:
  assumes "\<And>a b. cmp a b \<le> 0 \<longleftrightarrow> (key a :: 'k :: linorder) \<le> key b" "sorted (map key P)" "sorted (map key Q)"
  shows "sorted (map key (amerge cmp P Q))"
  using assms
proof (induction cmp P Q rule: amerge.induct)
  case (3 cmp p P q Q)
  have le: "cmp a b \<le> 0 \<longleftrightarrow> key a \<le> key b" for a b by (rule "3.prems"(1))
  show ?case
  proof (cases "key p \<le> key q")
    case True
    then have "sorted (map key (amerge cmp P (q # Q)))" using le "3.prems"(2,3) by (intro "3.IH"(1)) simp_all
    then show ?thesis using True le "3.prems"(2,3) by force
  next
    case False
    then have "sorted (map key (amerge cmp (p # P) Q))" using le "3.prems"(2,3) by (intro "3.IH"(2)) simp_all
    then show ?thesis using False le "3.prems"(2,3) by force
  qed
qed auto

lemma amerge_filter:
  assumes "\<And>a b. cmp a b \<le> 0 \<longleftrightarrow> (key a :: 'k :: linorder) \<le> key b" "sorted (map key P)"
  shows "filter (\<lambda>x. k = key x) (amerge cmp P Q) = filter (\<lambda>x. k = key x) P @ filter (\<lambda>x. k = key x) Q"
  using assms
proof (induction cmp P Q rule: amerge.induct)
  case (3 cmp p P q Q)
  have le: "cmp a b \<le> 0 \<longleftrightarrow> key a \<le> key b" for a b by (rule "3.prems"(1))
  show ?case
  proof (cases "key p \<le> key q")
    case True
    then have "filter (\<lambda>x. k = key x) (amerge cmp P (q # Q)) = filter (\<lambda>x. k = key x) P @ filter (\<lambda>x. k = key x) (q # Q)"
      using le "3.prems"(2) by (intro "3.IH"(1)) simp_all
    then show ?thesis using True le by (auto simp del: filter.simps(2) simp: filter.simps(2) [of _ p])
  next
    case False
    then have "filter (\<lambda>x. k = key x) (amerge cmp (p # P) Q) = filter (\<lambda>x. k = key x) (p # P) @ filter (\<lambda>x. k = key x) Q"
      using le "3.prems"(2) by (intro "3.IH"(2)) simp_all
    moreover have "filter (\<lambda>x. k = key x) (p # P) = []" if "k = key q"
      using False "3.prems"(2) that by (auto simp: filter_empty_conv)
    ultimately show ?thesis using False le by (cases "k = key q") (simp_all del: filter.simps(2) add: filter.simps(2) [of _ q])
  qed
qed auto

lemma mset_amerge: "mset (amerge cmp P Q) = mset P + mset Q"
  by (induction cmp P Q rule: amerge.induct) auto

lemma amerge_sort:
  fixes key :: "'a \<Rightarrow> 'k :: linorder"
  assumes "\<And>a b. cmp a b \<le> 0 \<longleftrightarrow> key a \<le> key b"
  shows "amerge cmp (sort_key key A) (sort_key key B) = sort_key key (A @ B)"
proof (rule sym, rule properties_for_sort_key)
  have stable: "filter (\<lambda>x. k = key x) (sort_key key C) = filter (\<lambda>x. k = key x) C" for k C
    using sort_key_stable [of key k C] by (metis (mono_tags, lifting) filter_cong)
  show "filter (\<lambda>x. key k = key x) (amerge cmp (sort_key key A) (sort_key key B)) = filter (\<lambda>x. key k = key x) (A @ B)" for k
    using amerge_filter [OF assms, where P = "sort_key key A" and Q = "sort_key key B" and k = "key k"] by (simp add: stable)
qed (use assms in \<open>simp_all add: mset_amerge amerge_sorted\<close>)

text \<open>\<open>block_sort n xs\<close>: each block of \<open>n\<close> elements sorted by itself.\<close>

function block_sort :: "('a \<Rightarrow> 'k :: linorder) \<Rightarrow> nat \<Rightarrow> 'a list \<Rightarrow> 'a list" where
  "block_sort key n xs = (if xs = [] \<or> n = 0 then [] else sort_key key (take n xs) @ block_sort key n (drop n xs))"
  by pat_completeness auto

termination
  by (relation "measure (\<lambda>(key, n, xs). length xs)") auto

declare block_sort.simps [simp del]

lemma block_sort_nil [simp]: "block_sort key n [] = []"
  by (simp add: block_sort.simps)

lemma block_sort_take:
  assumes "0 < n"
  shows "take n (block_sort key n xs) = sort_key key (take n xs) \<and> drop n (block_sort key n xs) = block_sort key n (drop n xs)"
proof (cases "xs = []")
  case False
  then have b: "block_sort key n xs = sort_key key (take n xs) @ block_sort key n (drop n xs)"
    using assms by (subst block_sort.simps) simp
  then show ?thesis by (cases "n \<le> length xs") simp_all
qed simp

lemma length_block_sort: "0 < n \<Longrightarrow> length (block_sort key n xs) = length xs"
proof (induction key n xs rule: block_sort.induct)
  case (1 key n xs)
  then show ?case by (subst block_sort.simps) auto
qed

lemma block_sort_length: "0 < n \<Longrightarrow> block_sort key n xs = [] \<longleftrightarrow> xs = []"
  using length_block_sort [of n key xs] by auto

lemma take_twice: "take n xs @ take n (drop n xs) = take (2 * n) xs"
  by (simp add: mult_2 take_add)

lemma apass_block_sort:
  assumes "\<And>a b. cmp a b \<le> 0 \<longleftrightarrow> (key a :: 'k :: linorder) \<le> key b" "0 < n"
  shows "apass cmp n (block_sort key n xs) = block_sort key (2 * n) xs"
proof (induction "length xs" arbitrary: xs rule: less_induct)
  case less
  show ?case
  proof (cases "xs = []")
    case False
    note b = block_sort_take [OF assms(2), of key]
    have "apass cmp n (block_sort key n xs) =
      amerge cmp (sort_key key (take n xs)) (sort_key key (take n (drop n xs))) @ apass cmp n (block_sort key n (drop n (drop n xs)))"
      using False assms(2) by (subst apass.simps) (simp add: block_sort_length b del: drop_drop)
    also have "\<dots> = sort_key key (take (2 * n) xs) @ block_sort key (2 * n) (drop n (drop n xs))"
      using False assms(2) less.hyps [of "drop n (drop n xs)"] by (simp add: amerge_sort [OF assms(1)] take_twice)
    also have "\<dots> = block_sort key (2 * n) xs"
      using False assms(2) by (subst (2) block_sort.simps) (simp add: mult_2)
    finally show ?thesis .
  qed (simp add: apass.simps)
qed

lemma block_sort_all: "length xs \<le> n \<Longrightarrow> block_sort key n xs = sort_key key xs"
  by (cases "xs = []") (subst block_sort.simps, auto)+

lemma block_sort_1: "block_sort key 1 xs = xs"
proof (induction xs)
  case (Cons x xs)
  then show ?case by (subst block_sort.simps) simp
qed simp

lemma asort_block_sort:
  assumes "\<And>a b. cmp a b \<le> 0 \<longleftrightarrow> (key a :: 'k :: linorder) \<le> key b" "0 < n"
  shows "asort cmp n (block_sort key n xs) = sort_key key xs"
  using assms(2)
proof (induction "length xs - n" arbitrary: n rule: less_induct)
  case less
  have len: "length (block_sort key n xs) = length xs"
    using less.prems by (rule length_block_sort)
  show ?case
  proof (cases "length xs \<le> 2 * n")
    case True
    then show ?thesis using less.prems len
      by (subst asort.simps) (simp add: apass_block_sort [OF assms(1)] block_sort_all)
  next
    case False
    then have "asort cmp n (block_sort key n xs) = asort cmp (2 * n) (block_sort key (2 * n) xs)"
      using less.prems len by (subst asort.simps) (simp add: apass_block_sort [OF assms(1)])
    then show ?thesis using less.hyps [of "2 * n"] less.prems False by simp
  qed
qed

lemma asort_sort:
  assumes "\<And>a b. cmp a b \<le> 0 \<longleftrightarrow> (key a :: 'k :: linorder) \<le> key b"
  shows "asort cmp 1 xs = sort_key key xs"
  by (rule asort_block_sort [where n = 1 and xs = xs and cmp = cmp and key = key, unfolded block_sort_1]) (simp_all add: assms)

lemma list_sort_ok:
  assumes "rep k m head xs" "length xs \<le> 2 ^ 30" "2 * length xs < fuel"
    and "\<And>a b. cmp a b \<le> 0 \<longleftrightarrow> (key a :: 'k :: linorder) \<le> key b"
  shows "\<exists>head' m'. list_sort k fuel cmp head m = Inr (head', m') \<and> rep k m' head' (sort_key key xs) \<and> elt_at m' = elt_at m"
proof (cases "xs = []")
  case True
  then show ?thesis using assms(1) rep_NULL [OF assms(1)] by (simp add: list_sort_def)
next
  case False
  have "\<exists>head' m'. sort_loop fuel k cmp 1 head m = Inr (head', m') \<and> rep k m' head' (asort cmp 1 xs) \<and> elt_at m' = elt_at m"
    using assms(2,3) False by (intro sort_loop_ok [OF assms(1)]) (auto simp: Suc_le_eq)
  then show ?thesis using False rep_NULL [OF assms(1)] by (simp add: list_sort_def asort_sort [OF assms(4)] del: One_nat_def)
qed

end
