(* ===== verification/Utlist_LL.thy ===== *)
theory Utlist_LL
  imports Utlist_Sort
begin

text \<open>The effect of the macros on the elements of a list: the specification of all three kinds, and the proofs for the singly
  linked one.\<close>

section \<open>Operations on the elements\<close>

primrec insert_before :: "'a \<Rightarrow> 'a \<Rightarrow> 'a list \<Rightarrow> 'a list" where
  "insert_before el a [] = [a]"
| "insert_before el a (x # xs) = (if x = el then a # x # xs else x # insert_before el a xs)"

primrec insert_after :: "'a \<Rightarrow> 'a \<Rightarrow> 'a list \<Rightarrow> 'a list" where
  "insert_after el a [] = [a]"
| "insert_after el a (x # xs) = (if x = el then x # a # xs else x # insert_after el a xs)"

primrec replace :: "'a \<Rightarrow> 'a \<Rightarrow> 'a list \<Rightarrow> 'a list" where
  "replace el a [] = []"
| "replace el a (x # xs) = (if x = el then a # xs else x # replace el a xs)"

lemma at_middle [simp]:
  assumes "el \<notin> set ys"
  shows "insert_before el a (ys @ el # zs) = ys @ a # el # zs" "insert_after el a (ys @ el # zs) = ys @ el # a # zs"
    "replace el a (ys @ el # zs) = ys @ a # zs" "remove1 el (ys @ el # zs) = ys @ zs"
  using assms by (induction ys) auto

text \<open>The element in front of the place where an element belongs, for an ordered insertion.\<close>

definition orders :: "('a \<Rightarrow> 'a \<Rightarrow> int) \<Rightarrow> ('a \<Rightarrow> 'k :: linorder) \<Rightarrow> bool" where
  "orders cmp key \<longleftrightarrow> (\<forall>a b. (cmp a b \<le> 0 \<longleftrightarrow> key a \<le> key b) \<and> (0 \<le> cmp a b \<longleftrightarrow> key b \<le> key a))"

lemma insort_after:
  assumes "ys \<noteq> []" "\<And>y. y \<in> set ys \<Longrightarrow> \<not> key a \<le> key y" "zs = [] \<or> key a \<le> key (hd zs)"
  shows "insort_key key a (ys @ zs) = ys @ a # zs"
  using assms by (induction ys rule: list_nonempty_induct) (cases zs; auto)+

definition becomes :: "list_kind \<Rightarrow> links \<Rightarrow> (addr \<times> links) res \<Rightarrow> addr list \<Rightarrow> bool" where
  "becomes k m r xs \<longleftrightarrow> (\<exists>head' m'. r = Inr (head', m') \<and> rep k m' head' xs \<and> elt_at m' = elt_at m)"

lemma ends_apart [simp]:
  "set xs \<inter> set ys = {} \<Longrightarrow> xs \<noteq> [] \<Longrightarrow> last xs \<notin> set ys" "set xs \<inter> set ys = {} \<Longrightarrow> xs \<noteq> [] \<Longrightarrow> hd xs \<notin> set ys"
  using last_in_set [of xs] hd_in_set [of xs] by blast+

lemma split_last: "ys \<noteq> [] \<Longrightarrow> butlast ys @ last ys # zs = ys @ zs"
  by (metis append_butlast_last_id append_Cons append_Nil append_assoc)

section \<open>Walks\<close>

lemma elt_read:
  assumes "elt_at m a" "a \<noteq> NULL"
  shows "get_next m a = Inr (nxt m a)" "get_prev m a = Inr (prv m a)"
    "set_next a v m = Inr (m\<lparr>nxt := (nxt m)(a := v)\<rparr>)" "set_prev a v m = Inr (m\<lparr>prv := (prv m)(a := v)\<rparr>)"
  using assms by (simp_all add: link_defs)

lemma LL_last_ok:
  assumes "seg d (nxt m) P p x xs NULL" "xs \<noteq> []" "\<forall>a\<in>set xs. elt_at m a" "length xs \<le> fuel"
  shows "LL_last fuel m x = Inr (last xs)"
  using assms
proof (induction fuel arbitrary: p x xs)
  case (Suc fuel)
  then obtain a xs' where xs: "xs = a # xs'" by (cases xs) auto
  then have a: "x = a" "get_next m a = Inr (nxt m a)" "seg d (nxt m) P a (nxt m a) xs' NULL" using Suc.prems by (auto simp: link_defs)
  show ?case
  proof (cases "xs' = []")
    case False
    then have "nxt m a \<noteq> NULL" using a(3) seg_nonnull [OF a(3)] seg_start [OF a(3)] by auto
    moreover have "LL_last fuel m (nxt m a) = Inr (last xs')" using Suc.prems xs a(3) False by (intro Suc.IH) auto
    ultimately show ?thesis using a(1,2) xs False by simp
  qed (use a xs in simp)
qed simp

lemma LL_before_ok:
  assumes "seg d (nxt m) P p x (ys @ el # zs) e" "ys \<noteq> []" "\<forall>a\<in>set ys. elt_at m a" "el \<notin> set ys" "length ys \<le> fuel"
  shows "LL_before fuel m el x = Inr (last ys)"
  using assms
proof (induction fuel arbitrary: p x ys)
  case (Suc fuel)
  then obtain a ys' where ys: "ys = a # ys'" by (cases ys) auto
  then have a: "x = a" "get_next m a = Inr (nxt m a)" "seg d (nxt m) P a (nxt m a) (ys' @ el # zs) e"
    using Suc.prems by (auto simp: link_defs)
  show ?case
  proof (cases "ys' = []")
    case False
    then have h: "nxt m a = hd ys'" using seg_start [OF a(3)] by simp
    moreover have "hd ys' \<in> set (ys' @ el # zs)" "hd ys' \<noteq> el" using False Suc.prems(4) ys by auto
    ultimately have "nxt m a \<noteq> NULL \<and> nxt m a \<noteq> el" using seg_nonnull [OF a(3), of "hd ys'"] by simp
    moreover have "LL_before fuel m el (nxt m a) = Inr (last ys')" using Suc.prems ys a(3) False by (intro Suc.IH) auto
    ultimately show ?thesis using a(1,2) ys False by simp
  qed (use a ys seg_start [OF a(3)] in simp)
qed simp

lemma bound_loop_ok:
  assumes "seg d (nxt m) P p x xs stop" "xs \<noteq> []" "stop \<notin> set (tl xs)" "\<forall>a\<in>set xs. elt_at m a" "length xs \<le> fuel"
  shows "\<exists>ys zs. xs = ys @ zs \<and> ys \<noteq> [] \<and> bound_loop fuel cmp stop like m x = Inr (last ys)
    \<and> (\<forall>y\<in>set (tl ys). \<not> 0 \<le> cmp y like) \<and> (zs = [] \<or> 0 \<le> cmp (hd zs) like)"
  using assms
proof (induction fuel arbitrary: p x xs)
  case (Suc fuel)
  then obtain a xs' where xs: "xs = a # xs'" by (cases xs) auto
  then have a: "x = a" "get_next m a = Inr (nxt m a)" "seg d (nxt m) P a (nxt m a) xs' stop" using Suc.prems by (auto simp: link_defs)
  show ?case
  proof (cases "xs' = [] \<or> 0 \<le> cmp (hd xs') like")
    case True
    then show ?thesis using a xs seg_start [OF a(3)] by (intro exI [of _ "[a]"] exI [of _ xs']) auto
  next
    case False
    then have h: "nxt m a = hd xs'" "nxt m a \<noteq> stop" using seg_start [OF a(3)] Suc.prems(3) xs by auto
    have "\<exists>ys zs. xs' = ys @ zs \<and> ys \<noteq> [] \<and> bound_loop fuel cmp stop like m (nxt m a) = Inr (last ys)
      \<and> (\<forall>y\<in>set (tl ys). \<not> 0 \<le> cmp y like) \<and> (zs = [] \<or> 0 \<le> cmp (hd zs) like)"
      using Suc.prems xs a(3) False by (intro Suc.IH) (auto dest: list.set_sel(2))
    then obtain ys zs where y: "xs' = ys @ zs" "ys \<noteq> []" "bound_loop fuel cmp stop like m (nxt m a) = Inr (last ys)"
      "\<forall>y\<in>set (tl ys). \<not> 0 \<le> cmp y like" "zs = [] \<or> 0 \<le> cmp (hd zs) like" by blast
    have "\<forall>y\<in>set ys. \<not> 0 \<le> cmp y like" using y False by (cases ys) auto
    then show ?thesis using y a xs h False by (intro exI [of _ "a # ys"] exI [of _ zs]) auto
  qed
qed simp

text \<open>The place that the lower bound finds is the one where \<open>insort_key\<close> inserts.\<close>

lemma bound_insort:
  assumes "orders cmp key" "xs = ys @ zs" "ys \<noteq> []" "\<not> 0 \<le> cmp (hd xs) a" "\<forall>y\<in>set (tl ys). \<not> 0 \<le> cmp y a"
    "zs = [] \<or> 0 \<le> cmp (hd zs) a"
  shows "insort_key key a xs = ys @ a # zs"
proof -
  have "\<not> 0 \<le> cmp y a" if "y \<in> set ys" for y using assms(2-5) that by (cases ys) auto
  then show ?thesis using assms by (auto simp: orders_def intro!: insort_after)
qed

section \<open>Singly linked lists\<close>

lemma rep_LL: "rep LL m head xs \<longleftrightarrow> distinct xs \<and> (\<forall>a\<in>set xs. elt_at m a) \<and> seg False (nxt m) (prv m) NULL head xs NULL"
  using seg_no_prev [of "nxt m" "prv m" NULL head xs NULL "prv m" "last xs"] by (auto simp: rep_def list_end_def)

lemma LL_PREPEND_ok:
  "rep LL m head xs \<Longrightarrow> a \<notin> set xs \<Longrightarrow> a \<noteq> NULL \<Longrightarrow> elt_at m a \<Longrightarrow> becomes LL m (LL_PREPEND head a m) (a # xs)"
  using seg_no_prev [of "nxt m" "prv m" NULL head xs NULL "prv m" a]
  by (auto simp: becomes_def LL_PREPEND_def rep_LL link_defs)

lemma LL_CONCAT_ok:
  assumes "rep LL m head1 xs" "rep LL m head2 ys" "set xs \<inter> set ys = {}" "length xs \<le> fuel"
  shows "becomes LL m (LL_CONCAT fuel head1 head2 m) (xs @ ys)"
proof (cases "xs = []")
  case True
  then show ?thesis using assms by (auto simp: becomes_def LL_CONCAT_def rep_LL)
next
  case False
  have x: "distinct xs" "\<forall>a\<in>set xs. elt_at m a" "seg False (nxt m) (prv m) NULL head1 xs NULL" using assms(1) by (auto simp: rep_LL)
  have y: "distinct ys" "\<forall>a\<in>set ys. elt_at m a" "seg False (nxt m) (prv m) NULL head2 ys NULL" using assms(2) by (auto simp: rep_LL)
  have t: "LL_last fuel m head1 = Inr (last xs)" using LL_last_ok [OF x(3) False x(2) assms(4)] .
  have l: "last xs \<in> set xs" "last xs \<noteq> NULL" "last xs \<notin> set ys" "head1 \<noteq> NULL"
    using False seg_nonnull [OF x(3)] assms(3) seg_start [OF x(3)] by auto
  have "seg False ((nxt m)(last xs := head2)) (prv m) NULL head1 xs head2" by (rule seg_set_end [OF x(3,1) False refl])
  moreover have "seg False ((nxt m)(last xs := head2)) (prv m) (last xs) head2 ys NULL"
    using y(3) l(3) seg_no_prev [of "nxt m" "prv m" NULL head2 ys NULL "prv m" "last xs"] by simp
  ultimately show ?thesis using t l x y assms(3) False
    by (auto simp: becomes_def LL_CONCAT_def rep_LL elt_read seg_append)
qed

lemma LL_APPEND_ok:
  assumes "rep LL m head xs" "a \<notin> set xs" "a \<noteq> NULL" "elt_at m a" "length xs \<le> fuel"
  shows "becomes LL m (LL_APPEND fuel head a m) (xs @ [a])"
proof -
  define m1 where "m1 = m\<lparr>nxt := (nxt m)(a := NULL)\<rparr>"
  have "LL_APPEND fuel head a m = LL_CONCAT fuel head a m1"
    using assms(3,4) by (simp add: LL_APPEND_def LL_CONCAT_def elt_read m1_def)
  moreover have "rep LL m1 head xs" "rep LL m1 a [a]" using assms by (auto simp: rep_LL m1_def)
  ultimately show ?thesis using LL_CONCAT_ok [of m1 head xs a "[a]" fuel] assms(2,5) by (simp add: becomes_def m1_def)
qed

lemma LL_splice:
  assumes "rep LL m head (ys @ zs)" "ys \<noteq> []" "a \<notin> set (ys @ zs)" "a \<noteq> NULL" "elt_at m a"
    and "m' = m\<lparr>nxt := (nxt m)(a := (if zs = [] then NULL else hd zs), last ys := a)\<rparr>"
  shows "rep LL m' head (ys @ a # zs)"
proof -
  obtain z where z: "seg False (nxt m) (prv m) NULL head ys z" "seg False (nxt m) (prv m) (last ys) z zs NULL"
    using assms(1,2) by (auto simp: rep_LL seg_append)
  have "z = (if zs = [] then NULL else hd zs)" using seg_start [OF z(2)] .
  moreover have "distinct ys" "last ys \<in> set ys" "last ys \<notin> set zs" "last ys \<noteq> a" using assms by (auto simp: rep_LL)
  moreover have "seg False ((nxt m)(a := z, last ys := a)) (prv m) NULL head ys a"
    using z(1) assms(3) calculation(2) by (intro seg_set_end [OF _ _ assms(2) refl]) auto
  moreover have "seg False ((nxt m)(a := z, last ys := a)) (prv m) a z zs NULL"
    using z(2) assms(3) calculation(4) seg_no_prev [of "nxt m" "prv m" "last ys" z zs NULL "prv m" a] by simp
  ultimately show ?thesis using assms by (auto simp: rep_LL seg_append)
qed

lemma LL_APPEND_ELEM_ok:
  assumes "rep LL m head (ys @ zs)" "ys \<noteq> []" "a \<notin> set (ys @ zs)" "a \<noteq> NULL" "elt_at m a"
  shows "becomes LL m (LL_APPEND_ELEM head (last ys) a m) (ys @ a # zs)"
proof -
  have l: "last ys \<noteq> NULL" "elt_at m (last ys)" "head \<noteq> NULL" "last ys \<noteq> a"
    using assms rep_nonnull [OF assms(1)] rep_NULL [OF assms(1)] by (auto simp: rep_LL)
  have "seg False (nxt m) (prv m) NULL head (butlast ys @ last ys # zs) NULL"
    using assms(1,2) by (simp add: rep_LL split_last)
  then have "nxt m (last ys) = (if zs = [] then NULL else hd zs)" by (rule seg_middle)
  then show ?thesis using l assms(4,5) LL_splice [OF assms refl]
    by (simp add: becomes_def LL_APPEND_ELEM_def elt_read assert_def)
qed

lemma LL_INSERT_INORDER_ok:
  assumes "rep LL m head xs" "a \<notin> set xs" "a \<noteq> NULL" "elt_at m a" "length xs \<le> fuel" "orders cmp key"
  shows "becomes LL m (LL_INSERT_INORDER fuel cmp head a m) (insort_key key a xs)"
proof (cases "xs = []")
  case True
  then show ?thesis using assms by (auto simp: becomes_def LL_INSERT_INORDER_def rep_LL elt_read)
next
  case False
  have h: "head = hd xs" "head \<noteq> NULL" using rep_head [OF assms(1) False] rep_NULL [OF assms(1)] False by auto
  have r: "seg False (nxt m) (prv m) NULL head xs NULL" "\<forall>a\<in>set xs. elt_at m a" using assms(1) by (auto simp: rep_LL)
  show ?thesis
  proof (cases "0 \<le> cmp head a")
    case True
    then have "insort_key key a xs = a # xs" using False assms(6) h(1) by (cases xs) (auto simp: orders_def)
    then show ?thesis using LL_PREPEND_ok [OF assms(1-4)] True h
      by (simp add: LL_INSERT_INORDER_def LL_LOWER_BOUND_def LL_APPEND_ELEM_def)
  next
    case less: False
    have "NULL \<notin> set (tl xs)" using seg_nonnull [OF r(1)] False by (metis list.set_sel(2))
    then obtain ys zs where y: "xs = ys @ zs" "ys \<noteq> []" "bound_loop fuel cmp NULL a m head = Inr (last ys)"
      "\<forall>y\<in>set (tl ys). \<not> 0 \<le> cmp y a" "zs = [] \<or> 0 \<le> cmp (hd zs) a"
      using bound_loop_ok [OF r(1) False _ r(2) assms(5), of cmp a] by auto
    have "insort_key key a xs = ys @ a # zs" using bound_insort [OF assms(6) y(1,2) _ y(4,5)] less h(1) by simp
    then show ?thesis using LL_APPEND_ELEM_ok [of m head ys zs a] assms(1-4) y less h
      by (simp add: LL_INSERT_INORDER_def LL_LOWER_BOUND_def)
  qed
qed

lemma LL_DELETE_ok:
  assumes "rep LL m head (ys @ a # zs)" "length ys \<le> fuel"
  shows "becomes LL m (LL_DELETE fuel head a m) (ys @ zs)"
proof -
  have r: "seg False (nxt m) (prv m) NULL head (ys @ a # zs) NULL" "distinct (ys @ a # zs)" "\<forall>b\<in>set (ys @ a # zs). elt_at m b"
    using assms(1) by (auto simp: rep_LL)
  note mid = seg_middle [OF r(1)]
  show ?thesis
  proof (cases "ys = []")
    case True
    then show ?thesis using mid r seg_no_prev [of "nxt m" "prv m" a "nxt m a" zs NULL "prv m" NULL]
      by (auto simp: becomes_def LL_DELETE_def elt_read rep_LL)
  next
    case False
    have l: "last ys \<in> set ys" "last ys \<noteq> NULL" "last ys \<notin> set zs" "elt_at m (last ys)" "head \<noteq> a"
      using False r seg_nonnull [OF r(1)] mid(6) by auto
    have n: "nxt m (last ys) = a" using seg_last_next [OF mid(4) False] .
    have "seg False ((nxt m)(last ys := nxt m a)) (prv m) NULL head ys (nxt m a)"
      using r(2) by (intro seg_set_end [OF mid(4) _ False refl]) simp
    moreover have "seg False ((nxt m)(last ys := nxt m a)) (prv m) (last ys) (nxt m a) zs NULL"
      using mid(5) l(3) seg_no_prev [of "nxt m" "prv m" a "nxt m a" zs NULL "prv m" "last ys"] by simp
    moreover have "LL_before fuel m a head = Inr (last ys)"
      using r assms(2) by (intro LL_before_ok [OF r(1) False]) auto
    ultimately show ?thesis using l n mid(1) r False
      by (auto simp: becomes_def LL_DELETE_def elt_read rep_LL seg_append)
  qed
qed

lemma LL_PREPEND_ELEM_ok:
  assumes "rep LL m head (ys @ el # zs)" "a \<notin> set (ys @ el # zs)" "a \<noteq> NULL" "elt_at m a" "length ys \<le> fuel"
  shows "becomes LL m (LL_PREPEND_ELEM fuel head el a m) (ys @ a # el # zs)"
proof -
  define m1 where "m1 = m\<lparr>nxt := (nxt m)(a := el)\<rparr>"
  have m1: "rep LL m1 head (ys @ el # zs)" using assms(1,2) by (auto simp: rep_LL m1_def)
  have r: "seg False (nxt m1) (prv m1) NULL head (ys @ el # zs) NULL" "distinct (ys @ el # zs)" "\<forall>b\<in>set (ys @ el # zs). elt_at m1 b"
    using m1 by (auto simp: rep_LL)
  note mid = seg_middle [OF r(1)]
  have h: "head \<noteq> NULL" using rep_NULL [OF assms(1)] by simp
  show ?thesis
  proof (cases "ys = []")
    case True
    then show ?thesis using LL_PREPEND_ok [OF assms(1-4)] mid h assms(3,4)
      by (simp add: becomes_def LL_PREPEND_ELEM_def LL_PREPEND_def elt_read assert_def)
  next
    case False
    have l: "last ys \<in> set ys" "last ys \<noteq> NULL" "elt_at m (last ys)" "head \<noteq> el"
      using False r seg_nonnull [OF r(1)] mid(6) by (auto simp: m1_def)
    have n: "nxt m1 (last ys) = el" using seg_last_next [OF mid(4) False] .
    have "LL_before fuel m1 el head = Inr (last ys)"
      using r assms(5) by (intro LL_before_ok [OF r(1) False]) auto
    moreover have "rep LL (m1\<lparr>nxt := (nxt m1)(last ys := a)\<rparr>) head (ys @ a # el # zs)"
      using LL_splice [of m1 head ys "el # zs" a, OF m1 False _ _ _ refl] assms(2-4) by (simp add: m1_def)
    ultimately show ?thesis using l n mid(1) h assms(3,4)
      by (simp add: becomes_def LL_PREPEND_ELEM_def elt_read assert_def m1_def)
  qed
qed

lemma LL_REPLACE_ELEM_ok:
  assumes "rep LL m head (ys @ el # zs)" "a \<notin> set (ys @ el # zs)" "a \<noteq> NULL" "elt_at m a" "length ys \<le> fuel"
  shows "becomes LL m (LL_REPLACE_ELEM fuel head el a m) (ys @ a # zs)"
proof -
  define m1 where "m1 = m\<lparr>nxt := (nxt m)(a := nxt m el)\<rparr>"
  have m1: "rep LL m1 head (ys @ el # zs)" using assms(1,2) by (auto simp: rep_LL m1_def)
  have r: "seg False (nxt m1) (prv m1) NULL head (ys @ el # zs) NULL" "distinct (ys @ el # zs)" "\<forall>b\<in>set (ys @ el # zs). elt_at m1 b"
    using m1 by (auto simp: rep_LL)
  note mid = seg_middle [OF r(1)]
  have el: "el \<noteq> NULL" "elt_at m el" "head \<noteq> NULL" "a \<noteq> el" using mid(1) r(3) assms(2) rep_NULL [OF assms(1)] by (auto simp: m1_def)
  have el_nxt: "nxt m1 el = nxt m el" using el by (simp add: m1_def)
  have zs: "seg False (nxt m1) (prv m1) a (nxt m el) zs NULL"
    using mid(5) el_nxt seg_no_prev [of "nxt m1" "prv m1" el "nxt m1 el" zs NULL "prv m1" a] by simp
  show ?thesis
  proof (cases "ys = []")
    case True
    then have "head = el" "rep LL m1 a (a # zs)" using mid(6) r zs assms(2-4) by (auto simp: rep_LL m1_def)
    then show ?thesis using True el assms(3,4) by (simp add: becomes_def LL_REPLACE_ELEM_def elt_read assert_def m1_def)
  next
    case False
    have l: "last ys \<in> set ys" "last ys \<noteq> NULL" "elt_at m (last ys)" "head \<noteq> el" "last ys \<notin> set zs" "last ys \<noteq> a"
      using False r seg_nonnull [OF r(1)] mid(6) assms(2) by (auto simp: m1_def)
    have n: "nxt m1 (last ys) = el" using seg_last_next [OF mid(4) False] .
    have "seg False ((nxt m1)(last ys := a)) (prv m1) NULL head ys a"
      using r(2) by (intro seg_set_end [OF mid(4) _ False refl]) simp
    moreover have "seg False ((nxt m1)(last ys := a)) (prv m1) (last ys) a (a # zs) NULL"
      using zs l(5,6) assms(3) by (simp add: m1_def)
    moreover have "\<forall>b\<in>set (ys @ a # zs). elt_at m1 b" "distinct (ys @ a # zs)" using r(2,3) assms(2,4) by (auto simp: m1_def)
    ultimately have "rep LL (m1\<lparr>nxt := (nxt m1)(last ys := a)\<rparr>) head (ys @ a # zs)"
      using False unfolding rep_LL seg_append by auto
    moreover have "LL_before fuel m1 el head = Inr (last ys)"
      using r assms(5) by (intro LL_before_ok [OF r(1) False]) auto
    ultimately show ?thesis using l n el assms(3,4)
      by (simp add: becomes_def LL_REPLACE_ELEM_def elt_read assert_def m1_def)
  qed
qed

lemma LL_REVERSE_loop_ok:
  assumes "seg False (nxt m) P NULL cur xs NULL" "seg False (nxt m) P NULL prev ys NULL" "distinct (xs @ ys)"
    "\<forall>a\<in>set xs. elt_at m a" "length xs < fuel"
  shows "\<exists>h m'. LL_REVERSE_loop fuel cur prev m = Inr (h, m') \<and> seg False (nxt m') P NULL h (rev xs @ ys) NULL \<and> elt_at m' = elt_at m"
  using assms
proof (induction fuel arbitrary: cur prev m xs ys)
  case (Suc fuel)
  show ?case
  proof (cases xs)
    case (Cons a xs')
    define m1 where "m1 = m\<lparr>nxt := (nxt m)(a := prev)\<rparr>"
    have a: "cur = a" "a \<noteq> NULL" "elt_at m a" "seg False (nxt m) P a (nxt m a) xs' NULL" using Suc.prems Cons by auto
    have "\<exists>h m'. LL_REVERSE_loop fuel (nxt m a) a m1 = Inr (h, m') \<and> seg False (nxt m') P NULL h (rev xs' @ (a # ys)) NULL \<and> elt_at m' = elt_at m1"
    proof (rule Suc.IH)
      show "seg False (nxt m1) P NULL (nxt m a) xs' NULL"
        using a(4) Suc.prems(3) Cons seg_no_prev [of "nxt m" P a "nxt m a" xs' NULL P NULL] by (simp add: m1_def)
      show "seg False (nxt m1) P NULL a (a # ys) NULL"
        using a(2) Suc.prems(2,3) Cons seg_no_prev [of "nxt m" P a prev ys NULL P NULL] by (simp add: m1_def)
    qed (use Suc.prems(3,4,5) Cons in \<open>auto simp: m1_def\<close>)
    then show ?thesis using a(1-3) Cons by (simp add: elt_read m1_def)
  qed (use Suc.prems in simp)
qed simp

lemma LL_REVERSE_ok:
  assumes "rep LL m head xs" "length xs < fuel"
  shows "becomes LL m (LL_REVERSE fuel head m) (rev xs)"
proof -
  have "\<exists>h m'. LL_REVERSE_loop fuel head NULL m = Inr (h, m') \<and> seg False (nxt m') (prv m) NULL h (rev xs @ []) NULL \<and> elt_at m' = elt_at m"
    using assms by (intro LL_REVERSE_loop_ok) (auto simp: rep_LL)
  then show ?thesis using assms(1) by (auto simp: becomes_def LL_REVERSE_def rep_LL intro: seg_forget)
qed

end
