(* ===== verification/Utlist_DL.thy ===== *)
theory Utlist_DL
  imports Utlist_LL
begin

text \<open>The doubly linked lists. The first element's \<open>prev\<close> is the last element.\<close>

lemma rep_DL: "rep DL m head xs \<longleftrightarrow> distinct xs \<and> (\<forall>a\<in>set xs. elt_at m a) \<and>
    (if xs = [] then head = NULL else seg True (nxt m) (prv m) (last xs) head xs NULL)"
  by (auto simp: rep_def list_end_def)

text \<open>What the macros read: the neighbours of an element.\<close>

lemma rep_DL_middle:
  assumes "rep DL m head (ys @ a # zs)"
  shows "nxt m a = (if zs = [] then NULL else hd zs)" "prv m a = (if ys = [] then if zs = [] then a else last zs else last ys)"
    "a \<noteq> NULL" "elt_at m a" "head = (if ys = [] then a else hd ys)"
proof -
  have "seg True (nxt m) (prv m) (last (ys @ a # zs)) head (ys @ a # zs) NULL" using assms by (simp add: rep_DL split: if_splits)
  note mid = seg_middle [OF this]
  show "nxt m a = (if zs = [] then NULL else hd zs)" "prv m a = (if ys = [] then if zs = [] then a else last zs else last ys)"
    "a \<noteq> NULL" "head = (if ys = [] then a else hd ys)" using mid by auto
  show "elt_at m a" using assms by (simp add: rep_DL)
qed

lemma rep_DL_head:
  assumes "rep DL m head xs" "xs \<noteq> []"
  shows "head = hd xs" "head \<noteq> NULL" "elt_at m head" "prv m head = last xs" "last xs \<noteq> NULL" "elt_at m (last xs)"
proof -
  obtain x xs' where xs: "xs = x # xs'" using assms(2) by (cases xs) auto
  have r: "rep DL m head ([] @ x # xs')" using assms(1) xs by simp
  show "head = hd xs" "head \<noteq> NULL" "elt_at m head" "prv m head = last xs" using rep_DL_middle [OF r] xs by auto
  show "last xs \<noteq> NULL" "elt_at m (last xs)" using rep_nonnull [OF assms(1), of "last xs"] assms by (auto simp: rep_DL)
qed

text \<open>Three changes of the links: a new last element, a new element in the middle, and one less.\<close>

lemma DL_at_end:
  assumes "rep DL m head xs" "xs \<noteq> []" "a \<notin> set xs" "a \<noteq> NULL" "elt_at m a" "elt_at m' = elt_at m"
    and "nxt m' = (nxt m)(last xs := a, a := NULL)" "prv m' = (prv m)(a := last xs, head := a)"
  shows "rep DL m' head (xs @ [a])"
proof -
  have r: "distinct xs" "\<forall>a\<in>set xs. elt_at m a" "seg True (nxt m) (prv m) (last xs) head xs NULL" "head = hd xs"
    using assms(1,2) rep_DL_head(1) [OF assms(1,2)] by (auto simp: rep_DL)
  have "seg True ((nxt m)(last xs := a)) (prv m) (last xs) head xs a" by (rule seg_set_end [OF r(3,1) assms(2) refl])
  then have "seg True ((nxt m)(last xs := a)) ((prv m)(a := last xs)) (last xs) head xs a" using assms(3) by simp
  then have "seg True ((nxt m)(last xs := a)) ((prv m)(a := last xs, head := a)) a head xs a"
    by (rule seg_set_start [OF _ r(1) assms(2) r(4)])
  moreover have "head \<noteq> a" using r(4) assms(2,3) by auto
  ultimately show ?thesis using assms r(1,2) by (auto simp: rep_DL seg_append)
qed

lemma DL_in_middle:
  assumes "rep DL m head (ys @ zs)" "ys \<noteq> []" "zs \<noteq> []" "a \<notin> set (ys @ zs)" "a \<noteq> NULL" "elt_at m a" "elt_at m' = elt_at m"
    and "nxt m' = (nxt m)(a := hd zs, last ys := a)" "prv m' = (prv m)(a := last ys, hd zs := a)"
  shows "rep DL m' head (ys @ a # zs)"
proof -
  have d: "distinct ys" "distinct zs" "set ys \<inter> set zs = {}" "\<forall>a\<in>set ys \<union> set zs. elt_at m a" using assms(1) by (auto simp: rep_DL)
  obtain z where z: "seg True (nxt m) (prv m) (last zs) head ys z" "seg True (nxt m) (prv m) (last ys) z zs NULL"
    using assms(1-3) by (auto simp: rep_DL seg_append)
  have zh: "z = hd zs" using seg_start [OF z(2)] assms(3) by simp
  have out: "hd zs \<notin> set ys" "last ys \<notin> set zs" using d(3) assms(2,3) by (auto simp: Int_commute)
  have "last ys \<in> set ys" "hd zs \<in> set zs" using assms(2,3) by auto
  then have ne: "last ys \<noteq> a" "hd zs \<noteq> a" using assms(4) by auto
  have "seg True ((nxt m)(a := hd zs, last ys := a)) (prv m) (last zs) head ys a"
    using z(1) assms(4) by (intro seg_set_end [OF _ d(1) assms(2) refl]) simp
  then have "seg True (nxt m') (prv m') (last zs) head ys a" unfolding assms(8,9) using assms(4) out by simp
  moreover have "seg True (nxt m) ((prv m)(hd zs := a)) a z zs NULL" by (rule seg_set_start [OF z(2) d(2) assms(3) refl])
  then have "seg True (nxt m') (prv m') a z zs NULL" unfolding assms(8,9) using assms(4) out ne by (simp add: fun_upd_twist [of a "hd zs"])
  ultimately show ?thesis using assms d zh ne by (auto simp: rep_DL seg_append)
qed

lemma DL_take_out:
  assumes "rep DL m head (ys @ a # zs)" "ys @ zs \<noteq> []" "elt_at m' = elt_at m"
    and "nxt m' = (if ys = [] then nxt m else (nxt m)(last ys := if zs = [] then NULL else hd zs))"
    and "prv m' = (if zs = [] then (prv m)(head := last ys) else (prv m)(hd zs := if ys = [] then last zs else last ys))"
  shows "rep DL m' (hd (ys @ zs)) (ys @ zs)"
proof -
  have r: "distinct ys" "distinct zs" "set ys \<inter> set zs = {}" "a \<notin> set ys" "a \<notin> set zs" "\<forall>b\<in>set ys \<union> set zs. elt_at m b"
    "seg True (nxt m) (prv m) (last (ys @ a # zs)) head (ys @ a # zs) NULL" using assms(1) by (auto simp: rep_DL split: if_splits)
  note mid = seg_middle [OF r(7)]
  show ?thesis
  proof (cases "zs = []")
    case True
    then have ys: "ys \<noteq> []" "head = hd ys" using assms(2) mid(6) by auto
    have "seg True ((nxt m)(last ys := NULL)) (prv m) (last (ys @ a # zs)) head ys NULL"
      by (rule seg_set_end [OF mid(4) r(1) ys(1) refl])
    then have "seg True ((nxt m)(last ys := NULL)) ((prv m)(head := last ys)) (last ys) head ys NULL"
      by (rule seg_set_start [OF _ r(1) ys])
    then show ?thesis using True ys r assms(3-5) by (auto simp: rep_DL)
  next
    case False
    have n: "nxt m a = hd zs" using mid(3) False by simp
    have out: "ys \<noteq> [] \<Longrightarrow> last ys \<notin> set zs" "hd zs \<notin> set ys" using r(3) False by (auto simp: Int_commute)
    have zs: "seg True (nxt m) ((prv m)(hd zs := p)) p (hd zs) zs NULL" for p
      using mid(5) unfolding n by (rule seg_set_start [OF _ r(2) False refl])
    show ?thesis
    proof (cases "ys = []")
      case True
      then show ?thesis using False zs [of "last zs"] r assms(3-5) by (auto simp: rep_DL)
    next
      case ys: False
      have "seg True ((nxt m)(last ys := hd zs)) (prv m) (last zs) head ys (hd zs)"
        using mid(4) False by (intro seg_set_end [OF _ r(1) ys refl]) simp
      then have "seg True (nxt m') (prv m') (last zs) head ys (hd zs)" using False ys out assms(4,5) by simp
      moreover have "seg True (nxt m') (prv m') (last ys) (hd zs) zs NULL" using zs [of "last ys"] False ys out assms(4,5) by simp
      ultimately show ?thesis using False ys r assms(3) mid(6) by (auto simp: rep_DL seg_append)
    qed
  qed
qed

section \<open>The macros\<close>

lemma DL_single: "a \<noteq> NULL \<Longrightarrow> elt_at m a \<Longrightarrow> rep DL (m\<lparr>prv := (prv m)(a := a), nxt := (nxt m)(a := NULL)\<rparr>) a [a]"
  by (simp add: rep_DL)

lemma DL_APPEND_ok:
  assumes "rep DL m head xs" "a \<notin> set xs" "a \<noteq> NULL" "elt_at m a"
  shows "becomes DL m (DL_APPEND head a m) (xs @ [a])"
proof (cases "xs = []")
  case True
  then show ?thesis using assms DL_single [OF assms(3,4)] by (simp add: becomes_def DL_APPEND_def rep_DL elt_read)
next
  case False
  note h = rep_DL_head [OF assms(1) False]
  have ne: "head \<noteq> a" using h(1) False assms(2) by auto
  have "rep DL (m\<lparr>prv := (prv m)(a := last xs, head := a), nxt := (nxt m)(last xs := a, a := NULL)\<rparr>) head (xs @ [a])"
    by (rule DL_at_end [OF assms(1) False assms(2-4)]) simp_all
  then show ?thesis using h ne assms(3,4) by (simp add: becomes_def DL_APPEND_def elt_read)
qed

lemma DL_PREPEND_ok:
  assumes "rep DL m head xs" "a \<notin> set xs" "a \<noteq> NULL" "elt_at m a"
  shows "becomes DL m (DL_PREPEND head a m) (a # xs)"
proof (cases "xs = []")
  case True
  then show ?thesis using assms by (simp add: becomes_def DL_PREPEND_def rep_DL elt_read)
next
  case False
  note h = rep_DL_head [OF assms(1) False]
  have r: "distinct xs" "seg True (nxt m) (prv m) (last xs) head xs NULL" using assms(1) False by (simp_all add: rep_DL)
  have ne: "head \<noteq> a" using h(1) False assms(2) by auto
  have "seg True (nxt m) ((prv m)(head := a)) a head xs NULL" by (rule seg_set_start [OF r(2,1) False h(1)])
  then have "seg True ((nxt m)(a := head)) ((prv m)(a := last xs, head := a)) a head xs NULL"
    using assms(2) ne by (simp add: fun_upd_twist [of a head])
  then show ?thesis using h ne assms False by (simp add: becomes_def DL_PREPEND_def elt_read rep_DL)
qed

lemma DL_APPEND_ELEM_ok:
  assumes "rep DL m head (ys @ zs)" "ys \<noteq> []" "a \<notin> set (ys @ zs)" "a \<noteq> NULL" "elt_at m a"
  shows "becomes DL m (DL_APPEND_ELEM head (last ys) a m) (ys @ a # zs)"
proof -
  have "rep DL m head (butlast ys @ last ys # zs)" using assms(1,2) by (simp add: split_last)
  note el = rep_DL_middle [OF this]
  have h: "head \<noteq> NULL" "elt_at m head" using rep_DL_head [OF assms(1)] assms(2) by auto
  have "last ys \<in> set ys" using assms(2) by simp
  then have ne: "last ys \<noteq> a" using assms(3) by auto
  show ?thesis
  proof (cases "zs = []")
    case True
    have "rep DL (m\<lparr>nxt := (nxt m)(last ys := a, a := NULL), prv := (prv m)(a := last ys, head := a)\<rparr>) head (ys @ [a])"
      using True assms by (intro DL_at_end) simp_all
    then show ?thesis using True el h ne assms(4,5)
      by (simp add: becomes_def DL_APPEND_ELEM_def elt_read assert_def fun_upd_twist [of a "last ys"])
  next
    case False
    have "hd zs \<in> set zs" using False by simp
    then have z: "hd zs \<noteq> NULL" "elt_at m (hd zs)" using rep_nonnull [OF assms(1)] assms(1) by (auto simp: rep_DL)
    have "rep DL (m\<lparr>nxt := (nxt m)(a := hd zs, last ys := a), prv := (prv m)(a := last ys, hd zs := a)\<rparr>) head (ys @ a # zs)"
      by (rule DL_in_middle [OF assms(1,2) False assms(3-5)]) simp_all
    then show ?thesis using False el h ne z assms(4,5)
      by (simp add: becomes_def DL_APPEND_ELEM_def elt_read assert_def)
  qed
qed

lemma DL_INSERT_INORDER_ok:
  assumes "rep DL m head xs" "a \<notin> set xs" "a \<noteq> NULL" "elt_at m a" "length xs \<le> fuel" "orders cmp key"
  shows "becomes DL m (DL_INSERT_INORDER fuel cmp head a m) (insort_key key a xs)"
proof (cases "xs = []")
  case True
  then show ?thesis using assms DL_single [OF assms(3,4)] by (simp add: becomes_def DL_INSERT_INORDER_def rep_DL elt_read)
next
  case False
  note h = rep_DL_head [OF assms(1) False]
  have r: "seg True (nxt m) (prv m) (last xs) head xs NULL" "\<forall>a\<in>set xs. elt_at m a" using assms(1) False by (auto simp: rep_DL)
  show ?thesis
  proof (cases "0 \<le> cmp head a")
    case True
    then have "insort_key key a xs = a # xs" using False assms(6) h(1) by (cases xs) (auto simp: orders_def)
    then show ?thesis using DL_PREPEND_ok [OF assms(1-4)] True h
      by (simp add: DL_INSERT_INORDER_def DL_LOWER_BOUND_def DL_APPEND_ELEM_def)
  next
    case less: False
    have "NULL \<notin> set (tl xs)" using seg_nonnull [OF r(1)] False by (metis list.set_sel(2))
    then obtain ys zs where y: "xs = ys @ zs" "ys \<noteq> []" "bound_loop fuel cmp NULL a m head = Inr (last ys)"
      "\<forall>y\<in>set (tl ys). \<not> 0 \<le> cmp y a" "zs = [] \<or> 0 \<le> cmp (hd zs) a"
      using bound_loop_ok [OF r(1) False _ r(2) assms(5), of cmp a] by auto
    have "insort_key key a xs = ys @ a # zs" using bound_insort [OF assms(6) y(1,2) _ y(4,5)] less h(1) by simp
    then show ?thesis using DL_APPEND_ELEM_ok [of m head ys zs a] assms(1-4) y less h
      by (simp add: DL_INSERT_INORDER_def DL_LOWER_BOUND_def)
  qed
qed

lemma DL_DELETE_ok:
  assumes "rep DL m head (ys @ a # zs)"
  shows "becomes DL m (DL_DELETE head a m) (ys @ zs)"
proof -
  note el = rep_DL_middle [OF assms]
  have r: "distinct (ys @ a # zs)" "\<forall>b\<in>set (ys @ a # zs). elt_at m b \<and> b \<noteq> NULL" "head \<noteq> NULL" "elt_at m head"
    using assms rep_nonnull [OF assms] rep_DL_head [OF assms] by (auto simp: rep_DL)
  have out: "ys \<noteq> [] \<Longrightarrow> last ys \<in> set ys" "zs \<noteq> [] \<Longrightarrow> hd zs \<in> set zs" "zs \<noteq> [] \<Longrightarrow> last zs \<in> set zs" "ys \<noteq> [] \<Longrightarrow> hd ys \<in> set ys" by simp_all
  show ?thesis
  proof (cases "ys @ zs = []")
    case True
    then show ?thesis using el r by (simp add: becomes_def DL_DELETE_def elt_read assert_def rep_DL)
  next
    case False
    define m' where "m' = m\<lparr>nxt := (if ys = [] then nxt m else (nxt m)(last ys := if zs = [] then NULL else hd zs)),
      prv := (if zs = [] then (prv m)(head := last ys) else (prv m)(hd zs := if ys = [] then last zs else last ys))\<rparr>"
    have "rep DL m' (hd (ys @ zs)) (ys @ zs)" by (rule DL_take_out [OF assms False]) (simp_all add: m'_def)
    moreover have "DL_DELETE head a m = Inr (hd (ys @ zs), m')"
    proof (cases "ys = []")
      case True
      then have "zs \<noteq> []" "hd zs \<noteq> NULL" "elt_at m (hd zs)" "last zs \<noteq> NULL" "last zs \<noteq> a" "hd zs \<noteq> a" using False r out by auto
      then show ?thesis using True el r by (simp add: DL_DELETE_def elt_read assert_def m'_def)
    next
      case ys: False
      then have l: "last ys \<noteq> NULL" "elt_at m (last ys)" "last ys \<noteq> a" "hd ys \<noteq> a" using r out(1,4) by auto
      show ?thesis
      proof (cases "zs = []")
        case True
        then show ?thesis using ys el r l by (simp add: DL_DELETE_def elt_read assert_def m'_def)
      next
        case zs: False
        then have "hd zs \<noteq> NULL" "elt_at m (hd zs)" using r out(2) by auto
        then show ?thesis using ys zs el r l by (simp add: DL_DELETE_def elt_read assert_def m'_def)
      qed
    qed
    ultimately show ?thesis by (auto simp: becomes_def m'_def)
  qed
qed

lemma DL_CONCAT_ok:
  assumes "rep DL m head1 xs" "rep DL m head2 ys" "set xs \<inter> set ys = {}"
  shows "becomes DL m (DL_CONCAT head1 head2 m) (xs @ ys)"
proof (cases "xs = [] \<or> ys = []")
  case True
  then show ?thesis using assms rep_NULL [OF assms(1)] rep_NULL [OF assms(2)]
    by (auto simp: becomes_def DL_CONCAT_def)
next
  case False
  then have ne: "xs \<noteq> []" "ys \<noteq> []" by auto
  note h1 = rep_DL_head [OF assms(1) ne(1)] and h2 = rep_DL_head [OF assms(2) ne(2)]
  have x: "distinct xs" "\<forall>a\<in>set xs. elt_at m a" "seg True (nxt m) (prv m) (last xs) head1 xs NULL" using assms(1) ne(1) by (auto simp: rep_DL)
  have y: "distinct ys" "\<forall>a\<in>set ys. elt_at m a" "seg True (nxt m) (prv m) (last ys) head2 ys NULL" using assms(2) ne(2) by (auto simp: rep_DL)
  have out: "last xs \<notin> set ys" "head1 \<notin> set ys" "head2 \<notin> set xs"
    using assms(3) ne h1(1) h2(1) by (simp_all add: Int_commute)
  have "head1 \<in> set xs" using h1(1) ne(1) by simp
  then have out: "last xs \<notin> set ys" "head1 \<notin> set ys" "head2 \<notin> set xs" "head1 \<noteq> head2" using out by auto
  define m' where "m' = m\<lparr>prv := (prv m)(head2 := last xs, head1 := last ys), nxt := (nxt m)(last xs := head2)\<rparr>"
  have "seg True ((nxt m)(last xs := head2)) (prv m) (last xs) head1 xs head2" by (rule seg_set_end [OF x(3,1) ne(1) refl])
  then have "seg True ((nxt m)(last xs := head2)) ((prv m)(head2 := last xs, head1 := last ys)) (last ys) head1 xs head2"
    using out(3) by (intro seg_set_start [OF _ x(1) ne(1) h1(1)]) simp
  moreover have "seg True (nxt m) ((prv m)(head2 := last xs)) (last xs) head2 ys NULL"
    by (rule seg_set_start [OF y(3,1) ne(2) h2(1)])
  ultimately have "rep DL m' head1 (xs @ ys)" using x y out ne assms(3) by (auto simp: rep_DL seg_append m'_def)
  moreover have "DL_CONCAT head1 head2 m = Inr (head1, m')" using h1 h2 out by (simp add: DL_CONCAT_def elt_read m'_def)
  ultimately show ?thesis by (simp add: becomes_def m'_def)
qed

lemma DL_PREPEND_ELEM_ok:
  assumes "rep DL m head (ys @ el # zs)" "a \<notin> set (ys @ el # zs)" "a \<noteq> NULL" "elt_at m a"
  shows "becomes DL m (DL_PREPEND_ELEM head el a m) (ys @ a # el # zs)"
proof -
  note el = rep_DL_middle [OF assms(1)]
  have h: "head \<noteq> NULL" using rep_NULL [OF assms(1)] by simp
  have ne: "a \<noteq> el" using assms(2) by simp
  show ?thesis
  proof (cases "ys = []")
    case True
    then have "DL_PREPEND_ELEM head el a m = DL_PREPEND head a m"
      using el h assms(3,4) ne by (simp add: DL_PREPEND_ELEM_def DL_PREPEND_def elt_read assert_def)
    then show ?thesis using DL_PREPEND_ok [OF assms] True by simp
  next
    case False
    then have "last ys \<in> set (ys @ el # zs)" "hd ys \<in> set ys" "el \<notin> set ys" using assms(1) by (auto simp: rep_DL)
    then have l: "last ys \<noteq> NULL" "elt_at m (last ys)" "head \<noteq> el" using rep_nonnull [OF assms(1)] assms(1) el(5) False by (auto simp: rep_DL)
    have "rep DL (m\<lparr>nxt := (nxt m)(a := el, last ys := a), prv := (prv m)(a := last ys, el := a)\<rparr>) head (ys @ a # el # zs)"
      by (rule DL_in_middle [where zs = "el # zs", OF assms(1) False _ assms(2-4)]) simp_all
    then have "rep DL (m\<lparr>prv := (prv m)(a := last ys, el := a), nxt := (nxt m)(a := el, last ys := a)\<rparr>) head (ys @ a # el # zs)"
      by (simp add: rep_DL)
    then show ?thesis using el h ne l assms(3,4) False
      by (simp add: becomes_def DL_PREPEND_ELEM_def elt_read assert_def)
  qed
qed

text \<open>One element in the place of another.\<close>

lemma DL_swap:
  assumes "rep DL m head (ys @ el # zs)" "a \<notin> set (ys @ el # zs)" "a \<noteq> NULL" "elt_at m a" "elt_at m' = elt_at m"
    and "nxt m' = (if ys = [] then (nxt m)(a := nxt m el) else (nxt m)(a := nxt m el, last ys := a))"
    and "prv m' = (prv m)(a := (if ys = [] then if zs = [] then a else last zs else last ys),
      (if zs = [] then if ys = [] then a else head else hd zs) := a)"
  shows "rep DL m' (if ys = [] then a else head) (ys @ a # zs)"
proof -
  have r: "distinct ys" "distinct zs" "set ys \<inter> set zs = {}" "el \<notin> set ys" "el \<notin> set zs" "\<forall>b\<in>set ys \<union> set zs. elt_at m b"
    "seg True (nxt m) (prv m) (last (ys @ el # zs)) head (ys @ el # zs) NULL" using assms(1) by (auto simp: rep_DL split: if_splits)
  have a: "a \<notin> set ys" "a \<notin> set zs" "a \<noteq> el" using assms(2) by auto
  note mid = seg_middle [OF r(7)]
  have hd_out: "ys \<noteq> [] \<Longrightarrow> head \<notin> set zs" "ys \<noteq> [] \<Longrightarrow> head \<noteq> a" "zs \<noteq> [] \<Longrightarrow> hd zs \<notin> set ys" "ys \<noteq> [] \<Longrightarrow> last ys \<notin> set zs"
    "zs \<noteq> [] \<Longrightarrow> hd zs \<noteq> a" "ys \<noteq> [] \<Longrightarrow> last ys \<noteq> a"
    using r(3) mid(6) a(1,2) hd_in_set [of ys] last_in_set [of ys] hd_in_set [of zs] by (auto simp: Int_commute)
  have z: "nxt m el = (if zs = [] then NULL else hd zs)" by (rule mid(3))
  have zs: "seg True (nxt m') (prv m') a (nxt m el) zs NULL"
  proof (cases "zs = []")
    case False
    have "seg True (nxt m) ((prv m)(hd zs := a)) a (nxt m el) zs NULL" by (rule seg_set_start [OF mid(5) r(2) False refl])
    then show ?thesis using False a(2) hd_out unfolding assms(6,7) by (auto simp: fun_upd_twist [of a "hd zs"])
  qed (use mid(5) in simp)
  show ?thesis
  proof (cases "ys = []")
    case True
    then show ?thesis using zs assms(3-7) r a hd_out(5) by (auto simp: rep_DL)
  next
    case False
    have e: "seg True ((nxt m)(last ys := a)) (prv m) (last (ys @ el # zs)) head ys a"
      by (rule seg_set_end [OF mid(4) r(1) False refl])
    have "seg True (nxt m') (prv m') (last (ys @ a # zs)) head ys a"
    proof (cases "zs = []")
      case True
      have "head = hd ys" using mid(6) False by simp
      then have "seg True ((nxt m)(last ys := a)) ((prv m)(head := a)) a head ys a" using seg_set_start [OF e r(1) False] by simp
      then show ?thesis using True False a(1) hd_out(2,6) unfolding assms(6,7) by (simp add: fun_upd_twist [of a "last ys"] fun_upd_twist [of a head])
    next
      case zs: False
      then show ?thesis using e False a(1) hd_out unfolding assms(6,7) by (simp add: fun_upd_twist [of a "last ys"])
    qed
    moreover have "nxt m' a = nxt m el" "prv m' a = last ys" using False hd_out unfolding assms(6,7) by auto
    ultimately show ?thesis using zs False assms(3-5) r a by (auto simp: rep_DL seg_append)
  qed
qed

lemma DL_REPLACE_ELEM_ok:
  assumes "rep DL m head (ys @ el # zs)" "a \<notin> set (ys @ el # zs)" "a \<noteq> NULL" "elt_at m a"
  shows "becomes DL m (DL_REPLACE_ELEM head el a m) (ys @ a # zs)"
proof -
  note el = rep_DL_middle [OF assms(1)]
  have h: "head \<noteq> NULL" "elt_at m head" using rep_DL_head [OF assms(1)] by auto
  have r: "distinct (ys @ el # zs)" "\<forall>b\<in>set (ys @ el # zs). elt_at m b \<and> b \<noteq> NULL"
    using assms(1) rep_nonnull [OF assms(1)] by (auto simp: rep_DL)
  have out: "ys \<noteq> [] \<Longrightarrow> last ys \<in> set ys" "zs \<noteq> [] \<Longrightarrow> hd zs \<in> set zs" "ys \<noteq> [] \<Longrightarrow> hd ys \<in> set ys" by simp_all
  define m' where "m' = m\<lparr>nxt := (if ys = [] then (nxt m)(a := nxt m el) else (nxt m)(a := nxt m el, last ys := a)),
    prv := (prv m)(a := (if ys = [] then if zs = [] then a else last zs else last ys),
      (if zs = [] then if ys = [] then a else head else hd zs) := a)\<rparr>"
  have "rep DL m' (if ys = [] then a else head) (ys @ a # zs)" by (rule DL_swap [OF assms]) (simp_all add: m'_def)
  moreover have "DL_REPLACE_ELEM head el a m = Inr (if ys = [] then a else head, m')"
  proof (cases "ys = []")
    case True
    then have z: "zs \<noteq> [] \<Longrightarrow> hd zs \<noteq> NULL \<and> elt_at m (hd zs)" using r out(2) by auto
    then show ?thesis using True el h assms by (cases "zs = []") (simp_all add: DL_REPLACE_ELEM_def elt_read assert_def m'_def)
  next
    case ys: False
    then have l: "last ys \<noteq> NULL" "elt_at m (last ys)" "last ys \<noteq> a" "last ys \<noteq> el" "hd ys \<noteq> el" "a \<noteq> el" using r out(1,3) assms(2) by auto
    have z: "zs \<noteq> [] \<Longrightarrow> hd zs \<noteq> NULL \<and> elt_at m (hd zs)" using r out(2) by auto
    show ?thesis using ys z el h l assms(3,4)
      by (cases "zs = []") (simp_all add: DL_REPLACE_ELEM_def elt_read assert_def m'_def)
  qed
  ultimately show ?thesis by (simp add: becomes_def m'_def)
qed

section \<open>Reversal\<close>

lemma seg_rev:
  "seg True N P p x xs y \<Longrightarrow> seg True P N y (if xs = [] then p else last xs) (rev xs) p"
proof (induction xs arbitrary: p x)
  case (Cons a xs)
  then have a: "a \<noteq> NULL" "P a = p" "seg True N P a (N a) xs y" by auto
  show ?case using Cons.IH [OF a(3)] a seg_start [OF a(3)] by (auto simp: seg_append last_rev)
qed simp

lemma seg_swap:
  assumes "seg d P N p x xs y" "set xs \<subseteq> A"
  shows "seg d (\<lambda>b. if b \<in> A then P b else N b) (\<lambda>b. if b \<in> A then N b else P b) p x xs y"
proof -
  have "seg d (\<lambda>b. if b \<in> A then P b else N b) (\<lambda>b. if b \<in> A then N b else P b) p x xs y = seg d P N p x xs y"
    using assms(2) by (intro seg_cong) auto
  then show ?thesis using assms(1) by simp
qed

definition swapped :: "addr set \<Rightarrow> links \<Rightarrow> links" where
  "swapped A m = m\<lparr>nxt := (\<lambda>b. if b \<in> A then prv m b else nxt m b), prv := (\<lambda>b. if b \<in> A then nxt m b else prv m b)\<rparr>"

lemma swapped_insert:
  "a \<notin> A \<Longrightarrow> swapped A (m\<lparr>prv := (prv m)(a := nxt m a), nxt := (nxt m)(a := prv m a)\<rparr>) = swapped (insert a A) m"
  by (auto simp: swapped_def fun_eq_iff)

lemma DL_REVERSE_loop_ok:
  assumes "seg False (nxt m) P q cur xs NULL" "distinct xs" "\<forall>a\<in>set xs. elt_at m a" "length xs < fuel"
  shows "DL_REVERSE_loop fuel cur p m = Inr (if xs = [] then p else prv m (last xs), swapped (set xs) m)"
  using assms
proof (induction fuel arbitrary: q cur xs m p)
  case (Suc fuel)
  show ?case
  proof (cases xs)
    case Nil
    then show ?thesis using Suc.prems by (simp add: swapped_def)
  next
    case (Cons a xs')
    define m1 where "m1 = m\<lparr>prv := (prv m)(a := nxt m a), nxt := (nxt m)(a := prv m a)\<rparr>"
    have a: "cur = a" "a \<noteq> NULL" "elt_at m a" "seg False (nxt m) P a (nxt m a) xs' NULL" "a \<notin> set xs'" using Suc.prems Cons by auto
    have s1: "seg False (nxt m1) P a (nxt m a) xs' NULL" using a(4,5) by (simp add: m1_def)
    have "DL_REVERSE_loop fuel (nxt m a) (prv m a) m1 = Inr (if xs' = [] then (prv m a) else prv m1 (last xs'), swapped (set xs') m1)"
      using Suc.prems Cons
      by (intro Suc.IH [OF s1]) (auto simp: m1_def)
    moreover have "xs' \<noteq> [] \<Longrightarrow> last xs' \<noteq> a" using a(5) last_in_set by metis
    moreover have "swapped (set xs') m1 = swapped (insert a (set xs')) m" unfolding m1_def by (rule swapped_insert [OF a(5)])
    ultimately show ?thesis using a(1-3) Cons by (auto simp: elt_read m1_def)
  qed
qed simp

lemma DL_REVERSE_ok:
  assumes "rep DL m head xs" "length xs < fuel"
  shows "becomes DL m (DL_REVERSE fuel head m) (rev xs)"
proof (cases "length xs \<le> 1")
  case True
  then consider "xs = []" | a where "xs = [a]" by (cases xs) auto
  then show ?thesis
  proof cases
    case 1
    then show ?thesis using assms by (simp add: becomes_def DL_REVERSE_def rep_DL)
  next
    case 2
    then show ?thesis using assms by (auto simp: becomes_def DL_REVERSE_def rep_DL elt_read)
  qed
next
  case False
  then obtain zs c where z: "xs = zs @ [c]" "zs \<noteq> []" by (cases xs rule: rev_cases) auto
  then obtain ys b where xs: "xs = ys @ [b, c]" by (cases zs rule: rev_cases) auto
  have ne: "xs \<noteq> []" using xs by simp
  have r: "distinct xs" "\<forall>a\<in>set xs. elt_at m a" "seg True (nxt m) (prv m) (last xs) head xs NULL" using assms(1) ne by (auto simp: rep_DL)
  note h = rep_DL_head [OF assms(1) ne]
  define m1 where "m1 = swapped (set xs) m"
  have "seg False (nxt m) (prv m) NULL head xs NULL" by (rule seg_forget [OF r(3)])
  then have loop: "DL_REVERSE_loop fuel head NULL m = Inr (prv m (last xs), m1)"
    using DL_REVERSE_loop_ok [OF _ r(1,2) assms(2), of "prv m" NULL head NULL] ne by (simp add: m1_def)
  have c: "prv m c = b" "prv m1 b = c" "b \<noteq> NULL" "elt_at m b" "head \<noteq> c" "c \<noteq> NULL" "elt_at m c" "nxt m head \<noteq> NULL"
  proof -
    have "rep DL m head ((ys @ [b]) @ c # [])" "rep DL m head (ys @ b # [c])" using assms(1) xs by simp_all
    note cb = rep_DL_middle [OF this(1)] rep_DL_middle [OF this(2)]
    show "prv m c = b" "b \<noteq> NULL" "elt_at m b" "c \<noteq> NULL" "elt_at m c" using cb by simp_all
    show "prv m1 b = c" using cb xs by (simp add: m1_def swapped_def)
    show "head \<noteq> c" using h(1) r(1) xs by (cases ys) auto
    obtain x y zs where "xs = x # y # zs" using xs by (cases ys; cases "tl ys") auto
    then have "rep DL m head ([] @ x # (y # zs))" "y \<in> set xs" using assms(1) by simp_all
    moreover from this(1) have "nxt m head = y" using rep_DL_middle(1,5) [of m head "[]" x "y # zs"] by simp
    ultimately show "nxt m head \<noteq> NULL" using rep_nonnull [OF assms(1), of y] by simp
  qed
  have "seg True (prv m) (nxt m) NULL c (rev xs) (last xs)" using seg_rev [OF r(3)] ne xs by simp
  then have s: "seg True (nxt m1) (prv m1) NULL c (rev xs) (last xs)" by (simp add: m1_def swapped_def seg_swap)
  have "seg True ((nxt m1)(head := NULL)) (prv m1) NULL c (rev xs) NULL"
    using r(1) ne h(1) by (intro seg_set_end [OF s]) (simp_all add: last_rev)
  then have "seg True ((nxt m1)(head := NULL)) ((prv m1)(c := head)) head c (rev xs) NULL"
    using r(1) xs by (intro seg_set_start) simp_all
  then have "rep DL (m1\<lparr>nxt := (nxt m1)(head := NULL), prv := (prv m1)(c := head)\<rparr>) c (rev xs)"
    using r ne h(1) by (simp add: rep_DL last_rev m1_def swapped_def)
  moreover have "elt_at m1 = elt_at m" by (simp add: m1_def swapped_def)
  ultimately show ?thesis using loop c h xs
    by (simp add: becomes_def DL_REVERSE_def elt_read Let_def)
qed

end
