(* ===== verification/Utlist_CDL.thy ===== *)
theory Utlist_CDL
  imports Utlist_DL
begin

text \<open>
  The circular lists. A ring can be read from any of its elements, so an operation anywhere in it is one at the end of a
  rotation of it.
\<close>

definition ring :: "links \<Rightarrow> addr list \<Rightarrow> bool" where
  "ring m xs \<longleftrightarrow> xs \<noteq> [] \<and> distinct xs \<and> (\<forall>a\<in>set xs. elt_at m a) \<and> seg True (nxt m) (prv m) (last xs) (hd xs) xs (hd xs)"

lemma rep_CDL: "rep CDL m head xs \<longleftrightarrow> (if xs = [] then head = NULL else head = hd xs \<and> ring m xs)"
proof (cases "xs = []")
  case False
  then show ?thesis using seg_start [of True "nxt m" "prv m" "last xs" head xs "hd xs"]
    by (auto simp: rep_def ring_def list_end_def)
qed (simp add: rep_def)

lemma ring_rotate: "ring m (ys @ zs) \<Longrightarrow> ring m (zs @ ys)"
proof (cases "ys = [] \<or> zs = []")
  case False
  assume r: "ring m (ys @ zs)"
  then obtain z where z: "seg True (nxt m) (prv m) (last zs) (hd ys) ys z" "seg True (nxt m) (prv m) (last ys) z zs (hd ys)"
    using False by (auto simp: ring_def seg_append)
  moreover have "z = hd zs" using seg_start [OF z(2)] False by simp
  ultimately show ?thesis using r False by (auto simp: ring_def seg_append)
qed auto

lemma ring_last:
  assumes "ring m (xs @ [a])"
  shows "nxt m a = hd (xs @ [a])" "prv m a = (if xs = [] then a else last xs)" "a \<noteq> NULL" "elt_at m a"
proof -
  have "seg True (nxt m) (prv m) (last (xs @ [a])) (hd (xs @ [a])) (xs @ a # []) (hd (xs @ [a]))" using assms by (simp add: ring_def)
  note mid = seg_middle [OF this]
  show "nxt m a = hd (xs @ [a])" "prv m a = (if xs = [] then a else last xs)" "a \<noteq> NULL" using mid by auto
  show "elt_at m a" using assms by (simp add: ring_def)
qed

lemma ring_elt:
  assumes "ring m xs" "a \<in> set xs"
  shows "a \<noteq> NULL" "elt_at m a"
  using assms seg_nonnull [of True "nxt m" "prv m" "last xs" "hd xs" xs "hd xs" a] by (auto simp: ring_def)

lemma ring_head:
  assumes "ring m xs"
  shows "prv m (hd xs) = last xs" "hd xs \<noteq> NULL" "elt_at m (hd xs)" "last xs \<noteq> NULL" "elt_at m (last xs)"
proof -
  have "xs \<noteq> []" using assms by (simp add: ring_def)
  then show "prv m (hd xs) = last xs" "hd xs \<noteq> NULL" "elt_at m (hd xs)" "last xs \<noteq> NULL" "elt_at m (last xs)"
    using assms ring_elt [OF assms] by (cases xs; simp add: ring_def)+
qed

lemma ring_add:
  assumes "ring m xs" "a \<notin> set xs" "a \<noteq> NULL" "elt_at m a" "elt_at m' = elt_at m"
    and "nxt m' = (nxt m)(a := hd xs, last xs := a)" "prv m' = (prv m)(a := last xs, hd xs := a)"
  shows "ring m' (xs @ [a])"
proof -
  have r: "xs \<noteq> []" "distinct xs" "\<forall>a\<in>set xs. elt_at m a" "seg True (nxt m) (prv m) (last xs) (hd xs) xs (hd xs)"
    using assms(1) by (auto simp: ring_def)
  have "hd xs \<in> set xs" "last xs \<in> set xs" using r(1) by simp_all
  then have ne: "hd xs \<noteq> a" "last xs \<noteq> a" using assms(2) by auto
  have "seg True ((nxt m)(a := hd xs)) ((prv m)(a := last xs)) (last xs) (hd xs) xs (hd xs)" using r(4) assms(2) by simp
  then have "seg True (nxt m') ((prv m)(a := last xs)) (last xs) (hd xs) xs a"
    unfolding assms(6) by (rule seg_set_end [OF _ r(2,1) refl])
  then have "seg True (nxt m') (prv m') a (hd xs) xs a" unfolding assms(7) by (rule seg_set_start [OF _ r(2,1) refl])
  then show ?thesis using assms r ne by (auto simp: ring_def seg_append)
qed

lemma ring_drop:
  assumes "ring m (xs @ [a])" "xs \<noteq> []" "elt_at m' = elt_at m"
    and "nxt m' = (nxt m)(last xs := hd xs)" "prv m' = (prv m)(hd xs := last xs)"
  shows "ring m' xs"
proof -
  have r: "distinct xs" "\<forall>a\<in>set xs. elt_at m a" "seg True (nxt m) (prv m) (last (xs @ [a])) (hd (xs @ [a])) (xs @ [a]) (hd (xs @ [a]))"
    using assms(1) by (auto simp: ring_def)
  then have "seg True (nxt m) (prv m) a (hd xs) xs a" using assms(2) by (auto simp: seg_append)
  then have "seg True (nxt m') (prv m) a (hd xs) xs (hd xs)" unfolding assms(4) by (rule seg_set_end [OF _ r(1) assms(2) refl])
  then have "seg True (nxt m') (prv m') (last xs) (hd xs) xs (hd xs)" unfolding assms(5) by (rule seg_set_start [OF _ r(1) assms(2) refl])
  then show ?thesis using assms(2,3) r by (simp add: ring_def)
qed

lemma ring_swap:
  assumes "ring m (xs @ [el])" "xs \<noteq> []" "a \<notin> set (xs @ [el])" "a \<noteq> NULL" "elt_at m a" "elt_at m' = elt_at m"
    and "nxt m' = (nxt m)(a := hd xs, last xs := a)" "prv m' = (prv m)(a := last xs, hd xs := a)"
  shows "ring m' (xs @ [a])"
proof -
  define m1 where "m1 = m\<lparr>nxt := (nxt m)(last xs := hd xs), prv := (prv m)(hd xs := last xs)\<rparr>"
  have "ring m1 xs" by (rule ring_drop [OF assms(1,2)]) (simp_all add: m1_def)
  moreover have "hd xs \<in> set xs" "last xs \<in> set xs" using assms(2) by simp_all
  then have "hd xs \<noteq> a" "last xs \<noteq> a" using assms(3) by auto
  ultimately show ?thesis using assms(3-8)
    by (intro ring_add [of m1 xs a]) (simp_all add: m1_def fun_upd_twist [of a "last xs"] fun_upd_twist [of a "hd xs"])
qed

section \<open>The macros\<close>

lemma CDL_insert_code:
  assumes "ring m xs" "a \<notin> set xs" "a \<noteq> NULL" "elt_at m a"
  defines "m' \<equiv> m\<lparr>prv := (prv m)(a := last xs, hd xs := a), nxt := (nxt m)(a := hd xs, last xs := a)\<rparr>"
  shows "CDL_APPEND (hd xs) a m = Inr (hd xs, m')" "CDL_PREPEND (hd xs) a m = Inr (a, m')" "ring m' (xs @ [a])" "elt_at m' = elt_at m"
proof -
  note h = ring_head [OF assms(1)]
  have "hd xs \<noteq> a" using assms(1,2) hd_in_set [of xs] by (auto simp: ring_def)
  then show "CDL_APPEND (hd xs) a m = Inr (hd xs, m')" "CDL_PREPEND (hd xs) a m = Inr (a, m')"
    using h assms(3,4) by (simp_all add: CDL_APPEND_def CDL_PREPEND_def elt_read m'_def)
  show "ring m' (xs @ [a])" by (rule ring_add [OF assms(1-4)]) (simp_all add: m'_def)
qed (simp add: m'_def)

lemma CDL_single: "a \<noteq> NULL \<Longrightarrow> elt_at m a \<Longrightarrow> ring (m\<lparr>prv := (prv m)(a := a), nxt := (nxt m)(a := a)\<rparr>) [a]"
  by (simp add: ring_def)

lemma CDL_APPEND_ok:
  assumes "rep CDL m head xs" "a \<notin> set xs" "a \<noteq> NULL" "elt_at m a"
  shows "becomes CDL m (CDL_APPEND head a m) (xs @ [a])"
proof (cases "xs = []")
  case True
  then show ?thesis using assms CDL_single [OF assms(3,4)] by (simp add: becomes_def CDL_APPEND_def rep_CDL elt_read)
next
  case False
  then show ?thesis using assms CDL_insert_code [of m xs a] by (simp add: becomes_def rep_CDL)
qed

lemma CDL_PREPEND_ok:
  assumes "rep CDL m head xs" "a \<notin> set xs" "a \<noteq> NULL" "elt_at m a"
  shows "becomes CDL m (CDL_PREPEND head a m) (a # xs)"
proof (cases "xs = []")
  case True
  then show ?thesis using assms CDL_single [OF assms(3,4)] by (simp add: becomes_def CDL_PREPEND_def rep_CDL elt_read)
next
  case False
  then show ?thesis using assms CDL_insert_code [of m xs a] ring_rotate [of _ xs "[a]"] by (simp add: becomes_def rep_CDL)
qed

lemma CDL_PREPEND_ELEM_ok:
  assumes "rep CDL m head (ys @ el # zs)" "a \<notin> set (ys @ el # zs)" "a \<noteq> NULL" "elt_at m a"
  shows "becomes CDL m (CDL_PREPEND_ELEM head el a m) (ys @ a # el # zs)"
proof -
  have r: "ring m (ys @ el # zs)" "head = hd (ys @ el # zs)" using assms(1) by (auto simp: rep_CDL)
  have r': "ring m (el # zs @ ys)" using ring_rotate [OF r(1)] by simp
  define m' where "m' = m\<lparr>prv := (prv m)(a := last (el # zs @ ys), el := a), nxt := (nxt m)(a := el, last (el # zs @ ys) := a)\<rparr>"
  have "ring m' ((el # zs @ ys) @ [a])"
    using assms(2-4) by (intro ring_add [OF r']) (auto simp: m'_def)
  then have "ring m' (ys @ a # el # zs)" using ring_rotate [of m' "el # zs" "ys @ [a]"] by simp
  moreover note h = ring_head [OF r']
  have "head \<noteq> NULL" using ring_head [OF r(1)] r(2) by simp
  moreover have "el \<noteq> a" using assms(2) by simp
  moreover have "head = el \<longleftrightarrow> ys = []" using r by (cases ys) (auto simp: ring_def)
  ultimately show ?thesis using h assms(3,4) r(2)
    by (cases "ys = []"; cases "zs = []") (simp_all add: becomes_def CDL_PREPEND_ELEM_def elt_read assert_def rep_CDL m'_def)
qed

lemma CDL_APPEND_ELEM_ok:
  assumes "rep CDL m head (ys @ zs)" "ys \<noteq> []" "a \<notin> set (ys @ zs)" "a \<noteq> NULL" "elt_at m a"
  shows "becomes CDL m (CDL_APPEND_ELEM head (last ys) a m) (ys @ a # zs)"
proof -
  have r: "ring m (ys @ zs)" "head = hd (ys @ zs)" using assms(1,2) by (auto simp: rep_CDL)
  have r': "ring m (zs @ ys)" using ring_rotate [OF r(1)] .
  let ?h = "hd (zs @ ys)" and ?l = "last ys"
  define m' where "m' = m\<lparr>nxt := (nxt m)(a := ?h, ?l := a), prv := (prv m)(a := ?l, ?h := a)\<rparr>"
  have l: "last (zs @ ys) = ?l" using assms(2) by simp
  have "ring m' ((zs @ ys) @ [a])"
    using assms(2-5) by (intro ring_add [OF r']) (auto simp: m'_def)
  then have "ring m' (ys @ a # zs)" using ring_rotate [of m' zs "ys @ [a]"] by simp
  moreover have "ring m ((zs @ butlast ys) @ [?l])" using r' assms(2) by simp
  note e = ring_last [OF this]
  have "(zs @ butlast ys) @ [?l] = zs @ ys" using assms(2) by simp
  then have "nxt m ?l = ?h" using e(1) by (simp only:)
  moreover have "head \<noteq> NULL" "?h \<noteq> NULL" "elt_at m ?h" using ring_head [OF r(1)] ring_head [OF r'] r(2) by simp_all
  moreover have "?h \<in> set (zs @ ys)" "?l \<in> set ys" using assms(2) hd_in_set [of "zs @ ys"] by simp_all
  then have "?h \<noteq> a" "?l \<noteq> a" using assms(3) by auto
  ultimately show ?thesis using e(3,4) assms(2,4,5) r(2)
    by (simp add: becomes_def CDL_APPEND_ELEM_def elt_read assert_def rep_CDL m'_def)
qed

lemma CDL_INSERT_INORDER_ok:
  assumes "rep CDL m head xs" "a \<notin> set xs" "a \<noteq> NULL" "elt_at m a" "length xs \<le> fuel" "orders cmp key"
  shows "becomes CDL m (CDL_INSERT_INORDER fuel cmp head a m) (insort_key key a xs)"
proof (cases "xs = []")
  case True
  then show ?thesis using assms by (simp add: becomes_def CDL_INSERT_INORDER_def rep_CDL ring_def elt_read)
next
  case False
  have r: "ring m xs" "head = hd xs" using assms(1) False by (auto simp: rep_CDL)
  have s: "seg True (nxt m) (prv m) (last xs) head xs head" "\<forall>a\<in>set xs. elt_at m a" "head \<noteq> NULL"
    using r ring_head [OF r(1)] by (auto simp: ring_def)
  show ?thesis
  proof (cases "0 \<le> cmp head a")
    case True
    then have "insort_key key a xs = a # xs" using False assms(6) r(2) by (cases xs) (auto simp: orders_def)
    then show ?thesis using CDL_PREPEND_ok [OF assms(1-4)] True s
      by (simp add: CDL_INSERT_INORDER_def CDL_LOWER_BOUND_def CDL_APPEND_ELEM_def)
  next
    case less: False
    have "head \<notin> set (tl xs)" using r by (cases xs) (auto simp: ring_def)
    then obtain ys zs where y: "xs = ys @ zs" "ys \<noteq> []" "bound_loop fuel cmp head a m head = Inr (last ys)"
      "\<forall>y\<in>set (tl ys). \<not> 0 \<le> cmp y a" "zs = [] \<or> 0 \<le> cmp (hd zs) a"
      using bound_loop_ok [OF s(1) False _ s(2) assms(5), of cmp a] by auto
    have "insort_key key a xs = ys @ a # zs" using bound_insort [OF assms(6) y(1,2) _ y(4,5)] less r(2) by simp
    then show ?thesis using CDL_APPEND_ELEM_ok [of m head ys zs a] assms(1-4) y less s
      by (simp add: CDL_INSERT_INORDER_def CDL_LOWER_BOUND_def)
  qed
qed

lemma CDL_DELETE_ok:
  assumes "rep CDL m head (ys @ a # zs)"
  shows "becomes CDL m (CDL_DELETE head a m) (ys @ zs)"
proof -
  have r: "ring m (ys @ a # zs)" "head = hd (ys @ a # zs)" using assms by (auto simp: rep_CDL)
  have r': "ring m ((zs @ ys) @ [a])" using ring_rotate [of m "ys @ [a]" zs] r(1) by simp
  note e = ring_last [OF r']
  have head: "head = a \<longleftrightarrow> ys = []" using r by (cases ys) (auto simp: ring_def)
  show ?thesis
  proof (cases "ys @ zs = []")
    case True
    then show ?thesis using e r(2) by (simp add: becomes_def CDL_DELETE_def elt_read rep_CDL)
  next
    case False
    let ?h = "hd (zs @ ys)" and ?l = "last (zs @ ys)"
    define m' where "m' = m\<lparr>prv := (prv m)(?h := ?l), nxt := (nxt m)(?l := ?h)\<rparr>"
    have "ring m' (zs @ ys)" using False by (intro ring_drop [OF r']) (auto simp: m'_def)
    then have "ring m' (ys @ zs)" by (rule ring_rotate)
    have hl: "?h \<in> set (zs @ ys)" "?l \<in> set (zs @ ys)" using False by (auto intro: hd_in_set last_in_set simp del: set_append)
    then have ne: "?h \<noteq> a" "?l \<noteq> a" using r(1) by (auto simp: ring_def)
    have n: "nxt m a = ?h" "prv m a = ?l" using e(1,2) False by (auto simp: hd_append)
    have h: "?h \<noteq> NULL" "elt_at m ?h" "?l \<noteq> NULL" "elt_at m ?l" using ring_elt [OF r'] hl by auto
    have only: "head = a \<Longrightarrow> nxt m head \<noteq> head" using n ne by simp
    have "CDL_DELETE head a m = Inr (hd (ys @ zs), m')"
    proof (cases "head = a")
      case True
      then show ?thesis using n e h ne only head False by (simp add: CDL_DELETE_def elt_read m'_def)
    next
      case ys: False
      then show ?thesis using n e h ne head False r(2) by (simp add: CDL_DELETE_def elt_read m'_def)
    qed
    moreover have "rep CDL m' (hd (ys @ zs)) (ys @ zs)" unfolding rep_CDL if_not_P [OF False] using \<open>ring m' (ys @ zs)\<close> by simp
    ultimately show ?thesis by (simp add: becomes_def m'_def)
  qed
qed

lemma CDL_REPLACE_ELEM_ok:
  assumes "rep CDL m head (ys @ el # zs)" "a \<notin> set (ys @ el # zs)" "a \<noteq> NULL" "elt_at m a"
  shows "becomes CDL m (CDL_REPLACE_ELEM head el a m) (ys @ a # zs)"
proof -
  have r: "ring m (ys @ el # zs)" "head = hd (ys @ el # zs)" using assms by (auto simp: rep_CDL)
  have r': "ring m ((zs @ ys) @ [el])" using ring_rotate [of m "ys @ [el]" zs] r(1) by simp
  note e = ring_last [OF r']
  have head: "head = el \<longleftrightarrow> ys = []" "head \<noteq> NULL" using r ring_head [OF r(1)] by (cases ys; auto simp: ring_def)+
  show ?thesis
  proof (cases "ys @ zs = []")
    case True
    then show ?thesis using e assms(3,4) r(2) head(2)
      by (simp add: becomes_def CDL_REPLACE_ELEM_def elt_read assert_def rep_CDL ring_def)
  next
    case False
    let ?h = "hd (zs @ ys)" and ?l = "last (zs @ ys)"
    define m' where "m' = m\<lparr>nxt := (nxt m)(a := ?h, ?l := a), prv := (prv m)(a := ?l, ?h := a)\<rparr>"
    have "ring m' ((zs @ ys) @ [a])" using False assms(2-4) by (intro ring_swap [OF r']) (auto simp: m'_def)
    then have ring: "ring m' (ys @ a # zs)" using ring_rotate [of m' zs "ys @ [a]"] by simp
    have hl: "?h \<in> set (zs @ ys)" "?l \<in> set (zs @ ys)" using False by (auto intro: hd_in_set last_in_set simp del: set_append)
    then have ne: "?h \<noteq> a" "?l \<noteq> a" "?h \<noteq> el" "a \<noteq> el" using r(1) assms(2) by (auto simp: ring_def)
    have n: "nxt m el = ?h" "prv m el = ?l" using e(1,2) False by (auto simp: hd_append)
    have h: "?h \<noteq> NULL" "elt_at m ?h" "?l \<noteq> NULL" "elt_at m ?l" using ring_elt [OF r'] hl by auto
    have "CDL_REPLACE_ELEM head el a m = Inr (hd (ys @ a # zs), m')"
      using n e h ne head r(2) assms(3,4)
      by (cases "ys = []") (simp_all add: CDL_REPLACE_ELEM_def elt_read assert_def m'_def)
    then show ?thesis using ring by (simp add: becomes_def rep_CDL m'_def)
  qed
qed

lemma CDL_CONCAT_ok:
  assumes "rep CDL m head1 xs" "rep CDL m head2 ys" "set xs \<inter> set ys = {}"
  shows "becomes CDL m (CDL_CONCAT head1 head2 m) (xs @ ys)"
proof (cases "xs = [] \<or> ys = []")
  case True
  then show ?thesis using assms rep_NULL [OF assms(1)] rep_NULL [OF assms(2)]
    by (auto simp: becomes_def CDL_CONCAT_def)
next
  case False
  then have ne: "xs \<noteq> []" "ys \<noteq> []" by auto
  have x: "ring m xs" "head1 = hd xs" and y: "ring m ys" "head2 = hd ys" using assms(1,2) ne by (auto simp: rep_CDL)
  note h1 = ring_head [OF x(1)] and h2 = ring_head [OF y(1)]
  have sx: "distinct xs" "seg True (nxt m) (prv m) (last xs) (hd xs) xs (hd xs)" and sy: "distinct ys" "seg True (nxt m) (prv m) (last ys) (hd ys) ys (hd ys)"
    using x(1) y(1) by (auto simp: ring_def)
  have "hd xs \<in> set xs" "last xs \<in> set xs" "hd ys \<in> set ys" "last ys \<in> set ys" using ne by simp_all
  then have out: "hd xs \<notin> set ys" "last xs \<notin> set ys" "hd ys \<notin> set xs" "last ys \<notin> set xs" "hd xs \<noteq> hd ys" "last xs \<noteq> last ys"
    using assms(3) by auto
  define m' where "m' = m\<lparr>prv := (prv m)(hd xs := last ys, hd ys := last xs), nxt := (nxt m)(last ys := hd xs, last xs := hd ys)\<rparr>"
  have "seg True ((nxt m)(last ys := hd xs, last xs := hd ys)) (prv m) (last xs) (hd xs) xs (hd ys)"
    using sx out by (intro seg_set_end [OF _ sx(1) ne(1) refl]) simp
  then have "seg True ((nxt m)(last ys := hd xs, last xs := hd ys)) ((prv m)(hd xs := last ys)) (last ys) (hd xs) xs (hd ys)"
    by (rule seg_set_start [OF _ sx(1) ne(1) refl])
  moreover have "seg True ((nxt m)(last ys := hd xs)) (prv m) (last ys) (hd ys) ys (hd xs)" by (rule seg_set_end [OF sy(2,1) ne(2) refl])
  then have "seg True ((nxt m)(last ys := hd xs)) ((prv m)(hd xs := last ys)) (last ys) (hd ys) ys (hd xs)" using out by simp
  then have "seg True ((nxt m)(last ys := hd xs)) ((prv m)(hd xs := last ys, hd ys := last xs)) (last xs) (hd ys) ys (hd xs)"
    by (rule seg_set_start [OF _ sy(1) ne(2) refl])
  ultimately have "ring m' (xs @ ys)" using x(1) y(1) out ne assms(3) by (auto simp: ring_def seg_append m'_def)
  moreover have "CDL_CONCAT head1 head2 m = Inr (head1, m')" using x y h1 h2 out by (simp add: CDL_CONCAT_def elt_read m'_def)
  ultimately show ?thesis using x ne by (simp add: becomes_def rep_CDL m'_def)
qed

section \<open>Reversal\<close>

lemma CDL_REVERSE_loop_ok:
  assumes "seg False (nxt m) P q cur xs head" "xs \<noteq> []" "head \<notin> set (tl xs)" "distinct xs" "\<forall>a\<in>set xs. elt_at m a" "length xs \<le> fuel"
  shows "CDL_REVERSE_loop fuel head cur m = Inr (swapped (set xs) m)"
  using assms
proof (induction fuel arbitrary: q cur xs m)
  case (Suc fuel)
  then obtain a xs' where xs: "xs = a # xs'" by (cases xs) auto
  define m1 where "m1 = m\<lparr>prv := (prv m)(a := nxt m a), nxt := (nxt m)(a := prv m a)\<rparr>"
  have a: "cur = a" "a \<noteq> NULL" "elt_at m a" "seg False (nxt m) P a (nxt m a) xs' head" "a \<notin> set xs'" using Suc.prems xs by auto
  have s1: "seg False (nxt m1) P a (nxt m a) xs' head" using a(4,5) by (simp add: m1_def)
  have sw: "swapped (set xs') m1 = swapped (set xs) m" unfolding m1_def using swapped_insert [OF a(5)] xs by simp
  show ?case
  proof (cases "xs' = []")
    case True
    then have "nxt m a = head" "swapped {} m1 = m1" using a(4) by (simp_all add: swapped_def)
    then show ?thesis using a(1-3) True sw by (simp add: elt_read m1_def)
  next
    case False
    then have "nxt m a \<noteq> head" using seg_start [OF a(4)] Suc.prems(3) xs by auto
    moreover have "CDL_REVERSE_loop fuel head (nxt m a) m1 = Inr (swapped (set xs') m1)"
      using Suc.prems xs False by (intro Suc.IH [OF s1 False]) (auto simp: m1_def dest: list.set_sel(2))
    ultimately show ?thesis using a(1-3) sw by (simp add: elt_read m1_def)
  qed
qed simp

lemma CDL_REVERSE_ok:
  assumes "rep CDL m head xs" "length xs \<le> fuel"
  shows "becomes CDL m (CDL_REVERSE fuel head m) (rev xs)"
proof (cases "xs = []")
  case True
  then show ?thesis using assms by (simp add: becomes_def CDL_REVERSE_def rep_CDL)
next
  case False
  have r: "ring m xs" "head = hd xs" using assms(1) False by (auto simp: rep_CDL)
  have s: "distinct xs" "\<forall>a\<in>set xs. elt_at m a" "seg True (nxt m) (prv m) (last xs) (hd xs) xs (hd xs)" using r(1) by (auto simp: ring_def)
  define m1 where "m1 = swapped (set xs) m"
  have "seg False (nxt m) (prv m) NULL head xs head" unfolding r(2) by (rule seg_forget [OF s(3)])
  moreover have "head \<notin> set (tl xs)" using s(1) r(2) False by (cases xs) auto
  ultimately have loop: "CDL_REVERSE_loop fuel head head m = Inr m1"
    unfolding m1_def using False s assms(2) by (intro CDL_REVERSE_loop_ok) auto
  have "hd xs \<in> set xs" using False by simp
  then have n: "nxt m1 head = last xs" using ring_head [OF r(1)] r(2) by (simp add: m1_def swapped_def)
  have "seg True (prv m) (nxt m) (hd xs) (last xs) (rev xs) (last xs)" using seg_rev [OF s(3)] False by simp
  then have "ring m1 (rev xs)" using s False by (simp add: ring_def m1_def swapped_def seg_swap hd_rev last_rev)
  moreover have "nxt m head \<noteq> NULL"
  proof -
    obtain x xs' where xs: "xs = x # xs'" using False by (cases xs) auto
    then have "nxt m x = hd (xs' @ [x])" using ring_last(1) [of m xs' x] ring_rotate [of m "[x]" xs'] r(1) by simp
    moreover have "hd (xs' @ [x]) \<in> set xs" using xs by (cases xs') auto
    ultimately show ?thesis using r xs ring_elt [OF r(1)] by simp
  qed
  ultimately show ?thesis using loop n False r ring_head [OF r(1)]
    by (simp add: becomes_def CDL_REVERSE_def elt_read rep_CDL hd_rev m1_def swapped_def)
qed

end
