(* ===== verification/Utlist_Props.thy ===== *)
theory Utlist_Props
  imports Utlist_CDL
begin

text \<open>
  The lists as an interface: \<open>list_machine\<close> is what a kind of list promises, any run of operations on it refines the same run
  on a plain list of elements, and the three kinds meet it. Then what the macros that only read return.
\<close>

section \<open>Operations and runs\<close>

datatype list_op = Prepend addr | Append addr | Delete addr | Before addr addr | After addr addr | Replace addr addr
  | Inorder addr | Reverse | Sort

text \<open>The call that each operation is, for each kind.\<close>

fun list_step :: "list_kind \<Rightarrow> nat \<Rightarrow> (addr \<Rightarrow> addr \<Rightarrow> int) \<Rightarrow> list_op \<Rightarrow> addr \<Rightarrow> links \<Rightarrow> (addr \<times> links) res" where
  "list_step LL fuel cmp op head m = (case op of Prepend a \<Rightarrow> LL_PREPEND head a m | Append a \<Rightarrow> LL_APPEND fuel head a m
    | Delete a \<Rightarrow> LL_DELETE fuel head a m | Before el a \<Rightarrow> LL_PREPEND_ELEM fuel head el a m | After el a \<Rightarrow> LL_APPEND_ELEM head el a m
    | Replace el a \<Rightarrow> LL_REPLACE_ELEM fuel head el a m | Inorder a \<Rightarrow> LL_INSERT_INORDER fuel cmp head a m
    | Reverse \<Rightarrow> LL_REVERSE fuel head m | Sort \<Rightarrow> LL_SORT fuel cmp head m)"
| "list_step DL fuel cmp op head m = (case op of Prepend a \<Rightarrow> DL_PREPEND head a m | Append a \<Rightarrow> DL_APPEND head a m
    | Delete a \<Rightarrow> DL_DELETE head a m | Before el a \<Rightarrow> DL_PREPEND_ELEM head el a m | After el a \<Rightarrow> DL_APPEND_ELEM head el a m
    | Replace el a \<Rightarrow> DL_REPLACE_ELEM head el a m | Inorder a \<Rightarrow> DL_INSERT_INORDER fuel cmp head a m
    | Reverse \<Rightarrow> DL_REVERSE fuel head m | Sort \<Rightarrow> DL_SORT fuel cmp head m)"
| "list_step CDL fuel cmp op head m = (case op of Prepend a \<Rightarrow> CDL_PREPEND head a m | Append a \<Rightarrow> CDL_APPEND head a m
    | Delete a \<Rightarrow> CDL_DELETE head a m | Before el a \<Rightarrow> CDL_PREPEND_ELEM head el a m | After el a \<Rightarrow> CDL_APPEND_ELEM head el a m
    | Replace el a \<Rightarrow> CDL_REPLACE_ELEM head el a m | Inorder a \<Rightarrow> CDL_INSERT_INORDER fuel cmp head a m
    | Reverse \<Rightarrow> CDL_REVERSE fuel head m | Sort \<Rightarrow> CDL_SORT fuel cmp head m)"

text \<open>The same operation on the elements, and when it may be called: a new element is not on the list, and an element to
  work at is on it (or \<open>NULL\<close>, for the other end, in the two macros that allow it).\<close>

fun apply_op :: "(addr \<Rightarrow> 'k :: linorder) \<Rightarrow> list_op \<Rightarrow> addr list \<Rightarrow> addr list" where
  "apply_op key (Prepend a) xs = a # xs"
| "apply_op key (Append a) xs = xs @ [a]"
| "apply_op key (Delete a) xs = remove1 a xs"
| "apply_op key (Before el a) xs = (if el = NULL then xs @ [a] else insert_before el a xs)"
| "apply_op key (After el a) xs = (if el = NULL then a # xs else insert_after el a xs)"
| "apply_op key (Replace el a) xs = replace el a xs"
| "apply_op key (Inorder a) xs = insort_key key a xs"
| "apply_op key Reverse xs = rev xs"
| "apply_op key Sort xs = sort_key key xs"

definition fresh :: "(addr \<Rightarrow> bool) \<Rightarrow> addr list \<Rightarrow> addr \<Rightarrow> bool" where
  "fresh alloc xs a \<longleftrightarrow> a \<noteq> NULL \<and> alloc a \<and> a \<notin> set xs"

fun may_apply :: "(addr \<Rightarrow> bool) \<Rightarrow> list_op \<Rightarrow> addr list \<Rightarrow> bool" where
  "may_apply alloc (Delete a) xs \<longleftrightarrow> a \<in> set xs"
| "may_apply alloc (Prepend a) xs \<longleftrightarrow> fresh alloc xs a"
| "may_apply alloc (Append a) xs \<longleftrightarrow> fresh alloc xs a"
| "may_apply alloc (Inorder a) xs \<longleftrightarrow> fresh alloc xs a"
| "may_apply alloc (Before el a) xs \<longleftrightarrow> fresh alloc xs a \<and> (el = NULL \<or> el \<in> set xs)"
| "may_apply alloc (After el a) xs \<longleftrightarrow> fresh alloc xs a \<and> (el = NULL \<or> el \<in> set xs)"
| "may_apply alloc (Replace el a) xs \<longleftrightarrow> fresh alloc xs a \<and> el \<in> set xs"
| "may_apply alloc Reverse xs \<longleftrightarrow> True"
| "may_apply alloc Sort xs \<longleftrightarrow> True"

fun run_ops :: "(list_op \<Rightarrow> addr \<Rightarrow> links \<Rightarrow> (addr \<times> links) res) \<Rightarrow> list_op list \<Rightarrow> addr \<Rightarrow> links \<Rightarrow> (addr \<times> links) res" where
  "run_ops step [] head m = Inr (head, m)"
| "run_ops step (op # ops) head m = and_then (step op head m) (\<lambda>(head, m). run_ops step ops head m)"

fun may_run :: "(addr \<Rightarrow> bool) \<Rightarrow> (addr \<Rightarrow> 'k :: linorder) \<Rightarrow> list_op list \<Rightarrow> addr list \<Rightarrow> bool" where
  "may_run alloc key [] xs \<longleftrightarrow> True"
| "may_run alloc key (op # ops) xs \<longleftrightarrow> may_apply alloc op xs \<and> may_run alloc key ops (apply_op key op xs)"

lemma length_at [simp]:
  "length (insert_before el a xs) = Suc (length xs)" "length (insert_after el a xs) = Suc (length xs)" "length (replace el a xs) = length xs"
  by (induction xs) auto

lemma length_apply_op: "length (apply_op key op xs) \<le> Suc (length xs)"
  by (cases op) (auto simp: length_remove1)

section \<open>The interface\<close>

text \<open>The laws are about a list that is already split at the element in question.\<close>

locale list_machine =
  fixes k :: list_kind
    and step :: "nat \<Rightarrow> list_op \<Rightarrow> addr \<Rightarrow> links \<Rightarrow> (addr \<times> links) res"
    and key :: "addr \<Rightarrow> 'k :: linorder"
  assumes prepend: "rep k m head xs \<Longrightarrow> fresh (elt_at m) xs a \<Longrightarrow> becomes k m (step fuel (Prepend a) head m) (a # xs)"
    and append: "rep k m head xs \<Longrightarrow> fresh (elt_at m) xs a \<Longrightarrow> length xs \<le> fuel \<Longrightarrow>
      becomes k m (step fuel (Append a) head m) (xs @ [a])"
    and delete: "rep k m head (ys @ a # zs) \<Longrightarrow> length ys \<le> fuel \<Longrightarrow> becomes k m (step fuel (Delete a) head m) (ys @ zs)"
    and before_end: "step fuel (Before NULL a) head m = step fuel (Append a) head m"
    and before: "rep k m head (ys @ el # zs) \<Longrightarrow> fresh (elt_at m) (ys @ el # zs) a \<Longrightarrow> length ys \<le> fuel \<Longrightarrow>
      becomes k m (step fuel (Before el a) head m) (ys @ a # el # zs)"
    and after_end: "step fuel (After NULL a) head m = step fuel (Prepend a) head m"
    and after: "rep k m head ((ys @ [el]) @ zs) \<Longrightarrow> fresh (elt_at m) ((ys @ [el]) @ zs) a \<Longrightarrow>
      becomes k m (step fuel (After el a) head m) ((ys @ [el]) @ a # zs)"
    and replaces: "rep k m head (ys @ el # zs) \<Longrightarrow> fresh (elt_at m) (ys @ el # zs) a \<Longrightarrow> length ys \<le> fuel \<Longrightarrow>
      becomes k m (step fuel (Replace el a) head m) (ys @ a # zs)"
    and inorder: "rep k m head xs \<Longrightarrow> fresh (elt_at m) xs a \<Longrightarrow> length xs \<le> fuel \<Longrightarrow>
      becomes k m (step fuel (Inorder a) head m) (insort_key key a xs)"
    and reverse: "rep k m head xs \<Longrightarrow> length xs < fuel \<Longrightarrow> becomes k m (step fuel Reverse head m) (rev xs)"
    and sorts: "rep k m head xs \<Longrightarrow> 2 * length xs < fuel \<Longrightarrow> length xs \<le> 2 ^ 30 \<Longrightarrow>
      becomes k m (step fuel Sort head m) (sort_key key xs)"
begin

lemma step_becomes:
  assumes "rep k m head xs" "may_apply (elt_at m) op xs" "2 * length xs < fuel" "length xs \<le> 2 ^ 30"
  shows "becomes k m (step fuel op head m) (apply_op key op xs)"
proof -
  have at: "becomes k m (step fuel op head m) (apply_op key op xs)"
    if el: "el \<in> set xs" and go: "\<And>ys zs. xs = ys @ el # zs \<Longrightarrow> el \<notin> set ys \<Longrightarrow> el \<noteq> NULL \<Longrightarrow> ?thesis" for el
  proof -
    obtain ys zs where "xs = ys @ el # zs" "el \<notin> set ys" using split_list_first [OF el] by auto
    then show ?thesis using rep_nonnull [OF assms(1) el] by (intro go)
  qed
  show ?thesis
  proof (cases op)
    case (Delete a)
    show ?thesis
    proof (rule at)
      fix ys zs assume "xs = ys @ a # zs" "a \<notin> set ys"
      then show ?thesis using Delete assms delete [of m head ys a zs fuel] by simp
    qed (use Delete assms(2) in simp)
  next
    case (Before el a)
    show ?thesis
    proof (cases "el = NULL")
      case False
      show ?thesis
      proof (rule at)
        fix ys zs assume "xs = ys @ el # zs" "el \<notin> set ys"
        then show ?thesis using Before False assms before [of m head ys el zs a fuel] by simp
      qed (use Before False assms(2) in simp)
    qed (use Before assms append before_end in simp)
  next
    case (After el a)
    show ?thesis
    proof (cases "el = NULL")
      case False
      show ?thesis
      proof (rule at)
        fix ys zs assume "xs = ys @ el # zs" "el \<notin> set ys"
        then show ?thesis using After False assms after [of m head ys el zs a fuel] by simp
      qed (use After False assms(2) in simp)
    qed (use After assms prepend after_end in simp)
  next
    case (Replace el a)
    show ?thesis
    proof (rule at)
      fix ys zs assume "xs = ys @ el # zs" "el \<notin> set ys"
      then show ?thesis using Replace assms replaces [of m head ys el zs a fuel] by simp
    qed (use Replace assms(2) in simp)
  qed (use assms prepend append inorder reverse sorts in simp_all)
qed

lemma run_becomes:
  "rep k m head xs \<Longrightarrow> may_run (elt_at m) key ops xs \<Longrightarrow> 2 * (length xs + length ops) < fuel \<Longrightarrow> length xs + length ops \<le> 2 ^ 30 \<Longrightarrow>
    becomes k m (run_ops (step fuel) ops head m) (fold (apply_op key) ops xs)"
proof (induction ops arbitrary: head m xs)
  case (Cons op ops)
  have "becomes k m (step fuel op head m) (apply_op key op xs)"
    using Cons.prems by (intro step_becomes) simp_all
  then obtain head1 m1 where s: "step fuel op head m = Inr (head1, m1)" "rep k m1 head1 (apply_op key op xs)" "elt_at m1 = elt_at m"
    by (auto simp: becomes_def)
  have len: "length (apply_op key op xs) + length ops \<le> length xs + Suc (length ops)" using length_apply_op [of key op xs] by simp
  have "becomes k m1 (run_ops (step fuel) ops head1 m1) (fold (apply_op key) ops (apply_op key op xs))"
  proof (rule Cons.IH [OF s(2)])
    show "2 * (length (apply_op key op xs) + length ops) < fuel" using Cons.prems(3) len by simp
    show "length (apply_op key op xs) + length ops \<le> 2 ^ 30" using Cons.prems(4) len by simp
  qed (use Cons.prems(2) s(3) in simp)
  then show ?case using s(1,3) by (simp add: becomes_def)
qed (simp add: becomes_def)

end

section \<open>The three kinds meet it\<close>

text \<open>The comparison of two addresses by a key.\<close>

definition compare_by :: "(addr \<Rightarrow> int) \<Rightarrow> addr \<Rightarrow> addr \<Rightarrow> int" where
  "compare_by key a b = (if key a < key b then - 1 else if key a = key b then 0 else 1)"

lemma orders_compare_by: "orders (compare_by key) key"
  by (simp add: orders_def compare_by_def)

lemma list_sort_becomes:
  "rep k m head xs \<Longrightarrow> 2 * length xs < fuel \<Longrightarrow> length xs \<le> 2 ^ 30 \<Longrightarrow>
    becomes k m (list_sort k fuel (compare_by key) head m) (sort_key key xs)"
  unfolding becomes_def using orders_compare_by [of key] by (intro list_sort_ok) (auto simp: orders_def)

interpretation ll: list_machine LL "\<lambda>fuel. list_step LL fuel (compare_by key)" key for key
  by unfold_locales (simp_all add: fresh_def LL_PREPEND_ok LL_APPEND_ok LL_DELETE_ok LL_PREPEND_ELEM_ok LL_REPLACE_ELEM_ok
      LL_INSERT_INORDER_ok LL_REVERSE_ok LL_SORT_def list_sort_becomes orders_compare_by LL_PREPEND_ELEM_def [of _ _ NULL]
      LL_APPEND_ELEM_def [of _ NULL] LL_APPEND_ELEM_ok [where ys = "_ @ [_]", simplified])

interpretation dl: list_machine DL "\<lambda>fuel. list_step DL fuel (compare_by key)" key for key
  by unfold_locales (simp_all add: fresh_def DL_PREPEND_ok DL_APPEND_ok DL_DELETE_ok DL_PREPEND_ELEM_ok DL_REPLACE_ELEM_ok
      DL_INSERT_INORDER_ok DL_REVERSE_ok DL_SORT_def list_sort_becomes orders_compare_by DL_PREPEND_ELEM_def [of _ NULL]
      DL_APPEND_ELEM_def [of _ NULL] DL_APPEND_ELEM_ok [where ys = "_ @ [_]", simplified])

interpretation cdl: list_machine CDL "\<lambda>fuel. list_step CDL fuel (compare_by key)" key for key
  by unfold_locales (simp_all add: fresh_def CDL_PREPEND_ok CDL_APPEND_ok CDL_DELETE_ok CDL_PREPEND_ELEM_ok CDL_REPLACE_ELEM_ok
      CDL_INSERT_INORDER_ok CDL_REVERSE_ok CDL_SORT_def list_sort_becomes orders_compare_by CDL_PREPEND_ELEM_def [of _ NULL]
      CDL_APPEND_ELEM_def [of _ NULL] CDL_APPEND_ELEM_ok [where ys = "_ @ [_]", simplified])

section \<open>What the reading macros return\<close>

lemma LL_walks:
  assumes "seg d (nxt m) P p x xs NULL" "\<forall>a\<in>set xs. elt_at m a" "length xs < fuel"
  shows "LL_FOREACH fuel m x = Inr xs" "LL_COUNT fuel m x n = Inr (n + length xs)"
    "LL_SEARCH_SCALAR fuel field val m x = Inr (case find (\<lambda>a. field a = val) xs of None \<Rightarrow> NULL | Some a \<Rightarrow> a)"
    "LL_SEARCH fuel cmp elt m x = Inr (case find (\<lambda>a. cmp a elt = 0) xs of None \<Rightarrow> NULL | Some a \<Rightarrow> a)"
  using assms
proof (induction xs arbitrary: p x fuel n)
  case (Cons a xs)
  case 1 then show ?case using Cons.IH(1) by (cases fuel) (auto simp: elt_read)
  case 2 then show ?case using Cons.IH(2) by (cases fuel) (auto simp: elt_read)
  case 3 then show ?case using Cons.IH(3) by (cases fuel) (auto simp: elt_read)
  case 4 then show ?case using Cons.IH(4) by (cases fuel) (auto simp: elt_read)
qed (auto simp: gr0_conv_Suc)

lemma CDL_walks:
  assumes "seg d (nxt m) P p x xs head" "xs \<noteq> []" "head \<notin> set (tl xs)" "\<forall>a\<in>set xs. elt_at m a" "length xs < fuel"
  shows "CDL_FOREACH fuel m head x = Inr xs" "CDL_COUNT fuel m head x n = Inr (n + length xs)"
    "CDL_SEARCH_SCALAR fuel field val m head x = Inr (case find (\<lambda>a. field a = val) xs of None \<Rightarrow> NULL | Some a \<Rightarrow> a)"
    "CDL_SEARCH fuel cmp elt m head x = Inr (case find (\<lambda>a. cmp a elt = 0) xs of None \<Rightarrow> NULL | Some a \<Rightarrow> a)"
proof -
  have "CDL_FOREACH fuel m head x = Inr xs \<and> CDL_COUNT fuel m head x n = Inr (n + length xs)
    \<and> CDL_SEARCH_SCALAR fuel field val m head x = Inr (case find (\<lambda>a. field a = val) xs of None \<Rightarrow> NULL | Some a \<Rightarrow> a)
    \<and> CDL_SEARCH fuel cmp elt m head x = Inr (case find (\<lambda>a. cmp a elt = 0) xs of None \<Rightarrow> NULL | Some a \<Rightarrow> a)"
    using assms
  proof (induction xs arbitrary: p x fuel n)
    case (Cons a xs)
    then obtain f where f: "fuel = Suc f" by (cases fuel) auto
    have a: "x = a" "a \<noteq> NULL" "elt_at m a" "seg d (nxt m) P a (nxt m a) xs head" using Cons.prems by auto
    show ?case
    proof (cases "xs = []")
      case True
      then obtain f' where "f = Suc f'" using Cons.prems(5) f by (cases f) auto
      then show ?thesis using a f True by (simp add: elt_read)
    next
      case False
      then have "nxt m a \<noteq> head" using seg_start [OF a(4)] Cons.prems(3) by auto
      moreover have "head \<notin> set (tl xs)" using Cons.prems(3) False by (auto dest: list.set_sel(2))
      ultimately show ?thesis using a f Cons.IH [OF a(4) False, of f] Cons.prems(4,5) by (simp add: elt_read)
    qed
  qed simp
  then show "CDL_FOREACH fuel m head x = Inr xs" "CDL_COUNT fuel m head x n = Inr (n + length xs)"
    "CDL_SEARCH_SCALAR fuel field val m head x = Inr (case find (\<lambda>a. field a = val) xs of None \<Rightarrow> NULL | Some a \<Rightarrow> a)"
    "CDL_SEARCH fuel cmp elt m head x = Inr (case find (\<lambda>a. cmp a elt = 0) xs of None \<Rightarrow> NULL | Some a \<Rightarrow> a)" by auto
qed

definition list_foreach :: "list_kind \<Rightarrow> nat \<Rightarrow> links \<Rightarrow> addr \<Rightarrow> addr list res" where
  "list_foreach k fuel m head = (case k of LL \<Rightarrow> LL_FOREACH fuel m head | DL \<Rightarrow> DL_FOREACH fuel m head | CDL \<Rightarrow> CDL_FOREACH fuel m head head)"

definition list_count :: "list_kind \<Rightarrow> nat \<Rightarrow> links \<Rightarrow> addr \<Rightarrow> nat res" where
  "list_count k fuel m head = (case k of LL \<Rightarrow> LL_COUNT fuel m head 0 | DL \<Rightarrow> DL_COUNT fuel m head 0 | CDL \<Rightarrow> CDL_COUNT fuel m head head 0)"

definition list_search :: "list_kind \<Rightarrow> nat \<Rightarrow> (addr \<Rightarrow> addr \<Rightarrow> int) \<Rightarrow> addr \<Rightarrow> links \<Rightarrow> addr \<Rightarrow> addr res" where
  "list_search k fuel cmp elt m head = (case k of LL \<Rightarrow> LL_SEARCH fuel cmp elt m head | DL \<Rightarrow> DL_SEARCH fuel cmp elt m head
     | CDL \<Rightarrow> CDL_SEARCH fuel cmp elt m head head)"

lemma rep_ring_seg:
  "rep CDL m head xs \<Longrightarrow> xs \<noteq> [] \<Longrightarrow> seg True (nxt m) (prv m) (last xs) head xs head \<and> head \<notin> set (tl xs) \<and> (\<forall>a\<in>set xs. elt_at m a)"
  by (cases xs) (auto simp: rep_CDL ring_def)

lemma list_reads_ok:
  assumes "rep k m head xs" "length xs < fuel"
  shows "list_foreach k fuel m head = Inr xs" "list_count k fuel m head = Inr (length xs)"
    "list_search k fuel cmp elt m head = Inr (case find (\<lambda>a. cmp a elt = 0) xs of None \<Rightarrow> NULL | Some a \<Rightarrow> a)"
proof -
  have "list_foreach k fuel m head = Inr xs \<and> list_count k fuel m head = Inr (length xs)
    \<and> list_search k fuel cmp elt m head = Inr (case find (\<lambda>a. cmp a elt = 0) xs of None \<Rightarrow> NULL | Some a \<Rightarrow> a)"
  proof (cases k)
    case LL
    then show ?thesis using assms LL_walks [of False m "prv m" NULL head xs fuel]
      by (simp add: rep_LL list_foreach_def list_count_def list_search_def)
  next
    case DL
    have "\<exists>p. seg True (nxt m) (prv m) p head xs NULL" using assms(1) DL by (auto simp: rep_DL split: if_splits)
    then obtain p where "seg True (nxt m) (prv m) p head xs NULL" ..
    note walks = LL_walks [OF this _ assms(2)]
    show ?thesis using assms(1) DL walks
      by (simp add: rep_DL list_foreach_def list_count_def list_search_def DL_FOREACH_def DL_COUNT_def DL_SEARCH_def)
  next
    case CDL
    show ?thesis
    proof (cases "xs = []")
      case True
      then have "head = NULL" "\<exists>f. fuel = Suc f" using assms CDL by (auto simp: rep_CDL gr0_conv_Suc)
      then show ?thesis using True CDL by (auto simp: list_foreach_def list_count_def list_search_def)
    next
      case False
      have "rep CDL m head xs" using assms(1) CDL by simp
      note s = rep_ring_seg [OF this False]
      show ?thesis using CDL_walks [OF conjunct1 [OF s] False, of fuel] s assms(2) CDL
        by (simp add: list_foreach_def list_count_def list_search_def)
    qed
  qed
  then show "list_foreach k fuel m head = Inr xs" "list_count k fuel m head = Inr (length xs)"
    "list_search k fuel cmp elt m head = Inr (case find (\<lambda>a. cmp a elt = 0) xs of None \<Rightarrow> NULL | Some a \<Rightarrow> a)" by auto
qed

section \<open>Freeing the elements in a walk\<close>

definition free_elt :: "addr \<Rightarrow> links \<Rightarrow> links res" where
  "free_elt a m = at_elt m a (m\<lparr>elt_at := (elt_at m)(a := False)\<rparr>)"

lemma free_elt: "elt_at m a \<Longrightarrow> a \<noteq> NULL \<Longrightarrow> free_elt a m = Inr (m\<lparr>elt_at := (elt_at m)(a := False)\<rparr>)"
  by (simp add: free_elt_def at_elt_def)

definition list_foreach_safe :: "list_kind \<Rightarrow> nat \<Rightarrow> (addr \<Rightarrow> links \<Rightarrow> links res) \<Rightarrow> addr \<Rightarrow> links \<Rightarrow> links res" where
  "list_foreach_safe k fuel body head m = (case k of LL \<Rightarrow> LL_FOREACH_SAFE fuel body head m | DL \<Rightarrow> DL_FOREACH_SAFE fuel body head m
     | CDL \<Rightarrow> CDL_FOREACH_SAFE fuel body head m)"

definition without :: "addr set \<Rightarrow> links \<Rightarrow> links" where
  "without A m = m\<lparr>elt_at := (\<lambda>a. elt_at m a \<and> a \<notin> A)\<rparr>"

lemma without_none: "without {} m = m"
  by (simp add: without_def)

lemma without_step: "without A (m\<lparr>elt_at := (elt_at m)(a := False)\<rparr>) = without (insert a A) m"
  by (auto simp: without_def fun_eq_iff)

lemma rep_distinct: "rep k m head xs \<Longrightarrow> distinct xs"
  by (simp add: rep_def)

lemma LL_FOREACH_SAFE_frees:
  assumes "seg d (nxt m) P p x xs NULL" "\<forall>a\<in>set xs. elt_at m a" "distinct xs" "length xs < fuel"
  shows "LL_FOREACH_SAFE fuel free_elt x m = Inr (without (set xs) m)"
  using assms
proof (induction xs arbitrary: p x fuel m)
  case Nil
  then show ?case by (cases fuel) (auto simp: without_def)
next
  case (Cons a xs)
  then obtain f where f: "fuel = Suc f" by (cases fuel) auto
  let ?m = "m\<lparr>elt_at := (elt_at m)(a := False)\<rparr>"
  have "LL_FOREACH_SAFE f free_elt (nxt m a) ?m = Inr (without (set xs) ?m)" using Cons.prems f by (intro Cons.IH) auto
  then show ?case using Cons.prems f by (auto simp: elt_read free_elt without_step)
qed

lemma CDL_FOREACH_SAFE_frees:
  assumes "seg d (nxt m) P p x xs e" "xs \<noteq> []" "\<forall>a\<in>set xs. elt_at m a" "distinct xs" "length xs < fuel" "t = last xs"
  shows "CDL_FOREACH_SAFE_loop fuel free_elt t x m = Inr (without (set xs) m)"
  using assms
proof (induction xs arbitrary: p x fuel m)
  case (Cons a xs)
  then obtain f where f: "fuel = Suc f" by (cases fuel) auto
  let ?m = "m\<lparr>elt_at := (elt_at m)(a := False)\<rparr>"
  have a: "x = a" "a \<noteq> NULL" "elt_at m a" "seg d (nxt m) P a (nxt m a) xs e" using Cons.prems by auto
  show ?case
  proof (cases "xs = []")
    case True
    then obtain f' where "f = Suc f'" using Cons.prems(5) f by (cases f) auto
    then show ?thesis using a f True Cons.prems(6) without_step [of "{}" m a] without_none [of ?m]
      by (simp add: elt_read free_elt)
  next
    case False
    have "t \<in> set xs" using Cons.prems(6) False by simp
    then have "a \<noteq> t" using Cons.prems(4) by auto
    moreover have "CDL_FOREACH_SAFE_loop f free_elt t (nxt m a) ?m = Inr (without (set xs) ?m)"
      using Cons.prems f False by (intro Cons.IH) auto
    ultimately show ?thesis using a f by (simp add: elt_read free_elt without_step)
  qed
qed simp

lemma list_foreach_safe_ok:
  assumes "rep k m head xs" "length xs < fuel"
  shows "list_foreach_safe k fuel free_elt head m = Inr (without (set xs) m)"
proof (cases k)
  case LL
  then show ?thesis using assms LL_FOREACH_SAFE_frees [of False m "prv m" NULL head xs fuel] by (simp add: rep_LL list_foreach_safe_def)
next
  case DL
  have "\<exists>p. seg True (nxt m) (prv m) p head xs NULL" using assms(1) DL by (auto simp: rep_DL split: if_splits)
  then show ?thesis using assms DL LL_FOREACH_SAFE_frees [of True m "prv m" _ head xs fuel]
    by (auto simp: rep_DL list_foreach_safe_def DL_FOREACH_SAFE_def)
next
  case CDL
  show ?thesis
  proof (cases "xs = []")
    case True
    then have "head = NULL" "\<exists>f. fuel = Suc f" using assms CDL by (auto simp: rep_CDL gr0_conv_Suc)
    then show ?thesis using True CDL by (auto simp: list_foreach_safe_def CDL_FOREACH_SAFE_def without_def)
  next
    case False
    have r: "rep CDL m head xs" using assms(1) CDL by simp
    note s = rep_ring_seg [OF r False]
    have h: "head \<noteq> NULL" "get_prev m head = Inr (last xs)"
      using r False ring_head [of m xs] by (auto simp: rep_CDL elt_read)
    show ?thesis using CDL_FOREACH_SAFE_frees [OF conjunct1 [OF s] False, of fuel] s h assms(2) rep_distinct [OF r] CDL
      by (simp add: list_foreach_safe_def CDL_FOREACH_SAFE_def)
  qed
qed

section \<open>Properties\<close>

text \<open>C36: the list macros implement lists. On a list of any of the three kinds that holds the elements \<open>xs\<close>, any sequence of the
  macros that change a list (insertion at both ends, next to an element and in order, deletion, replacement, reversal and sorting), called
  with elements that are on the list where they must be and new ones where they must be, never faults, and the list at
  the end holds what the same operations on a plain sequence of elements give, with every back link right. The list and the run
  together have at most \<open>2 ^ 30\<close> elements (a sort counts its merges in an \<open>int\<close>), the fuel is more than twice their
  number, and the arguments of a macro are distinct variables: each is passed as a value.\<close>

theorem list_ops_refine:
  assumes "rep k m head xs" "may_run (elt_at m) key ops xs" "2 * (length xs + length ops) < fuel" "length xs + length ops \<le> 2 ^ 30"
  shows "becomes k m (run_ops (list_step k fuel (compare_by key)) ops head m) (fold (apply_op key) ops xs)"
  using assms ll.run_becomes [of m head xs key ops fuel] dl.run_becomes [of m head xs key ops fuel] cdl.run_becomes [of m head xs key ops fuel]
  by (cases k) simp_all

definition sample_links :: links where
  "sample_links = \<lparr>elt_at = (\<lambda>a. a \<in> {1, 2, 3, 4, 5}), nxt = (\<lambda>_. NULL), prv = (\<lambda>_. NULL)\<rparr>"

definition sample_ops :: "list_op list" where
  "sample_ops = [Append 3, Prepend 5, Before 3 4, After NULL 2, Reverse, Inorder 1, Delete 4, Sort, Replace 2 4]"

lemma list_ops_refine_witness:
  "becomes CDL sample_links (run_ops (list_step CDL 50 (compare_by int)) sample_ops NULL sample_links) [1, 4, 3, 5]"
proof -
  have "may_run (elt_at sample_links) int sample_ops []" "fold (apply_op int) sample_ops [] = [1, 4, 3, 5]"
    by (simp_all add: sample_links_def sample_ops_def fresh_def)
  then show ?thesis
    using list_ops_refine [of CDL sample_links NULL "[]" int sample_ops 50] by (simp add: rep_CDL sample_ops_def)
qed

text \<open>C37: the three sorts are stable merge sorts: for every comparison that agrees with a key, the sorted list holds exactly what the
  stable sort by that key gives, for up to \<open>2 ^ 30\<close> elements. All passes end.\<close>

theorem list_sort_stable:
  assumes "rep k m head xs" "orders cmp key" "2 * length xs < fuel" "length xs \<le> 2 ^ 30"
  shows "becomes k m ((case k of LL \<Rightarrow> LL_SORT | DL \<Rightarrow> DL_SORT | CDL \<Rightarrow> CDL_SORT) fuel cmp head m) (sort_key key xs)"
  using list_sort_ok [OF assms(1,4,3), of cmp key] assms(2)
  by (cases k) (auto simp: becomes_def orders_def LL_SORT_def DL_SORT_def CDL_SORT_def)

definition sample_list :: links where
  "sample_list = \<lparr>elt_at = (\<lambda>a. a \<in> {1, 2, 3, 4, 5}), nxt = (\<lambda>_. NULL)(5 := 2, 2 := 4, 4 := 1, 1 := 3), prv = (\<lambda>_. NULL)(5 := 3, 2 := 5, 4 := 2, 1 := 4, 3 := 1)\<rparr>"

lemma list_sort_stable_witness:
  "becomes DL sample_list (DL_SORT 20 (compare_by (\<lambda>a. int (a div 2))) 5 sample_list) [1, 2, 3, 5, 4]"
proof -
  have "rep DL sample_list 5 [5, 2, 4, 1, 3]" by (simp add: rep_DL sample_list_def)
  moreover have "sort_key (\<lambda>a. int (a div 2)) [5, 2, 4, 1, 3] = [1, 2, 3, 5, 4 :: nat]" by simp
  ultimately show ?thesis
    using list_sort_stable [of DL sample_list 5 "[5, 2, 4, 1, 3]" "compare_by (\<lambda>a. int (a div 2))" "\<lambda>a. int (a div 2)" 20]
    by (simp add: orders_compare_by)
qed

text \<open>C38: a walk with the safe loop may free each element it visits: it reads the next element first, visits every element
  and leaves none of them, and touches no freed element, in a circular list too.\<close>

theorem list_foreach_safe_frees:
  assumes "rep k m head xs" "length xs < fuel"
  shows "\<exists>m'. list_foreach_safe k fuel free_elt head m = Inr m' \<and> (\<forall>a. elt_at m' a \<longleftrightarrow> elt_at m a \<and> a \<notin> set xs)"
  using list_foreach_safe_ok [OF assms] by (simp add: without_def)

lemma list_foreach_safe_frees_witness:
  "\<exists>m'. list_foreach_safe DL 10 free_elt 5 sample_list = Inr m' \<and> (\<forall>a. elt_at m' a \<longleftrightarrow> elt_at sample_list a \<and> a \<notin> set [5, 2, 4, 1, 3])"
proof -
  have "rep DL sample_list 5 [5, 2, 4, 1, 3]" by (simp add: rep_DL sample_list_def)
  from list_foreach_safe_frees [OF this, of 10] show ?thesis by simp
qed

end
