(* ===== verification/Utstack.thy ===== *)
theory Utstack
  imports Utlist_Props
begin

text \<open>The stack of \<^verbatim>\<open>include/uthash/utstack.h\<close>: a singly linked list whose head is the top.\<close>

definition STACK_TOP :: "addr \<Rightarrow> addr" where
  "STACK_TOP head = head"

definition STACK_EMPTY :: "addr \<Rightarrow> bool" where
  "STACK_EMPTY head \<longleftrightarrow> head = NULL"

definition STACK_PUSH :: "addr \<Rightarrow> addr \<Rightarrow> links \<Rightarrow> (addr \<times> links) res" where
  "STACK_PUSH head add m = and_then (set_next add head m) (\<lambda>m. Inr (add, m))"

text \<open>The popped element and the new head.\<close>

definition STACK_POP :: "addr \<Rightarrow> links \<Rightarrow> (addr \<times> addr) res" where
  "STACK_POP head m = (let result = head in and_then (get_next m head) (\<lambda>head. Inr (result, head)))"

fun STACK_COUNT :: "nat \<Rightarrow> links \<Rightarrow> addr \<Rightarrow> nat \<Rightarrow> nat res" where
  "STACK_COUNT 0 m el counter = Inl LoopBound"
| "STACK_COUNT (Suc fuel) m el counter = (if el \<noteq> NULL then and_then (get_next m el) (\<lambda>n. STACK_COUNT fuel m n (counter + 1))
    else Inr counter)"

definition stack_of :: "links \<Rightarrow> addr \<Rightarrow> addr list \<Rightarrow> bool" where
  "stack_of m head xs \<longleftrightarrow> rep LL m head xs"

lemma STACK_PUSH_ok:
  assumes "stack_of m head xs" "fresh (elt_at m) xs a"
  shows "\<exists>m'. STACK_PUSH head a m = Inr (a, m') \<and> stack_of m' a (a # xs) \<and> elt_at m' = elt_at m"
proof -
  have "becomes LL m (LL_PREPEND head a m) (a # xs)" using assms by (intro LL_PREPEND_ok) (simp_all add: stack_of_def fresh_def)
  then show ?thesis by (auto simp: becomes_def LL_PREPEND_def STACK_PUSH_def stack_of_def res_simps)
qed

lemma STACK_POP_ok:
  assumes "stack_of m head (x # xs)"
  shows "\<exists>head'. STACK_POP head m = Inr (x, head') \<and> stack_of m head' xs"
  using assms seg_no_prev [of "nxt m" "prv m" x "nxt m x" xs NULL "prv m" NULL]
  by (auto simp: STACK_POP_def stack_of_def rep_LL elt_read Let_def)

lemma STACK_POP_empty: "stack_of m head [] \<Longrightarrow> STACK_POP head m = Inl NullDeref"
  by (simp add: STACK_POP_def stack_of_def rep_LL link_defs)

lemma STACK_COUNT_list: "STACK_COUNT fuel m el n = LL_COUNT fuel m el n"
  by (induction fuel arbitrary: el n) simp_all

lemma stack_reads:
  assumes "stack_of m head xs" "length xs < fuel"
  shows "STACK_COUNT fuel m head 0 = Inr (length xs)" "STACK_EMPTY head \<longleftrightarrow> xs = []" "xs \<noteq> [] \<Longrightarrow> STACK_TOP head = hd xs"
  using assms list_reads_ok(2) [of LL m head xs fuel] rep_NULL [of LL m head xs] rep_head [of LL m head xs]
  by (simp_all add: stack_of_def STACK_COUNT_list list_count_def STACK_EMPTY_def STACK_TOP_def)

end
