(* ===== verification/Utarray.thy ===== *)
theory Utarray
  imports Utstring
begin

text \<open>
  The dynamic arrays of \<^verbatim>\<open>include/uthash/utarray.h\<close>. A slot of the block holds one element, or nothing until it is
  written; a block is a list of slots. The functions of \<open>UT_icd\<close> are arguments of the model: what they do beyond the
  element they are given is a change of a state \<open>'w\<close>. An element passed to a macro lies outside the
  array, and two arrays are different ones.
\<close>

section \<open>Data\<close>

text \<open>\<open>icd_zero\<close> is not a field of the C struct: it is the value of an element whose bytes are all zero.\<close>

record ('e, 'w) UT_icd =
  icd_sz :: nat
  icd_init :: "('w \<Rightarrow> ('e \<times> 'w) res) option"
  icd_copy :: "('e \<Rightarrow> 'w \<Rightarrow> ('e \<times> 'w) res) option"
  icd_dtor :: "('e \<Rightarrow> 'w \<Rightarrow> 'w res) option"
  icd_zero :: 'e

record ('e, 'w) UT_array =
  arr_i :: u32
  arr_n :: u32
  arr_icd :: "('e, 'w) UT_icd"
  arr_d :: "'e option list cell option" \<comment> \<open>None for NULL\<close>

definition slots :: "('e, 'w) UT_array \<Rightarrow> 'e option list res" where
  "slots a = (case arr_d a of None \<Rightarrow> Inl NullDeref | Some c \<Rightarrow> read_cell (\<lambda>_. None) c)"

definition set_slots :: "'e option list \<Rightarrow> ('e, 'w) UT_array \<Rightarrow> ('e, 'w) UT_array" where
  "set_slots cells a = a\<lparr>arr_d := Some (Live cells)\<rparr>"

text \<open>\<open>memmove\<close> of whole slots.\<close>

definition memmove :: "nat \<Rightarrow> nat \<Rightarrow> nat \<Rightarrow> 'e option list \<Rightarrow> 'e option list res" where
  "memmove dst src n cells = (if length cells < dst + n \<or> length cells < src + n then Inl BadDeref
     else Inr (take dst cells @ take n (drop src cells) @ drop (dst + n) cells))"

section \<open>Operations\<close>

definition utarray_init :: "('e, 'w) UT_icd \<Rightarrow> ('e, 'w) UT_array" where
  "utarray_init icd = \<lparr>arr_i = 0, arr_n = 0, arr_icd = icd, arr_d = None\<rparr>"

definition utarray_len :: "('e, 'w) UT_array \<Rightarrow> u32" where
  "utarray_len a = arr_i a"

text \<open>\<open>n\<close> slots from \<open>k\<close> on are destroyed.\<close>

fun dtor_loop :: "('e \<Rightarrow> 'w \<Rightarrow> 'w res) \<Rightarrow> 'e option list \<Rightarrow> nat \<Rightarrow> nat \<Rightarrow> 'w \<Rightarrow> 'w res" where
  "dtor_loop dtor cells k 0 w = Inr w"
| "dtor_loop dtor cells k (Suc n) w = and_then (rd cells (int k)) (\<lambda>e. and_then (dtor e w) (dtor_loop dtor cells (Suc k) n))"

definition dtor_slots :: "('e, 'w) UT_array \<Rightarrow> nat \<Rightarrow> nat \<Rightarrow> 'w \<Rightarrow> 'w res" where
  "dtor_slots a k n w = (case icd_dtor (arr_icd a) of None \<Rightarrow> Inr w
     | Some dtor \<Rightarrow> if n = 0 then Inr w else and_then (slots a) (\<lambda>cells. dtor_loop dtor cells k n w))"

definition utarray_done :: "('e, 'w) UT_array \<Rightarrow> 'w \<Rightarrow> (('e, 'w) UT_array \<times> 'w) res" where
  "utarray_done a w = and_then
    (if arr_n a \<noteq> 0 then and_then (dtor_slots a 0 (unat (arr_i a)) w) (\<lambda>w.
       case arr_d a of None \<Rightarrow> Inr (a, w) | Some (Live c) \<Rightarrow> Inr (a\<lparr>arr_d := Some (Freed c)\<rparr>, w) | Some (Freed c) \<Rightarrow> Inl DoubleFree)
     else Inr (a, w)) (\<lambda>(a, w). Inr (a\<lparr>arr_n := 0\<rparr>, w))"

definition sizeof_UT_array :: nat where "sizeof_UT_array = 56"

definition utarray_new :: "oom \<Rightarrow> ('e, 'w) UT_icd \<Rightarrow> heap \<Rightarrow> (('e, 'w) UT_array \<times> heap) res" where
  "utarray_new oom icd h = (case malloc oom sizeof_UT_array h of (p, h) \<Rightarrow>
     if p = NULL then Inl OutOfMemory else Inr (utarray_init icd, h))"

text \<open>After \<open>free\<close> there is no array any more, only what the destructors did.\<close>

definition utarray_free :: "('e, 'w) UT_array \<Rightarrow> 'w \<Rightarrow> 'w res" where
  "utarray_free a w = and_then (utarray_done a w) (\<lambda>(_, w). Inr w)"

text \<open>The loop that doubles the capacity; the fuel bounds the rounds.\<close>

fun grow :: "nat \<Rightarrow> u32 \<Rightarrow> u32 \<Rightarrow> u32 res" where
  "grow 0 need n = Inl LoopBound"
| "grow (Suc fuel) need n = (if n < need then grow fuel need (if n \<noteq> 0 then 2 * n else 8) else Inr n)"

text \<open>
  The bytes of a block of \<open>n\<close> elements are computed in \<open>size_t\<close>, and the block holds as many elements as fit:
  \<open>n\<close>, unless the product wraps.
\<close>

definition block_bytes :: "u32 \<Rightarrow> nat \<Rightarrow> nat" where
  "block_bytes n sz = to_size (int (unat n * sz))"

definition block_slots :: "u32 \<Rightarrow> nat \<Rightarrow> nat" where
  "block_slots n sz = block_bytes n sz div sz"

definition utarray_reserve :: "nat \<Rightarrow> oom \<Rightarrow> u32 \<Rightarrow> ('e, 'w) UT_array \<Rightarrow> heap \<Rightarrow> (('e, 'w) UT_array \<times> heap) res" where
  "utarray_reserve fuel oom amt a h =
    (if arr_n a < arr_i a + amt
     then and_then (grow fuel (arr_i a + amt) (arr_n a)) (\<lambda>n.
       and_then (case arr_d a of None \<Rightarrow> Inr [] | Some c \<Rightarrow> read_cell (\<lambda>_. None) c) (\<lambda>cells.
       case malloc oom (block_bytes n (icd_sz (arr_icd a))) h of (p, h) \<Rightarrow>
       if p = NULL then Inl OutOfMemory
       else Inr (set_slots (resized (block_slots n (icd_sz (arr_icd a))) cells) (a\<lparr>arr_n := n\<rparr>), h)))
     else Inr (a, h))"

text \<open>Writing the copy of an element, and a fresh one, to a slot.\<close>

definition copy_to :: "('e, 'w) UT_array \<Rightarrow> nat \<Rightarrow> 'e \<Rightarrow> 'w \<Rightarrow> (('e, 'w) UT_array \<times> 'w) res" where
  "copy_to a k p w = and_then (slots a) (\<lambda>cells.
     and_then (case icd_copy (arr_icd a) of Some copy \<Rightarrow> copy p w | None \<Rightarrow> Inr (p, w)) (\<lambda>(e, w).
     and_then (wr cells (int k) e) (\<lambda>cells. Inr (set_slots cells a, w))))"

definition init_at :: "('e, 'w) UT_array \<Rightarrow> nat \<Rightarrow> 'w \<Rightarrow> (('e, 'w) UT_array \<times> 'w) res" where
  "init_at a k w = and_then (slots a) (\<lambda>cells.
     and_then (case icd_init (arr_icd a) of Some init \<Rightarrow> init w | None \<Rightarrow> Inr (icd_zero (arr_icd a), w)) (\<lambda>(e, w).
     and_then (wr cells (int k) e) (\<lambda>cells. Inr (set_slots cells a, w))))"

definition utarray_push_back :: "nat \<Rightarrow> oom \<Rightarrow> 'e \<Rightarrow> ('e, 'w) UT_array \<Rightarrow> 'w \<Rightarrow> heap \<Rightarrow> (('e, 'w) UT_array \<times> 'w \<times> heap) res" where
  "utarray_push_back fuel oom p a w h = and_then (utarray_reserve fuel oom 1 a h) (\<lambda>(a, h).
     and_then (copy_to a (unat (arr_i a)) p w) (\<lambda>(a, w). Inr (a\<lparr>arr_i := arr_i a + 1\<rparr>, w, h)))"

definition utarray_pop_back :: "('e, 'w) UT_array \<Rightarrow> 'w \<Rightarrow> (('e, 'w) UT_array \<times> 'w) res" where
  "utarray_pop_back a w = (let a = a\<lparr>arr_i := arr_i a - 1\<rparr> in
     and_then (dtor_slots a (unat (arr_i a)) 1 w) (\<lambda>w. Inr (a, w)))"

definition utarray_extend_back :: "nat \<Rightarrow> oom \<Rightarrow> ('e, 'w) UT_array \<Rightarrow> 'w \<Rightarrow> heap \<Rightarrow> (('e, 'w) UT_array \<times> 'w \<times> heap) res" where
  "utarray_extend_back fuel oom a w h = and_then (utarray_reserve fuel oom 1 a h) (\<lambda>(a, h).
     and_then (init_at a (unat (arr_i a)) w) (\<lambda>(a, w). Inr (a\<lparr>arr_i := arr_i a + 1\<rparr>, w, h)))"

text \<open>An element pointer is the number of its slot, None for NULL.\<close>

definition utarray_eltptr :: "('e, 'w) UT_array \<Rightarrow> u32 \<Rightarrow> nat option" where
  "utarray_eltptr a j = (if j < arr_i a then Some (unat j) else None)"

fun init_loop :: "('e, 'w) UT_array \<Rightarrow> nat \<Rightarrow> nat \<Rightarrow> 'w \<Rightarrow> (('e, 'w) UT_array \<times> 'w) res" where
  "init_loop a k 0 w = Inr (a, w)"
| "init_loop a k (Suc n) w = and_then (init_at a k w) (\<lambda>(a, w). init_loop a (Suc k) n w)"

definition utarray_resize :: "nat \<Rightarrow> oom \<Rightarrow> u32 \<Rightarrow> ('e, 'w) UT_array \<Rightarrow> 'w \<Rightarrow> heap \<Rightarrow> (('e, 'w) UT_array \<times> 'w \<times> heap) res" where
  "utarray_resize fuel oom num a w h = and_then
    (if num < arr_i a then and_then (dtor_slots a (unat num) (unat (arr_i a) - unat num) w) (\<lambda>w. Inr (a, w, h))
     else if arr_i a < num then and_then (utarray_reserve fuel oom (num - arr_i a) a h) (\<lambda>(a, h).
       and_then (init_loop a (unat (arr_i a)) (unat num - unat (arr_i a)) w) (\<lambda>(a, w). Inr (a, w, h)))
     else Inr (a, w, h)) (\<lambda>(a, w, h). Inr (a\<lparr>arr_i := num\<rparr>, w, h))"

text \<open>\<open>n\<close> slots from \<open>k\<close> on move to \<open>dst\<close>, when there are any.\<close>

definition move_slots :: "nat \<Rightarrow> nat \<Rightarrow> nat \<Rightarrow> ('e, 'w) UT_array \<Rightarrow> ('e, 'w) UT_array res" where
  "move_slots dst k n a = and_then (slots a) (\<lambda>cells. and_then (memmove dst k n cells) (\<lambda>cells. Inr (set_slots cells a)))"

definition utarray_insert :: "nat \<Rightarrow> oom \<Rightarrow> 'e \<Rightarrow> u32 \<Rightarrow> ('e, 'w) UT_array \<Rightarrow> 'w \<Rightarrow> heap \<Rightarrow> (('e, 'w) UT_array \<times> 'w \<times> heap) res" where
  "utarray_insert fuel oom p j a w h =
    and_then (if arr_i a < j then utarray_resize fuel oom j a w h else Inr (a, w, h)) (\<lambda>(a, w, h).
    and_then (utarray_reserve fuel oom 1 a h) (\<lambda>(a, h).
    and_then (if j < arr_i a then move_slots (unat (j + 1)) (unat j) (unat (arr_i a - j)) a else Inr a) (\<lambda>a.
    and_then (copy_to a (unat j) p w) (\<lambda>(a, w). Inr (a\<lparr>arr_i := arr_i a + 1\<rparr>, w, h)))))"

definition utarray_replace :: "'e \<Rightarrow> u32 \<Rightarrow> ('e, 'w) UT_array \<Rightarrow> 'w \<Rightarrow> (('e, 'w) UT_array \<times> 'w) res" where
  "utarray_replace p j a w = and_then (dtor_slots a (unat j) 1 w) (\<lambda>w. copy_to a (unat j) p w)"

fun copy_loop :: "('e, 'w) UT_array \<Rightarrow> nat \<Rightarrow> 'e option list \<Rightarrow> nat \<Rightarrow> nat \<Rightarrow> 'w \<Rightarrow> (('e, 'w) UT_array \<times> 'w) res" where
  "copy_loop a k src s 0 w = Inr (a, w)"
| "copy_loop a k src s (Suc n) w = and_then (rd src (int s)) (\<lambda>p. and_then (copy_to a k p w) (\<lambda>(a, w).
    copy_loop a (Suc k) src (Suc s) n w))"

definition utarray_inserta :: "nat \<Rightarrow> oom \<Rightarrow> ('e, 'w) UT_array \<Rightarrow> u32 \<Rightarrow> ('e, 'w) UT_array \<Rightarrow> 'w \<Rightarrow> heap \<Rightarrow> (('e, 'w) UT_array \<times> 'w \<times> heap) res" where
  "utarray_inserta fuel oom b j a w h =
    (if utarray_len b = 0 then Inr (a, w, h)
     else
       and_then (if arr_i a < j then utarray_resize fuel oom j a w h else Inr (a, w, h)) (\<lambda>(a, w, h).
       and_then (utarray_reserve fuel oom (utarray_len b) a h) (\<lambda>(a, h).
       and_then (if j < arr_i a then move_slots (unat (j + utarray_len b)) (unat j) (unat (arr_i a - j)) a else Inr a) (\<lambda>a.
       and_then (slots b) (\<lambda>src.
       and_then (case icd_copy (arr_icd a) of
           Some _ \<Rightarrow> copy_loop a (unat j) src 0 (unat (arr_i b)) w
         | None \<Rightarrow> and_then (slots a) (\<lambda>cells. and_then (memcpy cells (unat j) src (unat (utarray_len b))) (\<lambda>cells. Inr (set_slots cells a, w)))) (\<lambda>(a, w).
       Inr (a\<lparr>arr_i := arr_i a + utarray_len b\<rparr>, w, h)))))))"

definition utarray_concat :: "nat \<Rightarrow> oom \<Rightarrow> ('e, 'w) UT_array \<Rightarrow> ('e, 'w) UT_array \<Rightarrow> 'w \<Rightarrow> heap \<Rightarrow> (('e, 'w) UT_array \<times> 'w \<times> heap) res" where
  "utarray_concat fuel oom src dst w h = utarray_inserta fuel oom src (utarray_len dst) dst w h"

text \<open>\<open>utarray_erase\<close> hands the destructor \<open>utarray_eltptr\<close>, which is NULL past the end.\<close>

fun erase_loop :: "('e \<Rightarrow> 'w \<Rightarrow> 'w res) \<Rightarrow> ('e, 'w) UT_array \<Rightarrow> u32 \<Rightarrow> nat \<Rightarrow> 'w \<Rightarrow> 'w res" where
  "erase_loop dtor a pos 0 w = Inr w"
| "erase_loop dtor a pos (Suc n) w = (case utarray_eltptr a pos of None \<Rightarrow> Inl NullDeref
    | Some k \<Rightarrow> and_then (slots a) (\<lambda>cells. and_then (rd cells (int k)) (\<lambda>e. and_then (dtor e w) (erase_loop dtor a (pos + 1) n))))"

definition utarray_erase :: "u32 \<Rightarrow> u32 \<Rightarrow> ('e, 'w) UT_array \<Rightarrow> 'w \<Rightarrow> (('e, 'w) UT_array \<times> 'w) res" where
  "utarray_erase pos len a w =
    and_then (case icd_dtor (arr_icd a) of None \<Rightarrow> Inr w | Some dtor \<Rightarrow> erase_loop dtor a pos (unat len) w) (\<lambda>w.
    and_then (if pos + len < arr_i a then move_slots (unat pos) (unat (pos + len)) (unat (arr_i a - (pos + len))) a else Inr a) (\<lambda>a.
    Inr (a\<lparr>arr_i := arr_i a - len\<rparr>, w)))"

definition utarray_clear :: "('e, 'w) UT_array \<Rightarrow> 'w \<Rightarrow> (('e, 'w) UT_array \<times> 'w) res" where
  "utarray_clear a w = (if 0 < arr_i a then and_then (dtor_slots a 0 (unat (arr_i a)) w) (\<lambda>w. Inr (a\<lparr>arr_i := 0\<rparr>, w)) else Inr (a, w))"

definition utarray_renew :: "oom \<Rightarrow> ('e, 'w) UT_array option \<Rightarrow> ('e, 'w) UT_icd \<Rightarrow> 'w \<Rightarrow> heap \<Rightarrow> (('e, 'w) UT_array \<times> 'w \<times> heap) res" where
  "utarray_renew oom a u w h = (case a of Some a \<Rightarrow> and_then (utarray_clear a w) (\<lambda>(a, w). Inr (a, w, h))
     | None \<Rightarrow> and_then (utarray_new oom u h) (\<lambda>(a, h). Inr (a, w, h)))"

text \<open>\<open>qsort\<close> and \<open>bsearch\<close> of the C library are arguments: on the elements of the array, the one gives the sorted elements and the
  other the index of a match.\<close>

definition elements :: "('e, 'w) UT_array \<Rightarrow> 'e list res" where
  "elements a = (if arr_i a = 0 then Inr [] else and_then (slots a) (\<lambda>cells.
     if length cells < unat (arr_i a) \<or> None \<in> set (take (unat (arr_i a)) cells) then Inl BadDeref
     else Inr (map the (take (unat (arr_i a)) cells))))"

definition utarray_sort :: "('e list \<Rightarrow> 'e list) \<Rightarrow> ('e, 'w) UT_array \<Rightarrow> ('e, 'w) UT_array res" where
  "utarray_sort qsort a = (if arr_i a = 0 then Inr a else and_then (elements a) (\<lambda>xs. and_then (slots a) (\<lambda>cells.
     Inr (set_slots (map Some (qsort xs) @ drop (unat (arr_i a)) cells) a))))"

definition utarray_find :: "('e list \<Rightarrow> nat option) \<Rightarrow> ('e, 'w) UT_array \<Rightarrow> nat option res" where
  "utarray_find bsearch a = and_then (elements a) (\<lambda>xs. Inr (bsearch xs))"

definition utarray_front :: "('e, 'w) UT_array \<Rightarrow> nat option" where
  "utarray_front a = (if arr_i a \<noteq> 0 then Some 0 else None)"

definition utarray_back :: "('e, 'w) UT_array \<Rightarrow> nat option" where
  "utarray_back a = (if arr_i a \<noteq> 0 then Some (unat (arr_i a - 1)) else None)"

definition utarray_next :: "('e, 'w) UT_array \<Rightarrow> nat option \<Rightarrow> nat option" where
  "utarray_next a e = (case e of None \<Rightarrow> utarray_front a | Some k \<Rightarrow> if unat (arr_i a) \<noteq> k + 1 then Some (k + 1) else None)"

definition utarray_prev :: "('e, 'w) UT_array \<Rightarrow> nat option \<Rightarrow> nat option" where
  "utarray_prev a e = (case e of None \<Rightarrow> utarray_back a | Some k \<Rightarrow> if k \<noteq> 0 then Some (k - 1) else None)"

section \<open>The predefined elements\<close>

text \<open>Strings: an element is a pointer, the state the strings on the heap. A copy of a string that is not NULL is a new block; the
  request may fail.\<close>

record str_heap =
  str_oom :: oom
  str_mem :: heap
  strs :: "addr \<rightharpoonup> u8 list"

definition utarray_str_cpy :: "addr \<Rightarrow> str_heap \<Rightarrow> (addr \<times> str_heap) res" where
  "utarray_str_cpy src w = (if src = NULL then Inr (NULL, w)
     else and_then (deref (strs w) src) (\<lambda>s. case malloc (str_oom w) (length s + 1) (str_mem w) of (p, h) \<Rightarrow>
       if p = NULL then Inl OutOfMemory else Inr (p, w\<lparr>str_mem := h, strs := (strs w)(p \<mapsto> s)\<rparr>)))"

definition utarray_str_dtor :: "addr \<Rightarrow> str_heap \<Rightarrow> str_heap res" where
  "utarray_str_dtor elt w = (if elt \<noteq> NULL then and_then (free_at elt (strs w)) (\<lambda>m. Inr (w\<lparr>strs := m\<rparr>)) else Inr w)"

definition ut_str_icd :: "(addr, str_heap) UT_icd" where
  "ut_str_icd = \<lparr>icd_sz = 8, icd_init = None, icd_copy = Some utarray_str_cpy, icd_dtor = Some utarray_str_dtor, icd_zero = NULL\<rparr>"

definition ut_int_icd :: "(i32, 'w) UT_icd" where
  "ut_int_icd = \<lparr>icd_sz = 4, icd_init = None, icd_copy = None, icd_dtor = None, icd_zero = 0\<rparr>"

definition ut_ptr_icd :: "(addr, 'w) UT_icd" where
  "ut_ptr_icd = \<lparr>icd_sz = 8, icd_init = None, icd_copy = None, icd_dtor = None, icd_zero = NULL\<rparr>"

end
