(* ===== verification/Utarray_Props.thy ===== *)
theory Utarray_Props
  imports Utarray
begin

text \<open>
  The arrays implement sequences: \<open>holds_array a xs\<close> says that the array is well formed and holds \<open>xs\<close>. The capacity is always 0 or a
  power of two from 8 to \<open>2 ^ 31\<close>, which is why the loop that doubles it ends for up to \<open>2 ^ 31\<close> slots, and
  why it does not for more.
\<close>

section \<open>Capacities\<close>

definition capacity :: "u32 \<Rightarrow> bool" where
  "capacity n \<longleftrightarrow> n = 0 \<or> (\<exists>k. 3 \<le> k \<and> k \<le> 31 \<and> unat n = 2 ^ k)"

lemma double_power:
  fixes n :: u32
  assumes "unat n = 2 ^ k" "k < 31"
  shows "unat (2 * n) = 2 ^ Suc k"
proof -
  have "(2 :: nat) ^ Suc k \<le> 2 ^ 31" using assms(2) by (intro power_increasing) auto
  then have "unat (2 :: u32) * unat n < 2 ^ LENGTH(32)" using assms(1) by simp
  then show ?thesis using assms(1) by (simp add: unat_mult_lem [THEN iffD1])
qed

lemma grow_power:
  assumes "unat n = 2 ^ k" "3 \<le> k" "k \<le> 31" "unat need \<le> 2 ^ 31" "32 - k \<le> fuel"
  shows "\<exists>n'. grow fuel need n = Inr n' \<and> capacity n' \<and> need \<le> n' \<and> n \<le> n'"
  using assms
proof (induction fuel arbitrary: n k)
  case (Suc fuel)
  show ?case
  proof (cases "n < need")
    case True
    then have "k \<noteq> 31" using Suc.prems(1,4) by (auto simp: word_less_nat_alt)
    then have k: "k < 31" using Suc.prems(3) by simp
    note d = double_power [OF Suc.prems(1) k]
    have "n \<noteq> 0" using Suc.prems(1) by auto
    moreover obtain n' where "grow fuel need (2 * n) = Inr n'" "capacity n'" "need \<le> n'" "2 * n \<le> n'"
      proof -
      have "32 - Suc k \<le> fuel" using Suc.prems(5) by linarith
      then show thesis using Suc.IH [OF d _ _ Suc.prems(4)] k Suc.prems(2) that by auto
    qed
    moreover have "n \<le> 2 * n" using d Suc.prems(1) by (simp add: word_le_nat_alt)
    ultimately show ?thesis using True by auto
  next
    case False
    then show ?thesis using Suc.prems by (auto simp: capacity_def)
  qed
qed simp

lemma grow_ok:
  assumes "capacity n" "unat need \<le> 2 ^ 31" "32 \<le> fuel"
  shows "\<exists>n'. grow fuel need n = Inr n' \<and> capacity n' \<and> need \<le> n' \<and> n \<le> n'"
proof (cases "n = 0")
  case True
  obtain f where f: "fuel = Suc f" using assms(3) by (cases fuel) auto
  have "\<exists>n'. grow f need 8 = Inr n' \<and> capacity n' \<and> need \<le> n' \<and> 8 \<le> n'"
    using assms f by (intro grow_power [of 8 3]) auto
  then show ?thesis using True f by (cases "0 < need") (auto simp: capacity_def word_gt_0)
next
  case False
  then obtain k where "3 \<le> k" "k \<le> 31" "unat n = 2 ^ k" using assms(1) by (auto simp: capacity_def)
  then show ?thesis using grow_power assms(2,3) by auto
qed

text \<open>For more than \<open>2 ^ 31\<close> slots the capacity wraps to 0 and the loop goes on for ever.\<close>

lemma grow_never_ends: "capacity n \<Longrightarrow> 2 ^ 31 < unat need \<Longrightarrow> grow fuel need n = Inl LoopBound"
proof (induction fuel arbitrary: n)
  case (Suc fuel)
  have le: "unat n \<le> 2 ^ 31" using Suc.prems(1) power_increasing [of _ 31 "2 :: nat"] by (auto simp: capacity_def)
  have "capacity (if n \<noteq> 0 then 2 * n else 8)"
  proof (cases "n = 0")
    case True
    then show ?thesis by (auto simp: capacity_def intro: exI [of _ 3])
  next
    case False
    then obtain k where k: "3 \<le> k" "k \<le> 31" "unat n = 2 ^ k" using Suc.prems(1) by (auto simp: capacity_def)
    show ?thesis
    proof (cases "k = 31")
      case True
      then have "n = 2 ^ 31" using k(3) by (intro word_unat_eq_iff [THEN iffD2]) simp
      then show ?thesis by (simp add: capacity_def)
    next
      case False
      then show ?thesis using k double_power [OF k(3)] \<open>n \<noteq> 0\<close> by (auto simp: capacity_def intro!: exI [of _ "Suc k"])
    qed
  qed
  then show ?case using Suc.IH Suc.prems(2) le by (simp add: word_less_nat_alt)
qed simp

section \<open>Arrays that hold a sequence\<close>

definition holds_array :: "('e, 'w) UT_array \<Rightarrow> 'e list \<Rightarrow> bool" where
  "holds_array a xs \<longleftrightarrow> (\<exists>cells. arr_d a = (if arr_n a = 0 then None else Some (Live cells)) \<and> length cells = unat (arr_n a)
     \<and> capacity (arr_n a) \<and> unat (arr_i a) = length xs \<and> length xs \<le> length cells \<and> take (length xs) cells = map Some xs)"

text \<open>Elements that are copied as bytes, of less than 4 GiB each.\<close>

definition plain :: "('e, 'w) UT_icd \<Rightarrow> bool" where
  "plain icd \<longleftrightarrow> icd_init icd = None \<and> icd_copy icd = None \<and> icd_dtor icd = None \<and> 0 < icd_sz icd \<and> icd_sz icd < 2 ^ 32"

lemma plain_slots: "plain icd \<Longrightarrow> block_slots n (icd_sz icd) = unat n"
proof -
  assume p: "plain icd"
  have "unat n < 2 ^ 32" using unsigned_less [of n] by simp
  then have "unat n * icd_sz icd < 2 ^ 32 * 2 ^ 32" using p unfolding plain_def by (intro mult_strict_mono) auto
  then have "to_size (int (unat n * icd_sz icd)) = unat n * icd_sz icd" by (subst to_size_id) (simp_all del: of_nat_mult)
  then show "block_slots n (icd_sz icd) = unat n" using p by (simp add: block_slots_def block_bytes_def plain_def del: of_nat_mult)
qed

lemma holds_array_init: "holds_array (utarray_init icd) []"
  by (simp add: holds_array_def utarray_init_def capacity_def)

lemma holds_array_len: "holds_array a xs \<Longrightarrow> unat (arr_i a) = length xs \<and> length xs \<le> 2 ^ 31"
  using power_increasing [of _ 31 "2 :: nat"] by (fastforce simp: holds_array_def capacity_def)

lemma unat_add_32: "unat (x :: u32) + unat y < 2 ^ 32 \<Longrightarrow> unat (x + y) = unat x + unat y"
  by (simp add: unat_add_lem [THEN iffD1])

definition keeps_icd :: "('e, 'w) UT_array \<Rightarrow> ('e, 'w) UT_array \<Rightarrow> bool" where
  "keeps_icd a a' \<longleftrightarrow> arr_icd a' = arr_icd a"

lemma utarray_reserve_ok:
  assumes "holds_array a xs" "length xs + unat amt \<le> 2 ^ 31" "32 \<le> fuel" "plain (arr_icd a)"
  shows "utarray_reserve fuel oom amt a h = Inl OutOfMemory \<or>
    (\<exists>a' h'. utarray_reserve fuel oom amt a h = Inr (a', h') \<and> holds_array a' xs \<and> length xs + unat amt \<le> unat (arr_n a')
      \<and> arr_icd a' = arr_icd a \<and> arr_i a' = arr_i a)"
proof -
  obtain cells where c: "arr_d a = (if arr_n a = 0 then None else Some (Live cells))" "length cells = unat (arr_n a)" "capacity (arr_n a)"
    "unat (arr_i a) = length xs" "length xs \<le> length cells" "take (length xs) cells = map Some xs"
    using assms(1) by (auto simp: holds_array_def)
  have need: "unat (arr_i a + amt) = length xs + unat amt" using c(4) assms(2) by (simp add: unat_add_32)
  show ?thesis
  proof (cases "arr_n a < arr_i a + amt")
    case False
    then show ?thesis using assms(1) need by (auto simp: utarray_reserve_def word_less_nat_alt)
  next
    case True
    obtain n' where g: "grow fuel (arr_i a + amt) (arr_n a) = Inr n'" "capacity n'" "arr_i a + amt \<le> n'" "arr_n a \<le> n'"
      using grow_ok [OF c(3) _ assms(3), of "arr_i a + amt"] need assms(2) by auto
    have old: "(case arr_d a of None \<Rightarrow> Inr [] | Some c \<Rightarrow> read_cell (\<lambda>_. None) c) = Inr cells"
      using c(1,2) by auto
    have le: "unat (arr_n a) \<le> unat n'" "length xs + unat amt \<le> unat n'" using g(3,4) need by (simp_all add: word_le_nat_alt)
    have "n' \<noteq> 0" using True g(3) by auto
    moreover have "length (resized (unat n') cells) = unat n'" "take (length xs) (resized (unat n') cells) = map Some xs"
      using le c(2,5,6) by (simp_all add: resized_def)
    ultimately show ?thesis using True g(1,2) old le c(4)
      by (auto simp: utarray_reserve_def malloc_def set_slots_def holds_array_def plain_slots [OF assms(4)])
  qed
qed

lemma holds_slots:
  assumes "holds_array a xs" "arr_n a \<noteq> 0"
  shows "\<exists>cells. slots a = Inr cells \<and> length cells = unat (arr_n a) \<and> length xs \<le> length cells \<and> take (length xs) cells = map Some xs
    \<and> capacity (arr_n a)"
  using assms by (auto simp: holds_array_def slots_def)

text \<open>Any change of the slots, with the number of elements that goes with it.\<close>

lemma holds_changed:
  assumes "capacity (arr_n a)" "arr_n a \<noteq> 0" "length cells = unat (arr_n a)" "take (length ys) cells = map Some ys" "length ys \<le> length cells"
    "unat i = length ys"
  shows "holds_array (set_slots cells a\<lparr>arr_i := i\<rparr>) ys"
  using assms by (simp add: holds_array_def set_slots_def)

section \<open>Operations on plain elements\<close>

datatype 'e array_op = Push 'e | Pop | Extend | Insert 'e u32 | Replace 'e u32 | Resize u32 | Erase u32 u32 | Clear

definition array_step :: "nat \<Rightarrow> oom \<Rightarrow> 'e array_op \<Rightarrow> ('e, 'w) UT_array \<Rightarrow> 'w \<Rightarrow> heap \<Rightarrow> (('e, 'w) UT_array \<times> 'w \<times> heap) res" where
  "array_step fuel oom op a w h = (case op of
      Push e \<Rightarrow> utarray_push_back fuel oom e a w h
    | Pop \<Rightarrow> and_then (utarray_pop_back a w) (\<lambda>(a, w). Inr (a, w, h))
    | Extend \<Rightarrow> utarray_extend_back fuel oom a w h
    | Insert e j \<Rightarrow> utarray_insert fuel oom e j a w h
    | Replace e j \<Rightarrow> and_then (utarray_replace e j a w) (\<lambda>(a, w). Inr (a, w, h))
    | Resize num \<Rightarrow> utarray_resize fuel oom num a w h
    | Erase pos len \<Rightarrow> and_then (utarray_erase pos len a w) (\<lambda>(a, w). Inr (a, w, h))
    | Clear \<Rightarrow> and_then (utarray_clear a w) (\<lambda>(a, w). Inr (a, w, h)))"

text \<open>The same on a sequence; an array that grows is filled with zero elements.\<close>

definition padded :: "'e \<Rightarrow> nat \<Rightarrow> 'e list \<Rightarrow> 'e list" where
  "padded z n xs = take n xs @ replicate (n - length xs) z"

fun array_apply :: "'e \<Rightarrow> 'e array_op \<Rightarrow> 'e list \<Rightarrow> 'e list" where
  "array_apply z (Push e) xs = xs @ [e]"
| "array_apply z Pop xs = butlast xs"
| "array_apply z Extend xs = xs @ [z]"
| "array_apply z (Insert e j) xs = (let ys = padded z (max (unat j) (length xs)) xs in take (unat j) ys @ e # drop (unat j) ys)"
| "array_apply z (Replace e j) xs = xs[unat j := e]"
| "array_apply z (Resize num) xs = padded z (unat num) xs"
| "array_apply z (Erase pos len) xs = take (unat pos) xs @ drop (unat pos + unat len) xs"
| "array_apply z Clear xs = []"

fun array_may :: "'e array_op \<Rightarrow> 'e list \<Rightarrow> bool" where
  "array_may (Push e) xs \<longleftrightarrow> length xs < 2 ^ 31"
| "array_may Pop xs \<longleftrightarrow> xs \<noteq> []"
| "array_may Extend xs \<longleftrightarrow> length xs < 2 ^ 31"
| "array_may (Insert e j) xs \<longleftrightarrow> length xs < 2 ^ 31 \<and> unat j < 2 ^ 31"
| "array_may (Replace e j) xs \<longleftrightarrow> unat j < length xs"
| "array_may (Resize num) xs \<longleftrightarrow> unat num \<le> 2 ^ 31"
| "array_may (Erase pos len) xs \<longleftrightarrow> unat pos + unat len \<le> length xs"
| "array_may Clear xs \<longleftrightarrow> True"

definition array_becomes :: "('e, 'w) UT_array \<Rightarrow> 'w \<Rightarrow> (('e, 'w) UT_array \<times> 'w \<times> heap) res \<Rightarrow> 'e list \<Rightarrow> bool" where
  "array_becomes a w r ys \<longleftrightarrow> r = Inl OutOfMemory \<or> (\<exists>a' h'. r = Inr (a', w, h') \<and> holds_array a' ys \<and> arr_icd a' = arr_icd a)"

lemma becomes_reserve:
  assumes "holds_array a xs" "length xs + unat amt \<le> 2 ^ 31" "32 \<le> fuel" and icd: "plain (arr_icd a)"
    and run: "\<And>a' h'. holds_array a' xs \<Longrightarrow> length xs + unat amt \<le> unat (arr_n a') \<Longrightarrow> arr_icd a' = arr_icd a \<Longrightarrow> arr_i a' = arr_i a \<Longrightarrow>
      array_becomes a w (f (a', h')) ys"
  shows "array_becomes a w (and_then (utarray_reserve fuel oom amt a h) f) ys"
  using utarray_reserve_ok [OF assms(1-3) icd, of oom h]
proof (elim disjE exE conjE)
  fix a' h' assume r: "utarray_reserve fuel oom amt a h = Inr (a', h')" "holds_array a' xs" "length xs + unat amt \<le> unat (arr_n a')"
    "arr_icd a' = arr_icd a" "arr_i a' = arr_i a"
  show ?thesis using run [OF r(2-5)] r(1) by simp
qed (simp add: array_becomes_def)

lemma copy_plain: "icd_copy (arr_icd a) = None \<Longrightarrow> slots a = Inr cells \<Longrightarrow> k < length cells \<Longrightarrow>
  copy_to a k p w = Inr (set_slots (cells[k := Some p]) a, w)"
  by (simp add: copy_to_def wr_Some)

lemma init_plain: "icd_init (arr_icd a) = None \<Longrightarrow> slots a = Inr cells \<Longrightarrow> k < length cells \<Longrightarrow>
  init_at a k w = Inr (set_slots (cells[k := Some (icd_zero (arr_icd a))]) a, w)"
  by (simp add: init_at_def wr_Some)

lemma take_update_end: "length xs < length cells \<Longrightarrow> take (length xs) cells = map Some xs \<Longrightarrow>
  take (Suc (length xs)) (cells[length xs := Some e]) = map Some (xs @ [e])"
  by (simp add: take_Suc_conv_app_nth)

lemma room_nonzero: "length xs + unat (amt :: u32) \<le> unat (n :: u32) \<Longrightarrow> 0 < length xs + unat amt \<Longrightarrow> n \<noteq> 0"
  by auto

lemma unat_Suc: "unat (x :: u32) < 2 ^ 32 - 1 \<Longrightarrow> unat (x + 1) = Suc (unat x)"
  by (simp add: unat_add_32)

lemma push_back_ok:
  assumes "holds_array a xs" "plain (arr_icd a)" "length xs < 2 ^ 31" "32 \<le> fuel"
  shows "array_becomes a w (utarray_push_back fuel oom e a w h) (xs @ [e])"
  unfolding utarray_push_back_def
proof (rule becomes_reserve [OF assms(1) _ assms(4)])
  fix a' h' assume a': "holds_array a' xs" "length xs + unat (1 :: u32) \<le> unat (arr_n a')" "arr_icd a' = arr_icd a" "arr_i a' = arr_i a"
  then have "arr_n a' \<noteq> 0" by auto
  then obtain cells where c: "slots a' = Inr cells" "length cells = unat (arr_n a')" "take (length xs) cells = map Some xs" "capacity (arr_n a')"
    using holds_slots [OF a'(1)] by auto
  have i: "unat (arr_i a') = length xs" using holds_array_len [OF a'(1)] by simp
  then have "unat (arr_i a' + 1) = Suc (length xs)" using assms(3) by (simp add: unat_Suc)
  then have "holds_array (set_slots (cells[length xs := Some e]) a'\<lparr>arr_i := arr_i a' + 1\<rparr>) (xs @ [e])"
    using c \<open>arr_n a' \<noteq> 0\<close> a'(2) take_update_end [of xs cells e] by (intro holds_changed) auto
  moreover have "copy_to a' (unat (arr_i a')) e w = Inr (set_slots (cells[length xs := Some e]) a', w)"
    using assms(2) a'(2,3) c i by (simp add: copy_plain plain_def)
  ultimately show "array_becomes a w (case (a', h') of (a, h) \<Rightarrow> and_then (copy_to a (unat (arr_i a)) e w)
      (\<lambda>(a, w). Inr (a\<lparr>arr_i := arr_i a + 1\<rparr>, w, h))) (xs @ [e])"
    using a'(3) by (simp add: array_becomes_def set_slots_def)
qed (use assms(2,3) in simp_all)

lemma reserve_icd: "utarray_reserve fuel oom amt a h = Inr (a', h') \<Longrightarrow> arr_icd a' = arr_icd a"
  by (cases "\<exists>n. malloc oom (block_bytes n (icd_sz (arr_icd a))) h = (NULL, h')")
    (auto simp: utarray_reserve_def set_slots_def malloc_def res_simps split: if_splits)

lemma extend_back_ok:
  assumes "holds_array a xs" "plain (arr_icd a)" "length xs < 2 ^ 31" "32 \<le> fuel"
  shows "array_becomes a w (utarray_extend_back fuel oom a w h) (xs @ [icd_zero (arr_icd a)])"
proof -
  have "utarray_extend_back fuel oom a w h = utarray_push_back fuel oom (icd_zero (arr_icd a)) a w h"
    unfolding utarray_extend_back_def utarray_push_back_def
  proof (rule and_then_cong [OF refl], clarify)
    fix a' h' assume "utarray_reserve fuel oom 1 a h = Inr (a', h')"
    then have "arr_icd a' = arr_icd a" by (rule reserve_icd)
    then have "init_at a' k w = copy_to a' k (icd_zero (arr_icd a)) w" for k using assms(2) by (simp add: plain_def init_at_def copy_to_def)
    then show "and_then (init_at a' (unat (arr_i a')) w) (\<lambda>(a, w). Inr (a\<lparr>arr_i := arr_i a + 1\<rparr>, w, h')) =
      and_then (copy_to a' (unat (arr_i a')) (icd_zero (arr_icd a)) w) (\<lambda>(a, w). Inr (a\<lparr>arr_i := arr_i a + 1\<rparr>, w, h'))" by simp
  qed
  then show ?thesis using push_back_ok [OF assms, of w oom "icd_zero (arr_icd a)" h] by simp
qed

lemma dtor_plain: "plain (arr_icd a) \<Longrightarrow> dtor_slots a k n w = Inr w"
  by (simp add: dtor_slots_def plain_def)

lemma shorter_ok: "holds_array a xs \<Longrightarrow> unat i = n \<Longrightarrow> n \<le> length xs \<Longrightarrow> holds_array (a\<lparr>arr_i := i\<rparr>) (take n xs)"
proof -
  assume a: "holds_array a xs" "unat i = n" "n \<le> length xs"
  obtain cells where c: "arr_d a = (if arr_n a = 0 then None else Some (Live cells))" "length cells = unat (arr_n a)" "capacity (arr_n a)"
    "length xs \<le> length cells" "take (length xs) cells = map Some xs"
    using a(1) by (auto simp: holds_array_def)
  have "take n cells = take n (take (length xs) cells)" using a(3) by (simp add: min_absorb1)
  also have "\<dots> = map Some (take n xs)" unfolding c(5) by (simp add: take_map)
  finally have "take n cells = map Some (take n xs)" .
  then show ?thesis unfolding holds_array_def using a(2,3) c by (intro exI [of _ cells]) simp
qed

lemma pop_back_ok:
  assumes "holds_array a xs" "plain (arr_icd a)" "xs \<noteq> []"
  shows "array_becomes a w (and_then (utarray_pop_back a w) (\<lambda>(a, w). Inr (a, w, h))) (butlast xs)"
proof -
  have i: "unat (arr_i a) = length xs" using holds_array_len [OF assms(1)] by simp
  then have "unat (arr_i a - 1) = length xs - 1" using assms(3) by (simp add: unat_sub Suc_le_eq word_le_nat_alt)
  then have "holds_array (a\<lparr>arr_i := arr_i a - 1\<rparr>) (butlast xs)" using shorter_ok [OF assms(1), of "arr_i a - 1" "length xs - 1"] by (simp add: butlast_conv_take)
  then show ?thesis using assms(2) by (simp add: array_becomes_def utarray_pop_back_def Let_def dtor_plain)
qed

lemma array_clear_ok:
  assumes "holds_array a xs" "plain (arr_icd a)"
  shows "array_becomes a w (and_then (utarray_clear a w) (\<lambda>(a, w). Inr (a, w, h))) []"
proof (cases "0 < arr_i a")
  case True
  then show ?thesis using assms shorter_ok [OF assms(1), of 0 0] by (simp add: array_becomes_def utarray_clear_def dtor_plain)
next
  case False
  then have "arr_i a = 0" by (simp add: word_gt_0)
  then have "xs = []" using holds_array_len [OF assms(1)] by simp
  then show ?thesis using False assms by (simp add: array_becomes_def utarray_clear_def)
qed

lemma init_loop_plain:
  assumes "plain (arr_icd a)" "slots a = Inr cells" "k + n \<le> length cells"
  shows "init_loop a k n w = Inr (if n = 0 then a else set_slots (take k cells @ replicate n (Some (icd_zero (arr_icd a))) @ drop (k + n) cells) a, w)"
  using assms
proof (induction n arbitrary: a k cells)
  case (Suc n)
  let ?z = "Some (icd_zero (arr_icd a))"
  define a1 where "a1 = set_slots (cells[k := ?z]) a"
  have 1: "init_at a k w = Inr (a1, w)" using Suc.prems by (simp add: init_plain plain_def a1_def)
  have a1: "plain (arr_icd a1)" "slots a1 = Inr (cells[k := ?z])" "icd_zero (arr_icd a1) = icd_zero (arr_icd a)"
    using Suc.prems(1) by (simp_all add: a1_def set_slots_def slots_def)
  have "take k cells @ ?z # drop (Suc k) cells = cells[k := ?z]" using Suc.prems(3) by (simp add: upd_conv_take_nth_drop)
  moreover have "take (Suc k) (cells[k := ?z]) = take k cells @ [?z]" using Suc.prems(3) by (simp add: take_Suc_conv_app_nth)
  ultimately show ?case using Suc.IH [OF a1(1,2), of "Suc k"] Suc.prems(3) 1 a1(3)
    by (auto simp: a1_def set_slots_def)
qed simp

lemma resize_ok:
  assumes "holds_array a xs" "plain (arr_icd a)" "unat num \<le> 2 ^ 31" "32 \<le> fuel"
  shows "array_becomes a w (utarray_resize fuel oom num a w h) (padded (icd_zero (arr_icd a)) (unat num) xs)"
proof -
  have i: "unat (arr_i a) = length xs" using holds_array_len [OF assms(1)] by simp
  consider "num < arr_i a" | "num = arr_i a" | "arr_i a < num" by (rule linorder_cases)
  then show ?thesis
  proof cases
    case 1
    then have "unat num < length xs" using i by (simp add: word_less_nat_alt)
    then show ?thesis using 1 assms(2) shorter_ok [OF assms(1), of num "unat num"]
      by (simp add: array_becomes_def utarray_resize_def dtor_plain padded_def)
  next
    case 2
    then show ?thesis using assms(1) i by (simp add: array_becomes_def utarray_resize_def padded_def)
  next
    case 3
    have lt: "length xs < unat num" using 3 i by (simp add: word_less_nat_alt)
    have amt: "unat (num - arr_i a) = unat num - length xs" using 3 i by (simp add: unat_sub word_le_nat_alt word_less_nat_alt)
    have "array_becomes a w (and_then (utarray_reserve fuel oom (num - arr_i a) a h) (\<lambda>(a, h).
       and_then (init_loop a (unat (arr_i a)) (unat num - unat (arr_i a)) w) (\<lambda>(a, w). Inr (a\<lparr>arr_i := num\<rparr>, w, h))))
       (padded (icd_zero (arr_icd a)) (unat num) xs)"
    proof (rule becomes_reserve [OF assms(1) _ assms(4)])
      fix a' h' assume a': "holds_array a' xs" "length xs + unat (num - arr_i a) \<le> unat (arr_n a')" "arr_icd a' = arr_icd a" "arr_i a' = arr_i a"
      then have n: "unat num \<le> unat (arr_n a')" "arr_n a' \<noteq> 0" using amt lt by auto
      obtain cells where c: "slots a' = Inr cells" "length cells = unat (arr_n a')" "take (length xs) cells = map Some xs" "capacity (arr_n a')"
        using holds_slots [OF a'(1) n(2)] by auto
      let ?cells = "take (length xs) cells @ replicate (unat num - length xs) (Some (icd_zero (arr_icd a'))) @ drop (unat num) cells"
      have "init_loop a' (length xs) (unat num - length xs) w = Inr (set_slots ?cells a', w)"
        using init_loop_plain [of a' cells "length xs" "unat num - length xs" w] assms(2) a'(3) c(1,2) n lt by simp
      moreover have "holds_array (set_slots ?cells a'\<lparr>arr_i := num\<rparr>) (padded (icd_zero (arr_icd a)) (unat num) xs)"
        using c n lt a'(3) by (intro holds_changed) (auto simp: padded_def)
      ultimately show "array_becomes a w (case (a', h') of (a, h) \<Rightarrow> and_then (init_loop a (unat (arr_i a)) (unat num - unat (arr_i a)) w)
          (\<lambda>(a, w). Inr (a\<lparr>arr_i := num\<rparr>, w, h))) (padded (icd_zero (arr_icd a)) (unat num) xs)"
        using a'(3,4) i by (simp add: array_becomes_def set_slots_def)
    qed (use assms(2,3) amt lt in simp_all)
    moreover have "\<not> num < arr_i a" using 3 by simp
    ultimately show ?thesis using 3 by (simp add: utarray_resize_def and_then_assoc case_prod_unfold)
  qed
qed

lemma becomes_then:
  assumes "array_becomes a w r ys"
    and "\<And>a' h'. holds_array a' ys \<Longrightarrow> arr_icd a' = arr_icd a \<Longrightarrow> array_becomes a w (f (a', w, h')) zs"
  shows "array_becomes a w (and_then r f) zs"
  using assms(1) unfolding array_becomes_def [of a w r]
proof (elim disjE exE conjE)
  fix a' h' assume r: "r = Inr (a', w, h')" "holds_array a' ys" "arr_icd a' = arr_icd a"
  show ?thesis using assms(2) [OF r(2,3)] r(1) by simp
qed (simp add: array_becomes_def)

lemma becomes_trans: "arr_icd a' = arr_icd a \<Longrightarrow> array_becomes a' w r ys \<Longrightarrow> array_becomes a w r ys"
  by (simp add: array_becomes_def)

lemma take_all_prefix:
  assumes "take (length xs) cells = map Some xs" "length xs \<le> length cells"
  obtains rest where "cells = map Some xs @ rest"
  using assms by (metis append_take_drop_id)

lemma insert_core:
  assumes "holds_array a ys" "plain (arr_icd a)" "unat j \<le> length ys" "length ys < 2 ^ 31" "32 \<le> fuel"
  shows "array_becomes a w (and_then (utarray_reserve fuel oom 1 a h) (\<lambda>(a, h).
    and_then (if j < arr_i a then move_slots (unat (j + 1)) (unat j) (unat (arr_i a - j)) a else Inr a) (\<lambda>a.
    and_then (copy_to a (unat j) e w) (\<lambda>(a, w). Inr (a\<lparr>arr_i := arr_i a + 1\<rparr>, w, h)))))
    (take (unat j) ys @ e # drop (unat j) ys)"
proof (rule becomes_reserve [OF assms(1) _ assms(5)])
  fix a' h' assume a': "holds_array a' ys" "length ys + unat (1 :: u32) \<le> unat (arr_n a')" "arr_icd a' = arr_icd a" "arr_i a' = arr_i a"
  define n where "n = length ys"
  have nz: "arr_n a' \<noteq> 0" using a'(2) by auto
  obtain cells where c: "slots a' = Inr cells" "length cells = unat (arr_n a')" "take n cells = map Some ys" "capacity (arr_n a')" "n \<le> length cells"
    using holds_slots [OF a'(1) nz] by (auto simp: n_def)
  obtain rest where cells: "cells = map Some ys @ rest" using take_all_prefix [of ys cells] c(3,5) by (auto simp: n_def)
  obtain x rest' where rest: "rest = x # rest'" using c(2) cells a'(2) by (cases rest) auto
  have i: "unat (arr_i a') = n" using holds_array_len [OF a'(1)] by (simp add: n_def)
  then have i1: "unat (arr_i a' + 1) = Suc n" using assms(4) by (simp add: unat_Suc n_def)
  define zs where "zs = take (unat j) ys @ e # drop (unat j) ys"
  have zs: "length zs = Suc n" using assms(3) by (simp add: zs_def n_def)
  define ins where "ins = map Some zs @ rest'"
  have len: "length ins = length cells" using zs cells rest by (simp add: ins_def n_def)
  have "holds_array (set_slots ins a'\<lparr>arr_i := arr_i a' + 1\<rparr>) zs"
    using c nz a'(2) i1 len zs by (intro holds_changed) (simp_all add: ins_def)
  moreover have "and_then (if j < arr_i a' then move_slots (unat (j + 1)) (unat j) (unat (arr_i a' - j)) a' else Inr a') (\<lambda>a.
    copy_to a (unat j) e w) = Inr (set_slots ins a', w)"
  proof (cases "j < arr_i a'")
    case True
    then have j: "unat j < n" using i by (simp add: word_less_nat_alt)
    have u: "unat (arr_i a' - j) = n - unat j" "unat (j + 1) = Suc (unat j)"
      using True i j assms(4) by (simp_all add: unat_sub word_le_nat_alt word_less_nat_alt unat_Suc n_def)
    let ?moved = "take (Suc (unat j)) cells @ map Some (drop (unat j) ys) @ rest'"
    have "memmove (Suc (unat j)) (unat j) (n - unat j) cells = Inr ?moved"
      using j cells rest by (simp add: memmove_def n_def drop_map)
    moreover have "?moved[unat j := Some e] = ins"
    proof -
      have "take (Suc (unat j)) cells = map Some (take (unat j) ys) @ [Some (ys ! unat j)]"
        using j cells by (simp add: take_Suc_conv_app_nth n_def nth_append take_map)
      then show ?thesis using j by (simp add: ins_def zs_def list_update_append n_def)
    qed
    moreover have "unat j < length ?moved" using j cells by (simp add: n_def)
    ultimately have "memmove (Suc (unat j)) (unat j) (n - unat j) cells = Inr ?moved" "wr ?moved (int (unat j)) e = Inr ins"
      using wr_Some [of "unat j" ?moved e] by simp_all
    then show ?thesis using True u c(1) assms(2) a'(3)
      by (simp add: move_slots_def copy_to_def plain_def set_slots_def slots_def)
  next
    case False
    then have j: "unat j = n" using i assms(3) by (simp add: word_less_nat_alt n_def)
    have "cells[n := Some e] = ins" using j cells rest by (simp add: ins_def zs_def n_def list_update_append)
    then show ?thesis using False j c assms(2) a'(2,3) by (simp add: copy_plain plain_def n_def)
  qed
  then have "and_then (if j < arr_i a' then move_slots (unat (j + 1)) (unat j) (unat (arr_i a' - j)) a' else Inr a') (\<lambda>a.
    and_then (copy_to a (unat j) e w) f) = f (set_slots ins a', w)" for f :: "('a, 'b) UT_array \<times> 'b \<Rightarrow> (('a, 'b) UT_array \<times> 'b \<times> heap) res"
    by (simp flip: and_then_assoc)
  ultimately show "array_becomes a w (case (a', h') of (a, h) \<Rightarrow>
    and_then (if j < arr_i a then move_slots (unat (j + 1)) (unat j) (unat (arr_i a - j)) a else Inr a) (\<lambda>a.
    and_then (copy_to a (unat j) e w) (\<lambda>(a, w). Inr (a\<lparr>arr_i := arr_i a + 1\<rparr>, w, h))))
    (take (unat j) ys @ e # drop (unat j) ys)"
    using a'(3) by (simp add: array_becomes_def set_slots_def zs_def)
qed (use assms(2,4) in simp_all)

lemma insert_ok:
  assumes "holds_array a xs" "plain (arr_icd a)" "length xs < 2 ^ 31" "unat j < 2 ^ 31" "32 \<le> fuel"
  shows "array_becomes a w (utarray_insert fuel oom e j a w h) (array_apply (icd_zero (arr_icd a)) (Insert e j) xs)"
proof -
  have i: "unat (arr_i a) = length xs" using holds_array_len [OF assms(1)] by simp
  define ys where "ys = padded (icd_zero (arr_icd a)) (max (unat j) (length xs)) xs"
  have "array_becomes a w (if arr_i a < j then utarray_resize fuel oom j a w h else Inr (a, w, h)) ys"
  proof (cases "arr_i a < j")
    case True
    then have "length xs < unat j" using i by (simp add: word_less_nat_alt)
    then show ?thesis using True resize_ok [OF assms(1,2) _ assms(5), of j w oom h] assms(4) by (simp add: ys_def max_def)
  next
    case False
    then have "ys = xs" using i by (simp add: ys_def padded_def max_def word_less_nat_alt)
    then show ?thesis using False assms(1) by (simp add: array_becomes_def)
  qed
  moreover have "length ys < 2 ^ 31" "unat j \<le> length ys" using assms(3,4) by (auto simp: ys_def padded_def)
  ultimately show ?thesis
    unfolding utarray_insert_def array_apply.simps Let_def ys_def [symmetric]
  proof (elim becomes_then)
    fix a' h' assume "holds_array a' ys" and icd: "arr_icd a' = arr_icd a"
    then show "array_becomes a w (case (a', w, h') of (a, w, h) \<Rightarrow> and_then (utarray_reserve fuel oom 1 a h) (\<lambda>(a, h).
      and_then (if j < arr_i a then move_slots (unat (j + 1)) (unat j) (unat (arr_i a - j)) a else Inr a) (\<lambda>a.
      and_then (copy_to a (unat j) e w) (\<lambda>(a, w). Inr (a\<lparr>arr_i := arr_i a + 1\<rparr>, w, h)))))
      (take (unat j) ys @ e # drop (unat j) ys)"
      using \<open>length ys < 2 ^ 31\<close> \<open>unat j \<le> length ys\<close> assms(2,5) by (simp add: becomes_trans [OF icd] insert_core)
  qed
qed

lemma replace_ok:
  assumes "holds_array a xs" "plain (arr_icd a)" "unat j < length xs"
  shows "array_becomes a w (and_then (utarray_replace e j a w) (\<lambda>(a, w). Inr (a, w, h))) (xs[unat j := e])"
proof -
  have n: "arr_n a \<noteq> 0" using assms(1,3) by (auto simp: holds_array_def)
  obtain cells where c: "slots a = Inr cells" "length cells = unat (arr_n a)" "take (length xs) cells = map Some xs" "capacity (arr_n a)" "length xs \<le> length cells"
    using holds_slots [OF assms(1) n] by auto
  have "holds_array (set_slots (cells[unat j := Some e]) a\<lparr>arr_i := arr_i a\<rparr>) (xs[unat j := e])"
    using c n holds_array_len [OF assms(1)] by (intro holds_changed) (simp_all add: take_update_swap map_update)
  then show ?thesis using assms c by (simp add: array_becomes_def utarray_replace_def dtor_plain copy_plain plain_def set_slots_def)
qed

lemma erase_ok:
  assumes "holds_array a xs" "plain (arr_icd a)" "unat pos + unat len \<le> length xs"
  shows "array_becomes a w (and_then (utarray_erase pos len a w) (\<lambda>(a, w). Inr (a, w, h))) (take (unat pos) xs @ drop (unat pos + unat len) xs)"
proof -
  have i: "unat (arr_i a) = length xs" "length xs \<le> 2 ^ 31" using holds_array_len [OF assms(1)] by auto
  have pl: "unat (pos + len) = unat pos + unat len" using assms(3) i(2) by (intro unat_add_32) simp
  have il: "unat (arr_i a - len) = length xs - unat len" using assms(3) i by (simp add: unat_sub word_le_nat_alt)
  show ?thesis
  proof (cases "pos + len < arr_i a")
    case False
    then have e: "unat pos + unat len = length xs" using pl i(1) assms(3) by (simp add: word_less_nat_alt)
    then have "length xs - unat len = unat pos" by simp
    then have "holds_array (a\<lparr>arr_i := arr_i a - len\<rparr>) (take (unat pos) xs)" using shorter_ok [OF assms(1), of "arr_i a - len" "unat pos"] il by simp
    then show ?thesis using False e assms(2) by (simp add: array_becomes_def utarray_erase_def plain_def)
  next
    case True
    then have lt: "unat pos + unat len < length xs" using pl i(1) by (simp add: word_less_nat_alt)
    then have n: "arr_n a \<noteq> 0" using assms(1) by (auto simp: holds_array_def)
    obtain cells where c: "slots a = Inr cells" "length cells = unat (arr_n a)" "take (length xs) cells = map Some xs" "capacity (arr_n a)" "length xs \<le> length cells"
      using holds_slots [OF assms(1) n] by auto
    obtain rest where cells: "cells = map Some xs @ rest" using take_all_prefix c(3,5) by blast
    let ?k = "unat pos + unat len"
    have u: "unat (arr_i a - (pos + len)) = length xs - ?k" using True pl i(1) by (simp add: unat_sub word_le_nat_alt word_less_nat_alt)
    define moved where "moved = map Some (take (unat pos) xs @ drop ?k xs) @ drop (length xs - unat len) cells"
    have "take (length xs - ?k) (drop ?k cells) = map Some (drop ?k xs)" using lt cells by (simp add: drop_map)
    moreover have "take (unat pos) cells = map Some (take (unat pos) xs)" using lt cells by (simp add: take_map)
    moreover have "unat pos + (length xs - ?k) = length xs - unat len" using lt by simp
    ultimately have m: "memmove (unat pos) ?k (length xs - ?k) cells = Inr moved"
      using lt c(5) by (simp add: memmove_def moved_def)
    have "holds_array (set_slots moved a\<lparr>arr_i := arr_i a - len\<rparr>) (take (unat pos) xs @ drop ?k xs)"
      using c n lt il by (intro holds_changed) (simp_all add: moved_def)
    then show ?thesis using True assms(2) c(1) pl u m by (simp add: array_becomes_def utarray_erase_def plain_def move_slots_def set_slots_def)
  qed
qed

lemma array_step_ok:
  assumes "holds_array a xs" "plain (arr_icd a)" "array_may op xs" "32 \<le> fuel"
  shows "array_becomes a w (array_step fuel oom op a w h) (array_apply (icd_zero (arr_icd a)) op xs)"
  using assms(3) push_back_ok [OF assms(1,2) _ assms(4)] pop_back_ok [OF assms(1,2)] extend_back_ok [OF assms(1,2) _ assms(4)]
    insert_ok [OF assms(1,2) _ _ assms(4)] replace_ok [OF assms(1,2)] resize_ok [OF assms(1,2) _ assms(4)] erase_ok [OF assms(1,2)]
    array_clear_ok [OF assms(1,2)]
  by (cases op) (simp_all add: array_step_def del: array_apply.simps(4))

section \<open>Runs\<close>

fun array_run :: "nat \<Rightarrow> oom \<Rightarrow> 'e array_op list \<Rightarrow> ('e, 'w) UT_array \<Rightarrow> 'w \<Rightarrow> heap \<Rightarrow> (('e, 'w) UT_array \<times> 'w \<times> heap) res" where
  "array_run fuel oom [] a w h = Inr (a, w, h)"
| "array_run fuel oom (op # ops) a w h = and_then (array_step fuel oom op a w h) (\<lambda>(a, w, h). array_run fuel oom ops a w h)"

fun array_may_run :: "'e \<Rightarrow> 'e array_op list \<Rightarrow> 'e list \<Rightarrow> bool" where
  "array_may_run z [] xs \<longleftrightarrow> True"
| "array_may_run z (op # ops) xs \<longleftrightarrow> array_may op xs \<and> array_may_run z ops (array_apply z op xs)"

lemma array_run_ok:
  assumes "holds_array a xs" "plain (arr_icd a)" "array_may_run (icd_zero (arr_icd a)) ops xs" "32 \<le> fuel"
  shows "array_becomes a w (array_run fuel oom ops a w h) (fold (array_apply (icd_zero (arr_icd a))) ops xs)"
  using assms
proof (induction ops arbitrary: a xs h)
  case (Cons op ops)
  have "array_becomes a w (array_step fuel oom op a w h) (array_apply (icd_zero (arr_icd a)) op xs)"
    using Cons.prems by (intro array_step_ok) auto
  then show ?case unfolding array_run.simps(2)
  proof (rule becomes_then)
    fix a' h' assume a': "holds_array a' (array_apply (icd_zero (arr_icd a)) op xs)" "arr_icd a' = arr_icd a"
    have "array_becomes a' w (array_run fuel oom ops a' w h') (fold (array_apply (icd_zero (arr_icd a'))) ops (array_apply (icd_zero (arr_icd a)) op xs))"
      using Cons.prems a' by (intro Cons.IH) auto
    then show "array_becomes a w (case (a', w, h') of (a, w, h) \<Rightarrow> array_run fuel oom ops a w h)
        (fold (array_apply (icd_zero (arr_icd a))) (op # ops) xs)"
      using becomes_trans [OF a'(2)] a'(2) by simp
  qed
qed (simp add: array_becomes_def)

text \<open>C39: a dynamic array of plain elements (copied as bytes and of less than 4 GiB each, as the predefined arrays of ints and of
  pointers have them) is a sequence: any run of its operations, with positions inside the array where they must be and never
  more than \<open>2 ^ 31\<close> slots, never faults; it leaves the
  array well formed with exactly the elements that the same run on a sequence gives (an array that grows is filled with zeros), or
  the process exits for want of memory.\<close>

theorem utarray_refines:
  assumes "holds_array a xs" "plain (arr_icd a)" "array_may_run (icd_zero (arr_icd a)) ops xs" "32 \<le> fuel"
  shows "array_run fuel oom ops a w h = Inl OutOfMemory \<or>
    (\<exists>a' h'. array_run fuel oom ops a w h = Inr (a', w, h') \<and> holds_array a' (fold (array_apply (icd_zero (arr_icd a))) ops xs))"
  using array_run_ok [OF assms, of w oom h] by (auto simp: array_becomes_def)

definition sample_array_ops :: "i32 array_op list" where
  "sample_array_ops = [Push 7, Insert 5 3, Push 9, Erase 1 1, Replace 8 0, Pop]"

lemma utarray_refines_witness:
  "array_run 32 (\<lambda>_ _. False) sample_array_ops (utarray_init ut_int_icd) () \<lparr>brk = 0\<rparr> = Inl OutOfMemory \<or>
    (\<exists>a' h'. array_run 32 (\<lambda>_ _. False) sample_array_ops (utarray_init ut_int_icd) () \<lparr>brk = 0\<rparr> = Inr (a', (), h') \<and> holds_array a' [8, 0, 5])"
proof -
  have "array_may_run 0 sample_array_ops []" by (simp add: sample_array_ops_def padded_def)
  moreover have "replicate 2 (0 :: i32) = [0, 0]" by (simp add: numeral_2_eq_2)
  then have "fold (array_apply 0) sample_array_ops [] = [8, 0, 5]" by (simp add: sample_array_ops_def padded_def Let_def)
  ultimately show ?thesis
    using utarray_refines [of "utarray_init ut_int_icd" "[]" sample_array_ops 32 "\<lambda>_ _. False" "()" "\<lparr>brk = 0\<rparr>"]
    by (simp add: holds_array_init) (simp add: utarray_init_def ut_int_icd_def plain_def)
qed

text \<open>Asking for more than \<open>2 ^ 31\<close> slots never returns: the capacity doubles to 0 and starts again.\<close>

theorem utarray_reserve_never_ends:
  assumes "holds_array a xs" "2 ^ 31 < length xs + unat amt" "length xs + unat amt < 2 ^ 32"
  shows "utarray_reserve fuel oom amt a h = Inl LoopBound"
proof -
  have need: "unat (arr_i a + amt) = length xs + unat amt" using holds_array_len [OF assms(1)] assms(3) by (simp add: unat_add_32)
  have c: "capacity (arr_n a)" using assms(1) by (auto simp: holds_array_def)
  then have "unat (arr_n a) \<le> 2 ^ 31" using power_increasing [of _ 31 "2 :: nat"] by (auto simp: capacity_def)
  then have "arr_n a < arr_i a + amt" using need assms(2) by (simp add: word_less_nat_alt)
  then show ?thesis using grow_never_ends [OF c, of "arr_i a + amt" fuel] need assms(2) by (simp add: utarray_reserve_def)
qed

lemma utarray_reserve_never_ends_witness:
  "utarray_reserve fuel oom 3000000000 (utarray_init ut_int_icd) h = Inl LoopBound"
  using utarray_reserve_never_ends [OF holds_array_init [of ut_int_icd], of 3000000000 fuel oom h] by simp

end
