(* ===== verification/Utringbuffer.thy ===== *)
theory Utringbuffer
  imports Utarray_Props
begin

text \<open>
  The ring buffers of \<^verbatim>\<open>include/uthash/utringbuffer.h\<close>: a block of a fixed number of slots, of which the last \<open>n\<close> elements pushed
  are kept. An element pointer is the number of its slot. An index is a \<open>size_t\<close>, except in the loops of
  \<open>utringbuffer_clear\<close>.
\<close>

section \<open>Data and operations\<close>

record ('e, 'w) UT_ringbuffer =
  rb_i :: u32
  rb_n :: u32
  rb_f :: u8
  rb_icd :: "('e, 'w) UT_icd"
  rb_d :: "'e option list cell option" \<comment> \<open>None for NULL\<close>

definition rb_slots :: "('e, 'w) UT_ringbuffer \<Rightarrow> 'e option list res" where
  "rb_slots a = (case rb_d a of None \<Rightarrow> Inl NullDeref | Some c \<Rightarrow> read_cell (\<lambda>_. None) c)"

text \<open>The request for the block is not checked.\<close>

definition utringbuffer_init :: "oom \<Rightarrow> u32 \<Rightarrow> ('e, 'w) UT_icd \<Rightarrow> heap \<Rightarrow> ('e, 'w) UT_ringbuffer \<times> heap" where
  "utringbuffer_init oom n icd h = (let a = \<lparr>rb_i = 0, rb_n = n, rb_f = 0, rb_icd = icd, rb_d = None\<rparr> in
     if n \<noteq> 0 then (case malloc oom (block_bytes n (icd_sz icd)) h of (p, h) \<Rightarrow>
       (a\<lparr>rb_d := if p = NULL then None else Some (Live (replicate (block_slots n (icd_sz icd)) None))\<rparr>, h)) else (a, h))"

definition utringbuffer_len :: "('e, 'w) UT_ringbuffer \<Rightarrow> u32" where
  "utringbuffer_len a = (if rb_f a \<noteq> 0 then rb_n a else rb_i a)"

definition utringbuffer_empty :: "('e, 'w) UT_ringbuffer \<Rightarrow> bool" where
  "utringbuffer_empty a \<longleftrightarrow> rb_i a = 0 \<and> rb_f a = 0"

definition utringbuffer_full :: "('e, 'w) UT_ringbuffer \<Rightarrow> bool" where
  "utringbuffer_full a \<longleftrightarrow> rb_f a \<noteq> 0"

definition utringbuffer_real_idx :: "('e, 'w) UT_ringbuffer \<Rightarrow> nat \<Rightarrow> nat" where
  "utringbuffer_real_idx a j = (if rb_f a \<noteq> 0 then to_size (int j + uint (rb_i a)) mod unat (rb_n a) else j)"

definition utringbuffer_eltptr :: "('e, 'w) UT_ringbuffer \<Rightarrow> nat \<Rightarrow> nat option" where
  "utringbuffer_eltptr a j = (if j < unat (utringbuffer_len a) then Some (utringbuffer_real_idx a j) else None)"

text \<open>The slot of an element pointer, and the index of the element there.\<close>

definition utringbuffer_eltidx :: "('e, 'w) UT_ringbuffer \<Rightarrow> nat \<Rightarrow> nat" where
  "utringbuffer_eltidx a k = (if rb_f a \<noteq> 0 then to_size (int k + uint (rb_n a) - uint (rb_i a)) mod unat (rb_n a) else k)"

definition utringbuffer_front :: "('e, 'w) UT_ringbuffer \<Rightarrow> nat option" where
  "utringbuffer_front a = utringbuffer_eltptr a 0"

definition utringbuffer_back :: "('e, 'w) UT_ringbuffer \<Rightarrow> nat option" where
  "utringbuffer_back a = (if utringbuffer_empty a then None else utringbuffer_eltptr a (unat (utringbuffer_len a - 1)))"

definition utringbuffer_next :: "('e, 'w) UT_ringbuffer \<Rightarrow> nat option \<Rightarrow> nat option" where
  "utringbuffer_next a e = (case e of None \<Rightarrow> utringbuffer_front a
     | Some k \<Rightarrow> utringbuffer_eltptr a (to_size (int (utringbuffer_eltidx a k) + 1)))"

definition utringbuffer_prev :: "('e, 'w) UT_ringbuffer \<Rightarrow> nat option \<Rightarrow> nat option" where
  "utringbuffer_prev a e = (case e of None \<Rightarrow> utringbuffer_back a
     | Some k \<Rightarrow> utringbuffer_eltptr a (to_size (int (utringbuffer_eltidx a k) - 1)))"

text \<open>The loops of \<open>utringbuffer_clear\<close>, from index \<open>j\<close> on; the index is an \<open>unsigned\<close> there.\<close>

definition eltptr_u32 :: "('e, 'w) UT_ringbuffer \<Rightarrow> u32 \<Rightarrow> nat option" where
  "eltptr_u32 a j = (if j < utringbuffer_len a then Some (unat (if rb_f a \<noteq> 0 then (j + rb_i a) mod rb_n a else j)) else None)"

fun clear_loop :: "('e \<Rightarrow> 'w \<Rightarrow> 'w res) \<Rightarrow> ('e, 'w) UT_ringbuffer \<Rightarrow> u32 \<Rightarrow> nat \<Rightarrow> 'w \<Rightarrow> 'w res" where
  "clear_loop dtor a j 0 w = Inr w"
| "clear_loop dtor a j (Suc n) w = (case eltptr_u32 a j of None \<Rightarrow> Inl NullDeref
    | Some k \<Rightarrow> and_then (rb_slots a) (\<lambda>cells. and_then (rd cells (int k)) (\<lambda>e. and_then (dtor e w) (clear_loop dtor a (j + 1) n))))"

definition utringbuffer_clear :: "('e, 'w) UT_ringbuffer \<Rightarrow> 'w \<Rightarrow> (('e, 'w) UT_ringbuffer \<times> 'w) res" where
  "utringbuffer_clear a w =
    and_then (case icd_dtor (rb_icd a) of None \<Rightarrow> Inr w
      | Some dtor \<Rightarrow> if rb_f a \<noteq> 0 then clear_loop dtor a 0 (unat (rb_n a)) w else clear_loop dtor a 0 (unat (rb_i a)) w)
    (\<lambda>w. Inr (a\<lparr>rb_i := 0, rb_f := 0\<rparr>, w))"

definition utringbuffer_done :: "('e, 'w) UT_ringbuffer \<Rightarrow> 'w \<Rightarrow> (('e, 'w) UT_ringbuffer \<times> 'w) res" where
  "utringbuffer_done a w = and_then (utringbuffer_clear a w) (\<lambda>(a, w).
     case rb_d a of Some (Freed c) \<Rightarrow> Inl DoubleFree | _ \<Rightarrow> Inr (a\<lparr>rb_d := None, rb_n := 0\<rparr>, w))"

text \<open>Nor is the request for the struct checked, which \<open>memset\<close> writes to. After \<open>free\<close> there is no buffer any more.\<close>

definition sizeof_UT_ringbuffer :: nat where "sizeof_UT_ringbuffer = 56"

definition utringbuffer_new :: "oom \<Rightarrow> u32 \<Rightarrow> ('e, 'w) UT_icd \<Rightarrow> heap \<Rightarrow> (('e, 'w) UT_ringbuffer \<times> heap) res" where
  "utringbuffer_new oom n icd h = (case malloc oom sizeof_UT_ringbuffer h of (p, h) \<Rightarrow>
     if p = NULL then Inl NullDeref else Inr (utringbuffer_init oom n icd h))"

definition utringbuffer_free :: "('e, 'w) UT_ringbuffer \<Rightarrow> 'w \<Rightarrow> 'w res" where
  "utringbuffer_free a w = and_then (utringbuffer_done a w) (\<lambda>(_, w). Inr w)"

definition utringbuffer_push_back :: "'e \<Rightarrow> ('e, 'w) UT_ringbuffer \<Rightarrow> 'w \<Rightarrow> (('e, 'w) UT_ringbuffer \<times> 'w) res" where
  "utringbuffer_push_back p a w =
    and_then (case icd_dtor (rb_icd a) of Some dtor \<Rightarrow> if rb_f a \<noteq> 0
        then and_then (rb_slots a) (\<lambda>cells. and_then (rd cells (uint (rb_i a))) (\<lambda>e. dtor e w)) else Inr w
      | None \<Rightarrow> Inr w) (\<lambda>w.
    and_then (rb_slots a) (\<lambda>cells.
    and_then (case icd_copy (rb_icd a) of Some copy \<Rightarrow> copy p w | None \<Rightarrow> Inr (p, w)) (\<lambda>(e, w).
    and_then (wr cells (uint (rb_i a)) e) (\<lambda>cells.
    let a = a\<lparr>rb_d := Some (Live cells), rb_i := rb_i a + 1\<rparr> in
    if rb_i a = rb_n a then Inr (a\<lparr>rb_i := 0, rb_f := 1\<rparr>, w) else Inr (a, w)))))"

section \<open>What a ring holds\<close>

lemma unat_u32: "unat (x :: u32) < 2 ^ 32"
proof -
  have "unat x < 2 ^ LENGTH(32)" by (rule unsigned_less)
  then show ?thesis by simp
qed


definition holds_ring :: "('e, 'w) UT_ringbuffer \<Rightarrow> 'e list \<Rightarrow> bool" where
  "holds_ring a xs \<longleftrightarrow> (\<exists>cells. rb_d a = Some (Live cells) \<and> length cells = unat (rb_n a) \<and> rb_i a < rb_n a \<and>
     (if rb_f a \<noteq> 0 then map Some xs = drop (unat (rb_i a)) cells @ take (unat (rb_i a)) cells
      else map Some xs = take (unat (rb_i a)) cells))"

lemma holds_ring_length:
  assumes "holds_ring a xs"
  shows "unat (utringbuffer_len a) = length xs" "length xs \<le> unat (rb_n a)" "utringbuffer_empty a \<longleftrightarrow> xs = []"
    "utringbuffer_full a \<longleftrightarrow> length xs = unat (rb_n a)"
proof -
  obtain cells where c: "length cells = unat (rb_n a)" "unat (rb_i a) < unat (rb_n a)"
    "if rb_f a \<noteq> 0 then map Some xs = drop (unat (rb_i a)) cells @ take (unat (rb_i a)) cells else map Some xs = take (unat (rb_i a)) cells"
    using assms by (auto simp: holds_ring_def word_less_nat_alt)
  have len: "length xs = (if rb_f a \<noteq> 0 then unat (rb_n a) else unat (rb_i a))"
  proof -
    have "length (map Some xs) = (if rb_f a \<noteq> 0 then unat (rb_n a) else unat (rb_i a))"
      using c by (cases "rb_f a \<noteq> 0") (simp_all del: length_map)
    then show ?thesis by simp
  qed
  show "unat (utringbuffer_len a) = length xs" "length xs \<le> unat (rb_n a)" using len c(2) by (auto simp: utringbuffer_len_def)
  show "utringbuffer_empty a \<longleftrightarrow> xs = []" using len c(2) by (cases "rb_f a = 0") (auto simp: utringbuffer_empty_def unat_eq_0)
  show "utringbuffer_full a \<longleftrightarrow> length xs = unat (rb_n a)" using len c(2) by (auto simp: utringbuffer_full_def)
qed

lemma ring_init_holds:
  assumes "n \<noteq> 0" "utringbuffer_init oom n icd h = (a, h')" "rb_d a \<noteq> None" "plain icd"
  shows "holds_ring a [] \<and> rb_n a = n \<and> rb_icd a = icd"
  using assms by (auto simp: utringbuffer_init_def plain_slots holds_ring_def Let_def word_gt_0 split: prod.splits if_splits)

lemma unat_Suc_less: "(i :: u32) < n \<Longrightarrow> unat (i + 1) = Suc (unat i)"
proof -
  assume "i < n"
  then have "unat i < unat n" "unat n < 2 ^ 32" using unat_u32 [of n] by (simp_all add: word_less_nat_alt)
  then show ?thesis by (simp add: unat_add_32)
qed

text \<open>Pushing one element drops the oldest one of a full ring.\<close>

lemma push_ring:
  assumes "holds_ring a xs" "plain (rb_icd a)"
  shows "\<exists>a'. utringbuffer_push_back e a w = Inr (a', w) \<and> rb_n a' = rb_n a \<and> rb_icd a' = rb_icd a
    \<and> holds_ring a' ((if length xs = unat (rb_n a) then tl xs else xs) @ [e])"
proof -
  obtain cells where c: "rb_d a = Some (Live cells)" "length cells = unat (rb_n a)" "rb_i a < rb_n a"
    "if rb_f a \<noteq> 0 then map Some xs = drop (unat (rb_i a)) cells @ take (unat (rb_i a)) cells else map Some xs = take (unat (rb_i a)) cells"
    using assms(1) by (auto simp: holds_ring_def)
  define i where "i = unat (rb_i a)"
  have i: "i < length cells" "unat (rb_i a + 1) = Suc i" using c(2,3) unat_Suc_less [OF c(3)] by (simp_all add: i_def word_less_nat_alt)
  define cells' where "cells' = cells[i := Some e]"
  have w: "wr cells (uint (rb_i a)) e = Inr cells'" using wr_Some [OF i(1), of e] by (simp add: cells'_def i_def)
  have full: "length xs = unat (rb_n a) \<longleftrightarrow> rb_f a \<noteq> 0" using holds_ring_length(4) [OF assms(1)] by (simp add: utringbuffer_full_def)
  define ys where "ys = (if length xs = unat (rb_n a) then tl xs else xs) @ [e]"
  have take: "take (Suc i) cells' = take i cells @ [Some e]" using i(1) by (simp add: cells'_def take_Suc_conv_app_nth)
  have drop: "drop (Suc i) cells' = drop (Suc i) cells" by (simp add: cells'_def)
  have ys: "map Some ys = (if rb_f a \<noteq> 0 then drop (Suc i) cells' @ take (Suc i) cells' else take (Suc i) cells')"
  proof (cases "rb_f a = 0")
    case True
    then show ?thesis using c(4) full take by (simp add: ys_def i_def)
  next
    case False
    then have "map Some (tl xs) = tl (drop i cells @ take i cells)" using c(4) by (simp add: map_tl i_def)
    also have "\<dots> = drop (Suc i) cells @ take i cells" using i(1) Cons_nth_drop_Suc [OF i(1)] by (metis append_Cons list.sel(3))
    finally show ?thesis using False full take drop by (simp add: ys_def)
  qed
  show ?thesis
  proof (cases "rb_i a + 1 = rb_n a")
    case True
    then have "Suc i = length cells'" using i(2) c(2) by (simp add: cells'_def)
    then have "holds_ring (a\<lparr>rb_d := Some (Live cells'), rb_i := 0, rb_f := 1\<rparr>) ys"
      using ys c(2,3) by (auto simp: holds_ring_def cells'_def word_gt_0)
    then show ?thesis using True w c(1) assms(2) by (simp add: utringbuffer_push_back_def rb_slots_def plain_def Let_def ys_def)
  next
    case False
    then have "unat (rb_i a + 1) \<noteq> unat (rb_n a)" by (simp only: word_unat_eq_iff [symmetric] not_False_eq_True)
    then have "Suc i < unat (rb_n a)" using i c(2) by simp
    then have "rb_i a + 1 < rb_n a" using i(2) by (simp add: word_less_nat_alt)
    then have "holds_ring (a\<lparr>rb_d := Some (Live cells'), rb_i := rb_i a + 1\<rparr>) ys"
      using ys c(2) i(2) by (simp add: holds_ring_def cells'_def)
    then show ?thesis using False w c(1) assms(2) by (simp add: utringbuffer_push_back_def rb_slots_def plain_def Let_def ys_def)
  qed
qed

text \<open>Reading: the \<open>j\<close>-th element is in the slot that \<open>utringbuffer_eltptr\<close> gives.\<close>

lemma eltptr_ring:
  assumes "holds_ring a xs" "j < length xs"
  shows "\<exists>k cells. utringbuffer_eltptr a j = Some k \<and> rb_slots a = Inr cells \<and> rd cells (int k) = Inr (xs ! j) \<and> utringbuffer_eltidx a k = j"
proof -
  obtain cells where c: "rb_d a = Some (Live cells)" "length cells = unat (rb_n a)" "rb_i a < rb_n a"
    "if rb_f a \<noteq> 0 then map Some xs = drop (unat (rb_i a)) cells @ take (unat (rb_i a)) cells else map Some xs = take (unat (rb_i a)) cells"
    using assms(1) by (auto simp: holds_ring_def)
  define i n where "i = unat (rb_i a)" and "n = unat (rb_n a)"
  have i: "i < n" "n < 2 ^ 32" using c(3) unat_u32 [of "rb_n a"] by (simp_all add: i_def n_def word_less_nat_alt)
  have j: "j < n" "j < unat (utringbuffer_len a)" using assms(2) holds_ring_length(1,2) [OF assms(1)] by (simp_all add: n_def)
  have nth: "Some (xs ! j) = map Some xs ! j" using assms(2) by simp
  show ?thesis
  proof (cases "rb_f a = 0")
    case True
    have "length (map Some xs) = length (take (unat (rb_i a)) cells)" using c(4) True by simp
    then have "j < unat (rb_i a)" using assms(2) by simp
    then have "cells ! j = Some (xs ! j)" "j < length cells" using True c(2,4) nth j(1) by (simp_all add: n_def)
    then show ?thesis using True j(2) c(1) rd_Some [of j cells]
      by (simp add: utringbuffer_eltptr_def utringbuffer_real_idx_def utringbuffer_eltidx_def rb_slots_def)
  next
    case False
    have u: "uint (rb_i a) = int i" "uint (rb_n a) = int n" by (simp_all add: i_def n_def)
    have ts: "to_size (int j + int i) = j + i" using i j(1) by (simp add: to_size_id)
    define k where "k = (j + i) mod n"
    have k: "k < length cells" using i(1) c(2) by (simp add: k_def n_def)
    have k_cases: "k = (if j + i < n then j + i else j + i - n)"
      using i(1) j(1) by (simp add: k_def mod_if)
    have "cells ! k = Some (xs ! j)"
    proof (cases "j + i < n")
      case True
      then show ?thesis using False c(2,4) nth k_cases by (simp add: i_def n_def nth_append less_diff_conv add.commute)
    next
      case wrap: False
      then have "\<not> j < n - i" "j - (n - i) = k" "k < i" using k_cases i(1) j(1) by simp_all
      then show ?thesis using False c(2,4) nth k_cases i(1) j(1) by (simp add: i_def [symmetric] n_def [symmetric] nth_append)
    qed
    moreover have "to_size (int k + int n - int i) mod n = j"
    proof -
      have "k < n" using k c(2) by (simp add: n_def)
      then have "to_size (int (k + n - i)) = k + n - i" 
      proof (intro to_size_nat)
        have "k + n - i < n + n" using \<open>k < n\<close> by linarith
        moreover have "n + n < 2 ^ 64" using i(2) by simp
        ultimately show "k + n - i < 2 ^ 64" by (rule less_trans)
      qed
      moreover have "i \<le> k + n" using i(1) by linarith
      then have "int (k + n - i) = int k + int n - int i" by (simp only: of_nat_diff of_nat_add)
      ultimately have "to_size (int k + int n - int i) = k + n - i" by (simp only:)
      moreover have "(k + n - i) mod n = j"
      proof (cases "j + i < n")
        case True
        then have "k + n - i = n + j" using k_cases by simp
        then show ?thesis using j(1) by simp
      next
        case False
        then have "k + n - i = j" using k_cases i(1) j(1) by simp
        then show ?thesis using j(1) by simp
      qed
      ultimately show ?thesis by (simp only:)
    qed
    ultimately show ?thesis using False j(2) c(1) rd_Some [OF k] ts u
      by (simp add: utringbuffer_eltptr_def utringbuffer_real_idx_def utringbuffer_eltidx_def rb_slots_def k_def n_def [symmetric])
  qed
qed

fun push_all :: "'e list \<Rightarrow> ('e, 'w) UT_ringbuffer \<Rightarrow> 'w \<Rightarrow> (('e, 'w) UT_ringbuffer \<times> 'w) res" where
  "push_all [] a w = Inr (a, w)"
| "push_all (e # es) a w = and_then (utringbuffer_push_back e a w) (\<lambda>(a, w). push_all es a w)"

definition last_n :: "nat \<Rightarrow> 'e list \<Rightarrow> 'e list" where
  "last_n n xs = drop (length xs - n) xs"

lemma last_n_push: "0 < n \<Longrightarrow> (if length (last_n n xs) = n then tl (last_n n xs) else last_n n xs) @ [e] = last_n n (xs @ [e])"
  by (cases "length xs < n") (auto simp: last_n_def drop_Suc tl_drop Suc_diff_le not_less)

lemma push_all_ring:
  assumes "holds_ring a (last_n (unat (rb_n a)) xs)" "plain (rb_icd a)"
  shows "\<exists>a'. push_all es a w = Inr (a', w) \<and> rb_n a' = rb_n a \<and> rb_icd a' = rb_icd a \<and> holds_ring a' (last_n (unat (rb_n a)) (xs @ es))"
  using assms
proof (induction es arbitrary: a xs)
  case (Cons e es)
  obtain a1 where a1: "utringbuffer_push_back e a w = Inr (a1, w)" "rb_n a1 = rb_n a" "rb_icd a1 = rb_icd a"
    "holds_ring a1 ((if length (last_n (unat (rb_n a)) xs) = unat (rb_n a) then tl (last_n (unat (rb_n a)) xs) else last_n (unat (rb_n a)) xs) @ [e])"
    using push_ring [OF Cons.prems] by blast
  have "0 < unat (rb_n a)" using Cons.prems(1) by (auto simp: holds_ring_def word_less_nat_alt)
  then have "holds_ring a1 (last_n (unat (rb_n a1)) (xs @ [e]))" using a1(2,4) last_n_push by metis
  then show ?case using Cons.IH [of a1 "xs @ [e]"] a1(1-3) Cons.prems(2) by auto
qed simp

text \<open>C40: a ring buffer of capacity \<open>n\<close> keeps the last \<open>n\<close> elements: after any pushes of plain elements to a new ring, its length
  is right, and each index gives the slot of the element that was pushed at that place from the
  end, from which the index comes back.\<close>

theorem utringbuffer_keeps_last:
  assumes "utringbuffer_init oom n icd h = (a, h')" "n \<noteq> 0" "rb_d a \<noteq> None" "plain icd"
  shows "\<exists>a'. push_all es a w = Inr (a', w) \<and> unat (utringbuffer_len a') = min (unat n) (length es) \<and>
    (\<forall>j < min (unat n) (length es). \<exists>k cells. utringbuffer_eltptr a' j = Some k \<and> rb_slots a' = Inr cells \<and>
      rd cells (int k) = Inr (last_n (unat n) es ! j) \<and> utringbuffer_eltidx a' k = j)"
proof -
  have a: "holds_ring a (last_n (unat (rb_n a)) [])" "rb_n a = n" "plain (rb_icd a)"
    using ring_init_holds [OF assms(2,1,3,4)] assms(4) by (auto simp: last_n_def)
  obtain a' where a': "push_all es a w = Inr (a', w)" "holds_ring a' (last_n (unat n) es)"
    using push_all_ring [OF a(1,3), of es w] a(2) by auto
  have "length (last_n (unat n) es) = min (unat n) (length es)" by (simp add: last_n_def min_def)
  then show ?thesis using a' holds_ring_length(1) [OF a'(2)] eltptr_ring [OF a'(2)] by auto
qed

definition sample_ring :: "(i32, unit) UT_ringbuffer" where
  "sample_ring = fst (utringbuffer_init (\<lambda>_ _. False) 3 ut_int_icd \<lparr>brk = 0\<rparr>)"

lemma utringbuffer_keeps_last_witness:
  "\<exists>a'. push_all [1, 2, 3, 4, 5] sample_ring () = Inr (a', ()) \<and> unat (utringbuffer_len a') = 3 \<and>
    (\<exists>k cells. utringbuffer_eltptr a' 0 = Some k \<and> rb_slots a' = Inr cells \<and> rd cells (int k) = Inr 3 \<and> utringbuffer_eltidx a' k = 0)"
proof -
  obtain h' where i: "utringbuffer_init (\<lambda>_ _. False) 3 (ut_int_icd :: (i32, unit) UT_icd) \<lparr>brk = 0\<rparr> = (sample_ring, h')"
    by (metis sample_ring_def prod.collapse)
  have "rb_d sample_ring \<noteq> None" by (simp add: sample_ring_def utringbuffer_init_def malloc_def Let_def)
  moreover have "plain (ut_int_icd :: (i32, unit) UT_icd)" by (simp add: plain_def ut_int_icd_def)
  moreover have "last_n 3 [1, 2, 3, 4, 5 :: i32] ! 0 = 3" by (simp add: last_n_def)
  ultimately show ?thesis
    using utringbuffer_keeps_last [OF i, of "[1, 2, 3, 4, 5]" "()"] by force
qed

text \<open>A ring without a block, for which there was no memory or no capacity, faults at the first push.\<close>

lemma push_without_block: "plain (rb_icd a) \<Longrightarrow> rb_d a = None \<Longrightarrow> utringbuffer_push_back e a w = Inl NullDeref"
  by (simp add: utringbuffer_push_back_def rb_slots_def plain_def)

end
