(* ===== verification/Spec2Isabelle.thy ===== *)
theory Spec2Isabelle
  imports Mapper_Props Gbm_Props Gbm_Policy Gbm_Drain Pipeline Utstring_Find Utstack Utringbuffer
begin

text \<open>
  A verification library for gralloc-gbm, an Android graphics buffer allocator and mapper over GBM.

  \<^bold>\<open>The program.\<close> Three pieces of code share one C library.

  \<^item> The GBM library (\<^verbatim>\<open>common/gralloc_gbm.c\<close>, \<^verbatim>\<open>include/gralloc_gbm.h\<close>) manages graphics buffers: a
    driver over a DRM device, a hash table from file descriptors to buffers, and for each buffer an
    object of libgbm with a block of user data (lock state, mapping, metadata). Its data comes from
    \<^verbatim>\<open>include/gbm.h\<close> and the tables of \<^verbatim>\<open>include/gralloc_gbm_format.h\<close>; the hash table
    is \<^verbatim>\<open>include/uthash/uthash.h\<close>.
  \<^item> The mapper (\<^verbatim>\<open>mapper_stablec\<close>) runs in every client process. It imports, locks, queries and releases
    buffers, through one of two back ends: the GBM library, or plain DMA-BUFs for blobs.
  \<^item> The allocator (\<^verbatim>\<open>allocator\<close>) is a binder service. It makes buffers through one of two back ends of
    its own and hands duplicates of their descriptors out.

  The library comes with the other headers of uthash, which nothing else of the repository expands: linked lists,
  a stack, a string buffer with substring search, a dynamic array and a ring buffer.

  \<^bold>\<open>Conventions.\<close> \<open>Prelude\<close> fixes them. A C integer is a word of its width. An address is a natural
  number, \<open>NULL\<close> is 0. Allocation counts \<open>brk\<close> up and never reuses an address, and the predicate \<open>mem_oom\<close>
  of the platform says which requests fail. A function returns \<open>fault + result\<close>: \<open>Inl\<close> is undefined
  behaviour, an abort or a thrown exception (a null or wild pointer, a use after free, a double free, a
  failed assertion, a signed overflow, a division by zero), \<open>Inr\<close> is a return of the C function, its error
  numbers included. Output parameters are values passed in and out.

  \<^bold>\<open>Theories and code.\<close>

  \<^item> \<open>Formats\<close>: the FourCC codes, \<open>color_format_map\<close> and \<open>color_bpp_map\<close> with the lookups over them. Each is
    an interpretation of the locale \<open>table_scan\<close>, a first-match search in a table.
  \<^item> \<open>Plane_Layouts\<close>: \<^verbatim>\<open>MapperPlaneLayouts.hpp\<close>, one definition per layout, and its lookup.
  \<^item> \<open>Linked_Lists\<close>, \<open>Uthash\<close>: the uthash macros the library instantiates, on pointers: lookup, insertion with
    growth of the bucket array, deletion, iteration, count and the Jenkins hash. \<open>hash_inv h xs\<close> says that the
    table is well formed and holds the elements \<open>xs\<close> in the order they were added.
  \<^item> \<open>Buffer_Table\<close>: the five functions of \<^verbatim>\<open>gralloc_gbm.c\<close> over it, with their contract as the locale
    \<open>buffer_index\<close>, interpreted on them.
  \<^item> \<open>Gbm_World\<close>, \<open>Gralloc_Gbm\<close>: the state of the library (the record \<open>world\<close>: the table, the heap of each kind
    of block, the native handles, the static driver pointer and the state \<open>ext\<close> of the libraries it calls) and
    all its functions.
  \<^item> \<open>Gbm_Invariant\<close>, \<open>Gbm_Lifecycle\<close>, \<open>Gbm_Buffers\<close>: the invariant \<open>world_ok\<close> (each managed buffer owns one
    live object and user data and metadata blocks that no other buffer has) and the effect of every
    operation on it. \<open>Gbm_Service\<close> has the requests, the reachable worlds and the abstract machine, a list of
    descriptors with lock states, that the requests refine. \<open>Gbm_Props\<close> and \<open>Gbm_Policy\<close> hold the properties
    of the operations and of the stateless decisions, \<open>Gbm_Sample\<close> the platform the witnesses run on.
  \<^item> \<open>Gbm_Robust\<close>, \<open>Gbm_Holds\<close>, \<open>Gbm_Drain\<close>: the same without a contract, for callers that pass anything: the
    invariant is kept by every call that returns, the table read as a multiset of descriptors, the release of
    all buffers, which runs through, and what a refused allocation leaves behind.
  \<^item> \<open>Mapper_World\<close>, \<open>Mapper_Gbm\<close>, \<open>Mapper_DmaBuf\<close>, \<open>Mapper\<close>: the state of the mapper, its two back ends as
    values of the record \<open>backend\<close> (the C++ virtual functions), and \<^verbatim>\<open>Mapper.cpp\<close> over them.
  \<^item> \<open>Mapper_Inv\<close>, \<open>Mapper_Laws\<close>, \<open>Mapper_Service\<close>: the locales \<open>mapper_backend\<close> (what a back end keeps) and
    \<open>mapper_library\<close> (the calls over such back ends), and their interpretations: both back ends meet the
    first, the mapper the second. \<open>Mapper_Metadata\<close>, \<open>Mapper_Outcomes\<close> and \<open>Mapper_Props\<close> follow the metadata
    of a buffer and the two tables through a call, and state the properties.
  \<^item> \<open>Allocator_World\<close>, \<open>Allocator_Backends\<close>, \<open>Allocator\<close>: the service in the same way. \<open>Allocator_Inv\<close> follows
    the loops of the GBM back end, \<open>Allocator_Service\<close> has the locales \<open>allocator_backend\<close> and
    \<open>allocator_service\<close> with their interpretations and the reachable states, \<open>Allocator_Props\<close> the
    properties of single calls, and \<open>Allocator_Threads\<close> the calls of the binder threads as small steps, each
    at most one access of \<open>mBackend\<close> and one call of a back end, interleaved. \<open>Pipeline\<close> follows one buffer from
    the allocator through the mapper of a client.
  \<^item> \<open>Utlist\<close>: \<^verbatim>\<open>utlist.h\<close> on a state of links, one definition per macro and kind of list (singly linked,
    doubly linked, circular); \<open>Utlist_Sort\<close> its merge sort. \<open>Utlist_LL\<close>, \<open>Utlist_DL\<close> and \<open>Utlist_CDL\<close> show that each
    kind represents a sequence and what each macro does to it. \<open>Utlist_Props\<close> has the locale \<open>list_machine\<close>, runs of
    operations over a kind of list, interpreted on all three. \<open>Utstack\<close>: \<^verbatim>\<open>utstack.h\<close>.
  \<^item> \<open>Utstring\<close>: \<^verbatim>\<open>utstring.h\<close>. \<open>Utstring_Search\<close> treats its failure tables and search loops (Knuth, Morris and
    Pratt, from either end), \<open>Utstring_Find\<close> compares the searches with a naive scan.
  \<^item> \<open>Utarray\<close>, \<open>Utarray_Props\<close>: \<^verbatim>\<open>utarray.h\<close>, with the constructor, copy and destructor of an element as
    parameters; \<open>Utringbuffer\<close>: \<^verbatim>\<open>utringbuffer.h\<close> over it.

  \<^bold>\<open>What is shown.\<close>

  \<^item> Memory: every reachable world obeys the invariant. A request that keeps its contract returns, but for
    exhausted memory and for one read: the log line of a successful import reads the import descriptor it has just
    freed. A release frees what its buffer owns, but for one metadata block, which leaks.
  \<^item> Function: the library implements the abstract machine of buffers and locks. Each operation has the
    outcomes its theorem lists, errors included. The hash table is a finite map as long as the descriptors
    differ; with equal ones a lookup finds one of the buffers.
  \<^item> The mapper keeps its invariant under every sequence of calls with every argument. Imports, releases and
    the metadata calls have the stated outcomes, and the metadata that can be read back is read back. The
    DMA-BUF back end erases a table entry by a key read from a freed block; what the entries of the table are
    then worth is stated for any value read.
  \<^item> The allocator's table of buffers is empty between two calls and between two steps of its threads; what a
    failed call leaks is in no table. An allocation that succeeds delivers what was asked for, however the threads
    interleave.
  \<^item> The container headers: the lists of each kind implement sequences, their sorts are the stable sort, a safe
    walk may free what it visits; the substring searches find what a naive scan finds; the array and the ring buffer
    implement a sequence and its last elements, up to the sizes at which their counters wrap.
  \<^item> Walks and drains end: every loop over the table ends within a round per element and one more, and
    the release of all buffers empties the table.
  \<^item> Where the code departs from its purpose, a theorem states what it does instead: the upper half of the
    usage is lost, a CPU lock excludes every other lock, the blend mode is not read back, unsupported
    requests are served by the back end used last, and others.

  \<^bold>\<open>Bounds.\<close> A loop that follows pointers of the hash table takes a bound of \<open>brk + 1\<close> rounds and faults
  with \<open>LoopBound\<close> beyond it. In a well-formed table each list is a list of distinct allocated addresses,
  all of them between 1 and \<open>brk\<close>, so the bound is never met: \<open>Buffer_Table\<close> shows that the number of elements
  bounds the rounds. The list macros take their fuel as an argument: more than twice the length of the list is
  enough for each, the sort included. \<open>utarray_reserve\<close> doubles a 32-bit capacity, so 32 rounds are enough for any
  request up to \<open>2 ^ 31\<close> slots (beyond, it never returns, which is shown too). \<open>utstring_printf\<close> needs two rounds, and
  one whose output cannot be encoded runs out of memory within 24. The search loops are bounded by the lengths
  of string and needle. The other loops recurse on lists and counters.

  \<^bold>\<open>What is not in the repository\<close> is a parameter: libgbm, the DRM device and libcutils (\<open>gbm_api\<close>), the
  values of Android's headers (\<open>hal_formats\<close>, \<open>gralloc_usage\<close>, \<open>mapper_errors\<close>), the build macros, the outcome of
  reads from freed memory, and for mapper and allocator what their environments call (\<open>mapper_env\<close>,
  \<open>alloc_env\<close>: DMA-BUF heaps, \<open>mmap\<close>, the metadata encoder, the duplication of handles, the decoder of
  descriptors). The laws on them are \<open>gbm_laws\<close> (a new object is new, user data stays with its object, destroying
  an object runs its callback once), \<open>map_keeps_stride\<close> and \<open>no_huge_malloc\<close> (a request of 64 GiB fails),
  gathered in \<open>platform_ok\<close>. Any smaller request may fail at any time: \<open>starved\<close> says that one will, and the
  theorems list what the code then does. The two clients have \<open>env_ok\<close> and \<open>aenv_ok\<close> (calls of other
  libraries leave the objects of libgbm alone). What a read of freed memory finds, a value or a trap, is a parameter
  with no law at all. \<open>Gbm_Sample\<close>, \<open>Mapper_Props\<close> and \<open>Allocator_Props\<close> instantiate them.

  \<^bold>\<open>Not modelled.\<close>

  \<^item> The macros of \<^verbatim>\<open>uthash.h\<close> that nothing of the program expands (sorting, selection, replacement, ordered
    insertion, Bloom filter, consistency check, other hash functions), and the variants of the \<^verbatim>\<open>utlist.h\<close> macros for
    compilers without \<^verbatim>\<open>typeof\<close>. The arguments of a macro are values: calls whose arguments are one variable used
    twice are outside the model.
  \<^item> Logging, \<^verbatim>\<open>Main.cpp\<close> but for the pool of threads it starts, \<open>createBinder\<close>, and the weak pointers that
    cache the back-end objects, which have no state. A call made only for its log line appears where it can fault
    or takes a resource.
  \<^item> Concurrency inside the GBM library and the mapper, which have no locks: their calls run one after the
    other. Threads of the allocator interleave at every access of \<open>mBackend\<close> and every call of a back end; two calls
    of back ends that overlap in time are a data race on the library's memory and are not modelled.
  \<^item> The file descriptors as resources: a descriptor is a number, and the leak of one is not counted.
\<close>

end
